(* ===== verification/Prelude.thy ===== *)
theory Prelude
  imports Main "HOL-Library.Word" "HOL-Library.Char_ord" "HOL-Library.List_Lexorder"
begin

text \<open>
  Shared vocabulary of the development. Machine words and byte slices (\<open>&[u8]\<close> is \<open>u8 list\<close>),
  Rust's \<open>&str\<close> as the list of its UTF-8 bytes seen as characters (\<open>string\<close>), the
  \<open>Result\<close> type as a sum with its bind, and the handful of \<open>str\<close> and formatting operations of
  the Rust standard library that the modelled code calls, each with the facts the components
  share. The collections \<open>str_simps\<close> and \<open>res_simps\<close> carry the automation.
\<close>

named_theorems str_simps \<open>equations that evaluate the string operations\<close>
named_theorems res_simps \<open>equations and inversions for the result monad\<close>

type_synonym u8 = "8 word"
type_synonym u16 = "16 word"
type_synonym u32 = "32 word"
type_synonym u64 = "64 word"

section \<open>Results\<close>

definition res_bind :: "'e + 'a \<Rightarrow> ('a \<Rightarrow> 'e + 'b) \<Rightarrow> 'e + 'b" where
  "res_bind r f = (case r of Inl e \<Rightarrow> Inl e | Inr x \<Rightarrow> f x)"

definition map_err :: "('e \<Rightarrow> 'f) \<Rightarrow> 'e + 'a \<Rightarrow> 'f + 'a" where
  "map_err f r = (case r of Inl e \<Rightarrow> Inl (f e) | Inr x \<Rightarrow> Inr x)"

definition ok_or :: "'e \<Rightarrow> 'a option \<Rightarrow> 'e + 'a" where
  "ok_or e x = (case x of None \<Rightarrow> Inl e | Some v \<Rightarrow> Inr v)"

lemma res_bind_simps [simp, res_simps]:
  "res_bind (Inl e) f = Inl e" "res_bind (Inr x) f = f x"
  by (simp_all add: res_bind_def)

lemma map_err_simps [simp, res_simps]:
  "map_err g (Inl e) = Inl (g e)" "map_err g (Inr x) = Inr x"
  by (simp_all add: map_err_def)

lemma ok_or_simps [simp, res_simps]: "ok_or e None = Inl e" "ok_or e (Some v) = Inr v"
  by (simp_all add: ok_or_def)

lemma res_bind_Inr_iff [res_simps]:
  "res_bind r f = Inr y \<longleftrightarrow> (\<exists>x. r = Inr x \<and> f x = Inr y)"
  by (cases r) simp_all

lemma res_bind_Inl_iff [res_simps]:
  "res_bind r f = Inl e \<longleftrightarrow> r = Inl e \<or> (\<exists>x. r = Inr x \<and> f x = Inl e)"
  by (cases r) simp_all

lemma map_err_Inr_iff [res_simps]: "map_err g r = Inr y \<longleftrightarrow> r = Inr y"
  by (cases r) simp_all

lemma ok_or_Inr_iff [res_simps]: "ok_or e x = Inr v \<longleftrightarrow> x = Some v"
  by (cases x) simp_all

lemma res_bind_cong [fundef_cong]:
  "r = r' \<Longrightarrow> (\<And>x. r' = Inr x \<Longrightarrow> f x = g x) \<Longrightarrow> res_bind r f = res_bind r' g"
  by (cases r') simp_all

section \<open>Bytes and text\<close>

definition byte_of_char :: "char \<Rightarrow> u8" where
  "byte_of_char c = of_nat (of_char c)"

definition char_of_byte :: "u8 \<Rightarrow> char" where
  "char_of_byte b = char_of (unat b)"

definition as_bytes :: "string \<Rightarrow> u8 list" where
  "as_bytes s = map byte_of_char s"

definition str_of_bytes :: "u8 list \<Rightarrow> string" where
  "str_of_bytes bs = map char_of_byte bs"

lemma unat_byte_of_char [simp]: "unat (byte_of_char c) = of_char c"
proof -
  have "(of_char c :: nat) < 256" by simp
  then show ?thesis
    by (simp add: byte_of_char_def unat_of_nat)
qed

lemma char_of_byte_of_char [simp]: "char_of_byte (byte_of_char c) = c"
  by (simp add: char_of_byte_def)

lemma byte_of_char_of_byte [simp]: "byte_of_char (char_of_byte b) = b"
proof -
  have "unat b < 2 ^ LENGTH(8)" by (rule unsigned_less)
  then have "unat b < 256" by simp
  then show ?thesis
    by (simp add: byte_of_char_def char_of_byte_def)
qed

lemma as_bytes_simps [simp]:
  "as_bytes [] = []" "as_bytes (c # s) = byte_of_char c # as_bytes s"
  "as_bytes (s @ t) = as_bytes s @ as_bytes t" "length (as_bytes s) = length s"
  by (simp_all add: as_bytes_def)

lemma str_of_as_bytes [simp]: "str_of_bytes (as_bytes s) = s"
  by (induction s) (simp_all add: str_of_bytes_def)

lemma as_bytes_str_of [simp]: "as_bytes (str_of_bytes bs) = bs"
  by (induction bs) (simp_all add: str_of_bytes_def)

lemma length_str_of_bytes [simp]: "length (str_of_bytes bs) = length bs"
  by (simp add: str_of_bytes_def)


section \<open>Operations of str and String\<close>

fun strip_prefix :: "string \<Rightarrow> string \<Rightarrow> string option" where
  "strip_prefix [] s = Some s"
| "strip_prefix (p # ps) [] = None"
| "strip_prefix (p # ps) (c # s) = (if p = c then strip_prefix ps s else None)"

definition starts_with :: "string \<Rightarrow> string \<Rightarrow> bool" where
  "starts_with p s = (strip_prefix p s \<noteq> None)"

definition ends_with :: "string \<Rightarrow> string \<Rightarrow> bool" where
  "ends_with p s = starts_with (rev p) (rev s)"

fun contains_str :: "string \<Rightarrow> string \<Rightarrow> bool" where
  "contains_str p [] = (p = [])"
| "contains_str p (c # s) = (starts_with p (c # s) \<or> contains_str p s)"

fun split_char :: "char \<Rightarrow> string \<Rightarrow> string list" where
  "split_char d [] = [[]]"
| "split_char d (c # s) =
     (if c = d then [] # split_char d s
      else (case split_char d s of [] \<Rightarrow> [[c]] | p # ps \<Rightarrow> (c # p) # ps))"

fun split_once :: "char \<Rightarrow> string \<Rightarrow> (string \<times> string) option" where
  "split_once d [] = None"
| "split_once d (c # s) =
     (if c = d then Some ([], s) else map_option (\<lambda>(a, b). (c # a, b)) (split_once d s))"

fun splitn :: "nat \<Rightarrow> char \<Rightarrow> string \<Rightarrow> string list" where
  "splitn 0 d s = []"
| "splitn (Suc 0) d s = [s]"
| "splitn (Suc (Suc n)) d s =
     (case split_once d s of None \<Rightarrow> [s] | Some (a, b) \<Rightarrow> a # splitn (Suc n) d b)"

definition trim_end_char :: "char \<Rightarrow> string \<Rightarrow> string" where
  "trim_end_char d s = rev (dropWhile (\<lambda>c. c = d) (rev s))"

abbreviation newline :: char where "newline \<equiv> CHR 0x0A"

lemma strip_prefix_iff: "strip_prefix p s = Some r \<longleftrightarrow> s = p @ r"
  by (induction p s rule: strip_prefix.induct) auto

lemma strip_prefix_append [simp]: "strip_prefix p (p @ r) = Some r"
  by (simp add: strip_prefix_iff)

lemma starts_with_iff: "starts_with p s \<longleftrightarrow> (\<exists>r. s = p @ r)"
  by (auto simp: starts_with_def strip_prefix_iff)

lemma ends_with_iff: "ends_with p s \<longleftrightarrow> (\<exists>r. s = r @ p)"
proof -
  have "ends_with p s \<longleftrightarrow> (\<exists>r. rev s = rev p @ r)"
    by (simp add: ends_with_def starts_with_iff)
  also have "\<dots> \<longleftrightarrow> (\<exists>r. s = r @ p)"
    by (metis rev_append rev_rev_ident)
  finally show ?thesis .
qed

lemma contains_str_iff: "contains_str p s \<longleftrightarrow> (\<exists>a b. s = a @ p @ b)"
proof (induction s)
  case Nil
  show ?case by auto
next
  case (Cons c s)
  have "(\<exists>a b. c # s = a @ p @ b) \<longleftrightarrow> (\<exists>b. c # s = p @ b) \<or> (\<exists>a b. s = a @ p @ b)"
    by (metis append_Cons append_Nil list.inject neq_Nil_conv)
  with Cons show ?case by (simp add: starts_with_iff)
qed

lemma split_char_not_Nil [simp]: "split_char d s \<noteq> []"
  by (induction s) (auto split: list.splits)

lemma split_once_Some_iff: "split_once d s = Some (a, b) \<longleftrightarrow> s = a @ d # b \<and> d \<notin> set a"
  by (induction s arbitrary: a b) (auto simp: Cons_eq_append_conv)

lemma split_once_None_iff: "split_once d s = None \<longleftrightarrow> d \<notin> set s"
  by (induction s) auto

lemma split_once_append [simp]: "d \<notin> set a \<Longrightarrow> split_once d (a @ d # b) = Some (a, b)"
  by (simp add: split_once_Some_iff)

lemma split_once_notin [simp]: "d \<notin> set s \<Longrightarrow> split_once d s = None"
  by (simp add: split_once_None_iff)

lemma split_char_notin [simp]: "d \<notin> set s \<Longrightarrow> split_char d s = [s]"
  by (induction s) auto

lemma split_char_append [simp]: "d \<notin> set a \<Longrightarrow> split_char d (a @ d # b) = a # split_char d b"
  by (induction a) auto

lemma split_char_parts: "p \<in> set (split_char d s) \<Longrightarrow> d \<notin> set p"
  by (induction s arbitrary: p) (auto split: list.splits if_splits)

lemma splitn_3:
  "splitn 3 d s =
     (case split_once d s of None \<Rightarrow> [s]
      | Some (a, r) \<Rightarrow> (case split_once d r of None \<Rightarrow> [a, r] | Some (b, c) \<Rightarrow> [a, b, c]))"
  by (simp add: numeral_3_eq_3 split: option.splits prod.splits)

lemma trim_end_char_append [simp]: "trim_end_char d (s @ [d]) = trim_end_char d s"
  by (simp add: trim_end_char_def)

lemma trim_end_char_id: "s = [] \<or> last s \<noteq> d \<Longrightarrow> trim_end_char d s = s"
  by (cases s rule: rev_cases) (auto simp: trim_end_char_def)

lemma set_trim_end_char: "set (trim_end_char d s) \<subseteq> set s"
  unfolding trim_end_char_def by (metis set_dropWhileD set_rev subsetI)

section \<open>UTF-8 validation (core::str::from_utf8)\<close>

definition utf8_cont :: "u8 \<Rightarrow> bool" where
  "utf8_cont b = (0x80 \<le> b \<and> b \<le> 0xBF)"

fun utf8_valid :: "u8 list \<Rightarrow> bool" where
  "utf8_valid [] = True"
| "utf8_valid (b # bs) =
     (if b < 0x80 then utf8_valid bs
      else if 0xC2 \<le> b \<and> b \<le> 0xDF then
        (case bs of c1 # r \<Rightarrow> utf8_cont c1 \<and> utf8_valid r | _ \<Rightarrow> False)
      else if 0xE0 \<le> b \<and> b \<le> 0xEF then
        (case bs of
           c1 # c2 # r \<Rightarrow>
             (if b = 0xE0 then 0xA0 \<le> c1 \<and> c1 \<le> 0xBF
              else if b = 0xED then 0x80 \<le> c1 \<and> c1 \<le> 0x9F else utf8_cont c1)
             \<and> utf8_cont c2 \<and> utf8_valid r
         | _ \<Rightarrow> False)
      else if 0xF0 \<le> b \<and> b \<le> 0xF4 then
        (case bs of
           c1 # c2 # c3 # r \<Rightarrow>
             (if b = 0xF0 then 0x90 \<le> c1 \<and> c1 \<le> 0xBF
              else if b = 0xF4 then 0x80 \<le> c1 \<and> c1 \<le> 0x8F else utf8_cont c1)
             \<and> utf8_cont c2 \<and> utf8_cont c3 \<and> utf8_valid r
         | _ \<Rightarrow> False)
      else False)"

definition from_utf8 :: "u8 list \<Rightarrow> string option" where
  "from_utf8 bs = (if utf8_valid bs then Some (str_of_bytes bs) else None)"

definition ascii :: "string \<Rightarrow> bool" where
  "ascii s = (\<forall>c\<in>set s. (of_char c :: nat) < 128)"

lemma ascii_simps [simp]:
  "ascii []" "ascii (c # s) = ((of_char c :: nat) < 128 \<and> ascii s)"
  "ascii (s @ t) = (ascii s \<and> ascii t)"
  by (auto simp: ascii_def)

lemma byte_of_char_less: "byte_of_char c < 0x80 \<longleftrightarrow> (of_char c :: nat) < 128"
  by (simp add: word_less_nat_alt)

lemma utf8_valid_ascii_append: "ascii s \<Longrightarrow> utf8_valid (as_bytes s @ bs) = utf8_valid bs"
  by (induction s) (simp_all add: byte_of_char_less)

lemma utf8_valid_ascii: "ascii s \<Longrightarrow> utf8_valid (as_bytes s)"
  using utf8_valid_ascii_append [of s "[]"] by simp

lemma from_utf8_ascii [simp]: "ascii s \<Longrightarrow> from_utf8 (as_bytes s) = Some s"
  by (simp add: from_utf8_def utf8_valid_ascii)

lemma from_utf8_Some: "from_utf8 bs = Some s \<Longrightarrow> as_bytes s = bs"
  by (auto simp: from_utf8_def split: if_splits)

section \<open>Hexadecimal\<close>

definition hex_digit :: "nat \<Rightarrow> char" where
  "hex_digit n = (if n < 10 then char_of (48 + n) else char_of (87 + n))"

definition hex_val :: "char \<Rightarrow> nat option" where
  "hex_val c =
     (let n = of_char c in
      if 48 \<le> n \<and> n \<le> 57 then Some (n - 48)
      else if 97 \<le> n \<and> n \<le> 102 then Some (n - 87)
      else if 65 \<le> n \<and> n \<le> 70 then Some (n - 55)
      else None)"

lemma of_char_hex_digit: "n < 16 \<Longrightarrow> (of_char (hex_digit n) :: nat) = (if n < 10 then 48 + n else 87 + n)"
  by (simp add: hex_digit_def)

lemma hex_val_hex_digit [simp]: "n < 16 \<Longrightarrow> hex_val (hex_digit n) = Some n"
  by (auto simp: hex_val_def Let_def of_char_hex_digit)

lemma hex_val_less: "hex_val c = Some n \<Longrightarrow> n < 16"
  by (auto simp: hex_val_def Let_def split: if_splits)

lemma ascii_hex_digit [simp]: "n < 16 \<Longrightarrow> (of_char (hex_digit n) :: nat) < 128"
  by (simp add: of_char_hex_digit)

definition hex_byte :: "u8 \<Rightarrow> string" where
  "hex_byte b = [hex_digit (unat b div 16), hex_digit (unat b mod 16)]"

definition hex_bytes :: "u8 list \<Rightarrow> string" where
  "hex_bytes bs = concat (map hex_byte bs)"

lemma length_hex_bytes [simp]: "length (hex_bytes bs) = 2 * length bs"
  by (induction bs) (simp_all add: hex_bytes_def hex_byte_def)

section \<open>Decimal formatting\<close>

fun fmt_dec :: "nat \<Rightarrow> string" where
  "fmt_dec n = (if n < 10 then [hex_digit n] else fmt_dec (n div 10) @ [hex_digit (n mod 10)])"

declare fmt_dec.simps [simp del]

lemma fmt_dec_chars: "c \<in> set (fmt_dec n) \<Longrightarrow> 48 \<le> (of_char c :: nat) \<and> (of_char c :: nat) \<le> 57"
proof (induction n rule: fmt_dec.induct)
  case (1 n)
  then show ?case
    by (subst (asm) (2) fmt_dec.simps) (auto simp: of_char_hex_digit split: if_splits)
qed

lemma ascii_fmt_dec [simp]: "ascii (fmt_dec n)"
  using fmt_dec_chars by (fastforce simp: ascii_def)

definition fmt_int :: "int \<Rightarrow> string" where
  "fmt_int i = (if i < 0 then ''-'' @ fmt_dec (nat (- i)) else fmt_dec (nat i))"

section \<open>Lines and white space\<close>

text \<open>\<open>str::lines\<close>: the pieces between line feeds, each but an unterminated last one without a carriage
  return at its end, and no empty last piece.\<close>

definition strip_cr :: "string \<Rightarrow> string" where
  "strip_cr s = (if s \<noteq> [] \<and> last s = CHR 0x0D then butlast s else s)"

fun lines_of :: "string list \<Rightarrow> string list" where
  "lines_of [] = []"
| "lines_of [p] = (if p = [] then [] else [p])"
| "lines_of (p # q # ps) = strip_cr p # lines_of (q # ps)"

definition str_lines :: "string \<Rightarrow> string list" where
  "str_lines s = lines_of (split_char newline s)"

text \<open>\<open>str::trim\<close>. The bytes of one white-space character (Unicode property White_Space, in UTF-8) at
  the front of a string, and at the front of a reversed string.\<close>

fun ws_len :: "nat list \<Rightarrow> nat" where
  "ws_len (a # b # c # _) =
     (if (9 \<le> a \<and> a \<le> 13) \<or> a = 32 then 1
      else if a = 0xC2 \<and> (b = 0x85 \<or> b = 0xA0) then 2
      else if a = 0xE1 \<and> b = 0x9A \<and> c = 0x80
        \<or> a = 0xE2 \<and> b = 0x80 \<and> (0x80 \<le> c \<and> c \<le> 0x8A \<or> c = 0xA8 \<or> c = 0xA9 \<or> c = 0xAF)
        \<or> a = 0xE2 \<and> b = 0x81 \<and> c = 0x9F \<or> a = 0xE3 \<and> b = 0x80 \<and> c = 0x80 then 3
      else 0)"
| "ws_len [a, b] =
     (if (9 \<le> a \<and> a \<le> 13) \<or> a = 32 then 1
      else if a = 0xC2 \<and> (b = 0x85 \<or> b = 0xA0) then 2 else 0)"
| "ws_len [a] = (if (9 \<le> a \<and> a \<le> 13) \<or> a = 32 then 1 else 0)"
| "ws_len [] = 0"

definition ws_prefix :: "string \<Rightarrow> nat" where
  "ws_prefix s = ws_len (map of_char (take 3 s))"

definition ws_suffix :: "string \<Rightarrow> nat" where
  "ws_suffix s =
     (let n = length s; at = (\<lambda>k. map of_char (drop (n - k) s)) in
      if n \<ge> 1 \<and> ws_len (at 1) = 1 then 1
      else if n \<ge> 2 \<and> ws_len (at 2) = 2 then 2
      else if n \<ge> 3 \<and> ws_len (at 3) = 3 then 3 else 0)"

lemma ws_prefix_Nil [simp]: "ws_prefix [] = 0" "ws_suffix [] = 0"
  by (simp_all add: ws_prefix_def ws_suffix_def)

function trim_start :: "string \<Rightarrow> string" where
  "trim_start s = (if ws_prefix s = 0 then s else trim_start (drop (ws_prefix s) s))"
  by pat_completeness auto
termination
proof (relation "measure length")
  fix s :: string
  assume "ws_prefix s \<noteq> 0"
  then have "s \<noteq> []" by auto
  with \<open>ws_prefix s \<noteq> 0\<close> show "(drop (ws_prefix s) s, s) \<in> measure length" by simp
qed simp

function trim_end :: "string \<Rightarrow> string" where
  "trim_end s = (if ws_suffix s = 0 then s else trim_end (take (length s - ws_suffix s) s))"
  by pat_completeness auto
termination
proof (relation "measure length")
  fix s :: string
  assume "ws_suffix s \<noteq> 0"
  then have "s \<noteq> []" by auto
  with \<open>ws_suffix s \<noteq> 0\<close> show "(take (length s - ws_suffix s) s, s) \<in> measure length" by simp
qed simp

declare trim_start.simps [simp del] trim_end.simps [simp del]

definition trim :: "string \<Rightarrow> string" where
  "trim s = trim_end (trim_start s)"

text \<open>Graphic ASCII text is its own trimming, and a line feed at its end goes.\<close>

lemma trim_start_graphic:
  assumes "s = [] \<or> 33 \<le> (of_char (hd s) :: nat) \<and> (of_char (hd s) :: nat) < 127"
  shows "trim_start s = s"
proof -
  have "ws_prefix s = 0"
  proof (cases s)
    case (Cons c s')
    with assms show ?thesis
      by (cases s'; cases "tl s'") (auto simp: ws_prefix_def)
  qed simp
  then show ?thesis by (simp add: trim_start.simps)
qed

lemma trim_end_graphic:
  assumes "33 \<le> (of_char c :: nat)" "(of_char c :: nat) < 127"
  shows "trim_end (s @ [c]) = s @ [c]"
proof -
  have w: "ws_len [x, of_char c] \<noteq> 2" "ws_len [x, y, of_char c] \<noteq> 3" "ws_len [of_char c] \<noteq> 1" for x y
    using assms by auto
  have "ws_suffix (s @ [c]) = 0"
  proof (cases s rule: rev_cases)
    case Nil
    with w(3) show ?thesis by (simp add: ws_suffix_def Let_def)
  next
    case (snoc s' d)
    with w show ?thesis by (cases s' rule: rev_cases) (auto simp: ws_suffix_def Let_def)
  qed
  then show ?thesis by (simp add: trim_end.simps)
qed

lemma trim_end_newline: "trim_end (s @ [newline]) = trim_end s"
  by (subst trim_end.simps) (simp add: ws_suffix_def Let_def)

lemma trim_graphic:
  assumes "s \<noteq> []" "33 \<le> (of_char (hd s) :: nat)" "(of_char (hd s) :: nat) < 127"
    and "33 \<le> (of_char (last s) :: nat)" "(of_char (last s) :: nat) < 127"
  shows "trim s = s" "trim (s @ [newline]) = s"
proof -
  have "trim_end s = s" using trim_end_graphic [of "last s" "butlast s"] assms by simp
  moreover have "trim_start s = s" "trim_start (s @ [newline]) = s @ [newline]"
    using assms by (simp_all add: trim_start_graphic hd_append)
  ultimately show "trim s = s" "trim (s @ [newline]) = s"
    by (simp_all add: trim_def trim_end_newline)
qed

end
