(* ===== verification/PktLine.thy ===== *)
theory PktLine
  imports Prelude
begin

text \<open>
  The pkt-line framing of \<open>src/pkt_line.rs\<close>: the four frame kinds, the reader \<open>read\<close>, the
  iterator \<open>PktIter\<close> and the writers. Bytes are \<open>u8 list\<close>; \<open>u16::from_str_radix\<close> is
  modelled with its leading-sign rule and its overflow check, since the reader relies on it to
  reject a bad length prefix.
\<close>

section \<open>Definitions\<close>

definition PKT_LINE_MAX_PAYLOAD :: nat where
  "PKT_LINE_MAX_PAYLOAD = 65516"

definition FLUSH :: "u8 list" where
  "FLUSH = as_bytes ''0000''"

definition DELIM :: "u8 list" where
  "DELIM = as_bytes ''0001''"

datatype pkt_line = Flush | Delim | RespEnd | Data "u8 list"

datatype pkt_error = Truncated | BadLength | ShortPayload | Oversized

text \<open>The digit loop of \<open>from_str_radix(_, 16)\<close> on \<open>u16\<close>: \<open>None\<close> on a non-digit or on
  overflow of the accumulator.\<close>

fun radix16_digits :: "nat \<Rightarrow> string \<Rightarrow> nat option" where
  "radix16_digits acc [] = Some acc"
| "radix16_digits acc (c # s) =
     (case hex_val c of
        None \<Rightarrow> None
      | Some d \<Rightarrow> if acc * 16 + d < 65536 then radix16_digits (acc * 16 + d) s else None)"

definition from_str_radix16 :: "string \<Rightarrow> nat option" where
  "from_str_radix16 s =
     (case s of
        [] \<Rightarrow> None
      | c # r \<Rightarrow>
          if (c = CHR ''+'' \<or> c = CHR ''-'') \<and> r = [] then None
          else if c = CHR ''+'' then radix16_digits 0 r
          else radix16_digits 0 s)"

text \<open>\<open>pkt_line::read\<close>. The result pairs the frame with the rest of the buffer.\<close>

definition pkt_read :: "u8 list \<Rightarrow> pkt_error + pkt_line \<times> u8 list" where
  "pkt_read buf =
     (if length buf < 4 then Inl Truncated
      else case from_utf8 (take 4 buf) of
        None \<Rightarrow> Inl BadLength
      | Some len_str \<Rightarrow>
          (case from_str_radix16 len_str of
             None \<Rightarrow> Inl BadLength
           | Some len \<Rightarrow>
               if len = 0 then Inr (Flush, drop 4 buf)
               else if len = 1 then Inr (Delim, drop 4 buf)
               else if len = 2 then Inr (RespEnd, drop 4 buf)
               else if len = 3 then Inl BadLength
               else if len > PKT_LINE_MAX_PAYLOAD + 4 then Inl Oversized
               else if length buf < len then Inl ShortPayload
               else Inr (Data (drop 4 (take len buf)), drop len buf)))"

text \<open>\<open>PktIter\<close>: the state of the iterator and its \<open>next\<close>.\<close>

record pkt_iter =
  pi_buf :: "u8 list"
  pi_done :: bool

definition pkt_iter_new :: "u8 list \<Rightarrow> pkt_iter" where
  "pkt_iter_new buf = \<lparr>pi_buf = buf, pi_done = False\<rparr>"

definition pkt_next :: "pkt_iter \<Rightarrow> (pkt_error + pkt_line) option \<times> pkt_iter" where
  "pkt_next it =
     (if pi_done it \<or> pi_buf it = [] then (None, it)
      else case pkt_read (pi_buf it) of
        Inr (line, tail) \<Rightarrow> (Some (Inr line), it\<lparr>pi_buf := tail\<rparr>)
      | Inl e \<Rightarrow> (Some (Inl e), it\<lparr>pi_done := True\<rparr>))"

text \<open>The lower-case hexadecimal rendering of \<open>format!("{len:04x}")\<close>.\<close>

fun lower_hex :: "nat \<Rightarrow> string" where
  "lower_hex n = (if n < 16 then [hex_digit n] else lower_hex (n div 16) @ [hex_digit (n mod 16)])"

declare lower_hex.simps [simp del]

definition fmt_04x :: "nat \<Rightarrow> string" where
  "fmt_04x n = replicate (4 - length (lower_hex n)) CHR ''0'' @ lower_hex n"

text \<open>\<open>write_data\<close> in a release build: the payload is cut at the cap (a debug build asserts that
  this does not happen).\<close>

definition write_data :: "u8 list \<Rightarrow> u8 list \<Rightarrow> u8 list" where
  "write_data out payload =
     (let payload = (if length payload > PKT_LINE_MAX_PAYLOAD
                     then take PKT_LINE_MAX_PAYLOAD payload else payload);
          len = length payload + 4
      in out @ as_bytes (fmt_04x len) @ payload)"

definition write_flush :: "u8 list \<Rightarrow> u8 list" where
  "write_flush out = out @ FLUSH"

definition write_delim :: "u8 list \<Rightarrow> u8 list" where
  "write_delim out = out @ DELIM"

section \<open>The length prefix\<close>

lemma fmt_04x_eq:
  assumes "n < 65536"
  shows "fmt_04x n =
    [hex_digit (n div 4096), hex_digit (n div 256 mod 16), hex_digit (n div 16 mod 16),
     hex_digit (n mod 16)]"
proof -
  have zero: "hex_digit 0 = CHR ''0''" by code_simp
  have q: "n div 16 div 16 = n div 256" "n div 256 div 16 = n div 4096"
    by (simp_all add: div_mult2_eq [symmetric])
  have one: "lower_hex m = [hex_digit m]" if "m < 16" for m
    using that by (subst lower_hex.simps) simp
  have two: "lower_hex m = lower_hex (m div 16) @ [hex_digit (m mod 16)]" if "16 \<le> m" for m
    using that by (subst lower_hex.simps) simp
  consider "n < 16" | "16 \<le> n" "n < 256" | "256 \<le> n" "n < 4096" | "4096 \<le> n" by linarith
  then show ?thesis
  proof cases
    case 1
    then show ?thesis by (simp add: fmt_04x_def one zero numeral_3_eq_3)
  next
    case 2
    then have "n div 16 < 16" by simp
    with 2 show ?thesis by (simp add: fmt_04x_def two one zero numeral_2_eq_2)
  next
    case 3
    then have "16 \<le> n div 16" "n div 256 < 16" by simp_all
    with 3 show ?thesis by (simp add: fmt_04x_def two one zero q)
  next
    case 4
    then have "16 \<le> n div 16" "16 \<le> n div 256" "n div 4096 < 16" using assms by simp_all
    with 4 show ?thesis by (simp add: fmt_04x_def two one zero q)
  qed
qed

lemma radix16_Cons_hex:
  "d < 16 \<Longrightarrow> radix16_digits acc (hex_digit d # s) =
     (if acc * 16 + d < 65536 then radix16_digits (acc * 16 + d) s else None)"
  by simp

lemma hex_digit_not_sign: "d < 16 \<Longrightarrow> hex_digit d \<noteq> CHR ''+''"
  using hex_val_hex_digit [of d] by (auto simp: hex_val_def Let_def simp del: hex_val_hex_digit)

lemma hex4_value:
  fixes n :: nat
  shows "n div 4096 * 16 + n div 256 mod 16 = n div 256"
    and "n div 256 * 16 + n div 16 mod 16 = n div 16"
    and "n div 16 * 16 + n mod 16 = n"
proof -
  have q: "n div 4096 = n div 256 div 16" "n div 256 = n div 16 div 16"
    by (simp_all add: div_mult2_eq [symmetric])
  show "n div 4096 * 16 + n div 256 mod 16 = n div 256" by (simp only: q(1) div_mult_mod_eq)
  show "n div 256 * 16 + n div 16 mod 16 = n div 16" by (simp only: q(2) div_mult_mod_eq)
  show "n div 16 * 16 + n mod 16 = n" by (rule div_mult_mod_eq)
qed

lemma from_str_radix16_fmt:
  assumes "n < 65536"
  shows "from_str_radix16 (fmt_04x n) = Some n"
proof -
  have small: "n div 4096 < 16" "n div 4096 < 65536" "n div 256 < 65536" "n div 16 < 65536"
    using assms by simp_all
  have "radix16_digits 0 (fmt_04x n) = Some n"
    using assms small
    by (simp only: fmt_04x_eq radix16_Cons_hex mod_less_divisor hex4_value radix16_digits.simps(1)
        if_True add_0 mult_0)
  with assms small show ?thesis
    by (simp only: from_str_radix16_def fmt_04x_eq list.case hex_digit_not_sign) simp
qed

lemma ascii_fmt: "n < 65536 \<Longrightarrow> ascii (fmt_04x n)"
  by (simp add: fmt_04x_eq)

lemma length_fmt: "n < 65536 \<Longrightarrow> length (fmt_04x n) = 4"
  by (simp add: fmt_04x_eq)

section \<open>Reading and writing frames\<close>

text \<open>The bytes a frame stands for: what \<open>write_data\<close>, \<open>write_flush\<close> and \<open>write_delim\<close> append.\<close>

fun frame_bytes :: "pkt_line \<Rightarrow> u8 list" where
  "frame_bytes Flush = write_flush []"
| "frame_bytes Delim = write_delim []"
| "frame_bytes RespEnd = as_bytes ''0002''"
| "frame_bytes (Data p) = write_data [] p"

fun frame_ok :: "pkt_line \<Rightarrow> bool" where
  "frame_ok (Data p) = (length p \<le> PKT_LINE_MAX_PAYLOAD)"
| "frame_ok _ = True"

lemma write_append: "write_data out p = out @ write_data [] p" "write_flush out = out @ write_flush []"
  by (simp_all add: write_data_def Let_def write_flush_def)

lemma pkt_read_prefix:
  assumes "length h = 4" "ascii h" "from_str_radix16 h = Some n"
  shows "pkt_read (as_bytes h @ r) =
    (if n = 0 then Inr (Flush, r) else if n = 1 then Inr (Delim, r)
     else if n = 2 then Inr (RespEnd, r) else if n = 3 then Inl BadLength
     else if n > PKT_LINE_MAX_PAYLOAD + 4 then Inl Oversized
     else if length r + 4 < n then Inl ShortPayload
     else Inr (Data (take (n - 4) r), drop (n - 4) r))"
  using assms by (auto simp: pkt_read_def drop_take)

lemma pkt_read_write_data_gen:
  "pkt_read (write_data [] p @ r) = Inr (Data (take PKT_LINE_MAX_PAYLOAD p), r)"
proof -
  define q where "q = take PKT_LINE_MAX_PAYLOAD p"
  have len: "length q + 4 < 65536" "length q \<le> PKT_LINE_MAX_PAYLOAD"
    by (simp_all add: q_def PKT_LINE_MAX_PAYLOAD_def)
  have "write_data [] p = as_bytes (fmt_04x (length q + 4)) @ q"
    by (auto simp: write_data_def Let_def q_def min_def)
  with len show ?thesis
    by (simp add: pkt_read_prefix [OF length_fmt ascii_fmt from_str_radix16_fmt] q_def [symmetric])
qed

lemma radix16_eval:
  "from_str_radix16 ''0000'' = Some 0" "from_str_radix16 ''0001'' = Some 1"
  "from_str_radix16 ''0002'' = Some 2"
  by (simp_all add: from_str_radix16_def hex_val_def Let_def)

lemma pkt_read_sentinel:
  "pkt_read (as_bytes ''0000'' @ r) = Inr (Flush, r)"
  "pkt_read (as_bytes ''0001'' @ r) = Inr (Delim, r)"
  "pkt_read (as_bytes ''0002'' @ r) = Inr (RespEnd, r)"
proof -
  have "ascii ''0000''" "ascii ''0001''" "ascii ''0002''" by simp_all
  then show "pkt_read (as_bytes ''0000'' @ r) = Inr (Flush, r)"
    "pkt_read (as_bytes ''0001'' @ r) = Inr (Delim, r)"
    "pkt_read (as_bytes ''0002'' @ r) = Inr (RespEnd, r)"
    using pkt_read_prefix [of "''0000''" 0 r] pkt_read_prefix [of "''0001''" 1 r]
      pkt_read_prefix [of "''0002''" 2 r]
    by (simp_all only: radix16_eval list.size numeral_eq_Suc) simp_all
qed

lemma pkt_read_frame: "frame_ok f \<Longrightarrow> pkt_read (frame_bytes f @ r) = Inr (f, r)"
proof (cases f)
  case (Data p)
  assume "frame_ok f"
  with Data show ?thesis
    by (simp only: frame_bytes.simps frame_ok.simps pkt_read_write_data_gen take_all)
qed (simp_all only: frame_bytes.simps write_flush_def write_delim_def FLUSH_def DELIM_def
      append_Nil pkt_read_sentinel)

lemma pkt_read_split:
  assumes "pkt_read buf = Inr (l, tail)"
  shows "\<exists>h p. buf = h @ p @ tail \<and> length h = 4 \<and> length p \<le> PKT_LINE_MAX_PAYLOAD
    \<and> (case l of Data d \<Rightarrow> d = p | _ \<Rightarrow> p = [])"
proof -
  have rest: "\<exists>h p. buf = h @ p @ drop n buf \<and> length h = 4 \<and> length p \<le> PKT_LINE_MAX_PAYLOAD
      \<and> drop 4 (take n buf) = p"
    if "4 \<le> n" "n \<le> PKT_LINE_MAX_PAYLOAD + 4" "n \<le> length buf" for n
  proof (intro exI conjI)
    show "buf = take 4 buf @ drop 4 (take n buf) @ drop n buf"
      using that by (metis append.assoc append_take_drop_id min.absorb1 take_take)
  qed (use that in auto)
  have head: "4 \<le> length buf"
    using assms by (auto simp: pkt_read_def split: if_splits)
  have sentinel: "\<exists>h p. buf = h @ p @ drop 4 buf \<and> length h = 4 \<and> length p \<le> PKT_LINE_MAX_PAYLOAD
      \<and> p = []"
    using head by (intro exI [of _ "take 4 buf"] exI [of _ "[]"]) simp
  show ?thesis
    using assms sentinel rest head unfolding pkt_read_def
    by (force split: if_splits option.splits)
qed

lemma pkt_read_shorter: "pkt_read buf = Inr (l, tail) \<Longrightarrow> length tail + 4 \<le> length buf"
  by (drule pkt_read_split) auto

section \<open>The iterator\<close>

text \<open>Draining the iterator, as the \<open>for\<close> loops over \<open>PktIter\<close> do. Every step either shortens the
  buffer or sets \<open>done\<close>.\<close>

lemma pkt_next_decreases:
  assumes "pkt_next it = (Some x, it')"
  shows "2 * length (pi_buf it') + of_bool (\<not> pi_done it')
    < 2 * length (pi_buf it) + of_bool (\<not> pi_done it)"
  using assms
  by (auto simp: pkt_next_def dest!: pkt_read_shorter split: if_splits sum.splits)

function pkt_drain :: "pkt_iter \<Rightarrow> (pkt_error + pkt_line) list" where
  "pkt_drain it = (case pkt_next it of (None, _) \<Rightarrow> [] | (Some x, it') \<Rightarrow> x # pkt_drain it')"
  by pat_completeness auto
termination
  by (relation "measure (\<lambda>it. 2 * length (pi_buf it) + of_bool (\<not> pi_done it))")
    (simp_all only: wf_measure in_measure pkt_next_decreases [OF sym])

declare pkt_drain.simps [simp del]

lemma pkt_drain_Nil: "pkt_drain (pkt_iter_new []) = []"
  by (subst pkt_drain.simps) (simp add: pkt_next_def pkt_iter_new_def)

lemma pkt_drain_step:
  assumes "pkt_read buf = Inr (l, tail)"
  shows "pkt_drain (pkt_iter_new buf) = Inr l # pkt_drain (pkt_iter_new tail)"
proof -
  have "buf \<noteq> []" using pkt_read_shorter [OF assms] by auto
  with assms show ?thesis
    by (subst pkt_drain.simps) (simp add: pkt_next_def pkt_iter_new_def)
qed

lemma pkt_drain_error:
  assumes "buf \<noteq> []" "pkt_read buf = Inl e"
  shows "pkt_drain (pkt_iter_new buf) = [Inl e]"
  using assms
  by (subst pkt_drain.simps, subst pkt_drain.simps) (simp add: pkt_next_def pkt_iter_new_def)

section \<open>Properties\<close>

text \<open>Framing is lossless. For every sequence of frames whose data payloads respect the cap,
  concatenating what the writers emit and draining \<open>PktIter\<close> over the bytes gives back exactly
  that sequence, with no error.\<close>

theorem pkt_stream_roundtrip:
  "list_all frame_ok fs \<Longrightarrow>
     pkt_drain (pkt_iter_new (concat (map frame_bytes fs))) = map Inr fs"
  by (induction fs) (simp_all add: pkt_drain_Nil pkt_drain_step [OF pkt_read_frame])

theorem pkt_stream_roundtrip_witness:
  "pkt_drain (pkt_iter_new (concat (map frame_bytes [Data (as_bytes ''ok''), Delim, Flush])))
     = [Inr (Data (as_bytes ''ok'')), Inr Delim, Inr Flush]"
  using pkt_stream_roundtrip [of "[Data (as_bytes ''ok''), Delim, Flush]"]
  by (simp add: PKT_LINE_MAX_PAYLOAD_def)

text \<open>\<open>read\<close> never loses or invents bytes. On success the buffer is a 4-byte prefix, the
  frame's payload (empty for a sentinel, at most 65516 bytes) and the returned tail, in order.\<close>

theorem pkt_read_exact:
  "pkt_read buf = Inr (l, tail) \<Longrightarrow>
     \<exists>h p. buf = h @ p @ tail \<and> length h = 4 \<and> length p \<le> 65516
       \<and> (case l of Data d \<Rightarrow> d = p | _ \<Rightarrow> p = [])"
  using pkt_read_split by (simp add: PKT_LINE_MAX_PAYLOAD_def)

theorem pkt_read_exact_witness:
  "\<exists>h p. as_bytes ''0001zz'' = h @ p @ as_bytes ''zz'' \<and> length h = 4 \<and> length p \<le> 65516
       \<and> (case Delim of Data d \<Rightarrow> d = p | _ \<Rightarrow> p = [])"
proof -
  have "pkt_read (as_bytes ''0001zz'') = Inr (Delim, as_bytes ''zz'')"
    using pkt_read_sentinel(2) [of "as_bytes ''zz''"] by simp
  then show ?thesis by (rule pkt_read_exact)
qed

text \<open>A payload above the cap still gives a well-formed frame. Whatever follows it, reading
  what \<open>write_data\<close> appended yields the payload cut at 65516 bytes and leaves the rest alone, so
  the length field never wraps.\<close>

theorem write_data_truncates:
  "pkt_read (write_data [] p @ rest) = Inr (Data (take 65516 p), rest)"
  using pkt_read_write_data_gen by (simp add: PKT_LINE_MAX_PAYLOAD_def)

text \<open>The length prefix is not always four hexadecimal digits: \<open>from_str_radix\<close> accepts a
  leading plus sign, so the reader takes \<open>+008\<close> as the length 8, where the documentation of
  \<open>BadLength\<close> says a prefix that is not four hex digits is refused.\<close>

theorem pkt_read_accepts_sign:
  "length p = 4 \<Longrightarrow> pkt_read (as_bytes ''+008'' @ p @ rest) = Inr (Data p, rest)"
proof -
  have "from_str_radix16 ''+008'' = Some 8" "ascii ''+008''"
    by (simp_all add: from_str_radix16_def hex_val_def Let_def)
  moreover assume "length p = 4"
  ultimately show ?thesis
    using pkt_read_prefix [of "''+008''" 8 "p @ rest"]
    by (simp del: as_bytes_simps add: PKT_LINE_MAX_PAYLOAD_def)
qed

theorem pkt_read_accepts_sign_witness:
  "pkt_read (as_bytes ''+008'' @ as_bytes ''abcd'' @ as_bytes ''0000'')
     = Inr (Data (as_bytes ''abcd''), as_bytes ''0000'')"
  by (rule pkt_read_accepts_sign) simp

end
