(* ===== verification/Errors.thy ===== *)
theory Errors
  imports Prelude
begin

text \<open>
  The crate's error type and its HTTP contract, \<open>src/error.rs\<close>. The constructors are the
  source's variants. Where the source formats a message, the model keeps the message as a
  constructor of its own with the interpolated values (\<open>bad_request\<close>, \<open>pack_error\<close>), so that
  every distinct \<open>format!\<close> is a distinct value; the causes that \<open>Io\<close>, \<open>Db\<close> and \<open>Other\<close> wrap
  are strings, but for the SQLite failure code, on which the response depends.
\<close>

section \<open>The error type\<close>

datatype sqlite_code = DatabaseBusy | DatabaseLocked | OtherCode nat

datatype db_error = SqliteFailure sqlite_code | QueryReturnedNoRows | DbOther string

datatype bad_request =
    InvalidOid string
  | InvalidRefName string
  | InvalidTokenLength nat
  | InvalidTokenBytes
  | InvalidSubject
  | InvalidBranch string
  | InvalidSourceBranch string
  | InvalidTargetBranch string
  | InvalidChangePath string
  | UnsupportedMode string
  | InvalidSha string
  | InvalidRefChar string
  | InvalidReadPath string
  | InvalidNotesRef string
  | BadOther string

datatype error =
    RepoNotFound string
  | RepoExists string
  | InvalidRepoId string
  | Unauthorized
  | UnauthorizedBasic
  | Forbidden string
  | BadRequest bad_request
  | RefConflict string "string option" "string option"
  | MergeConflict string string "string list"
  | ForkDependency string "string list"
  | QuotaExceeded string nat
  | RepoByteQuotaExceeded string nat nat
  | RateLimited nat
  | Io string
  | PackParse pack_error
  | GixError string
  | Db db_error
  | Other string
and pack_error =
    PackTooShort nat
  | MissingMagic
  | UnsupportedVersion u32
  | EntryHeaderParse nat nat error
  | DeclaredSizeExceeds nat u64
  | TruncatedBaseOid nat nat
  | OfsOffsetParse nat nat error
  | UnknownObjectType nat u8
  | EntryDecompress nat nat error
  | EmptyHeaderBuffer
  | TruncatedEntryHeader
  | EntrySizeOverflow
  | EmptyOfsBuffer
  | TruncatedOfsOffset
  | OfsOffsetOverflow
  | Zlib string
  | DecompressedExceeds nat
  | ZlibStalled
  | DeltaNotSupported nat
  | OfsDeltaNotSupported nat
  | VarintTruncated nat
  | VarintOverflow
  | SourceSizeMismatch u64 nat
  | TargetTooLarge
  | TargetExceedsCap nat
  | CopyTruncatedOffset
  | CopyTruncatedSize
  | CopyOutOfRange nat nat nat
  | InsertZero
  | InsertTruncated nat nat
  | TargetSizeMismatch nat u64
  | LooseInflate string error
  | LooseNoNul string
  | LooseHeaderUtf8 string
  | LooseUnknownKind string string
  | OfsOffsetNotUsize nat
  | OfsUnderflow nat nat nat
  | OfsNoEntry nat nat
  | EntryApplyDelta nat error
  | ResolutionStuck nat
  | RefDeltaApply nat string error
  | RefDeltaStuck nat

section \<open>The HTTP response\<close>

text \<open>The message of the JSON body: \<open>Display\<close> of the error, one of the fixed strings, or one of the
  three \<open>format!\<close>s that differ from \<open>Display\<close>. The extra fields of a structured error are JSON
  strings, numbers, nullable strings and string arrays.\<close>

datatype body_message =
    DisplayOf error
  | Fixed string
  | QuotaMessage string
  | ByteQuotaMessage string nat nat
  | MergeMessage string string nat

datatype json_field = JStr string | JNum nat | JOpt "string option" | JList "string list"

record response =
  status :: nat
  code :: string
  message :: body_message
  extra :: "(string \<times> json_field) list"
  retry_after :: "nat option"
  www_authenticate :: "string option"

definition is_retryable_db :: "error \<Rightarrow> bool" where
  "is_retryable_db e =
     (case e of Db (SqliteFailure c) \<Rightarrow> c = DatabaseBusy \<or> c = DatabaseLocked | _ \<Rightarrow> False)"

definition structured_error ::
  "nat \<Rightarrow> string \<Rightarrow> body_message \<Rightarrow> (string \<times> json_field) list \<Rightarrow> nat option \<Rightarrow> response" where
  "structured_error st cd msg ex ra =
     \<lparr>status = st, code = cd, message = msg, extra = ex, retry_after = ra,
      www_authenticate = None\<rparr>"

text \<open>The second \<open>match\<close> of \<open>into_response\<close>: status and code of the bare variants.\<close>

definition status_code :: "error \<Rightarrow> nat \<times> string" where
  "status_code e =
     (case e of
        RepoNotFound _ \<Rightarrow> (404, ''repo_not_found'')
      | RepoExists _ \<Rightarrow> (409, ''repo_exists'')
      | InvalidRepoId _ \<Rightarrow> (400, ''invalid_repo_id'')
      | Unauthorized \<Rightarrow> (401, ''unauthorized'')
      | UnauthorizedBasic \<Rightarrow> (401, ''unauthorized'')
      | Forbidden _ \<Rightarrow> (403, ''forbidden'')
      | BadRequest _ \<Rightarrow> (400, ''bad_request'')
      | PackParse _ \<Rightarrow> (400, ''pack_parse'')
      | _ \<Rightarrow> (500, ''internal''))"

definition bare_response :: "error \<Rightarrow> response" where
  "bare_response e =
     (case status_code e of (st, cd) \<Rightarrow>
        \<lparr>status = st, code = cd,
         message = (if st \<ge> 500 then Fixed ''internal'' else DisplayOf e),
         extra = [], retry_after = None,
         www_authenticate =
           (if e = UnauthorizedBasic then Some ''Basic realm=\"artifacts\"'' else None)\<rparr>)"

definition into_response :: "error \<Rightarrow> response" where
  "into_response e =
     (case e of
        QuotaExceeded subject limit \<Rightarrow>
          structured_error 429 ''quota_exceeded'' (QuotaMessage subject)
            [(''subject'', JStr subject), (''limit'', JNum limit)] None
      | RepoByteQuotaExceeded repo used limit \<Rightarrow>
          structured_error 413 ''repo_byte_quota_exceeded'' (ByteQuotaMessage repo used limit)
            [(''repoId'', JStr repo), (''bytesUsed'', JNum used), (''limit'', JNum limit)] None
      | RateLimited secs \<Rightarrow>
          structured_error 429 ''rate_limited'' (DisplayOf e) [(''retryAfter'', JNum secs)] (Some secs)
      | RefConflict branch expected current \<Rightarrow>
          structured_error 409 ''ref_conflict'' (DisplayOf e)
            [(''branch'', JStr branch), (''expected'', JOpt expected), (''current'', JOpt current)] None
      | ForkDependency repo forks \<Rightarrow>
          structured_error 409 ''fork_dependency'' (DisplayOf e)
            [(''repoId'', JStr repo), (''forks'', JList forks)] None
      | MergeConflict target source paths \<Rightarrow>
          structured_error 409 ''merge_conflict'' (MergeMessage source target (length paths))
            [(''sourceBranch'', JStr source), (''targetBranch'', JStr target),
             (''conflicts'', JList paths)] None
      | _ \<Rightarrow>
          if is_retryable_db e then
            structured_error 503 ''db_busy''
              (Fixed ''database temporarily busy, retry shortly'') [] (Some 1)
          else bare_response e)"

section \<open>Properties\<close>

text \<open>No server error leaks its cause. Every error that maps to a 5xx status answers with one of
  two fixed messages, never with the text of the wrapped error; a database that is busy or
  locked is the only 503, it always carries Retry-After 1, and every other 5xx is a 500 with code
  internal and no Retry-After.\<close>

theorem server_errors_redacted:
  "status (into_response e) \<ge> 500 \<Longrightarrow>
     (if is_retryable_db e
      then into_response e = structured_error 503 ''db_busy''
             (Fixed ''database temporarily busy, retry shortly'') [] (Some 1)
      else into_response e = structured_error 500 ''internal'' (Fixed ''internal'') [] None)"
  by (cases e)
    (auto simp: into_response_def structured_error_def bare_response_def status_code_def
      is_retryable_db_def split: db_error.splits)

theorem server_errors_redacted_witness:
  "into_response (Io ''/srv/data: denied'') =
     structured_error 500 ''internal'' (Fixed ''internal'') [] None"
  using server_errors_redacted [of "Io ''/srv/data: denied''"]
  by (simp add: into_response_def structured_error_def bare_response_def status_code_def
      is_retryable_db_def)

text \<open>Retry-After is sent exactly where a retry can succeed: for a rate-limited call (with the
  limiter's wait) and for a busy or locked database (one second), and for nothing else. The Basic
  challenge is sent exactly for an unauthorized git request.\<close>

theorem retry_after_exact:
  "retry_after (into_response e) =
     (case e of RateLimited n \<Rightarrow> Some n
      | _ \<Rightarrow> if is_retryable_db e then Some 1 else None)
   \<and> (www_authenticate (into_response e) \<noteq> None) = (e = UnauthorizedBasic)"
  by (cases e)
    (auto simp: into_response_def structured_error_def bare_response_def status_code_def
      is_retryable_db_def split: db_error.splits)

end
