(* ===== verification/Ids.thy ===== *)
theory Ids
  imports Errors
begin

text \<open>
  The identifier newtypes of \<open>src/ids.rs\<close> and their validating constructors, with
  \<open>validate_repo_id\<close> of \<open>src/storage.rs\<close>. A newtype is a one-constructor datatype; its
  \<open>TryFrom\<close> is the only function of the source that builds one, so the predicates \<open>*_ok\<close> are the
  invariants of the types. The derived \<open>Ord\<close> (byte order of the inner string) is an
  instantiation of \<open>linorder\<close>.
\<close>

section \<open>Definitions\<close>

datatype repo_id = RepoId (repo_str: string)
datatype oid = Oid (oid_str: string)
datatype ref_name = RefName (ref_str: string)
datatype token = Token (token_str: string)
datatype subject = Subject (subject_str: string)

definition is_lower :: "char \<Rightarrow> bool" where
  "is_lower c = (97 \<le> (of_char c :: nat) \<and> (of_char c :: nat) \<le> 122)"

definition is_upper :: "char \<Rightarrow> bool" where
  "is_upper c = (65 \<le> (of_char c :: nat) \<and> (of_char c :: nat) \<le> 90)"

definition is_digit :: "char \<Rightarrow> bool" where
  "is_digit c = (48 \<le> (of_char c :: nat) \<and> (of_char c :: nat) \<le> 57)"

definition is_hexdigit :: "char \<Rightarrow> bool" where
  "is_hexdigit c = (hex_val c \<noteq> None)"

definition is_graphic :: "char \<Rightarrow> bool" where
  "is_graphic c = (33 \<le> (of_char c :: nat) \<and> (of_char c :: nat) \<le> 126)"

definition repo_id_ok :: "string \<Rightarrow> bool" where
  "repo_id_ok s =
     (4 \<le> length s \<and> length s \<le> 64 \<and>
      list_all (\<lambda>c. is_lower c \<or> is_digit c \<or> c = CHR ''-'' \<or> c = CHR ''_'') s)"

definition validate_repo_id :: "string \<Rightarrow> error + unit" where
  "validate_repo_id s =
     (if length s < 4 \<or> length s > 64 \<or>
         \<not> list_all (\<lambda>c. is_lower c \<or> is_digit c \<or> c = CHR ''-'' \<or> c = CHR ''_'') s
      then Inl (InvalidRepoId s) else Inr ())"

definition repo_id_try_from :: "string \<Rightarrow> error + repo_id" where
  "repo_id_try_from s = res_bind (validate_repo_id s) (\<lambda>_. Inr (RepoId s))"

definition oid_ok :: "string \<Rightarrow> bool" where
  "oid_ok s = (length s = 40 \<and> list_all (\<lambda>c. is_hexdigit c \<and> \<not> is_upper c) s)"

definition oid_try_from :: "string \<Rightarrow> error + oid" where
  "oid_try_from s = (if oid_ok s then Inr (Oid s) else Inl (BadRequest (InvalidOid s)))"

definition ref_char_bad :: "char \<Rightarrow> bool" where
  "ref_char_bad c =
     ((of_char c :: nat) < 32 \<or> (of_char c :: nat) = 127 \<or>
      c \<in> {CHR '' '', CHR ''~'', CHR ''^'', CHR '':'', CHR ''?'', CHR ''*'', CHR ''[''})"

definition valid_ref_name :: "string \<Rightarrow> bool" where
  "valid_ref_name s =
     (if s = ''HEAD'' then True
      else if s = [] \<or> starts_with ''/'' s \<or> ends_with ''/'' s \<or> ends_with ''.'' s
          \<or> contains_str ''//'' s \<or> contains_str ''..'' s \<or> contains_str [CHR ''@'', CHR 0x7B] s
          \<or> contains_str [CHR 0x5C] s then False
      else if list_ex ref_char_bad s then False
      else list_all (\<lambda>part. \<not> (part = [] \<or> starts_with ''.'' part \<or> starts_with ''-'' part
                                \<or> ends_with ''.lock'' part)) (split_char CHR ''/'' s))"

definition ref_name_try_from :: "string \<Rightarrow> error + ref_name" where
  "ref_name_try_from s =
     (if valid_ref_name s then Inr (RefName s) else Inl (BadRequest (InvalidRefName s)))"

definition token_try_from :: "string \<Rightarrow> error + token" where
  "token_try_from s =
     (if s = [] \<or> length s > 256 then Inl (BadRequest (InvalidTokenLength (length s)))
      else if \<not> list_all is_graphic s then Inl (BadRequest InvalidTokenBytes)
      else Inr (Token s))"

definition subject_try_from :: "string \<Rightarrow> error + subject" where
  "subject_try_from s =
     (if s = [] \<or> length s > 256 \<or> CHR 0x00 \<in> set s then Inl (BadRequest InvalidSubject)
      else Inr (Subject s))"

section \<open>Orders\<close>

instantiation repo_id :: linorder
begin
definition less_eq_repo_id :: "repo_id \<Rightarrow> repo_id \<Rightarrow> bool" where
  "less_eq_repo_id a b = (repo_str a \<le> repo_str b)"
definition less_repo_id :: "repo_id \<Rightarrow> repo_id \<Rightarrow> bool" where
  "less_repo_id a b = (repo_str a < repo_str b)"
instance
  by standard (auto simp: less_eq_repo_id_def less_repo_id_def intro: repo_id.expand)
end

instantiation ref_name :: linorder
begin
definition less_eq_ref_name :: "ref_name \<Rightarrow> ref_name \<Rightarrow> bool" where
  "less_eq_ref_name a b = (ref_str a \<le> ref_str b)"
definition less_ref_name :: "ref_name \<Rightarrow> ref_name \<Rightarrow> bool" where
  "less_ref_name a b = (ref_str a < ref_str b)"
instance
  by standard (auto simp: less_eq_ref_name_def less_ref_name_def intro: ref_name.expand)
end

instantiation oid :: linorder
begin
definition less_eq_oid :: "oid \<Rightarrow> oid \<Rightarrow> bool" where
  "less_eq_oid a b = (oid_str a \<le> oid_str b)"
definition less_oid :: "oid \<Rightarrow> oid \<Rightarrow> bool" where
  "less_oid a b = (oid_str a < oid_str b)"
instance
  by standard (auto simp: less_eq_oid_def less_oid_def intro: oid.expand)
end

section \<open>What the constructors guarantee\<close>

lemma repo_id_try_from_iff: "repo_id_try_from s = Inr r \<longleftrightarrow> repo_id_ok s \<and> r = RepoId s"
  by (auto simp: repo_id_try_from_def validate_repo_id_def repo_id_ok_def split: if_splits)

lemma repo_id_try_from_Inl: "repo_id_try_from s = Inl e \<Longrightarrow> \<not> repo_id_ok s"
  by (auto simp: repo_id_try_from_def validate_repo_id_def repo_id_ok_def split: if_splits)

lemma oid_try_from_iff: "oid_try_from s = Inr x \<longleftrightarrow> oid_ok s \<and> x = Oid s"
  by (auto simp: oid_try_from_def)

lemma ref_name_try_from_iff: "ref_name_try_from s = Inr r \<longleftrightarrow> valid_ref_name s \<and> r = RefName s"
  by (auto simp: ref_name_try_from_def)

lemma subject_try_from_iff:
  "subject_try_from s = Inr r \<longleftrightarrow> s \<noteq> [] \<and> length s \<le> 256 \<and> CHR 0x00 \<notin> set s \<and> r = Subject s"
  by (auto simp: subject_try_from_def)

lemma hex_digit_lower:
  assumes "n < 16"
  shows "is_hexdigit (hex_digit n)" and "\<not> is_upper (hex_digit n)"
  using assms by (simp_all add: is_hexdigit_def is_upper_def of_char_hex_digit)

lemma oid_ok_hex_bytes: "length bs = 20 \<Longrightarrow> oid_ok (hex_bytes bs)"
proof -
  have "list_all (\<lambda>c. is_hexdigit c \<and> \<not> is_upper c) (hex_bytes bs)" for bs :: "u8 list"
  proof (induction bs)
    case (Cons b bs)
    have "unat b < 2 ^ LENGTH(8)" by (rule unsigned_less)
    then have "unat b div 16 < 16" by simp
    with Cons show ?case by (simp add: hex_bytes_def hex_byte_def hex_digit_lower)
  qed (simp add: hex_bytes_def)
  then show "length bs = 20 \<Longrightarrow> oid_ok (hex_bytes bs)" by (simp add: oid_ok_def)
qed

end
