(* ===== verification/ObjectStore.thy ===== *)
theory ObjectStore
  imports Ids
begin

text \<open>
  The object store of \<open>src/object_store/mod.rs\<close>: object kinds, the hexadecimal checks, the
  \<open>ObjectStore\<close> trait as the locale \<open>object_store\<close> (its operations as parameters, its documented
  contract as laws) and the models of its backends: the in-memory map \<open>MemObjectStore\<close>, the table
  of \<open>SqliteObjectStore\<close> (\<open>INSERT OR IGNORE\<close> on a primary key), and the sharded directory of
  \<open>FsObjectStore\<close>. The clock is an argument of every write.
\<close>

section \<open>Object kinds and hexadecimal checks\<close>

datatype object_kind = Commit | Tree | Blob | Tag

fun kind_str :: "object_kind \<Rightarrow> string" where
  "kind_str Commit = ''commit''"
| "kind_str Tree = ''tree''"
| "kind_str Blob = ''blob''"
| "kind_str Tag = ''tag''"

definition from_pack_type :: "u8 \<Rightarrow> object_kind option" where
  "from_pack_type b =
     (if b = 1 then Some Commit else if b = 2 then Some Tree
      else if b = 3 then Some Blob else if b = 4 then Some Tag else None)"

definition is_hex_byte :: "u8 \<Rightarrow> bool" where
  "is_hex_byte b =
     ((b \<ge> 0x30 \<and> b \<le> 0x39) \<or> (b \<ge> 0x61 \<and> b \<le> 0x66) \<or> (b \<ge> 0x41 \<and> b \<le> 0x46))"

definition is_hex40_bytes :: "u8 list \<Rightarrow> bool" where
  "is_hex40_bytes bytes = (length bytes = 40 \<and> list_all is_hex_byte bytes)"

definition oid_is_valid :: "string \<Rightarrow> bool" where
  "oid_is_valid s = is_hex40_bytes (as_bytes s)"

record loose_info =
  li_oid :: oid
  li_size :: nat
  li_created :: int

abbreviation oid_wf :: "oid \<Rightarrow> bool" where
  "oid_wf x \<equiv> oid_ok (oid_str x)"

type_synonym object_key = "repo_id \<times> oid"

lemma hex_byte_of_char: "is_hex_byte (byte_of_char c) \<longleftrightarrow> is_hexdigit c"
  by (auto simp: is_hex_byte_def is_hexdigit_def hex_val_def Let_def word_le_nat_alt)

lemma oid_is_valid_iff: "oid_is_valid s \<longleftrightarrow> length s = 40 \<and> list_all is_hexdigit s"
  by (simp add: oid_is_valid_def is_hex40_bytes_def as_bytes_def list_all_iff hex_byte_of_char)

lemma oid_wf_valid: "oid_ok s \<Longrightarrow> oid_is_valid s"
  by (auto simp: oid_is_valid_iff oid_ok_def list_all_iff)

section \<open>The trait\<close>

text \<open>The operations the clients call: \<open>read_loose\<close>, \<open>write_loose\<close> at a time, \<open>list_loose\<close>,
  \<open>delete_loose\<close> and \<open>exists\<close>. \<open>view\<close> is what a state means, a map from objects to bytes, and
  \<open>invar\<close> the backend's invariant. The laws are the trait's documentation for the well-formed
  object ids that the type \<open>Oid\<close> holds: a read returns what the view holds; a write succeeds,
  makes the object present and touches no other object, and where the object is absent or has
  the same bytes already (loose objects are content-addressed) its bytes are those written; a
  delete removes exactly one object and reports whether it was there; \<open>list_loose\<close> lists every
  object of the repository once, with its size; an object that can be read exists. I/O failures
  of the medium are not part of the contract.\<close>

locale object_store =
  fixes read_loose :: "'s \<Rightarrow> repo_id \<Rightarrow> oid \<Rightarrow> error + u8 list option"
    and write_loose :: "int \<Rightarrow> repo_id \<Rightarrow> oid \<Rightarrow> u8 list \<Rightarrow> 's \<Rightarrow> error + 's"
    and list_loose :: "'s \<Rightarrow> repo_id \<Rightarrow> error + loose_info list"
    and delete_loose :: "repo_id \<Rightarrow> oid \<Rightarrow> 's \<Rightarrow> error + bool \<times> 's"
    and exists_obj :: "'s \<Rightarrow> repo_id \<Rightarrow> oid \<Rightarrow> error + bool"
    and view :: "'s \<Rightarrow> object_key \<rightharpoonup> u8 list"
    and invar :: "'s \<Rightarrow> bool"
  assumes read_view: "invar s \<Longrightarrow> oid_wf x \<Longrightarrow> read_loose s r x = Inr (view s (r, x))"
    and write_ok: "invar s \<Longrightarrow> oid_wf x \<Longrightarrow>
      \<exists>s' b. write_loose now r x bs s = Inr s' \<and> invar s' \<and> view s' = (view s)((r, x) \<mapsto> b)
        \<and> (view s (r, x) \<in> {None, Some bs} \<longrightarrow> b = bs)"
    and delete_ok: "invar s \<Longrightarrow> oid_wf x \<Longrightarrow>
      \<exists>s'. delete_loose r x s = Inr (view s (r, x) \<noteq> None, s') \<and> invar s'
        \<and> view s' = (view s)((r, x) := None)"
    and exists_ok: "invar s \<Longrightarrow> oid_wf x \<Longrightarrow> view s (r, x) \<noteq> None \<Longrightarrow> exists_obj s r x = Inr True"
    and list_ok: "invar s \<Longrightarrow>
      \<exists>ls. list_loose s r = Inr ls \<and> distinct (map li_oid ls)
        \<and> (\<forall>i\<in>set ls. oid_wf (li_oid i) \<and> map_option length (view s (r, li_oid i)) = Some (li_size i))
        \<and> (\<forall>x. view s (r, x) \<noteq> None \<longrightarrow> x \<in> li_oid ` set ls)"
begin

text \<open>Reading back a freshly written object, and the frame for every other object.\<close>

lemma read_after_write:
  assumes "invar s" "oid_wf x" "view s (r, x) \<in> {None, Some bs}"
  obtains s' where "write_loose now r x bs s = Inr s'" "invar s'"
    "view s' = (view s)((r, x) \<mapsto> bs)" "read_loose s' r x = Inr (Some bs)"
  using write_ok [OF assms(1,2)] assms(3) read_view assms(2) by fastforce

text \<open>Writing the same object twice is writing it once.\<close>

lemma write_idempotent:
  assumes "invar s" "oid_wf x" "view s (r, x) \<in> {None, Some bs}"
    and "write_loose t r x bs s = Inr s1"
  shows "\<exists>s2. write_loose t' r x bs s1 = Inr s2 \<and> view s2 = view s1"
proof -
  obtain s' where s': "write_loose t r x bs s = Inr s'" "invar s'"
    "view s' = (view s)((r, x) \<mapsto> bs)"
    using read_after_write [OF assms(1-3)] by metis
  with assms(4) have "s1 = s'" by simp
  with s' obtain s2 where "write_loose t' r x bs s1 = Inr s2" "view s2 = (view s1)((r, x) \<mapsto> bs)"
    using read_after_write [of s1 x r bs t'] assms(2) by auto
  with s' \<open>s1 = s'\<close> show ?thesis by auto
qed

text \<open>A second delete of the same object reports that it was not there.\<close>

lemma delete_twice:
  assumes "invar s" "oid_wf x" "delete_loose r x s = Inr (b, s1)"
  shows "\<exists>s2. delete_loose r x s1 = Inr (False, s2) \<and> view s2 = view s1"
  using delete_ok [OF assms(1,2), of r] delete_ok [OF _ assms(2), of s1 r] assms(3) by auto

end

text \<open>A key-value backend has no packs: an object exists iff it is a row.\<close>

locale kv_object_store = object_store +
  assumes exists_iff: "invar s \<Longrightarrow> oid_wf x \<Longrightarrow> exists_obj s r x = Inr (view s (r, x) \<noteq> None)"

section \<open>MemObjectStore\<close>

text \<open>The \<open>HashMap\<close> of the store as an association list with distinct keys; iteration order is the
  list's, which the trait leaves unspecified. \<open>insert\<close> overwrites an entry that is present.\<close>

record mem_entry =
  me_bytes :: "u8 list"
  me_created :: int

type_synonym mem_store = "(object_key \<times> mem_entry) list"

definition mem_invar :: "mem_store \<Rightarrow> bool" where
  "mem_invar s = (distinct (map fst s) \<and> (\<forall>k\<in>fst ` set s. oid_wf (snd k)))"

definition mem_view :: "mem_store \<Rightarrow> object_key \<rightharpoonup> u8 list" where
  "mem_view s k = map_option me_bytes (map_of s k)"

definition mem_read :: "mem_store \<Rightarrow> repo_id \<Rightarrow> oid \<Rightarrow> error + u8 list option" where
  "mem_read s r x = Inr (map_option me_bytes (map_of s (r, x)))"

definition mem_write :: "int \<Rightarrow> repo_id \<Rightarrow> oid \<Rightarrow> u8 list \<Rightarrow> mem_store \<Rightarrow> error + mem_store" where
  "mem_write now r x bs s =
     Inr (((r, x), \<lparr>me_bytes = bs, me_created = now\<rparr>) # filter (\<lambda>(k, _). k \<noteq> (r, x)) s)"

definition mem_list :: "mem_store \<Rightarrow> repo_id \<Rightarrow> error + loose_info list" where
  "mem_list s r =
     Inr (map (\<lambda>((_, x), e). \<lparr>li_oid = x, li_size = length (me_bytes e), li_created = me_created e\<rparr>)
       (filter (\<lambda>((r', _), _). r' = r) s))"

definition mem_delete :: "repo_id \<Rightarrow> oid \<Rightarrow> mem_store \<Rightarrow> error + bool \<times> mem_store" where
  "mem_delete r x s = Inr (map_of s (r, x) \<noteq> None, filter (\<lambda>(k, _). k \<noteq> (r, x)) s)"

definition mem_exists :: "mem_store \<Rightarrow> repo_id \<Rightarrow> oid \<Rightarrow> error + bool" where
  "mem_exists s r x = Inr (map_of s (r, x) \<noteq> None)"

lemma map_of_filter_key:
  "map_of (filter (\<lambda>(k, _). k \<noteq> q) s) k = (if k = q then None else map_of s k)"
  by (induction s) auto

lemma distinct_filter_key: "distinct (map fst s) \<Longrightarrow> distinct (map fst (filter P s))"
  by (induction s) auto

lemma mem_list_facts:
  assumes "mem_invar s"
  shows "\<exists>ls. mem_list s r = Inr ls \<and> distinct (map li_oid ls)
        \<and> (\<forall>i\<in>set ls. oid_wf (li_oid i)
             \<and> map_option length (mem_view s (r, li_oid i)) = Some (li_size i))
        \<and> (\<forall>x. mem_view s (r, x) \<noteq> None \<longrightarrow> x \<in> li_oid ` set ls)"
proof -
  define ls where "ls = map (\<lambda>((_, x), e). \<lparr>li_oid = x, li_size = length (me_bytes e), li_created = me_created e\<rparr>)
       (filter (\<lambda>((r', _), _). r' = r) s)"
  have "mem_list s r = Inr ls" by (simp add: mem_list_def ls_def)
  moreover have "distinct (map li_oid ls)"
    using assms unfolding ls_def mem_invar_def by (induction s) (auto simp: image_iff)
  moreover have "oid_wf (li_oid i) \<and> map_option length (mem_view s (r, li_oid i)) = Some (li_size i)"
    if "i \<in> set ls" for i
  proof -
    from that obtain x e where i: "((r, x), e) \<in> set s"
      "i = \<lparr>li_oid = x, li_size = length (me_bytes e), li_created = me_created e\<rparr>"
      by (auto simp: ls_def)
    moreover from i(1) assms have "map_of s (r, x) = Some e" "oid_wf x"
      by (force simp: mem_invar_def)+
    ultimately show ?thesis by (simp add: mem_view_def)
  qed
  moreover have "x \<in> li_oid ` set ls" if "mem_view s (r, x) \<noteq> None" for x
    using that by (force simp: mem_view_def ls_def dest: map_of_SomeD)
  ultimately show ?thesis by blast
qed

interpretation mem: kv_object_store
  mem_read mem_write mem_list mem_delete mem_exists mem_view mem_invar
proof
  fix s r assume "mem_invar s"
  then show "\<exists>ls. mem_list s r = Inr ls \<and> distinct (map li_oid ls)
        \<and> (\<forall>i\<in>set ls. oid_wf (li_oid i)
             \<and> map_option length (mem_view s (r, li_oid i)) = Some (li_size i))
        \<and> (\<forall>x. mem_view s (r, x) \<noteq> None \<longrightarrow> x \<in> li_oid ` set ls)"
    by (rule mem_list_facts)
qed (auto simp: mem_read_def mem_view_def mem_write_def mem_delete_def mem_exists_def mem_invar_def
    map_of_filter_key distinct_filter_key fun_eq_iff)

section \<open>SqliteObjectStore\<close>

text \<open>The table \<open>loose_objects\<close>, one row per object in rowid order; \<open>(repo_id, oid)\<close> is its primary
  key. The clients' queries become the obvious list functions: \<open>query_row\<close> the first matching row,
  \<open>INSERT OR IGNORE\<close> an append unless the key is present, \<open>DELETE\<close> a filter.\<close>

record loose_row =
  lr_repo :: string
  lr_oid :: string
  lr_bytes :: "u8 list"
  lr_created :: int

type_synonym sq_store = "loose_row list"

definition sq_key :: "repo_id \<Rightarrow> oid \<Rightarrow> loose_row \<Rightarrow> bool" where
  "sq_key r x row = (lr_repo row = repo_str r \<and> lr_oid row = oid_str x)"

definition sq_invar :: "sq_store \<Rightarrow> bool" where
  "sq_invar t = (distinct (map (\<lambda>row. (lr_repo row, lr_oid row)) t)
     \<and> list_all (\<lambda>row. oid_ok (lr_oid row)) t)"

definition sq_view :: "sq_store \<Rightarrow> object_key \<rightharpoonup> u8 list" where
  "sq_view t k = map_option lr_bytes (find (sq_key (fst k) (snd k)) t)"

definition sq_read :: "sq_store \<Rightarrow> repo_id \<Rightarrow> oid \<Rightarrow> error + u8 list option" where
  "sq_read t r x =
     (case find (sq_key r x) t of None \<Rightarrow> Inr None | Some row \<Rightarrow> Inr (Some (lr_bytes row)))"

definition sq_write :: "int \<Rightarrow> repo_id \<Rightarrow> oid \<Rightarrow> u8 list \<Rightarrow> sq_store \<Rightarrow> error + sq_store" where
  "sq_write now r x bs t =
     (if list_ex (sq_key r x) t then Inr t
      else Inr (t @ [\<lparr>lr_repo = repo_str r, lr_oid = oid_str x, lr_bytes = bs, lr_created = now\<rparr>]))"

fun sq_list_rows :: "sq_store \<Rightarrow> loose_info list" where
  "sq_list_rows [] = []"
| "sq_list_rows (row # t) =
     (case oid_try_from (lr_oid row) of
        Inl _ \<Rightarrow> sq_list_rows t
      | Inr x \<Rightarrow> \<lparr>li_oid = x, li_size = length (lr_bytes row), li_created = lr_created row\<rparr>
                 # sq_list_rows t)"

definition sq_list :: "sq_store \<Rightarrow> repo_id \<Rightarrow> error + loose_info list" where
  "sq_list t r = Inr (sq_list_rows (filter (\<lambda>row. lr_repo row = repo_str r) t))"

definition sq_delete :: "repo_id \<Rightarrow> oid \<Rightarrow> sq_store \<Rightarrow> error + bool \<times> sq_store" where
  "sq_delete r x t =
     (let affected = length (filter (sq_key r x) t)
      in Inr (affected > 0, filter (\<lambda>row. \<not> sq_key r x row) t))"

definition sq_exists :: "sq_store \<Rightarrow> repo_id \<Rightarrow> oid \<Rightarrow> error + bool" where
  "sq_exists t r x = Inr (list_ex (sq_key r x) t)"

lemma sq_key_eq: "sq_key r x row \<Longrightarrow> sq_key r' x' row \<longleftrightarrow> (r', x') = (r, x)"
  by (auto simp: sq_key_def repo_id.expand oid.expand)

lemma find_filter_key:
  "find (sq_key r' x') (filter (\<lambda>row. \<not> sq_key r x row) t) =
    (if (r', x') = (r, x) then None else find (sq_key r' x') t)"
  by (induction t) (auto dest: sq_key_eq)

lemma find_Some_ex: "find P t \<noteq> None \<longleftrightarrow> list_ex P t"
  by (induction t) auto

lemma find_append_one:
  "find P (t @ [row]) = (case find P t of None \<Rightarrow> if P row then Some row else None | Some y \<Rightarrow> Some y)"
  by (induction t) auto

lemma sq_list_rows_eq:
  "list_all (\<lambda>row. oid_ok (lr_oid row)) t \<Longrightarrow> sq_list_rows t =
    map (\<lambda>row. \<lparr>li_oid = Oid (lr_oid row), li_size = length (lr_bytes row), li_created = lr_created row\<rparr>) t"
  by (induction t) (auto simp: oid_try_from_def)

lemma sq_find_member:
  assumes "sq_invar t" "row \<in> set t"
  shows "find (sq_key (RepoId (lr_repo row)) (Oid (lr_oid row))) t = Some row"
  using assms by (induction t) (auto simp: sq_key_def sq_invar_def image_iff)

lemma sq_find_witness:
  "find (sq_key r x) t \<noteq> None \<Longrightarrow> \<exists>row\<in>set t. lr_repo row = repo_str r \<and> lr_oid row = oid_str x"
  by (force simp: find_Some_iff sq_key_def)

lemma sq_list_facts:
  assumes inv: "sq_invar t"
  shows "\<exists>ls. sq_list t r = Inr ls \<and> distinct (map li_oid ls)
        \<and> (\<forall>i\<in>set ls. oid_wf (li_oid i)
             \<and> map_option length (sq_view t (r, li_oid i)) = Some (li_size i))
        \<and> (\<forall>x. sq_view t (r, x) \<noteq> None \<longrightarrow> x \<in> li_oid ` set ls)"
proof -
  define rows where "rows = filter (\<lambda>row. lr_repo row = repo_str r) t"
  have ok: "list_all (\<lambda>row. oid_ok (lr_oid row)) rows"
    using inv by (auto simp: rows_def sq_invar_def list_all_iff)
  have mem: "row \<in> set t" "lr_repo row = repo_str r" if "row \<in> set rows" for row
    using that by (auto simp: rows_def)
  have "distinct (map li_oid (sq_list_rows rows))"
    using inv unfolding sq_list_rows_eq [OF ok] unfolding rows_def sq_invar_def
    by (induction t) (auto simp: image_iff)
  moreover have "oid_wf (li_oid i) \<and> map_option length (sq_view t (r, li_oid i)) = Some (li_size i)"
    if "i \<in> set (sq_list_rows rows)" for i
  proof -
    from that obtain row where row: "row \<in> set rows" "li_oid i = Oid (lr_oid row)"
      "li_size i = length (lr_bytes row)" by (auto simp: sq_list_rows_eq [OF ok])
    have "RepoId (lr_repo row) = r" using mem(2) [OF row(1)] by simp
    with sq_find_member [OF inv mem(1) [OF row(1)]] row ok show ?thesis
      by (auto simp: sq_view_def list_all_iff)
  qed
  moreover have "x \<in> li_oid ` set (sq_list_rows rows)" if "sq_view t (r, x) \<noteq> None" for x
  proof -
    from that obtain row where "row \<in> set t" "lr_repo row = repo_str r" "lr_oid row = oid_str x"
      using sq_find_witness [of r x t] by (auto simp: sq_view_def)
    then have "row \<in> set rows" "x = Oid (lr_oid row)" by (auto simp: rows_def)
    then show ?thesis by (auto simp: sq_list_rows_eq [OF ok] image_iff)
  qed
  ultimately show ?thesis by (simp add: sq_list_def rows_def)
qed

lemma sq_write_facts:
  assumes inv: "sq_invar t" and x: "oid_wf x"
  shows "\<exists>t' b. sq_write now r x bs t = Inr t' \<and> sq_invar t' \<and> sq_view t' = (sq_view t)((r, x) \<mapsto> b)
        \<and> (sq_view t (r, x) \<in> {None, Some bs} \<longrightarrow> b = bs)"
proof (cases "find (sq_key r x) t")
  case None
  then have "\<not> list_ex (sq_key r x) t" using find_Some_ex by metis
  with None inv x show ?thesis
    by (auto simp: sq_write_def sq_invar_def sq_view_def fun_eq_iff find_append_one sq_key_def
        list_ex_iff repo_id.expand oid.expand split: option.splits)
next
  case (Some row)
  then have "list_ex (sq_key r x) t" using find_Some_ex by (metis option.distinct(1))
  with Some inv show ?thesis by (auto simp: sq_write_def sq_view_def fun_eq_iff)
qed

interpretation sq: kv_object_store
  sq_read sq_write sq_list sq_delete sq_exists sq_view sq_invar
proof
  fix t r assume "sq_invar t"
  then show "\<exists>ls. sq_list t r = Inr ls \<and> distinct (map li_oid ls)
        \<and> (\<forall>i\<in>set ls. oid_wf (li_oid i)
             \<and> map_option length (sq_view t (r, li_oid i)) = Some (li_size i))
        \<and> (\<forall>x. sq_view t (r, x) \<noteq> None \<longrightarrow> x \<in> li_oid ` set ls)"
    by (rule sq_list_facts)
next
  fix t r x now bs assume "sq_invar t" "oid_wf x"
  then show "\<exists>t' b. sq_write now r x bs t = Inr t' \<and> sq_invar t'
      \<and> sq_view t' = (sq_view t)((r, x) \<mapsto> b) \<and> (sq_view t (r, x) \<in> {None, Some bs} \<longrightarrow> b = bs)"
    by (rule sq_write_facts)
next
  fix t r x assume "sq_invar t" "oid_wf x"
  then show "\<exists>t'. sq_delete r x t = Inr (sq_view t (r, x) \<noteq> None, t') \<and> sq_invar t'
      \<and> sq_view t' = (sq_view t)((r, x) := None)"
    using find_Some_ex [of "sq_key r x" t]
    by (auto simp: sq_delete_def sq_view_def sq_invar_def fun_eq_iff find_filter_key list_ex_iff
        list_all_iff filter_empty_conv Let_def distinct_map intro: inj_on_subset)
qed (auto simp: sq_read_def sq_view_def sq_exists_def find_Some_ex [symmetric] split: option.splits)

section \<open>FsObjectStore\<close>

text \<open>The part of the filesystem below \<open><root>/<id>.git/objects\<close> that holds files two levels deep,
  as a directory listing: repository, directory and file name, with the file. Other files than
  loose objects may be there (\<open>info\<close>, \<open>pack\<close>, stray \<open>.tmp-\<close> names). The tmp-file, fsync and rename of a write
  is atomic, so its result is the file in place. \<open>packed\<close> stands for gix's lookup in the
  repository's packs, which only \<open>exists\<close> consults.\<close>

record fs_file =
  ff_bytes :: "u8 list"
  ff_mtime :: int

type_synonym fs_path = "string \<times> string \<times> string"
type_synonym fs_store = "(fs_path \<times> fs_file) list"

definition loose_path :: "repo_id \<Rightarrow> oid \<Rightarrow> fs_path option" where
  "loose_path r x =
     (if \<not> oid_is_valid (oid_str x) then None
      else Some (repo_str r, take 2 (oid_str x), drop 2 (oid_str x)))"

definition fs_read :: "fs_store \<Rightarrow> repo_id \<Rightarrow> oid \<Rightarrow> error + u8 list option" where
  "fs_read s r x =
     (case loose_path r x of None \<Rightarrow> Inr None | Some p \<Rightarrow> Inr (map_option ff_bytes (map_of s p)))"

definition fs_write :: "int \<Rightarrow> repo_id \<Rightarrow> oid \<Rightarrow> u8 list \<Rightarrow> fs_store \<Rightarrow> error + fs_store" where
  "fs_write now r x bs s =
     (case loose_path r x of
        None \<Rightarrow> Inl (Other ''write_loose: invalid oid'')
      | Some p \<Rightarrow>
          if map_of s p \<noteq> None then Inr s
          else Inr (s @ [(p, \<lparr>ff_bytes = bs, ff_mtime = now\<rparr>)]))"

fun fs_list_files :: "repo_id \<Rightarrow> fs_store \<Rightarrow> loose_info list" where
  "fs_list_files r [] = []"
| "fs_list_files r (((repo, name, fname), f) # s) =
     (if repo \<noteq> repo_str r then fs_list_files r s
      else if length name \<noteq> 2 \<or> \<not> list_all is_hexdigit name then fs_list_files r s
      else if length fname \<noteq> 38 \<or> \<not> list_all is_hexdigit fname then fs_list_files r s
      else (case oid_try_from (name @ fname) of
              Inl _ \<Rightarrow> fs_list_files r s
            | Inr x \<Rightarrow>
                \<lparr>li_oid = x, li_size = length (ff_bytes f),
                 li_created = (if 0 \<le> ff_mtime f then ff_mtime f else 0)\<rparr> # fs_list_files r s))"

definition fs_list :: "fs_store \<Rightarrow> repo_id \<Rightarrow> error + loose_info list" where
  "fs_list s r = Inr (fs_list_files r s)"

definition fs_delete :: "repo_id \<Rightarrow> oid \<Rightarrow> fs_store \<Rightarrow> error + bool \<times> fs_store" where
  "fs_delete r x s =
     (case loose_path r x of
        None \<Rightarrow> Inl (Other ''delete_loose: invalid oid'')
      | Some p \<Rightarrow> Inr (map_of s p \<noteq> None, filter (\<lambda>(k, _). k \<noteq> p) s))"

definition fs_exists :: "(repo_id \<Rightarrow> oid \<Rightarrow> bool) \<Rightarrow> fs_store \<Rightarrow> repo_id \<Rightarrow> oid \<Rightarrow> error + bool" where
  "fs_exists packed s r x =
     (case loose_path r x of
        None \<Rightarrow> Inr False
      | Some p \<Rightarrow> if map_of s p \<noteq> None then Inr True else Inr (packed r x))"

definition fs_invar :: "fs_store \<Rightarrow> bool" where
  "fs_invar s = distinct (map fst s)"

definition fs_view :: "fs_store \<Rightarrow> object_key \<rightharpoonup> u8 list" where
  "fs_view s k =
     (if oid_wf (snd k)
      then map_option ff_bytes
        (map_of s (repo_str (fst k), take 2 (oid_str (snd k)), drop 2 (oid_str (snd k))))
      else None)"

lemma loose_path_wf:
  "oid_wf x \<Longrightarrow> loose_path r x = Some (repo_str r, take 2 (oid_str x), drop 2 (oid_str x))"
  by (simp add: loose_path_def oid_wf_valid)

lemma path_eq_iff:
  assumes "oid_wf x" "oid_wf x'"
  shows "(repo_str r, take 2 (oid_str x), drop 2 (oid_str x))
    = (repo_str r', take 2 (oid_str x'), drop 2 (oid_str x')) \<longleftrightarrow> r = r' \<and> x = x'"
proof -
  have "x = x'" if "take 2 (oid_str x) = take 2 (oid_str x')" "drop 2 (oid_str x) = drop 2 (oid_str x')"
    using that by (metis append_take_drop_id oid.expand)
  then show ?thesis by (auto intro: repo_id.expand)
qed

lemma oid_ok_shard:
  "oid_ok (a @ b) \<Longrightarrow> length a = 2 \<Longrightarrow>
     length b = 38 \<and> list_all is_hexdigit a \<and> list_all is_hexdigit b"
  by (auto simp: oid_ok_def list_all_iff)

lemma fs_list_files_eq:
  "fs_list_files r s =
     map (\<lambda>((_, name, fname), f). \<lparr>li_oid = Oid (name @ fname), li_size = length (ff_bytes f),
                 li_created = (if 0 \<le> ff_mtime f then ff_mtime f else 0)\<rparr>)
       (filter (\<lambda>((repo, name, fname), f). repo = repo_str r \<and> length name = 2
                 \<and> oid_ok (name @ fname)) s)"
proof (induction r s rule: fs_list_files.induct)
  case (2 r repo name fname f s)
  consider "repo = repo_str r" "length name = 2" "oid_ok (name @ fname)" | "repo \<noteq> repo_str r"
    | "length name \<noteq> 2" | "\<not> oid_ok (name @ fname)" by blast
  then show ?case
    by cases (use 2 oid_ok_shard [of name fname] in \<open>simp_all add: oid_try_from_def\<close>)
qed simp

lemma fs_list_member:
  "i \<in> set (fs_list_files r s) \<longleftrightarrow>
    (\<exists>name fname f. ((repo_str r, name, fname), f) \<in> set s \<and> length name = 2
       \<and> oid_ok (name @ fname) \<and> i = \<lparr>li_oid = Oid (name @ fname), li_size = length (ff_bytes f),
                 li_created = (if 0 \<le> ff_mtime f then ff_mtime f else 0)\<rparr>)"
  by (force simp: fs_list_files_eq)

lemma fs_list_distinct: "distinct (map fst s) \<Longrightarrow> distinct (map li_oid (fs_list_files r s))"
proof (induction r s rule: fs_list_files.induct)
  case (2 r repo name fname f s)
  have "Oid (name @ fname) \<notin> li_oid ` set (fs_list_files r s)"
    if "repo = repo_str r" "length name = 2"
  proof
    assume "Oid (name @ fname) \<in> li_oid ` set (fs_list_files r s)"
    with that obtain f' where "((repo, name, fname), f') \<in> set s"
      by (auto simp: fs_list_member)
    with "2.prems" show False by (force simp: image_iff)
  qed
  with 2 show ?case by (auto simp: oid_try_from_def)
qed simp

lemma fs_list_facts:
  assumes inv: "fs_invar s"
  shows "\<exists>ls. fs_list s r = Inr ls \<and> distinct (map li_oid ls)
        \<and> (\<forall>i\<in>set ls. oid_wf (li_oid i)
             \<and> map_option length (fs_view s (r, li_oid i)) = Some (li_size i))
        \<and> (\<forall>x. fs_view s (r, x) \<noteq> None \<longrightarrow> x \<in> li_oid ` set ls)"
proof -
  have "distinct (map li_oid (fs_list_files r s))"
    using inv by (simp add: fs_invar_def fs_list_distinct)
  moreover have "oid_wf (li_oid i) \<and> map_option length (fs_view s (r, li_oid i)) = Some (li_size i)"
    if "i \<in> set (fs_list_files r s)" for i
  proof -
    from that obtain name fname f where i: "((repo_str r, name, fname), f) \<in> set s" "length name = 2"
      "oid_ok (name @ fname)" "li_oid i = Oid (name @ fname)" "li_size i = length (ff_bytes f)"
      by (auto simp: fs_list_member)
    from i(1) inv have "map_of s (repo_str r, name, fname) = Some f" by (simp add: fs_invar_def)
    with i show ?thesis by (simp add: fs_view_def)
  qed
  moreover have "x \<in> li_oid ` set (fs_list_files r s)" if "fs_view s (r, x) \<noteq> None" for x
  proof -
    from that obtain f where "oid_wf x"
      "((repo_str r, take 2 (oid_str x), drop 2 (oid_str x)), f) \<in> set s"
      by (auto simp: fs_view_def split: if_splits dest: map_of_SomeD)
    moreover from this(1) have "length (take 2 (oid_str x)) = 2" by (simp add: oid_ok_def)
    ultimately have "\<exists>i. i \<in> set (fs_list_files r s) \<and> li_oid i = x"
      unfolding fs_list_member by (intro exI conjI) auto
    then show ?thesis by blast
  qed
  ultimately show ?thesis by (simp add: fs_list_def)
qed

interpretation fs: object_store
  fs_read fs_write fs_list fs_delete "fs_exists packed" fs_view fs_invar for packed
proof
  fix s r assume "fs_invar s"
  then show "\<exists>ls. fs_list s r = Inr ls \<and> distinct (map li_oid ls)
        \<and> (\<forall>i\<in>set ls. oid_wf (li_oid i)
             \<and> map_option length (fs_view s (r, li_oid i)) = Some (li_size i))
        \<and> (\<forall>x. fs_view s (r, x) \<noteq> None \<longrightarrow> x \<in> li_oid ` set ls)"
    by (rule fs_list_facts)
next
  fix s r x now bs assume s: "fs_invar s" and x: "oid_wf x"
  define p where "p = (repo_str r, take 2 (oid_str x), drop 2 (oid_str x))"
  have p: "loose_path r x = Some p" using x by (simp add: loose_path_wf p_def)
  show "\<exists>s' b. fs_write now r x bs s = Inr s' \<and> fs_invar s' \<and> fs_view s' = (fs_view s)((r, x) \<mapsto> b)
      \<and> (fs_view s (r, x) \<in> {None, Some bs} \<longrightarrow> b = bs)"
  proof (cases "map_of s p")
    case None
    then have "map_of (s @ [(p, f)]) q = (if q = p then Some f else map_of s q)" for f q
      by (auto simp: map_add_def split: option.splits)
    with None s x p show ?thesis
      by (auto simp: fs_write_def fs_invar_def fs_view_def fun_eq_iff p_def path_eq_iff
          map_of_eq_None_iff simp del: map_of_append prod.inject)
  next
    case (Some f)
    then show ?thesis using s x p by (auto simp: fs_write_def fs_view_def fun_eq_iff p_def)
  qed
next
  fix s r x assume s: "fs_invar s" and x: "oid_wf x"
  define p where "p = (repo_str r, take 2 (oid_str x), drop 2 (oid_str x))"
  define s' where "s' = filter (\<lambda>(k, _). k \<noteq> p) s"
  have "fs_delete r x s = Inr (fs_view s (r, x) \<noteq> None, s')"
    using x by (simp add: fs_delete_def loose_path_wf fs_view_def p_def s'_def)
  moreover have "fs_invar s'" using s by (simp add: fs_invar_def s'_def distinct_filter_key)
  moreover have "fs_view s' (r', x') = ((fs_view s)((r, x) := None)) (r', x')" for r' x'
  proof (cases "oid_wf x'")
    case True
    then show ?thesis
      using path_eq_iff [OF True x, of r' r] unfolding fs_view_def s'_def map_of_filter_key p_def
      by simp
  qed (simp add: fs_view_def)
  then have "fs_view s' = (fs_view s)((r, x) := None)" by (simp only: fun_eq_iff split_paired_all) simp
  ultimately show "\<exists>s'. fs_delete r x s = Inr (fs_view s (r, x) \<noteq> None, s') \<and> fs_invar s'
      \<and> fs_view s' = (fs_view s)((r, x) := None)" by blast
qed (auto simp: fs_read_def fs_view_def fs_exists_def loose_path_wf)

section \<open>Backends that keep the first bytes\<close>

text \<open>The trait documents a second write as a no-op. Two of the backends satisfy that outright
  (\<open>INSERT OR IGNORE\<close>, and the early return of the filesystem), so any sequence of writes and
  deletes means the same on both: the map in which a write counts only when the object is
  absent. \<open>MemObjectStore\<close> overwrites instead.\<close>

locale insert_once_store = object_store +
  assumes write_keeps: "invar s \<Longrightarrow> oid_wf x \<Longrightarrow> view s (r, x) \<noteq> None \<Longrightarrow>
    write_loose now r x bs s = Inr s"

datatype store_op = OpWrite int repo_id oid "u8 list" | OpDelete repo_id oid

fun op_wf :: "store_op \<Rightarrow> bool" where
  "op_wf (OpWrite _ _ x _) = oid_wf x"
| "op_wf (OpDelete _ x) = oid_wf x"

fun run_ops ::
  "(int \<Rightarrow> repo_id \<Rightarrow> oid \<Rightarrow> u8 list \<Rightarrow> 's \<Rightarrow> error + 's) \<Rightarrow>
   (repo_id \<Rightarrow> oid \<Rightarrow> 's \<Rightarrow> error + bool \<times> 's) \<Rightarrow> store_op list \<Rightarrow> 's \<Rightarrow> error + 's" where
  "run_ops w d [] s = Inr s"
| "run_ops w d (OpWrite now r x bs # ops) s = res_bind (w now r x bs s) (run_ops w d ops)"
| "run_ops w d (OpDelete r x # ops) s = res_bind (d r x s) (\<lambda>(_, s'). run_ops w d ops s')"

fun spec_op :: "store_op \<Rightarrow> (object_key \<rightharpoonup> u8 list) \<Rightarrow> (object_key \<rightharpoonup> u8 list)" where
  "spec_op (OpWrite _ r x bs) m = (case m (r, x) of None \<Rightarrow> m((r, x) \<mapsto> bs) | Some _ \<Rightarrow> m)"
| "spec_op (OpDelete r x) m = m((r, x) := None)"

context insert_once_store begin

lemma run_op_spec:
  assumes "invar s" "op_wf o1"
  shows "\<exists>s'. run_ops write_loose delete_loose [o1] s = Inr s' \<and> invar s'
    \<and> view s' = spec_op o1 (view s)"
proof (cases o1)
  case (OpWrite now r x bs)
  then show ?thesis
    using assms write_keeps [of s x r now bs] write_ok [of s x now r bs]
    by (cases "view s (r, x)") auto
next
  case (OpDelete r x)
  then show ?thesis using assms delete_ok [of s x r] by auto
qed

lemma run_ops_Cons:
  "run_ops write_loose delete_loose (o1 # ops) s =
     res_bind (run_ops write_loose delete_loose [o1] s) (run_ops write_loose delete_loose ops)"
proof (cases o1)
  case (OpWrite now r x bs)
  then show ?thesis by (cases "write_loose now r x bs s") simp_all
next
  case (OpDelete r x)
  then show ?thesis by (cases "delete_loose r x s") (auto split: prod.splits)
qed

lemma run_ops_spec:
  assumes "invar s" "list_all op_wf ops"
  shows "\<exists>s'. run_ops write_loose delete_loose ops s = Inr s' \<and> invar s'
    \<and> view s' = fold spec_op ops (view s)"
  using assms
proof (induction ops arbitrary: s)
  case (Cons o1 ops)
  from Cons.prems run_op_spec [of s o1] obtain s1 where s1:
    "run_ops write_loose delete_loose [o1] s = Inr s1" "invar s1" "view s1 = spec_op o1 (view s)"
    by auto
  with Cons.prems Cons.IH [of s1] show ?case by (simp add: run_ops_Cons [of o1 ops])
qed simp

end

interpretation sq: insert_once_store
  sq_read sq_write sq_list sq_delete sq_exists sq_view sq_invar
  by unfold_locales (auto simp: sq_view_def sq_write_def find_Some_ex [symmetric])

interpretation fs: insert_once_store
  fs_read fs_write fs_list fs_delete "fs_exists packed" fs_view fs_invar for packed
  by unfold_locales (auto simp: fs_view_def fs_write_def loose_path_wf)

section \<open>Properties\<close>

text \<open>C38: The SQLite and the filesystem object stores are interchangeable. After any sequence of
  writes and deletes of well-formed object ids, run from the empty store, both succeed, both hold
  exactly what the abstract map holds in which only the first write of an object counts, and so
  every read returns the same bytes on both.\<close>

theorem sqlite_fs_equivalent:
  "list_all op_wf ops \<Longrightarrow>
     \<exists>t s. run_ops sq_write sq_delete ops [] = Inr t \<and> run_ops fs_write fs_delete ops [] = Inr s
       \<and> sq_view t = fold spec_op ops Map.empty \<and> fs_view s = fold spec_op ops Map.empty
       \<and> (\<forall>r x. oid_wf x \<longrightarrow> sq_read t r x = fs_read s r x)"
proof -
  assume ops: "list_all op_wf ops"
  have "sq_view [] = Map.empty" "fs_view [] = Map.empty" "sq_invar []" "fs_invar []"
    by (auto simp: sq_view_def fs_view_def sq_invar_def fs_invar_def)
  with sq.run_ops_spec [OF _ ops, of "[]"] fs.run_ops_spec [OF _ ops, of "[]"] obtain t s where
    "run_ops sq_write sq_delete ops [] = Inr t" "sq_invar t" "sq_view t = fold spec_op ops Map.empty"
    "run_ops fs_write fs_delete ops [] = Inr s" "fs_invar s" "fs_view s = fold spec_op ops Map.empty"
    by auto
  then show ?thesis by (auto simp: sq.read_view fs.read_view)
qed

definition sample_oid :: oid where
  "sample_oid = Oid ''4b825dc642cb6eb9a060e54bf8d69288fbee4904''"

lemma sample_oid_wf: "oid_wf sample_oid"
  by (simp add: sample_oid_def oid_ok_def is_hexdigit_def is_upper_def hex_val_def Let_def)

theorem sqlite_fs_equivalent_witness:
  "\<exists>t s. run_ops sq_write sq_delete [OpWrite 7 (RepoId ''repo'') sample_oid [1, 2]] [] = Inr t
     \<and> run_ops fs_write fs_delete [OpWrite 7 (RepoId ''repo'') sample_oid [1, 2]] [] = Inr s
     \<and> sq_read t (RepoId ''repo'') sample_oid = fs_read s (RepoId ''repo'') sample_oid"
  using sqlite_fs_equivalent [of "[OpWrite 7 (RepoId ''repo'') sample_oid [1, 2]]"] sample_oid_wf
  by auto

text \<open>A write is visible and isolated on the SQLite backend: after \<open>write_loose\<close> of an object
  that is absent or has the same bytes, reading it returns the bytes written, every other object
  of every repository reads as before, and a repeated write changes nothing.\<close>

theorem sqlite_write_then_read:
  assumes "sq_invar t" "oid_wf x" "sq_read t r x \<in> {Inr None, Inr (Some bs)}"
  shows "\<exists>t'. sq_write now r x bs t = Inr t' \<and> sq_invar t' \<and> sq_read t' r x = Inr (Some bs)
    \<and> (\<forall>r' x'. oid_wf x' \<longrightarrow> (r', x') \<noteq> (r, x) \<longrightarrow> sq_read t' r' x' = sq_read t r' x')
    \<and> sq_write now' r x bs t' = Inr t'"
proof -
  have "sq_view t (r, x) \<in> {None, Some bs}"
    using assms sq.read_view [of t x r] by auto
  then obtain t' where t': "sq_write now r x bs t = Inr t'" "sq_invar t'"
    "sq_view t' = (sq_view t)((r, x) \<mapsto> bs)"
    using sq.read_after_write [OF assms(1,2)] by metis
  moreover from this have "sq_write now' r x bs t' = Inr t'"
    using assms(2) by (intro sq.write_keeps) auto
  ultimately show ?thesis using assms by (auto simp: sq.read_view)
qed

theorem sqlite_write_then_read_witness:
  "\<exists>t'. sq_write 5 (RepoId ''repo'') sample_oid [1] [] = Inr t'
     \<and> sq_read t' (RepoId ''repo'') sample_oid = Inr (Some [1])"
  using sqlite_write_then_read [of "[]" sample_oid "RepoId ''repo''" "[1]" 5 0] sample_oid_wf
  by (auto simp: sq_invar_def sq_read_def)

end
