(* ===== verification/Delta.thy ===== *)
theory Delta
  imports ObjectStore "HOL-Library.Sublist"
begin

unbundle bit_operations_syntax

text \<open>
  The variable-length integers and the delta engine of \<open>src/native_pack/parse.rs\<close>:
  \<open>parse_entry_header\<close>, \<open>parse_ofs_delta_offset\<close>, \<open>read_delta_varint\<close> and \<open>apply_delta\<close>. The code walks a
  slice with an index; the model walks the list of bytes that are left and keeps the index where
  the code returns it or reports it. Values are \<open>u64\<close>/\<open>u32\<close> words and wrap as the code's do.
\<close>

section \<open>Definitions\<close>

definition MAX_ENTRY_BYTES :: nat where
  "MAX_ENTRY_BYTES = 2 ^ 30"

abbreviation low7 :: "u8 \<Rightarrow> u64" where
  "low7 b \<equiv> ucast (b AND 0x7F)"

abbreviation cont_bit :: "u8 \<Rightarrow> bool" where
  "cont_bit b \<equiv> b AND 0x80 \<noteq> 0"

text \<open>The \<open>while\<close> loop of \<open>parse_entry_header\<close>: \<open>rest\<close> is \<open>bytes[idx..]\<close>.\<close>

fun entry_size_loop :: "u8 list \<Rightarrow> u8 \<Rightarrow> u64 \<Rightarrow> nat \<Rightarrow> nat \<Rightarrow> error + u64 \<times> nat" where
  "entry_size_loop rest byte sz shift idx =
     (if \<not> cont_bit byte then Inr (sz, idx)
      else (case rest of
              [] \<Rightarrow> Inl (PackParse TruncatedEntryHeader)
            | b # rest' \<Rightarrow>
                let sz' = sz OR push_bit shift (low7 b); shift' = shift + 7
                in if shift' > 63 then Inl (PackParse EntrySizeOverflow)
                   else entry_size_loop rest' b sz' shift' (idx + 1)))"

declare entry_size_loop.simps [simp del]

definition parse_entry_header :: "u8 list \<Rightarrow> error + u8 \<times> u64 \<times> nat" where
  "parse_entry_header bytes =
     (case bytes of
        [] \<Rightarrow> Inl (PackParse EmptyHeaderBuffer)
      | first # rest \<Rightarrow>
          let kind = drop_bit 4 first AND 7
          in res_bind (entry_size_loop rest first (ucast (first AND 0x0F)) 4 1)
               (\<lambda>(sz, idx). Inr (kind, sz, idx)))"

text \<open>\<open>u64::checked_add\<close> and \<open>u64::checked_shl\<close>. The latter fails only when the shift amount is not
  below 64: bits shifted out of the value are lost without a report.\<close>

definition checked_add_u64 :: "u64 \<Rightarrow> u64 \<Rightarrow> u64 option" where
  "checked_add_u64 a b = (if unat a + unat b < 2 ^ 64 then Some (a + b) else None)"

definition checked_shl_u64 :: "u64 \<Rightarrow> nat \<Rightarrow> u64 option" where
  "checked_shl_u64 a n = (if n < 64 then Some (push_bit n a) else None)"

fun ofs_loop :: "u8 list \<Rightarrow> u8 \<Rightarrow> u64 \<Rightarrow> nat \<Rightarrow> error + u64 \<times> nat" where
  "ofs_loop rest byte val idx =
     (if \<not> cont_bit byte then Inr (val, idx)
      else (case rest of
              [] \<Rightarrow> Inl (PackParse TruncatedOfsOffset)
            | b # rest' \<Rightarrow>
                res_bind (ok_or (PackParse OfsOffsetOverflow)
                    (Option.bind (checked_add_u64 val 1) (\<lambda>v. checked_shl_u64 v 7)))
                  (\<lambda>v. ofs_loop rest' b (v OR low7 b) (idx + 1))))"

declare ofs_loop.simps [simp del]

definition parse_ofs_delta_offset :: "u8 list \<Rightarrow> error + u64 \<times> nat" where
  "parse_ofs_delta_offset bytes =
     (case bytes of
        [] \<Rightarrow> Inl (PackParse EmptyOfsBuffer)
      | byte # rest \<Rightarrow> ofs_loop rest byte (low7 byte) 1)"

text \<open>The loop of \<open>read_delta_varint\<close>; \<open>pos\<close> is the index for the error message and \<open>n\<close> the bytes
  consumed so far.\<close>

fun varint_loop :: "u8 list \<Rightarrow> u64 \<Rightarrow> nat \<Rightarrow> nat \<Rightarrow> nat \<Rightarrow> error + u64 \<times> nat" where
  "varint_loop [] val shift pos n = Inl (PackParse (VarintTruncated pos))"
| "varint_loop (byte # rest) val shift pos n =
     (let val = val OR push_bit shift (low7 byte)
      in if \<not> cont_bit byte then Inr (val, Suc n)
         else if shift + 7 > 63 then Inl (PackParse VarintOverflow)
         else varint_loop rest val (shift + 7) (Suc pos) (Suc n))"

definition read_delta_varint :: "u8 list \<Rightarrow> nat \<Rightarrow> error + u64 \<times> nat" where
  "read_delta_varint bytes idx = varint_loop (drop idx bytes) 0 0 idx 0"

text \<open>The two \<open>for\<close> loops of a COPY: for every bit of the opcode in \<open>first..first+count\<close> that is set,
  one byte of the stream, least significant first.\<close>

fun copy_field :: "u8 \<Rightarrow> nat \<Rightarrow> nat \<Rightarrow> nat \<Rightarrow> pack_error \<Rightarrow> u8 list \<Rightarrow> u32 \<Rightarrow> error + u32 \<times> u8 list" where
  "copy_field op first shift 0 err rest val = Inr (val, rest)"
| "copy_field op first shift (Suc count) err rest val =
     (if op AND push_bit (first + shift) 1 \<noteq> 0
      then (case rest of
              [] \<Rightarrow> Inl (PackParse err)
            | b # rest' \<Rightarrow>
                copy_field op first (Suc shift) count err rest'
                  (val OR push_bit (shift * 8) (ucast b)))
      else copy_field op first (Suc shift) count err rest val)"

lemma copy_field_length:
  "copy_field op first shift count err rest val = Inr (v, rest') \<Longrightarrow> length rest' \<le> length rest"
  by (induction op first shift count err rest val rule: copy_field.induct)
    (force split: if_splits list.splits)+

text \<open>One instruction after its opcode: the bytes it appends and the rest of the stream.\<close>

definition delta_copy :: "u8 list \<Rightarrow> u8 \<Rightarrow> u8 list \<Rightarrow> error + u8 list \<times> u8 list" where
  "delta_copy base op rest =
     res_bind (copy_field op 0 0 4 CopyTruncatedOffset rest 0) (\<lambda>(offset, rest1).
     res_bind (copy_field op 4 0 3 CopyTruncatedSize rest1 0) (\<lambda>(sz, rest2).
       let sz = (if sz = 0 then 0x10000 else sz);
           start = unat offset;
           stop = start + unat sz
       in if stop > length base
          then Inl (PackParse (CopyOutOfRange start stop (length base)))
          else Inr (drop start (take stop base), rest2)))"

definition delta_insert :: "u8 \<Rightarrow> u8 list \<Rightarrow> error + u8 list \<times> u8 list" where
  "delta_insert op rest =
     (let n = unat (op AND 0x7F)
      in if n = 0 then Inl (PackParse InsertZero)
         else if n > length rest then Inl (PackParse (InsertTruncated n (length rest)))
         else Inr (take n rest, drop n rest))"

definition delta_step :: "u8 list \<Rightarrow> u8 \<Rightarrow> u8 list \<Rightarrow> error + u8 list \<times> u8 list" where
  "delta_step base op rest =
     (if op AND 0x80 \<noteq> 0 then delta_copy base op rest else delta_insert op rest)"

lemma delta_step_length: "delta_step base op rest = Inr (piece, rest') \<Longrightarrow> length rest' \<le> length rest"
  by (auto simp: delta_step_def delta_copy_def delta_insert_def res_simps Let_def
      dest!: copy_field_length split: if_splits prod.splits)

function delta_loop :: "u8 list \<Rightarrow> u8 list \<Rightarrow> u8 list \<Rightarrow> error + u8 list" where
  "delta_loop base [] out = Inr out"
| "delta_loop base (op # rest) out =
     res_bind (delta_step base op rest) (\<lambda>(piece, rest'). delta_loop base rest' (out @ piece))"
  by pat_completeness auto
termination
  by (relation "measure (\<lambda>(base, rest, out). length rest)") (auto dest!: delta_step_length)

text \<open>\<open>usize\<close> has 64 bits, so \<open>base.len() as u64\<close>, \<open>out.len() as u64\<close> and \<open>usize::try_from\<close> of a \<open>u64\<close> lose
  nothing; the comparisons are of the numbers.\<close>

definition apply_delta :: "u8 list \<Rightarrow> u8 list \<Rightarrow> error + u8 list" where
  "apply_delta base delta =
     res_bind (read_delta_varint delta 0) (\<lambda>(source_size, idx).
       if unat source_size \<noteq> length base
       then Inl (PackParse (SourceSizeMismatch source_size (length base)))
       else res_bind (read_delta_varint delta idx) (\<lambda>(target_size, consumed).
         if unat target_size > MAX_ENTRY_BYTES
         then Inl (PackParse (TargetExceedsCap (unat target_size)))
         else res_bind (delta_loop base (drop (idx + consumed) delta) []) (\<lambda>out.
           if length out \<noteq> unat target_size
           then Inl (PackParse (TargetSizeMismatch (length out) target_size))
           else Inr out)))"

section \<open>Words and their bits\<close>

lemma or_push_of_nat:
  assumes "v < 2 ^ s"
  shows "(of_nat v :: 'a::len word) OR push_bit s (of_nat m) = of_nat (v + m * 2 ^ s)"
proof -
  have "\<not> bit (of_nat v :: 'a word) n \<or> \<not> bit (push_bit s (of_nat m) :: 'a word) n" for n
  proof (cases "n < s")
    case True
    then show ?thesis by (simp add: bit_push_bit_iff)
  next
    case False
    then have "v < 2 ^ n" using assms by (meson le_less_trans less_le_trans not_less one_le_numeral power_increasing leD linorder_not_le)
    then have "\<not> bit v n" by (simp add: bit_iff_odd)
    then show ?thesis by (simp add: bit_of_nat_iff)
  qed
  then have "(of_nat v :: 'a word) OR push_bit s (of_nat m) = of_nat v + push_bit s (of_nat m)"
    by (intro disjunctive_add [symmetric]) blast
  then show ?thesis by (simp add: push_bit_eq_mult)
qed

lemma unat_and_7F: "unat (b AND 0x7F :: u8) = unat b mod 128"
proof -
  have e: "b AND 0x7F = take_bit 7 b" by (simp add: take_bit_eq_mask mask_eq_exp_minus_1)
  show ?thesis by (simp only: e unsigned_take_bit_eq) (simp add: take_bit_eq_mod)
qed
lemma and_bit_iff: "(b AND push_bit n 1 \<noteq> 0) = bit (b :: 'a::len word) n"
  by (simp add: push_bit_eq_mult and_exp_eq_0_iff_not_bit)

lemma cont_bit_iff: "cont_bit b \<longleftrightarrow> 128 \<le> unat b"
proof -
  have "(0x80 :: u8) = push_bit 7 1" by simp
  then have "cont_bit b \<longleftrightarrow> bit (unat b) 7"
    by (simp only: and_bit_iff) (simp add: bit_unsigned_iff)
  also have "\<dots> \<longleftrightarrow> odd (unat b div 128)" by (simp add: bit_iff_odd)
  also have "\<dots> \<longleftrightarrow> 128 \<le> unat b"
  proof -
    have "unat b < 2 ^ LENGTH(8)" by (rule unsigned_less)
    then have "unat b div 128 = (if 128 \<le> unat b then 1 else 0)"
      by (auto intro: div_nat_eqI)
    then show ?thesis by simp
  qed
  finally show ?thesis .
qed

lemma low7_of_nat: "m < 256 \<Longrightarrow> low7 (of_nat m) = of_nat (m mod 128)"
proof -
  assume "m < 256"
  then have "unat (of_nat m :: u8) = m" by (simp add: unat_of_nat)
  then have "unat (of_nat m AND 0x7F :: u8) = m mod 128" by (simp only: unat_and_7F)
  then show ?thesis by (metis of_nat_unat)
qed

fun encode_varint :: "nat \<Rightarrow> u8 list" where
  "encode_varint n =
     (if n < 128 then [of_nat n] else of_nat (n mod 128 + 128) # encode_varint (n div 128))"
declare encode_varint.simps [simp del]

lemma cont_bit_of_nat: "m < 256 \<Longrightarrow> cont_bit (of_nat m) \<longleftrightarrow> 128 \<le> m"
  by (simp add: cont_bit_iff unat_of_nat)

lemma varint_sum:
  fixes n :: nat
  shows "v + n mod 128 * 2 ^ s + n div 128 * 2 ^ (s + 7) = v + n * 2 ^ s"
proof -
  have "n * 2 ^ s = (n div 128 * 128 + n mod 128) * 2 ^ s" by simp
  also have "\<dots> = n div 128 * 2 ^ (s + 7) + n mod 128 * 2 ^ s"
    by (simp only: power_add distrib_right) simp
  finally show ?thesis by simp
qed

lemma varint_low:
  assumes "v < 2 ^ s"
  shows "v + n mod 128 * 2 ^ s < (2::nat) ^ (s + 7)"
proof -
  have "n mod 128 * 2 ^ s \<le> 127 * 2 ^ s" by simp
  with assms have "v + n mod 128 * 2 ^ s < 2 ^ s + 127 * 2 ^ s" by (rule add_less_le_mono)
  then show ?thesis by (simp add: power_add)
qed

lemma varint_loop_encode:
  assumes "v < 2 ^ s" "v + n * 2 ^ s < 2 ^ 64" "s < 64"
  shows "varint_loop (encode_varint n @ rest) (of_nat v) s pos k
    = Inr (of_nat (v + n * 2 ^ s), k + length (encode_varint n))"
  using assms
proof (induction n arbitrary: v s pos k rule: encode_varint.induct)
  case (1 n)
  show ?case
  proof (cases "n < 128")
    case True
    with 1 show ?thesis
      by (subst (1 2) encode_varint.simps)
        (simp add: low7_of_nat cont_bit_of_nat or_push_of_nat Let_def del: of_nat_add of_nat_mult)
  next
    case False
    have e: "v + n mod 128 * 2 ^ s + n div 128 * 2 ^ (s + 7) = v + n * 2 ^ s"
      by (rule varint_sum)
    have "(1::nat) * 2 ^ (s + 7) \<le> n * 2 ^ s"
      using False by (simp add: power_add)
    then have "(2::nat) ^ (s + 7) < 2 ^ 64" using 1 by simp
    then have s: "s + 7 < 64" by (rule power_less_imp_less_exp [rotated]) simp
    have v: "v + n mod 128 * 2 ^ s < 2 ^ (s + 7)" using 1(2) by (rule varint_low)
    have "varint_loop (encode_varint (n div 128) @ rest) (of_nat (v + n mod 128 * 2 ^ s)) (s + 7) (Suc pos) (Suc k)
      = Inr (of_nat (v + n * 2 ^ s), Suc k + length (encode_varint (n div 128)))"
      using "1.IH" [OF False v _ s, of "Suc pos" "Suc k"] e 1(3) by simp
    with False s 1 show ?thesis
      by (subst (1 2) encode_varint.simps)
        (simp add: low7_of_nat cont_bit_of_nat or_push_of_nat Let_def del: of_nat_add of_nat_mult)
  qed
qed

definition encode_entry_header :: "nat \<Rightarrow> nat \<Rightarrow> u8 list" where
  "encode_entry_header kind n =
     (if n < 16 then [of_nat (kind * 16 + n)]
      else of_nat (128 + kind * 16 + n mod 16) # encode_varint (n div 16))"

lemma entry_size_loop_encode:
  assumes "v < 2 ^ s" "s + 7 * length (encode_varint n) \<le> 63" "cont_bit byte"
  shows "entry_size_loop (encode_varint n @ rest) byte (of_nat v) s k
    = Inr (of_nat (v + n * 2 ^ s), k + length (encode_varint n))"
  using assms
proof (induction n arbitrary: v s k byte rule: encode_varint.induct)
  case (1 n)
  show ?case
  proof (cases "n < 128")
    case True
    then have e: "encode_varint n = [of_nat n]" by (subst encode_varint.simps) simp
    with True 1(2-) show ?thesis
      by (simp add: entry_size_loop.simps [of _ byte] entry_size_loop.simps [of _ "of_nat n"]
          low7_of_nat cont_bit_of_nat or_push_of_nat Let_def del: of_nat_add of_nat_mult)
  next
    case False
    then have e: "encode_varint n = of_nat (n mod 128 + 128) # encode_varint (n div 128)"
      by (subst encode_varint.simps) simp
    have sum: "v + n mod 128 * 2 ^ s + n div 128 * 2 ^ (s + 7) = v + n * 2 ^ s"
      by (rule varint_sum)
    have v: "v + n mod 128 * 2 ^ s < 2 ^ (s + 7)" using 1(2) by (rule varint_low)
    have c: "cont_bit (of_nat (n mod 128 + 128))" by (simp add: cont_bit_of_nat del: of_nat_add)
    have "entry_size_loop (encode_varint (n div 128) @ rest) (of_nat (n mod 128 + 128))
        (of_nat (v + n mod 128 * 2 ^ s)) (s + 7) (Suc k)
      = Inr (of_nat (v + n * 2 ^ s), Suc k + length (encode_varint (n div 128)))"
      using "1.IH" [OF False v _ c, of "Suc k"] 1(3) sum by (simp add: e)
    with 1(2-) show ?thesis
      by (simp add: e entry_size_loop.simps [of _ byte] low7_of_nat or_push_of_nat Let_def
          del: of_nat_add of_nat_mult)
  qed
qed

fun encode_ofs_cont :: "nat \<Rightarrow> u8 list" where
  "encode_ofs_cont m =
     (if m < 128 then [of_nat (m + 128)]
      else encode_ofs_cont (m div 128 - 1) @ [of_nat (m mod 128 + 128)])"
declare encode_ofs_cont.simps [simp del]

definition encode_ofs :: "nat \<Rightarrow> u8 list" where
  "encode_ofs n =
     (if n < 128 then [of_nat n] else encode_ofs_cont (n div 128 - 1) @ [of_nat (n mod 128)])"

lemma low7_eq: "low7 b = of_nat (unat b mod 128)"
proof -
  have "unat b < 2 ^ LENGTH(8)" by (rule unsigned_less)
  then show ?thesis using low7_of_nat [of "unat b"] by simp
qed

lemma ofs_loop_step:
  assumes "cont_bit byte" "m < 2 ^ 64 - 1"
  shows "ofs_loop (b # rest) byte (of_nat m) k =
    ofs_loop rest b (of_nat ((m + 1) * 128 + unat b mod 128)) (k + 1)"
proof -
  have "unat (of_nat m :: u64) = m" using assms by (simp add: unat_of_nat)
  then have "checked_add_u64 (of_nat m) 1 = Some (of_nat (m + 1))"
    using assms by (simp add: checked_add_u64_def)
  moreover have "push_bit 7 (of_nat (m + 1)) OR low7 b = (of_nat ((m + 1) * 128 + unat b mod 128) :: u64)"
    using or_push_of_nat [of "unat b mod 128" 7 "m + 1"]
    by (simp add: low7_eq or.commute add.commute del: of_nat_add of_nat_mult)
  ultimately show ?thesis
    using assms(1) by (simp add: ofs_loop.simps [of _ byte] checked_shl_u64_def del: of_nat_add of_nat_mult)
qed

lemma ofs_prefix:
  "m < 2 ^ 64 - 1 \<Longrightarrow> parse_ofs_delta_offset (encode_ofs_cont m @ b # rest) =
    ofs_loop rest b (of_nat ((m + 1) * 128 + unat b mod 128)) (length (encode_ofs_cont m) + 1)"
proof (induction m arbitrary: b rest rule: encode_ofs_cont.induct)
  case (1 m)
  show ?case
  proof (cases "m < 128")
    case True
    then have "encode_ofs_cont m = [of_nat (m + 128)]" by (subst encode_ofs_cont.simps) simp
    with True show ?thesis
      using ofs_loop_step [of "of_nat (m + 128)" m b rest 1]
      by (simp add: parse_ofs_delta_offset_def low7_of_nat cont_bit_of_nat del: of_nat_add of_nat_mult)
  next
    case False
    define c :: u8 where "c = of_nat (m mod 128 + 128)"
    have e: "encode_ofs_cont m = encode_ofs_cont (m div 128 - 1) @ [c]"
      using False by (subst encode_ofs_cont.simps) (simp add: c_def)
    have c: "cont_bit c" "unat c mod 128 = m mod 128"
      by (simp_all add: c_def cont_bit_of_nat unat_of_nat del: of_nat_add)
    have m: "(m div 128 - 1 + 1) * 128 + unat c mod 128 = m"
      using False by (simp add: c(2))
    have "parse_ofs_delta_offset (encode_ofs_cont (m div 128 - 1) @ c # b # rest) =
      ofs_loop (b # rest) c (of_nat m) (length (encode_ofs_cont (m div 128 - 1)) + 1)"
      using "1.IH" [OF False, of c "b # rest"] 1(2) by (simp only: m)
    then show ?thesis using ofs_loop_step [OF c(1) 1(2)] by (simp add: e)
  qed
qed

lemma ofs_roundtrip:
  assumes "n < 2 ^ 71"
  shows "parse_ofs_delta_offset (encode_ofs n @ rest) = Inr (of_nat n, length (encode_ofs n))"
proof (cases "n < 128")
  case True
  then show ?thesis
    by (simp add: encode_ofs_def parse_ofs_delta_offset_def ofs_loop.simps low7_of_nat cont_bit_of_nat)
next
  case False
  define m where "m = n div 128 - 1"
  have "n div 128 < 2 ^ 64" using assms by simp
  then have m: "m < 2 ^ 64 - 1" using False by (simp add: m_def)
  have n: "(m + 1) * 128 + n mod 128 = n" using False by (simp add: m_def)
  have u: "unat (of_nat (n mod 128) :: u8) mod 128 = n mod 128" by (simp add: unat_of_nat)
  have "parse_ofs_delta_offset (encode_ofs_cont m @ of_nat (n mod 128) # rest) =
    ofs_loop rest (of_nat (n mod 128)) (of_nat n) (length (encode_ofs_cont m) + 1)"
    using ofs_prefix [OF m, of "of_nat (n mod 128)" rest] by (simp only: u n)
  moreover have "encode_ofs n = encode_ofs_cont m @ [of_nat (n mod 128)]"
    using False by (simp add: encode_ofs_def m_def)
  moreover have "\<not> cont_bit (of_nat (n mod 128))" by (simp add: cont_bit_of_nat)
  ultimately show ?thesis by (simp add: ofs_loop.simps [of _ "of_nat (n mod 128)"])
qed

section \<open>An encoder for deltas\<close>

datatype delta_op = OpCopy nat nat | OpInsert "u8 list"

fun delta_op_ok :: "u8 list \<Rightarrow> delta_op \<Rightarrow> bool" where
  "delta_op_ok base (OpCopy off n) =
     (0 < n \<and> n < 2 ^ 24 \<and> off < 2 ^ 32 \<and> off + n \<le> length base)"
| "delta_op_ok base (OpInsert bs) = (0 < length bs \<and> length bs < 128)"

fun delta_op_out :: "u8 list \<Rightarrow> delta_op \<Rightarrow> u8 list" where
  "delta_op_out base (OpCopy off n) = take n (drop off base)"
| "delta_op_out base (OpInsert bs) = bs"

definition field_byte :: "nat \<Rightarrow> nat \<Rightarrow> nat" where
  "field_byte n i = n div 256 ^ i mod 256"

definition field_bits :: "nat \<Rightarrow> nat \<Rightarrow> bool list" where
  "field_bits n count = map (\<lambda>i. field_byte n i \<noteq> 0) [0..<count]"

definition field_bytes :: "nat \<Rightarrow> nat \<Rightarrow> nat \<Rightarrow> u8 list" where
  "field_bytes n lo hi = map (\<lambda>i. of_nat (field_byte n i)) (filter (\<lambda>i. field_byte n i \<noteq> 0) [lo..<hi])"

fun encode_delta_op :: "delta_op \<Rightarrow> u8 list" where
  "encode_delta_op (OpCopy off n) =
     horner_sum of_bool 2 (field_bits off 4 @ field_bits n 3 @ [True])
       # field_bytes off 0 4 @ field_bytes n 0 3"
| "encode_delta_op (OpInsert bs) = of_nat (length bs) # bs"

definition encode_delta :: "nat \<Rightarrow> nat \<Rightarrow> delta_op list \<Rightarrow> u8 list" where
  "encode_delta src_len tgt_len ops =
     encode_varint src_len @ encode_varint tgt_len @ concat (map encode_delta_op ops)"

lemma field_byte_step: "n mod 256 ^ i + field_byte n i * 256 ^ i = n mod 256 ^ Suc i"
proof -
  have "n mod (256 ^ i * 256) = 256 ^ i * (n div 256 ^ i mod 256) + n mod 256 ^ i"
    by (rule mod_mult2_eq)
  then show ?thesis by (simp add: field_byte_def mult.commute)
qed

lemma copy_field_encode:
  assumes "\<And>i. i < lo + count \<Longrightarrow> bit op (first + i) = (field_byte n i \<noteq> 0)"
  shows "copy_field op first lo count err (field_bytes n lo (lo + count) @ rest) (of_nat (n mod 256 ^ lo))
    = Inr (of_nat (n mod 256 ^ (lo + count)), rest)"
  using assms
proof (induction count arbitrary: lo)
  case 0
  then show ?case by (simp add: field_bytes_def)
next
  case (Suc count)
  have split: "field_bytes n lo (lo + Suc count) =
    (if field_byte n lo = 0 then [] else [of_nat (field_byte n lo)]) @ field_bytes n (Suc lo) (Suc lo + count)"
    by (simp add: field_bytes_def upt_conv_Cons del: upt_Suc)
  have bit: "(op AND push_bit (first + lo) 1 \<noteq> 0) = (field_byte n lo \<noteq> 0)"
    unfolding and_bit_iff by (rule Suc.prems) simp
  have IH: "copy_field op first (Suc lo) count err (field_bytes n (Suc lo) (Suc lo + count) @ rest)
      (of_nat (n mod 256 ^ Suc lo)) = Inr (of_nat (n mod 256 ^ (Suc lo + count)), rest)"
    using Suc.prems by (intro Suc.IH) simp
  have val: "(of_nat (n mod 256 ^ lo) :: u32) OR push_bit (lo * 8) (ucast (of_nat (field_byte n lo) :: u8))
      = of_nat (n mod 256 ^ Suc lo)"
  proof -
    have "unat (of_nat (field_byte n lo) :: u8) = field_byte n lo"
      by (simp add: unat_of_nat field_byte_def)
    then have u: "ucast (of_nat (field_byte n lo) :: u8) = (of_nat (field_byte n lo) :: u32)"
      by (metis of_nat_unat)
    have p: "(256::nat) ^ lo = 2 ^ (lo * 8)" by (simp add: mult.commute [of lo] power_mult)
    have "(of_nat (n mod 256 ^ lo) :: u32) OR push_bit (lo * 8) (of_nat (field_byte n lo))
        = of_nat (n mod 256 ^ lo + field_byte n lo * 2 ^ (lo * 8))"
      by (rule or_push_of_nat) (simp add: p)
    then show ?thesis by (simp only: u p [symmetric] field_byte_step)
  qed
  show ?case
  proof (cases "field_byte n lo = 0")
    case True
    then have "n mod 256 ^ lo = n mod 256 ^ Suc lo" using field_byte_step [of n lo] by simp
    then have "copy_field op first lo (Suc count) err (field_bytes n lo (lo + Suc count) @ rest)
        (of_nat (n mod 256 ^ lo)) = copy_field op first (Suc lo) count err
        (field_bytes n (Suc lo) (Suc lo + count) @ rest) (of_nat (n mod 256 ^ Suc lo))"
      using True bit by (simp only: copy_field.simps(2) split if_True if_False append_Nil simp_thms)
    with IH show ?thesis by (simp only: add_Suc_right add_Suc)
  next
    case False
    then have "copy_field op first lo (Suc count) err (field_bytes n lo (lo + Suc count) @ rest)
        (of_nat (n mod 256 ^ lo)) = copy_field op first (Suc lo) count err
        (field_bytes n (Suc lo) (Suc lo + count) @ rest) (of_nat (n mod 256 ^ Suc lo))"
      using bit by (simp only: copy_field.simps(2) split if_True if_False append_Cons append_Nil
          list.case val simp_thms)
    with IH show ?thesis by (simp only: add_Suc_right add_Suc)
  qed
qed

lemma opcode_bit:
  assumes "i < 8" "length ps = 8"
  shows "bit (horner_sum of_bool 2 ps :: u8) i = ps ! i"
  using assms by (simp add: bit_horner_sum_bit_word_iff)

lemma field_bits_nth: "i < count \<Longrightarrow> field_bits n count ! i = (field_byte n i \<noteq> 0)"
  by (simp add: field_bits_def)

lemma length_field_bits [simp]: "length (field_bits n count) = count"
  by (simp add: field_bits_def)

lemma delta_copy_encode:
  assumes "delta_op_ok base (OpCopy off n)" "encode_delta_op (OpCopy off n) = op # body"
  shows "op AND 0x80 \<noteq> 0" "delta_copy base op (body @ rest) = Inr (delta_op_out base (OpCopy off n), rest)"
proof -
  define ps where "ps = field_bits off 4 @ field_bits n 3 @ [True]"
  have op: "op = horner_sum of_bool 2 ps" and body: "body = field_bytes off 0 4 @ field_bytes n 0 3"
    using assms(2) by (simp_all add: ps_def)
  have len: "length ps = 8" by (simp add: ps_def)
  have bits: "bit op i = ps ! i" if "i < 8" for i
    using that len by (simp add: op opcode_bit)
  have "bit op 7" using bits [of 7] by (simp add: ps_def nth_append)
  then show "op AND 0x80 \<noteq> 0" using and_bit_iff [of op 7] by simp
  have lo: "bit op (0 + i) = (field_byte off i \<noteq> 0)" if "i < 0 + 4" for i
    using that bits [of i] by (simp add: ps_def nth_append field_bits_nth)
  have hi: "bit op (4 + i) = (field_byte n i \<noteq> 0)" if "i < 0 + 3" for i
    using that bits [of "4 + i"] by (simp add: ps_def nth_append field_bits_nth)
  have "copy_field op 0 0 4 CopyTruncatedOffset (field_bytes off 0 4 @ field_bytes n 0 3 @ rest) 0
      = Inr (of_nat off, field_bytes n 0 3 @ rest)"
    using copy_field_encode [where lo = 0 and count = 4 and op = op and first = 0 and n = off
        and err = CopyTruncatedOffset, OF lo] assms(1) by simp
  moreover have "copy_field op 4 0 3 CopyTruncatedSize (field_bytes n 0 3 @ rest) 0
      = Inr (of_nat n, rest)"
    using copy_field_encode [where lo = 0 and count = 3 and op = op and first = 4 and n = n
        and err = CopyTruncatedSize, OF hi] assms(1) by simp
  moreover have "unat (of_nat off :: u32) = off" "unat (of_nat n :: u32) = n"
    using assms(1) by (simp_all add: unat_of_nat)
  moreover from this have "(of_nat n :: u32) \<noteq> 0" using assms(1) by (metis delta_op_ok.simps(1) less_numeral_extra(3) unat_0)
  ultimately show "delta_copy base op (body @ rest) = Inr (delta_op_out base (OpCopy off n), rest)"
    using assms(1) by (simp add: delta_copy_def body drop_take Let_def)
qed

lemma delta_step_encode:
  assumes "delta_op_ok base d" "encode_delta_op d = op # body"
  shows "delta_step base op (body @ rest) = Inr (delta_op_out base d, rest)"
proof (cases d)
  case (OpCopy off n)
  with assms have ok: "delta_op_ok base (OpCopy off n)" and e: "encode_delta_op (OpCopy off n) = op # body"
    by simp_all
  show ?thesis using delta_copy_encode [OF ok e] OpCopy by (simp add: delta_step_def)
next
  case (OpInsert bs)
  with assms have op: "op = of_nat (length bs)" "body = bs" and len: "0 < length bs" "length bs < 128"
    by auto
  then have "op AND 0x80 = 0" using cont_bit_of_nat [of "length bs"] by simp
  moreover have "unat (op AND 0x7F) = length bs"
    using len by (simp add: unat_and_7F op unat_of_nat)
  ultimately show ?thesis using op OpInsert len by (simp add: delta_step_def delta_insert_def)
qed

lemma encode_delta_op_Cons: "\<exists>op body. encode_delta_op d = op # body"
  by (cases d) auto

lemma delta_loop_encode:
  assumes "list_all (delta_op_ok base) ops"
  shows "delta_loop base (concat (map encode_delta_op ops)) out
    = Inr (out @ concat (map (delta_op_out base) ops))"
  using assms
proof (induction ops arbitrary: out)
  case (Cons d ops)
  obtain op body where e: "encode_delta_op d = op # body" using encode_delta_op_Cons by blast
  with Cons delta_step_encode [of base d op body "concat (map encode_delta_op ops)"]
  show ?case by simp
qed simp

lemma read_varint_encode:
  assumes "n < 2 ^ 64"
  shows "read_delta_varint (pre @ encode_varint n @ rest) (length pre) = Inr (of_nat n, length (encode_varint n))"
  using varint_loop_encode [where v = 0 and s = 0 and n = n and k = 0] assms by (simp add: read_delta_varint_def)

section \<open>Properties\<close>

lemma length_encode_varint: "n < 128 ^ Suc k \<Longrightarrow> length (encode_varint n) \<le> Suc k"
proof (induction k arbitrary: n)
  case 0
  then show ?case by (subst encode_varint.simps) simp
next
  case (Suc k)
  then have "n div 128 < 128 ^ Suc k" by (simp add: div_less_iff_less_mult)
  from Suc.IH [OF this] show ?case by (subst encode_varint.simps) simp
qed

lemma entry_header_bits:
  assumes "c < 2" "k < 8" "l < 16"
  defines "b \<equiv> of_nat (128 * c + k * 16 + l) :: u8"
  shows "drop_bit 4 b AND 7 = of_nat k" "ucast (b AND 0x0F) = (of_nat l :: u64)" "cont_bit b \<longleftrightarrow> c = 1"
proof -
  have lt: "128 * c + k * 16 + l < 256" using assms by simp
  then have u: "unat b = 128 * c + k * 16 + l" by (simp add: b_def unat_of_nat del: of_nat_add of_nat_mult)
  have e: "x AND 7 = take_bit 3 x" "x AND 0x0F = take_bit 4 x" for x :: u8
    by (simp_all add: take_bit_eq_mask mask_eq_exp_minus_1)
  have "unat (drop_bit 4 b AND 7) = unat b div 16 mod 8"
    by (simp only: e unsigned_take_bit_eq) (simp add: take_bit_eq_mod unat_drop_bit_eq, simp add: drop_bit_eq_div)
  also have "\<dots> = k"
  proof -
    have "unat b = (8 * c + k) * 16 + l" by (simp add: u)
    then have "unat b div 16 = 8 * c + k" using assms(3) by simp
    then show ?thesis using assms(2) by simp
  qed
  finally show "drop_bit 4 b AND 7 = of_nat k"
    using assms(2) by (metis of_nat_unat ucast_id)
  have "unat (b AND 0x0F) = unat b mod 16"
    by (simp only: e unsigned_take_bit_eq) (simp add: take_bit_eq_mod)
  also have "\<dots> = l"
  proof -
    have "unat b = (8 * c + k) * 16 + l" by (simp add: u)
    then show ?thesis by (simp only: mod_mult_self3 mod_less [OF assms(3)])
  qed
  finally show "ucast (b AND 0x0F) = (of_nat l :: u64)" by (metis of_nat_unat)
  show "cont_bit b \<longleftrightarrow> c = 1" 
  proof -
    have "c = 0 \<or> c = 1" using assms(1) by auto
    then show ?thesis unfolding cont_bit_iff u using assms(2,3) by (elim disjE) simp_all
  qed
qed

lemma entry_header_parse:
  assumes "kind < 8" "n < 2 ^ 60"
  shows "parse_entry_header (encode_entry_header kind n @ rest) = Inr (of_nat kind, of_nat n, length (encode_entry_header kind n))"
proof (cases "n < 16")
  case True
  then show ?thesis using entry_header_bits [of 0 kind n] assms
    by (simp add: parse_entry_header_def encode_entry_header_def Let_def entry_size_loop.simps del: of_nat_add of_nat_mult)
next
  case False
  define b :: u8 where "b = of_nat (128 * 1 + kind * 16 + n mod 16)"
  have b: "drop_bit 4 b AND 7 = of_nat kind" "ucast (b AND 0x0F) = (of_nat (n mod 16) :: u64)" "cont_bit b"
    using entry_header_bits [of 1 kind "n mod 16"] assms unfolding b_def by simp_all
  have "n div 16 < 128 ^ Suc 7" using assms by simp
  from length_encode_varint [OF this] have l: "4 + 7 * length (encode_varint (n div 16)) \<le> 63" by simp
  have "n mod 16 + n div 16 * 2 ^ 4 = n" by simp
  then have "entry_size_loop (encode_varint (n div 16) @ rest) b (of_nat (n mod 16)) 4 1
    = Inr (of_nat n, 1 + length (encode_varint (n div 16)))"
    using entry_size_loop_encode [OF _ l b(3), of "n mod 16" rest 1] by simp
  moreover have "encode_entry_header kind n = b # encode_varint (n div 16)"
    using False by (simp add: encode_entry_header_def b_def)
  ultimately show ?thesis using b by (simp add: parse_entry_header_def Let_def)
qed

text \<open>The entry header round-trips. For every type code and every size below 2^60 (the sizes
  whose encoding the shift guard lets through) the parser reads back the type, the size and the
  number of header bytes from the canonical encoding, whatever follows it.\<close>

lemma entry_header_roundtrip:
  assumes "kind < 8" "n < 2 ^ 60"
  shows "parse_entry_header (encode_entry_header kind n @ rest) = Inr (of_nat kind, of_nat n, length (encode_entry_header kind n))"
  using assms by (rule entry_header_parse)

lemma entry_header_roundtrip_witness:
  "parse_entry_header (encode_entry_header 3 5000 @ [0x78, 0x9C])
    = Inr (3, 5000, length (encode_entry_header 3 5000))"
  using entry_header_roundtrip [of 3 5000 "[0x78, 0x9C]"] by simp

lemma encode_ofs_cont_not_Nil [simp]: "encode_ofs_cont m \<noteq> []" "[] \<noteq> encode_ofs_cont m"
  by (subst encode_ofs_cont.simps, simp)+

lemma of_nat_u8_inj: "a < 256 \<Longrightarrow> b < 256 \<Longrightarrow> (of_nat a :: u8) = of_nat b \<longleftrightarrow> a = b"
  by (auto simp: unat_of_nat dest!: arg_cong [of _ _ unat])

lemma encode_ofs_cont_inj: "encode_ofs_cont m = encode_ofs_cont m' \<Longrightarrow> m = m'"
proof (induction m arbitrary: m' rule: encode_ofs_cont.induct)
  case (1 m)
  have e: "encode_ofs_cont k = (if k < 128 then [of_nat (k + 128)]
      else encode_ofs_cont (k div 128 - 1) @ [of_nat (k mod 128 + 128)])" for k
    by (rule encode_ofs_cont.simps)
  show ?case
  proof (cases "m < 128")
    case True
    with 1(2) e [of m] e [of m'] show ?thesis
      by (auto simp: of_nat_u8_inj simp del: of_nat_add split: if_splits)
  next
    case False
    with 1(2) e [of m] e [of m'] have m': "\<not> m' < 128"
      and q: "encode_ofs_cont (m div 128 - 1) = encode_ofs_cont (m' div 128 - 1)" and r: "m mod 128 = m' mod 128"
      by (auto simp: of_nat_u8_inj simp del: of_nat_add split: if_splits)
    from "1.IH" [OF False q] have "m div 128 = m' div 128" using False m' by simp
    with r show ?thesis by (metis div_mult_mod_eq)
  qed
qed

lemma encode_ofs_inj: "encode_ofs n = encode_ofs m \<Longrightarrow> n = m"
proof -
  assume a: "encode_ofs n = encode_ofs m"
  then have "n < 128 \<longleftrightarrow> m < 128" and "n mod 128 = m mod 128"
    by (auto simp: encode_ofs_def of_nat_u8_inj split: if_splits)
  moreover have "n div 128 = m div 128" if "\<not> n < 128" "\<not> m < 128"
    using a that by (auto simp: encode_ofs_def dest!: encode_ofs_cont_inj)
  ultimately show "n = m" by (metis div_mult_mod_eq div_less)
qed

text \<open>The OFS_DELTA offset field round-trips for every 64-bit offset, but its overflow check does
  not see the bits that the shift by 7 loses: the encoding of n + 2^64, a different byte string,
  is accepted and decodes to n as well.\<close>

lemma ofs_offset_wraps:
  assumes "n < 2 ^ 64"
  shows "parse_ofs_delta_offset (encode_ofs n @ rest) = Inr (of_nat n, length (encode_ofs n))
    \<and> parse_ofs_delta_offset (encode_ofs (n + 2 ^ 64) @ rest)
        = Inr (of_nat n, length (encode_ofs (n + 2 ^ 64)))
    \<and> encode_ofs n \<noteq> encode_ofs (n + 2 ^ 64)"
proof (intro conjI)
  show "parse_ofs_delta_offset (encode_ofs n @ rest) = Inr (of_nat n, length (encode_ofs n))"
    using assms by (intro ofs_roundtrip) simp
  have "(of_nat (n + 2 ^ 64) :: u64) = of_nat n" by simp
  moreover have "n + 2 ^ 64 < 2 ^ 71" using assms by simp
  ultimately show "parse_ofs_delta_offset (encode_ofs (n + 2 ^ 64) @ rest)
      = Inr (of_nat n, length (encode_ofs (n + 2 ^ 64)))"
    using ofs_roundtrip [of "n + 2 ^ 64" rest] by (simp only:)
  show "encode_ofs n \<noteq> encode_ofs (n + 2 ^ 64)"
    using encode_ofs_inj [of n "n + 2 ^ 64"] by auto
qed

lemma ofs_offset_wraps_witness:
  "parse_ofs_delta_offset (encode_ofs 300) = Inr (300, length (encode_ofs 300))
    \<and> encode_ofs 300 \<noteq> encode_ofs (300 + 2 ^ 64)"
  using ofs_offset_wraps [of 300 "[]"] by simp


text \<open>C29: Delta application inverts delta encoding. For every base and every sequence of well-formed
  COPY and INSERT instructions whose output respects the 1 GiB cap, applying the encoded
  instruction stream to the base gives exactly the concatenation of the copied ranges and the
  inserted literals.\<close>

lemma apply_delta_encode:
  assumes "list_all (delta_op_ok base) ops"
    and "length base < 2 ^ 64"
    and "length (concat (map (delta_op_out base) ops)) \<le> MAX_ENTRY_BYTES"
  shows "apply_delta base (encode_delta (length base) (length (concat (map (delta_op_out base) ops))) ops)
    = Inr (concat (map (delta_op_out base) ops))"
proof -
  define out where "out = concat (map (delta_op_out base) ops)"
  define body where "body = concat (map encode_delta_op ops)"
  have n: "length out < 2 ^ 64" "length out \<le> MAX_ENTRY_BYTES"
    using assms(3) by (simp_all add: out_def MAX_ENTRY_BYTES_def)
  then have u: "unat (of_nat (length out) :: u64) = length out" by (simp add: unat_of_nat)
  have v: "unat (of_nat (length base) :: u64) = length base" using assms(2) by (simp add: unat_of_nat)
  have s: "read_delta_varint (encode_varint (length base) @ encode_varint (length out) @ body) 0
      = Inr (of_nat (length base), length (encode_varint (length base)))"
    using read_varint_encode [OF assms(2), of "[]"] by simp
  have t: "read_delta_varint (encode_varint (length base) @ encode_varint (length out) @ body)
      (length (encode_varint (length base))) = Inr (of_nat (length out), length (encode_varint (length out)))"
    using read_varint_encode [OF n(1), of "encode_varint (length base)"] by simp
  have "delta_loop base body [] = Inr out"
    using delta_loop_encode [OF assms(1), of "[]"] by (simp add: body_def out_def)
  then show ?thesis
    using n(2) by (simp add: apply_delta_def encode_delta_def s t u v flip: out_def body_def)
qed

lemma n45: "(4::nat) = Suc (Suc (Suc (Suc 0)))" "(5::nat) = Suc (Suc (Suc (Suc (Suc 0))))"
  by simp_all

lemma apply_delta_encode_witness:
  "apply_delta [10, 20, 30, 40] (encode_delta 4 5 [OpCopy 1 3, OpInsert [7, 8]]) = Inr [20, 30, 40, 7, 8]"
  using apply_delta_encode [of "[10, 20, 30, 40]" "[OpCopy 1 3, OpInsert [7, 8]]"]
  by (simp add: MAX_ENTRY_BYTES_def n45)

lemma copy_field_numeral:
  "copy_field op first shift (numeral k) err rest val =
     (if op AND push_bit (first + shift) 1 \<noteq> 0
      then (case rest of
              [] \<Rightarrow> Inl (PackParse err)
            | b # rest' \<Rightarrow>
                copy_field op first (Suc shift) (pred_numeral k) err rest'
                  (val OR push_bit (shift * 8) (ucast b)))
      else copy_field op first (Suc shift) (pred_numeral k) err rest val)"
  by (simp only: numeral_eq_Suc copy_field.simps)

lemma apply_delta_encode_sample:
  "apply_delta [10, 20, 30, 40] [4, 5, 0x91, 1, 3, 2, 7, 8] = Inr [20, 30, 40, 7, 8]"
  by (simp add: apply_delta_def read_delta_varint_def delta_step_def delta_copy_def delta_insert_def
      MAX_ENTRY_BYTES_def Let_def copy_field_numeral)

lemma copy_field_suffix:
  "copy_field op first shift count err rest val = Inr (v, rest') \<Longrightarrow> suffix rest' rest"
  by (induction op first shift count err rest val rule: copy_field.induct)
    (force split: if_splits list.splits simp: suffix_Cons)+

lemma sublist_slice: "sublist (drop lo (take hi xs)) xs"
  by (meson sublist_drop sublist_order.order_trans sublist_take)

lemma delta_step_pieces:
  assumes "delta_step base op rest = Inr (piece, rest')"
  shows "suffix rest' rest" "sublist piece base \<or> sublist piece rest"
  using assms
  by (auto simp: delta_step_def delta_copy_def delta_insert_def res_simps Let_def sublist_slice suffix_drop
      split: if_splits prod.splits dest!: copy_field_suffix intro: suffix_order.trans)

lemma delta_loop_pieces:
  assumes "delta_loop base rest out = Inr out'"
  shows "\<exists>ps. out' = out @ concat ps \<and> (\<forall>p\<in>set ps. sublist p base \<or> sublist p rest)"
  using assms
proof (induction base rest out rule: delta_loop.induct)
  case (2 base op rest out)
  then obtain piece rest' where st: "delta_step base op rest = Inr (piece, rest')"
    and l: "delta_loop base rest' (out @ piece) = Inr out'" by (auto simp: res_simps)
  from "2.IH" [OF st refl l] obtain ps where ps: "out' = (out @ piece) @ concat ps"
    "\<forall>p\<in>set ps. sublist p base \<or> sublist p rest'" by auto
  have "sublist xs (op # rest)" if "sublist xs rest" for xs using that by (simp add: sublist_Cons_right)
  moreover have "sublist p rest" if "sublist p rest'" for p
    using that delta_step_pieces(1) [OF st] by (meson sublist_order.order_trans suffix_imp_sublist)
  ultimately show ?case using ps delta_step_pieces(2) [OF st]
    by (intro exI [of _ "piece # ps"]) auto
qed (auto intro: exI [of _ "[]"])

text \<open>Delta application is memory-safe and honest about sizes. Whatever bytes the stream holds, a
  successful result is a concatenation of slices of the base and of the stream itself, is at
  most 1 GiB long, has exactly the length the stream declares, and the declared source length is
  the base's.\<close>

lemma apply_delta_pieces:
  assumes "apply_delta base delta = Inr out"
  shows "length out \<le> MAX_ENTRY_BYTES
    \<and> (\<exists>ps. out = concat ps \<and> (\<forall>p\<in>set ps. sublist p base \<or> sublist p delta))
    \<and> (\<exists>src k tgt n. read_delta_varint delta 0 = Inr (src, k) \<and> unat src = length base
         \<and> read_delta_varint delta k = Inr (tgt, n) \<and> unat tgt = length out)"
proof -
  from assms obtain src k where k0: "read_delta_varint delta 0 = Inr (src, k)"
    by (auto simp: apply_delta_def res_simps)
  with assms obtain tgt n where t0: "read_delta_varint delta k = Inr (tgt, n)"
    by (auto simp: apply_delta_def res_simps split: if_splits)
  have k: "read_delta_varint delta 0 = Inr (src, k)" "unat src = length base"
    and t: "read_delta_varint delta k = Inr (tgt, n)" "unat tgt \<le> MAX_ENTRY_BYTES" "unat tgt = length out"
    and l: "delta_loop base (drop (k + n) delta) [] = Inr out"
    using assms k0 t0 by (simp_all add: apply_delta_def res_simps split: if_splits)
  obtain ps where ps: "out = concat ps" "\<forall>p\<in>set ps. sublist p base \<or> sublist p (drop (k + n) delta)"
    using delta_loop_pieces [OF l(1)] by auto
  then have "\<forall>p\<in>set ps. sublist p base \<or> sublist p delta"
    by (meson sublist_drop sublist_order.order_trans)
  then show ?thesis using k t ps(1) by auto
qed

lemma apply_delta_pieces_witness:
  "length [20::u8, 30, 40, 7, 8] \<le> MAX_ENTRY_BYTES"
  using apply_delta_pieces [OF apply_delta_encode_sample] by blast

text \<open>The output cap is only checked against the declared size, before the loop: a stream that
  declares a target of 0 bytes and repeats one COPY k times builds all k * n output bytes before
  the size mismatch is reported, for every k.\<close>

lemma delta_output_uncapped:
  assumes "delta_op_ok base (OpCopy off n)" "length base < 2 ^ 64" "0 < k"
  shows "apply_delta base (encode_delta (length base) 0 (replicate k (OpCopy off n)))
    = Inl (PackParse (TargetSizeMismatch (k * n) 0))"
proof -
  define body where "body = concat (map encode_delta_op (replicate k (OpCopy off n)))"
  have v: "unat (of_nat (length base) :: u64) = length base" using assms(2) by (simp add: unat_of_nat)
  have s: "read_delta_varint (encode_varint (length base) @ encode_varint 0 @ body) 0
      = Inr (of_nat (length base), length (encode_varint (length base)))"
    using read_varint_encode [OF assms(2), of "[]"] by simp
  have t: "read_delta_varint (encode_varint (length base) @ encode_varint 0 @ body)
      (length (encode_varint (length base))) = Inr (0, length (encode_varint 0))"
    using read_varint_encode [of 0 "encode_varint (length base)"] by simp
  have "delta_loop base body [] = Inr (concat (replicate k (delta_op_out base (OpCopy off n))))"
    using delta_loop_encode [of base "replicate k (OpCopy off n)" "[]"] assms(1)
    by (simp add: body_def list_all_iff)
  moreover have "length (concat (replicate k (delta_op_out base (OpCopy off n)))) = k * n"
    using assms(1) by (auto simp: length_concat sum_list_replicate min_def)
  moreover have "k * n \<noteq> 0" using assms(1,3) by simp
  ultimately show ?thesis
    unfolding apply_delta_def encode_delta_def body_def [symmetric] append.assoc append_assoc s t v
    using assms(1) by (simp add: s t v)
qed

lemma delta_output_uncapped_witness:
  "apply_delta (replicate 16 0) (encode_delta 16 0 (replicate 1000000000 (OpCopy 0 16)))
    = Inl (PackParse (TargetSizeMismatch 16000000000 0))"
  using delta_output_uncapped [of "replicate 16 0" 0 16 1000000000] by simp

end
