(* ===== verification/PackParse.thy ===== *)
theory PackParse
  imports Delta
begin

text \<open>
  The pack parser and the delta resolver of \<open>src/native_pack/parse.rs\<close>: \<open>parse_pack\<close>, the zlib loop
  \<open>decompress_zlib\<close>, the loose-object format, and the three store entry points up to
  \<open>store_with_full_resolution\<close>. The crates \<open>flate2\<close> and \<open>sha1\<close> are parameters, gathered in the record
  \<open>codec\<close>; what the code relies on is the predicate \<open>codec_ok\<close>. The object store is a parameter as
  well (its \<open>read_loose\<close> and its \<open>write_loose\<close> at the current time).
\<close>

section \<open>External code\<close>

datatype zstatus = ZOk | ZBufError | ZStreamEnd

text \<open>\<open>zstep d buf n\<close> is \<open>Decompress::decompress\<close> on an input slice and an output slice of \<open>n\<close> bytes: an
  error, or the decoder's next state, how many input bytes it took, what it wrote and the status.\<close>

record 'd codec =
  zstep :: "'d \<Rightarrow> u8 list \<Rightarrow> nat \<Rightarrow> string + 'd \<times> nat \<times> u8 list \<times> zstatus"
  zinit :: "'d"
  zdeflate :: "u8 list \<Rightarrow> u8 list"
  zinflate :: "u8 list \<Rightarrow> error + u8 list"
  sha1 :: "u8 list \<Rightarrow> u8 list"

text \<open>The documented behaviour: a step reads within its input slice and writes within its output
  slice; \<open>ZlibDecoder\<close> inverts \<open>ZlibEncoder\<close>; a SHA-1 digest has 20 bytes.\<close>

definition step_ok :: "'d codec \<Rightarrow> bool" where
  "step_ok c = (\<forall>d buf n d' k p st.
     zstep c d buf n = Inr (d', k, p, st) \<longrightarrow> k \<le> length buf \<and> length p \<le> n)"

definition codec_ok :: "'d codec \<Rightarrow> bool" where
  "codec_ok c = (step_ok c \<and> (\<forall>bs. zinflate c (zdeflate c bs) = Inr bs) \<and> (\<forall>bs. length (sha1 c bs) = 20))"

section \<open>Parsing\<close>

datatype parsed_kind = Direct object_kind | RefDelta "u8 list" | OfsDelta u64

record parsed_entry =
  pe_offset :: nat
  pe_kind :: parsed_kind
  pe_data :: "u8 list"

text \<open>The slice \<open>bytes[from..]\<close>, which panics beyond the end. The panic is a value of its own here;
  it is proved never to occur.\<close>

definition slice_panic :: error where
  "slice_panic = Other ''range start index out of range for slice''"

definition slice_from :: "u8 list \<Rightarrow> nat \<Rightarrow> error + u8 list" where
  "slice_from bytes from = (if from > length bytes then Inl slice_panic else Inr (drop from bytes))"

text \<open>The loop of \<open>decompress_zlib\<close>. \<open>in_before\<close> and \<open>out_before\<close> are the decoder's running totals,
  \<open>out\<close> the output buffer.\<close>

definition zgrow :: "u8 list \<Rightarrow> nat \<Rightarrow> u8 list" where
  "zgrow out out_before =
     (if length out \<le> out_before
      then out @ replicate (max (out_before + 4096) (length out + 1) - length out) 0 else out)"

function zlib_loop ::
  "'d codec \<Rightarrow> u8 list \<Rightarrow> nat \<Rightarrow> 'd \<Rightarrow> nat \<Rightarrow> nat \<Rightarrow> u8 list \<Rightarrow> error + u8 list \<times> nat" where
  "zlib_loop c bytes max_out dec in_before out_before out =
     (case slice_from bytes in_before of
        Inl e \<Rightarrow> Inl e
      | Inr buf \<Rightarrow>
        (let out = zgrow out out_before in
         case zstep c dec buf (length out - out_before) of
           Inl e \<Rightarrow> Inl (PackParse (Zlib e))
         | Inr (dec', taken, produced, st) \<Rightarrow>
             (let out' = take out_before out @ produced @ drop (out_before + length produced) out;
                  total_in = in_before + taken;
                  total_out = out_before + length produced
              in if total_out > max_out then Inl (PackParse (DecompressedExceeds max_out))
                 else if st = ZStreamEnd then Inr (take total_out out', total_in)
                 else if \<not> (total_in > in_before \<or> total_out > out_before)
                      then Inl (PackParse ZlibStalled)
                 else zlib_loop c bytes max_out dec' total_in total_out out')))"
  by pat_completeness auto
termination
  by (relation "measure (\<lambda>(c, bytes, max_out, dec, i, ob, out). (length bytes + 1 - i) + (max_out + 1 - ob))")
    (auto simp: slice_from_def simp flip: length_greater_0_conv split: if_splits)

declare zlib_loop.simps [simp del]

definition decompress_zlib :: "'d codec \<Rightarrow> u8 list \<Rightarrow> nat \<Rightarrow> error + u8 list \<times> nat" where
  "decompress_zlib c bytes max_out = zlib_loop c bytes max_out (zinit c) 0 0 []"

definition from_be_bytes :: "u8 list \<Rightarrow> u32" where
  "from_be_bytes bs = of_nat (foldl (\<lambda>a b. a * 256 + unat b) 0 bs)"

text \<open>The type dispatch of one entry, at the cursor behind its header: the kind and the cursor behind
  the base reference.\<close>

definition parse_kind :: "u8 list \<Rightarrow> nat \<Rightarrow> u8 \<Rightarrow> nat \<Rightarrow> error + parsed_kind \<times> nat" where
  "parse_kind pack i kind_byte cursor =
     (if kind_byte = 1 then Inr (Direct Commit, cursor)
      else if kind_byte = 2 then Inr (Direct Tree, cursor)
      else if kind_byte = 3 then Inr (Direct Blob, cursor)
      else if kind_byte = 4 then Inr (Direct Tag, cursor)
      else if kind_byte = 7 then
        (if length pack < cursor + 20 then Inl (PackParse (TruncatedBaseOid i cursor))
         else Inr (RefDelta (take 20 (drop cursor pack)), cursor + 20))
      else if kind_byte = 6 then
        res_bind (slice_from pack cursor) (\<lambda>rest.
        res_bind (map_err (\<lambda>e. PackParse (OfsOffsetParse i cursor e)) (parse_ofs_delta_offset rest))
          (\<lambda>(delta, consumed). Inr (OfsDelta delta, cursor + consumed)))
      else Inl (PackParse (UnknownObjectType i kind_byte)))"

definition parse_entry :: "'d codec \<Rightarrow> u8 list \<Rightarrow> nat \<Rightarrow> nat \<Rightarrow> error + parsed_entry \<times> nat" where
  "parse_entry c pack i entry_offset =
     res_bind (slice_from pack entry_offset) (\<lambda>rest.
     res_bind (map_err (\<lambda>e. PackParse (EntryHeaderParse i entry_offset e)) (parse_entry_header rest))
       (\<lambda>(kind_byte, declared_size, header_len).
     if unat declared_size > MAX_ENTRY_BYTES then Inl (PackParse (DeclaredSizeExceeds i declared_size))
     else res_bind (parse_kind pack i kind_byte (entry_offset + header_len)) (\<lambda>(kind, cursor).
     res_bind (slice_from pack cursor) (\<lambda>body.
     res_bind (map_err (\<lambda>e. PackParse (EntryDecompress i entry_offset e))
         (decompress_zlib c body (unat declared_size)))
       (\<lambda>(decompressed, compressed_len).
     Inr (\<lparr>pe_offset = entry_offset, pe_kind = kind, pe_data = decompressed\<rparr>,
          cursor + compressed_len))))))"

fun parse_entries :: "'d codec \<Rightarrow> u8 list \<Rightarrow> nat \<Rightarrow> nat \<Rightarrow> nat \<Rightarrow> error + parsed_entry list" where
  "parse_entries c pack i 0 cursor = Inr []"
| "parse_entries c pack i (Suc n) cursor =
     res_bind (parse_entry c pack i cursor) (\<lambda>(entry, cursor').
     res_bind (parse_entries c pack (Suc i) n cursor') (\<lambda>entries. Inr (entry # entries)))"

definition parse_pack :: "'d codec \<Rightarrow> u8 list \<Rightarrow> error + parsed_entry list" where
  "parse_pack c pack =
     (if length pack < 12 then Inl (PackParse (PackTooShort (length pack)))
      else if take 4 pack \<noteq> as_bytes ''PACK'' then Inl (PackParse MissingMagic)
      else let version = from_be_bytes (take 4 (drop 4 pack))
           in if version \<noteq> 2 then Inl (PackParse (UnsupportedVersion version))
              else parse_entries c pack 0 (unat (from_be_bytes (take 4 (drop 8 pack)))) 12)"

section \<open>The loose-object format\<close>

definition loose_header :: "object_kind \<Rightarrow> nat \<Rightarrow> u8 list" where
  "loose_header kind n = as_bytes (kind_str kind @ '' '' @ fmt_dec n @ [CHR 0x00])"

definition loose_oid_hex :: "'d codec \<Rightarrow> object_kind \<Rightarrow> u8 list \<Rightarrow> oid" where
  "loose_oid_hex c kind payload = Oid (hex_bytes (sha1 c (loose_header kind (length payload) @ payload)))"

definition loose_format_bytes :: "'d codec \<Rightarrow> object_kind \<Rightarrow> u8 list \<Rightarrow> u8 list" where
  "loose_format_bytes c kind payload = zdeflate c (loose_header kind (length payload) @ payload)"

definition hex_oid :: "u8 list \<Rightarrow> oid" where
  "hex_oid bs = Oid (hex_bytes bs)"

definition kind_of_str :: "string \<Rightarrow> object_kind option" where
  "kind_of_str s =
     (if s = ''commit'' then Some Commit else if s = ''tree'' then Some Tree
      else if s = ''blob'' then Some Blob else if s = ''tag'' then Some Tag else None)"

text \<open>The part of \<open>read_loose_inflated\<close> behind the store read: inflate, split at the first NUL, take the
  kind up to the first blank of the header, return what follows the NUL.\<close>

definition decode_loose :: "'d codec \<Rightarrow> oid \<Rightarrow> u8 list \<Rightarrow> error + object_kind \<times> u8 list" where
  "decode_loose c x bytes =
     res_bind (map_err (\<lambda>e. PackParse (LooseInflate (oid_str x) e)) (zinflate c bytes)) (\<lambda>inflated.
     if 0 \<notin> set inflated then Inl (PackParse (LooseNoNul (oid_str x)))
     else let head = takeWhile (\<lambda>b. b \<noteq> 0) inflated
          in res_bind (ok_or (PackParse (LooseHeaderUtf8 (oid_str x))) (from_utf8 head)) (\<lambda>header.
             let kind = hd (splitn 2 CHR '' '' header)
             in res_bind (ok_or (PackParse (LooseUnknownKind (oid_str x) kind)) (kind_of_str kind)) (\<lambda>k.
                Inr (k, drop (length head + 1) inflated))))"

definition read_loose_inflated ::
  "'d codec \<Rightarrow> ('s \<Rightarrow> repo_id \<Rightarrow> oid \<Rightarrow> error + u8 list option) \<Rightarrow> 's \<Rightarrow> repo_id \<Rightarrow> oid
     \<Rightarrow> error + (object_kind \<times> u8 list) option" where
  "read_loose_inflated c rd s r x =
     res_bind (rd s r x) (\<lambda>found.
       case found of
         None \<Rightarrow> Inr None
       | Some bytes \<Rightarrow> res_bind (decode_loose c x bytes) (\<lambda>kp. Inr (Some kp)))"

section \<open>Storing a pack\<close>

text \<open>The store is changed in place and an error leaves what was written before it, so every routine
  returns its result together with the store. \<open>store_object\<close> is the group of statements that the
  three entry points share: name the object, encode it, write it.\<close>

type_synonym 's writer = "repo_id \<Rightarrow> oid \<Rightarrow> u8 list \<Rightarrow> 's \<Rightarrow> error + 's"
type_synonym 's reader = "'s \<Rightarrow> repo_id \<Rightarrow> oid \<Rightarrow> error + u8 list option"

definition store_object :: "'d codec \<Rightarrow> 's writer \<Rightarrow> repo_id \<Rightarrow> object_kind \<Rightarrow> u8 list \<Rightarrow> 's \<Rightarrow> error + 's" where
  "store_object c wr r kind payload s =
     wr r (loose_oid_hex c kind payload) (loose_format_bytes c kind payload) s"

fun store_direct_only ::
  "'d codec \<Rightarrow> 's writer \<Rightarrow> repo_id \<Rightarrow> nat \<Rightarrow> parsed_entry list \<Rightarrow> nat \<Rightarrow> 's \<Rightarrow> (error + nat) \<times> 's" where
  "store_direct_only c wr r i [] count s = (Inr count, s)"
| "store_direct_only c wr r i (e # es) count s =
     (case pe_kind e of
        Direct kind \<Rightarrow>
          (case store_object c wr r kind (pe_data e) s of
             Inl err \<Rightarrow> (Inl err, s)
           | Inr s' \<Rightarrow> store_direct_only c wr r (Suc i) es (count + 1) s')
      | _ \<Rightarrow> (Inl (PackParse (DeltaNotSupported i)), s))"

definition store_non_delta_entries ::
  "'d codec \<Rightarrow> 's writer \<Rightarrow> u8 list \<Rightarrow> repo_id \<Rightarrow> 's \<Rightarrow> (error + nat) \<times> 's" where
  "store_non_delta_entries c wr pack r s =
     (case parse_pack c pack of
        Inl e \<Rightarrow> (Inl e, s)
      | Inr entries \<Rightarrow> store_direct_only c wr r 0 entries 0 s)"

text \<open>The cache of \<open>store_with_full_resolution\<close>: entry index to kind and payload.\<close>

type_synonym cache = "nat \<rightharpoonup> object_kind \<times> u8 list"

fun resolve_direct ::
  "'d codec \<Rightarrow> 's writer \<Rightarrow> repo_id \<Rightarrow> nat \<Rightarrow> parsed_entry list \<Rightarrow> cache \<Rightarrow> nat \<Rightarrow> 's
     \<Rightarrow> (error + cache \<times> nat) \<times> 's" where
  "resolve_direct c wr r i [] resolved count s = (Inr (resolved, count), s)"
| "resolve_direct c wr r i (e # es) resolved count s =
     (case pe_kind e of
        Direct kind \<Rightarrow>
          (case store_object c wr r kind (pe_data e) s of
             Inl err \<Rightarrow> (Inl err, s)
           | Inr s' \<Rightarrow> resolve_direct c wr r (Suc i) es (resolved(i \<mapsto> (kind, pe_data e))) (count + 1) s')
      | _ \<Rightarrow> resolve_direct c wr r (Suc i) es resolved count s)"

text \<open>\<open>collect\<close> into a \<open>HashMap\<close>: the last of several entries at one offset would win.\<close>

definition offset_to_idx :: "parsed_entry list \<Rightarrow> nat \<Rightarrow> nat option" where
  "offset_to_idx entries = map_of (rev (zip (map pe_offset entries) [0..<length entries]))"

text \<open>The \<open>match\<close> that finds the base of a delta: \<open>None\<close> while the base is not available.\<close>

definition find_base ::
  "'d codec \<Rightarrow> 's reader \<Rightarrow> repo_id \<Rightarrow> parsed_entry list \<Rightarrow> cache \<Rightarrow> nat \<Rightarrow> 's
     \<Rightarrow> error + (object_kind \<times> u8 list) option" where
  "find_base c rd r entries resolved i s =
     (case pe_kind (entries ! i) of
        Direct _ \<Rightarrow> Inl (Other ''Direct entries already resolved'')
      | RefDelta base_oid \<Rightarrow> read_loose_inflated c rd s r (hex_oid base_oid)
      | OfsDelta delta \<Rightarrow>
          if pe_offset (entries ! i) < unat delta
          then Inl (PackParse (OfsUnderflow i (pe_offset (entries ! i)) (unat delta)))
          else res_bind (ok_or (PackParse (OfsNoEntry i (pe_offset (entries ! i) - unat delta)))
                   (offset_to_idx entries (pe_offset (entries ! i) - unat delta)))
                 (\<lambda>base_idx. Inr (resolved base_idx)))"

text \<open>One pass over the pending queue; \<open>still\<close> collects the entries whose base is missing.\<close>

fun resolve_pass ::
  "'d codec \<Rightarrow> 's reader \<Rightarrow> 's writer \<Rightarrow> repo_id \<Rightarrow> parsed_entry list \<Rightarrow> nat list \<Rightarrow> nat list
     \<Rightarrow> cache \<Rightarrow> nat \<Rightarrow> 's \<Rightarrow> (error + nat list \<times> cache \<times> nat) \<times> 's" where
  "resolve_pass c rd wr r entries [] still resolved count s = (Inr (still, resolved, count), s)"
| "resolve_pass c rd wr r entries (i # pending) still resolved count s =
     (case find_base c rd r entries resolved i s of
        Inl e \<Rightarrow> (Inl e, s)
      | Inr None \<Rightarrow> resolve_pass c rd wr r entries pending (still @ [i]) resolved count s
      | Inr (Some (base_kind, base_payload)) \<Rightarrow>
          (case apply_delta base_payload (pe_data (entries ! i)) of
             Inl e \<Rightarrow> (Inl (PackParse (EntryApplyDelta i e)), s)
           | Inr target \<Rightarrow>
               (case store_object c wr r base_kind target s of
                  Inl e \<Rightarrow> (Inl e, s)
                | Inr s' \<Rightarrow> resolve_pass c rd wr r entries pending still
                    (resolved(i \<mapsto> (base_kind, target))) (count + 1) s')))"

lemma resolve_pass_length:
  "resolve_pass c rd wr r entries pending still resolved count s = (Inr (still', resolved', count'), s')
     \<Longrightarrow> length still' \<le> length still + length pending"
  by (induction c rd wr r entries pending still resolved count s rule: resolve_pass.induct)
    (force split: sum.splits option.splits prod.splits)+

function resolve_loop ::
  "'d codec \<Rightarrow> 's reader \<Rightarrow> 's writer \<Rightarrow> repo_id \<Rightarrow> parsed_entry list \<Rightarrow> nat list \<Rightarrow> cache \<Rightarrow> nat \<Rightarrow> 's
     \<Rightarrow> (error + nat) \<times> 's" where
  "resolve_loop c rd wr r entries pending resolved count s =
     (if pending = [] then (Inr count, s)
      else (case resolve_pass c rd wr r entries pending [] resolved count s of
              (Inl e, s') \<Rightarrow> (Inl e, s')
            | (Inr (still, resolved', count'), s') \<Rightarrow>
                if length still = length pending
                then (Inl (PackParse (ResolutionStuck (length still))), s')
                else resolve_loop c rd wr r entries still resolved' count' s'))"
  by pat_completeness auto
termination
  by (relation "measure (\<lambda>(c, rd, wr, r, entries, pending, resolved, count, s). length pending)")
    (auto dest!: resolve_pass_length [OF sym])

declare resolve_loop.simps [simp del]

definition store_with_full_resolution ::
  "'d codec \<Rightarrow> 's reader \<Rightarrow> 's writer \<Rightarrow> u8 list \<Rightarrow> repo_id \<Rightarrow> 's \<Rightarrow> (error + nat) \<times> 's" where
  "store_with_full_resolution c rd wr pack r s =
     (case parse_pack c pack of
        Inl e \<Rightarrow> (Inl e, s)
      | Inr entries \<Rightarrow>
          (case resolve_direct c wr r 0 entries Map.empty 0 s of
             (Inl e, s') \<Rightarrow> (Inl e, s')
           | (Inr (resolved, count), s') \<Rightarrow>
               resolve_loop c rd wr r entries
                 (filter (\<lambda>i. resolved i = None) [0..<length entries]) resolved count s'))"

text \<open>\<open>store_with_ref_delta_resolution\<close>, which keeps no cache and refuses OFS_DELTA.\<close>

fun ref_direct ::
  "'d codec \<Rightarrow> 's writer \<Rightarrow> repo_id \<Rightarrow> parsed_entry list \<Rightarrow> nat \<Rightarrow> 's \<Rightarrow> (error + nat) \<times> 's" where
  "ref_direct c wr r [] count s = (Inr count, s)"
| "ref_direct c wr r (e # es) count s =
     (case pe_kind e of
        Direct kind \<Rightarrow>
          (case store_object c wr r kind (pe_data e) s of
             Inl err \<Rightarrow> (Inl err, s)
           | Inr s' \<Rightarrow> ref_direct c wr r es (count + 1) s')
      | _ \<Rightarrow> ref_direct c wr r es count s)"

fun ref_pass ::
  "'d codec \<Rightarrow> 's reader \<Rightarrow> 's writer \<Rightarrow> repo_id \<Rightarrow> parsed_entry list \<Rightarrow> nat list \<Rightarrow> nat list
     \<Rightarrow> nat \<Rightarrow> 's \<Rightarrow> (error + nat list \<times> nat) \<times> 's" where
  "ref_pass c rd wr r entries [] still count s = (Inr (still, count), s)"
| "ref_pass c rd wr r entries (i # pending) still count s =
     (case pe_kind (entries ! i) of
        RefDelta base_oid \<Rightarrow>
          (case read_loose_inflated c rd s r (hex_oid base_oid) of
             Inl e \<Rightarrow> (Inl e, s)
           | Inr None \<Rightarrow> ref_pass c rd wr r entries pending (still @ [i]) count s
           | Inr (Some (base_kind, base_payload)) \<Rightarrow>
               (case apply_delta base_payload (pe_data (entries ! i)) of
                  Inl e \<Rightarrow> (Inl (PackParse (RefDeltaApply i (oid_str (hex_oid base_oid)) e)), s)
                | Inr target \<Rightarrow>
                    (case store_object c wr r base_kind target s of
                       Inl e \<Rightarrow> (Inl e, s)
                     | Inr s' \<Rightarrow> ref_pass c rd wr r entries pending still (count + 1) s')))
      | _ \<Rightarrow> (Inl (Other ''filtered to delta kinds above''), s))"

lemma ref_pass_length:
  "ref_pass c rd wr r entries pending still count s = (Inr (still', count'), s')
     \<Longrightarrow> length still' \<le> length still + length pending"
  by (induction c rd wr r entries pending still count s rule: ref_pass.induct)
    (force split: sum.splits option.splits prod.splits parsed_kind.splits)+

function ref_loop ::
  "'d codec \<Rightarrow> 's reader \<Rightarrow> 's writer \<Rightarrow> repo_id \<Rightarrow> parsed_entry list \<Rightarrow> nat list \<Rightarrow> nat \<Rightarrow> 's
     \<Rightarrow> (error + nat) \<times> 's" where
  "ref_loop c rd wr r entries pending count s =
     (case ref_pass c rd wr r entries pending [] count s of
        (Inl e, s') \<Rightarrow> (Inl e, s')
      | (Inr (still, count'), s') \<Rightarrow>
          if still = [] then (Inr count', s')
          else if length still = length pending
          then (Inl (PackParse (RefDeltaStuck (length still))), s')
          else ref_loop c rd wr r entries still count' s')"
  by pat_completeness auto
termination
  by (relation "measure (\<lambda>(c, rd, wr, r, entries, pending, count, s). length pending)")
    (auto dest!: ref_pass_length [OF sym])

declare ref_loop.simps [simp del]

definition store_with_ref_delta_resolution ::
  "'d codec \<Rightarrow> 's reader \<Rightarrow> 's writer \<Rightarrow> u8 list \<Rightarrow> repo_id \<Rightarrow> 's \<Rightarrow> (error + nat) \<times> 's" where
  "store_with_ref_delta_resolution c rd wr pack r s =
     (case parse_pack c pack of
        Inl e \<Rightarrow> (Inl e, s)
      | Inr entries \<Rightarrow>
          (case ref_direct c wr r entries 0 s of
             (Inl e, s') \<Rightarrow> (Inl e, s')
           | (Inr count, s') \<Rightarrow>
               let pending = filter (\<lambda>i. case pe_kind (entries ! i) of Direct _ \<Rightarrow> False | _ \<Rightarrow> True)
                               [0..<length entries]
               in if pending = [] then (Inr count, s')
                  else (case find (\<lambda>i. case pe_kind (entries ! i) of OfsDelta _ \<Rightarrow> True | _ \<Rightarrow> False) pending of
                          Some i \<Rightarrow> (Inl (PackParse (OfsDeltaNotSupported i)), s')
                        | None \<Rightarrow> ref_loop c rd wr r entries pending count s')))"

section \<open>Bounds\<close>

fun panics :: "error \<Rightarrow> bool" where
  "panics (PackParse (EntryDecompress _ _ e)) = panics e"
| "panics (PackParse (OfsOffsetParse _ _ e)) = panics e"
| "panics (PackParse (EntryHeaderParse _ _ e)) = panics e"
| "panics e = (e = slice_panic)"

lemma entry_size_loop_bound:
  "entry_size_loop rest byte sz shift idx = Inr (sz', idx') \<Longrightarrow> idx \<le> idx' \<and> idx' \<le> idx + length rest"
proof (induction rest arbitrary: byte sz shift idx)
  case Nil
  then show ?case by (subst (asm) entry_size_loop.simps) (auto split: if_splits)
next
  case (Cons b rest)
  from Cons.prems have "\<not> cont_bit byte \<and> idx' = idx
      \<or> (\<exists>sz1 sh1. entry_size_loop rest b sz1 sh1 (idx + 1) = Inr (sz', idx'))"
    by (subst (asm) entry_size_loop.simps) (auto simp: Let_def split: if_splits)
  then show ?case using Cons.IH by force
qed

lemma ofs_loop_bound:
  "ofs_loop rest byte val idx = Inr (v, idx') \<Longrightarrow> idx \<le> idx' \<and> idx' \<le> idx + length rest"
proof (induction rest arbitrary: byte val idx)
  case Nil
  then show ?case by (subst (asm) ofs_loop.simps) (auto split: if_splits)
next
  case (Cons b rest)
  from Cons.prems have "\<not> cont_bit byte \<and> idx' = idx \<or> (\<exists>v'. ofs_loop rest b v' (idx + 1) = Inr (v, idx'))"
    by (subst (asm) ofs_loop.simps) (auto simp: res_simps split: if_splits)
  then show ?case using Cons.IH by force
qed

lemma parse_entry_header_bound:
  "parse_entry_header bytes = Inr (kind, sz, n) \<Longrightarrow> 0 < n \<and> n \<le> length bytes"
  by (auto simp: parse_entry_header_def res_simps Let_def split: list.splits dest!: entry_size_loop_bound)

lemma parse_ofs_bound: "parse_ofs_delta_offset bytes = Inr (v, n) \<Longrightarrow> n \<le> length bytes"
  by (auto simp: parse_ofs_delta_offset_def split: list.splits dest!: ofs_loop_bound)

lemma zlib_loop_step:
  assumes "i \<le> length bytes" "zstep c d (drop i bytes) (length (zgrow out ob) - ob) = Inr (d', k, p, st)"
  shows "zlib_loop c bytes max_out d i ob out =
    (let out' = take ob (zgrow out ob) @ p @ drop (ob + length p) (zgrow out ob)
     in if ob + length p > max_out then Inl (PackParse (DecompressedExceeds max_out))
        else if st = ZStreamEnd then Inr (take (ob + length p) out', i + k)
        else if k = 0 \<and> p = [] then Inl (PackParse ZlibStalled)
        else zlib_loop c bytes max_out d' (i + k) (ob + length p) out')"
  using assms by (subst zlib_loop.simps) (simp add: slice_from_def Let_def)

lemma zlib_loop_error:
  assumes "i \<le> length bytes" "zstep c d (drop i bytes) (length (zgrow out ob) - ob) = Inl e"
  shows "zlib_loop c bytes max_out d i ob out = Inl (PackParse (Zlib e))"
  using assms by (subst zlib_loop.simps) (simp add: slice_from_def Let_def)

lemma zlib_loop_bound:
  assumes "step_ok c" "i \<le> length bytes"
  shows "case zlib_loop c bytes max_out d i ob out of
      Inl e \<Rightarrow> \<not> panics e
    | Inr (res, n) \<Rightarrow> n \<le> length bytes \<and> length res \<le> max_out"
  using assms
proof (induction c bytes max_out d i ob out rule: zlib_loop.induct)
  case (1 c bytes max_out d i ob out)
  have sl: "slice_from bytes i = Inr (drop i bytes)" using 1 by (simp add: slice_from_def)
  show ?case
  proof (cases "zstep c d (drop i bytes) (length (zgrow out ob) - ob)")
    case (Inl e)
    then show ?thesis using "1.prems" by (simp add: zlib_loop_error slice_panic_def)
  next
    case (Inr q)
    then obtain d' k p st where st: "zstep c d (drop i bytes) (length (zgrow out ob) - ob) = Inr (d', k, p, st)"
      by (cases q) auto
    then have k: "i + k \<le> length bytes" using "1.prems" unfolding step_ok_def by fastforce
    note IH = "1.IH" [OF sl refl st refl refl refl refl refl refl _ _ _ "1.prems"(1) k]
    show ?thesis
      using k IH by (auto simp: zlib_loop_step [OF "1.prems"(2) st] Let_def slice_panic_def)
  qed
qed

lemma decompress_zlib_bound:
  assumes "step_ok c"
  shows "decompress_zlib c bytes max_out = Inl e \<Longrightarrow> \<not> panics e"
    and "decompress_zlib c bytes max_out = Inr (res, n) \<Longrightarrow> n \<le> length bytes \<and> length res \<le> max_out"
  using zlib_loop_bound [OF assms, of 0 bytes max_out "zinit c" 0 "[]"]
  by (auto simp: decompress_zlib_def)

lemma parse_kind_bound:
  assumes "parse_kind pack i k cursor = Inr (kind, cursor')" "cursor \<le> length pack"
  shows "cursor \<le> cursor' \<and> cursor' \<le> length pack \<and> (\<forall>b. kind = RefDelta b \<longrightarrow> length b = 20)"
  using assms
  by (auto simp: parse_kind_def slice_from_def res_simps map_err_Inr_iff split: if_splits dest!: parse_ofs_bound)

lemma parse_entry_bound:
  assumes "step_ok c" "cursor \<le> length pack" "parse_entry c pack i cursor = Inr (e, cursor')"
  shows "cursor < cursor' \<and> cursor' \<le> length pack \<and> pe_offset e = cursor \<and> length (pe_data e) \<le> MAX_ENTRY_BYTES
    \<and> (\<forall>b. pe_kind e = RefDelta b \<longrightarrow> length b = 20)"
proof -
  from assms obtain kb sz n kind cur where
    h: "parse_entry_header (drop cursor pack) = Inr (kb, sz, n)" "unat sz \<le> MAX_ENTRY_BYTES"
    and k: "parse_kind pack i kb (cursor + n) = Inr (kind, cur)"
    and "cur \<le> length pack"
    and "\<exists>res m. decompress_zlib c (drop cur pack) (unat sz) = Inr (res, m) \<and> cursor' = cur + m
      \<and> e = \<lparr>pe_offset = cursor, pe_kind = kind, pe_data = res\<rparr>"
    by (auto simp: parse_entry_def slice_from_def res_simps map_err_Inr_iff split: if_splits)
  moreover have "0 < n" "cursor + n \<le> length pack"
    using parse_entry_header_bound [OF h(1)] assms(2) by auto
  ultimately show ?thesis
    using parse_kind_bound [OF k] decompress_zlib_bound(2) [OF assms(1), of "drop cur pack"]
    by fastforce
qed


lemma entry_size_loop_no_panic:
  "entry_size_loop rest byte sz shift idx = Inl e \<Longrightarrow> \<not> panics e"
proof (induction rest arbitrary: byte sz shift idx)
  case Nil
  then show ?case by (subst (asm) entry_size_loop.simps) (auto simp: slice_panic_def split: if_splits)
next
  case (Cons b rest)
  from Cons.prems have "e = PackParse EntrySizeOverflow
      \<or> (\<exists>sz1 sh1. entry_size_loop rest b sz1 sh1 (idx + 1) = Inl e)"
    by (subst (asm) entry_size_loop.simps) (auto simp: Let_def split: if_splits)
  then show ?case using Cons.IH by (force simp: slice_panic_def)
qed

lemma ofs_loop_no_panic: "ofs_loop rest byte val idx = Inl e \<Longrightarrow> \<not> panics e"
proof (induction rest arbitrary: byte val idx)
  case Nil
  then show ?case by (subst (asm) ofs_loop.simps) (auto simp: slice_panic_def split: if_splits)
next
  case (Cons b rest)
  from Cons.prems have "e = PackParse OfsOffsetOverflow \<or> (\<exists>v'. ofs_loop rest b v' (idx + 1) = Inl e)"
    by (subst (asm) ofs_loop.simps) (auto simp: res_simps ok_or_def split: if_splits option.splits)
  then show ?case using Cons.IH by (force simp: slice_panic_def)
qed

lemma parse_entry_header_no_panic: "parse_entry_header bs = Inl e \<Longrightarrow> \<not> panics e"
  by (auto simp: parse_entry_header_def res_simps Let_def slice_panic_def split: list.splits
      dest!: entry_size_loop_no_panic)

lemma parse_ofs_no_panic: "parse_ofs_delta_offset bs = Inl e \<Longrightarrow> \<not> panics e"
  by (auto simp: parse_ofs_delta_offset_def slice_panic_def split: list.splits dest!: ofs_loop_no_panic)

lemma map_err_Inl_iff: "map_err g r = Inl e \<longleftrightarrow> (\<exists>e'. r = Inl e' \<and> e = g e')"
  by (cases r) auto

lemma parse_kind_no_panic:
  assumes "parse_kind pack i k cursor = Inl e" "cursor \<le> length pack"
  shows "\<not> panics e"
  using assms
  by (auto simp: parse_kind_def slice_from_def res_simps map_err_Inl_iff slice_panic_def
      split: if_splits dest!: parse_ofs_no_panic)

lemma parse_entry_no_panic:
  assumes "step_ok c" "cursor \<le> length pack" "parse_entry c pack i cursor = Inl e"
  shows "\<not> panics e"
proof (cases "parse_entry_header (drop cursor pack)")
  case (Inl e')
  then show ?thesis
    using assms parse_entry_header_no_panic [OF Inl] by (auto simp: parse_entry_def slice_from_def)
next
  case (Inr q)
  then obtain kb sz n where h: "parse_entry_header (drop cursor pack) = Inr (kb, sz, n)" by (cases q) auto
  then have n: "cursor + n \<le> length pack" using parse_entry_header_bound [OF h] assms(2) by auto
  show ?thesis
  proof (cases "parse_kind pack i kb (cursor + n)")
    case (Inl e')
    then show ?thesis using assms h parse_kind_no_panic [OF Inl n]
      by (auto simp: parse_entry_def slice_from_def slice_panic_def split: if_splits)
  next
    case (Inr q)
    then obtain kind cur where k: "parse_kind pack i kb (cursor + n) = Inr (kind, cur)" by (cases q) auto
    then have "cur \<le> length pack" using parse_kind_bound [OF k n] by simp
    then show ?thesis
      using assms h k decompress_zlib_bound(1) [OF assms(1), of "drop cur pack" "unat sz"]
      by (auto simp: parse_entry_def slice_from_def slice_panic_def res_simps map_err_Inl_iff split: if_splits)
  qed
qed

lemma parse_entries_bound:
  assumes "step_ok c" "cursor \<le> length pack"
  shows "case parse_entries c pack i n cursor of
      Inl e \<Rightarrow> \<not> panics e
    | Inr es \<Rightarrow> length es = n \<and> sorted_wrt (<) (map pe_offset es)
        \<and> (\<forall>e\<in>set es. cursor \<le> pe_offset e \<and> pe_offset e < length pack
             \<and> length (pe_data e) \<le> MAX_ENTRY_BYTES \<and> (\<forall>b. pe_kind e = RefDelta b \<longrightarrow> length b = 20))"
  using assms(2)
proof (induction n arbitrary: i cursor)
  case (Suc n)
  show ?case
  proof (cases "parse_entry c pack i cursor")
    case (Inl e)
    then show ?thesis using parse_entry_no_panic [OF assms(1) Suc.prems Inl] by simp
  next
    case (Inr q)
    then obtain e cursor' where e: "parse_entry c pack i cursor = Inr (e, cursor')" by (cases q) auto
    note b = parse_entry_bound [OF assms(1) Suc.prems e]
    show ?thesis
    proof (cases "parse_entries c pack (Suc i) n cursor'")
      case (Inl err)
      then show ?thesis using Suc.IH [of cursor' "Suc i"] b by (simp add: e)
    next
      case (Inr es)
      then have "length es = n" "sorted_wrt (<) (map pe_offset es)"
        and es: "\<And>e. e \<in> set es \<Longrightarrow> cursor' \<le> pe_offset e \<and> pe_offset e < length pack
             \<and> length (pe_data e) \<le> MAX_ENTRY_BYTES \<and> (\<forall>b. pe_kind e = RefDelta b \<longrightarrow> length b = 20)"
        using Suc.IH [of cursor' "Suc i"] b by simp_all
      moreover have "cursor < pe_offset x \<and> cursor \<le> pe_offset x" if "x \<in> set es" for x
        using es [OF that] b by simp
      ultimately show ?thesis using Inr b by (simp add: e)
    qed
  qed
qed simp

definition pack_count :: "u8 list \<Rightarrow> nat" where
  "pack_count pack = unat (from_be_bytes (take 4 (drop 8 pack)))"

lemma parse_pack_bound:
  assumes "step_ok c"
  shows "case parse_pack c pack of
      Inl e \<Rightarrow> \<not> panics e
    | Inr es \<Rightarrow> length es = pack_count pack \<and> sorted_wrt (<) (map pe_offset es)
        \<and> (\<forall>e\<in>set es. 12 \<le> pe_offset e \<and> pe_offset e < length pack
             \<and> length (pe_data e) \<le> MAX_ENTRY_BYTES \<and> (\<forall>b. pe_kind e = RefDelta b \<longrightarrow> length b = 20))"
proof (cases "length pack < 12 \<or> take 4 pack \<noteq> as_bytes ''PACK'' \<or> from_be_bytes (take 4 (drop 4 pack)) \<noteq> 2")
  case True
  then show ?thesis by (auto simp: parse_pack_def Let_def slice_panic_def simp del: as_bytes_simps)
next
  case False
  then have "parse_pack c pack = parse_entries c pack 0 (pack_count pack) 12" "12 \<le> length pack"
    by (auto simp: parse_pack_def Let_def pack_count_def simp del: as_bytes_simps)
  then show ?thesis
    using parse_entries_bound [OF assms, where cursor = 12 and i = 0 and n = "pack_count pack"]
    by (simp only:)
qed

text \<open>The pack parser is memory-safe on every input. No slice is taken out of range (the error is
  never a panic, not even inside a wrapped cause), and on success there is one entry for each
  object the header counts, at strictly increasing offsets inside the pack, each with at most
  1 GiB of data and, for a REF_DELTA, a 20-byte base id.\<close>

theorem parse_pack_safe:
  assumes "step_ok c"
  shows "case parse_pack c pack of
      Inl e \<Rightarrow> \<not> panics e
    | Inr es \<Rightarrow> length es = pack_count pack \<and> sorted_wrt (<) (map pe_offset es)
        \<and> (\<forall>e\<in>set es. 12 \<le> pe_offset e \<and> pe_offset e < length pack
             \<and> length (pe_data e) \<le> MAX_ENTRY_BYTES \<and> (\<forall>b. pe_kind e = RefDelta b \<longrightarrow> length b = 20))"
  using assms by (rule parse_pack_bound)

section \<open>Round trip\<close>

text \<open>The contract of the decoder on a well-formed stream. \<open>S d z x\<close> says that a decoder in state \<open>d\<close>
  whose input continues with \<open>z\<close> has \<open>x\<close> still to produce, \<open>z\<close> ending the stream. A step with room in
  the output takes no more than \<open>z\<close>, writes a part of \<open>x\<close>, and either ends with both used up or makes
  progress.\<close>

definition decodes :: "'d codec \<Rightarrow> ('d \<Rightarrow> u8 list \<Rightarrow> u8 list \<Rightarrow> bool) \<Rightarrow> bool" where
  "decodes c S = (\<forall>d z x rest n. S d z x \<longrightarrow> 0 < n \<longrightarrow>
     (\<exists>d' k p st. zstep c d (z @ rest) n = Inr (d', k, p, st) \<and> k \<le> length z \<and> length p \<le> n \<and> prefix p x
        \<and> (if st = ZStreamEnd then k = length z \<and> p = x
           else S d' (drop k z) (drop (length p) x) \<and> (0 < k \<or> p \<noteq> []))))"

lemma zgrow_room: "ob < length (zgrow out ob)"
  by (simp add: zgrow_def)

lemma take_zgrow: "ob \<le> length out \<Longrightarrow> take ob (zgrow out ob) = take ob out"
  by (simp add: zgrow_def)

lemma zlib_loop_decodes:
  assumes "decodes c S" "S d z x" "length done \<le> length out" "take (length done) out = done"
    "i + length z \<le> length bytes" "drop i bytes = z @ rest"
  shows "zlib_loop c bytes (length done + length x) d i (length done) out = Inr (done @ x, i + length z)"
  using assms(2-)
proof (induction "length z + length x" arbitrary: d z x "done" out i rule: less_induct)
  case less
  let ?ob = "length done"
  have "0 < length (zgrow out ?ob) - ?ob" using zgrow_room [of ?ob out] by simp
  from assms(1) [unfolded decodes_def, rule_format, OF less.prems(1) this, of rest] obtain d' k p st where
    st: "zstep c d (z @ rest) (length (zgrow out ?ob) - ?ob) = Inr (d', k, p, st)"
    and k: "k \<le> length z" "length p \<le> length (zgrow out ?ob) - ?ob" "prefix p x"
    and nx: "if st = ZStreamEnd then k = length z \<and> p = x
      else S d' (drop k z) (drop (length p) x) \<and> (0 < k \<or> p \<noteq> [])"
    by blast
  obtain x' where x: "x = p @ x'" using k(3) by (auto simp: prefix_def)
  have i: "i \<le> length bytes" using less.prems by simp
  define out' where "out' = take ?ob (zgrow out ?ob) @ p @ drop (?ob + length p) (zgrow out ?ob)"
  note step = zlib_loop_step [OF i st [folded less.prems(5)], unfolded Let_def, folded out'_def]
  have out': "take (?ob + length p) out' = done @ p"
    using less.prems by (simp add: out'_def take_zgrow)
  show ?case
  proof (cases "st = ZStreamEnd")
    case True
    then show ?thesis using nx out' by (simp add: step)
  next
    case False
    with nx have S: "S d' (drop k z) x'" and pr: "0 < k \<or> p \<noteq> []" by (auto simp: x)
    have "zlib_loop c bytes (length (done @ p) + length x') d' (i + k) (length (done @ p)) out'
      = Inr ((done @ p) @ x', i + k + length (drop k z))"
    proof (rule less.hyps [OF _ S])
      show "length (drop k z) + length x' < length z + length x"
      proof -
        have "length x = length p + length x'" by (simp add: x)
        moreover have "0 < k \<or> 0 < length p" using pr by simp
        ultimately show ?thesis using k(1) unfolding length_drop by linarith
      qed
      have "length (done @ p) = length (take (?ob + length p) out')" by (simp only: out')
      then show "length (done @ p) \<le> length out'" by simp
      show "take (length (done @ p)) out' = done @ p" using out' by simp
      show "i + k + length (drop k z) \<le> length bytes" using less.prems k by simp
      show "drop (i + k) bytes = drop k z @ rest"
        proof -
          have "drop (i + k) bytes = drop k (drop i bytes)" by (simp add: add.commute)
          then show ?thesis using less.prems(5) k(1) by simp
        qed
    qed
    then show ?thesis using False pr k(1) by (simp add: step x add.assoc)
  qed
qed

lemma decompress_zlib_decodes:
  assumes "decodes c S" "S (zinit c) z x"
  shows "decompress_zlib c (z @ rest) (length x) = Inr (x, length z)"
  using zlib_loop_decodes [OF assms, of "[]" "[]" 0 "z @ rest" rest] by (simp add: decompress_zlib_def)


record raw_entry =
  re_kind :: parsed_kind
  re_data :: "u8 list"
  re_stream :: "u8 list"

fun kind_code :: "parsed_kind \<Rightarrow> nat" where
  "kind_code (Direct Commit) = 1"
| "kind_code (Direct Tree) = 2"
| "kind_code (Direct Blob) = 3"
| "kind_code (Direct Tag) = 4"
| "kind_code (OfsDelta _) = 6"
| "kind_code (RefDelta _) = 7"

fun encode_base :: "parsed_kind \<Rightarrow> u8 list" where
  "encode_base (Direct _) = []"
| "encode_base (OfsDelta d) = encode_ofs (unat d)"
| "encode_base (RefDelta b) = b"

definition encode_raw :: "raw_entry \<Rightarrow> u8 list" where
  "encode_raw e = encode_entry_header (kind_code (re_kind e)) (length (re_data e))
     @ encode_base (re_kind e) @ re_stream e"

definition raw_ok :: "'d codec \<Rightarrow> ('d \<Rightarrow> u8 list \<Rightarrow> u8 list \<Rightarrow> bool) \<Rightarrow> raw_entry \<Rightarrow> bool" where
  "raw_ok c S e = (length (re_data e) \<le> MAX_ENTRY_BYTES \<and> S (zinit c) (re_stream e) (re_data e)
     \<and> (case re_kind e of RefDelta b \<Rightarrow> length b = 20 | _ \<Rightarrow> True))"

fun layout :: "nat \<Rightarrow> raw_entry list \<Rightarrow> parsed_entry list" where
  "layout off [] = []"
| "layout off (e # es) = \<lparr>pe_offset = off, pe_kind = re_kind e, pe_data = re_data e\<rparr>
     # layout (off + length (encode_raw e)) es"

definition be32 :: "nat \<Rightarrow> u8 list" where
  "be32 n = [of_nat (n div 2 ^ 24), of_nat (n div 2 ^ 16), of_nat (n div 2 ^ 8), of_nat n]"

definition encode_pack :: "raw_entry list \<Rightarrow> u8 list" where
  "encode_pack es = as_bytes ''PACK'' @ be32 2 @ be32 (length es) @ concat (map encode_raw es)"

lemma from_be32: "n < 2 ^ 32 \<Longrightarrow> from_be_bytes (be32 n) = of_nat n"
proof -
  assume n: "n < 2 ^ 32"
  have "((n div 2 ^ 24 mod 256 * 256 + n div 2 ^ 16 mod 256) * 256 + n div 2 ^ 8 mod 256) * 256 + n mod 256 = n"
  proof -
    have d: "n div 2 ^ 24 = n div 256 div 256 div 256" "n div 2 ^ 16 = n div 256 div 256" "n div 2 ^ 8 = n div 256"
      by (simp_all flip: div_mult2_eq)
    have "n div 256 div 256 div 256 mod 256 = n div 256 div 256 div 256"
      using n by (simp flip: div_mult2_eq)
    then show ?thesis unfolding d by (simp only: div_mult_mod_eq)
  qed
  with n have "foldl (\<lambda>a b. a * 256 + unat b) 0 (be32 n) = n" by (simp add: be32_def unat_of_nat)
  then show ?thesis by (simp only: from_be_bytes_def)
qed

lemma parse_kind_encode:
  assumes "length pre = cursor" "case k of RefDelta b \<Rightarrow> length b = 20 | _ \<Rightarrow> True"
  shows "parse_kind (pre @ encode_base k @ rest) i (of_nat (kind_code k)) cursor
    = Inr (k, cursor + length (encode_base k))"
proof (cases k)
  case (OfsDelta d)
  have "unat d < 2 ^ LENGTH(64)" by (rule unsigned_less)
  then have "parse_ofs_delta_offset (encode_ofs (unat d) @ rest) = Inr (d, length (encode_ofs (unat d)))"
    using ofs_roundtrip [of "unat d" rest] by simp
  with OfsDelta assms show ?thesis by (simp add: parse_kind_def slice_from_def)
next
  case (Direct o1)
  then show ?thesis using assms by (cases o1) (simp_all add: parse_kind_def)
next
  case (RefDelta b)
  then show ?thesis using assms by (simp add: parse_kind_def)
qed

lemma parse_entry_encode:
  assumes "decodes c S" "raw_ok c S e"
  shows "parse_entry c (pre @ encode_raw e @ rest) i (length pre)
    = Inr (\<lparr>pe_offset = length pre, pe_kind = re_kind e, pe_data = re_data e\<rparr>,
           length pre + length (encode_raw e))"
proof -
  let ?h = "encode_entry_header (kind_code (re_kind e)) (length (re_data e))"
  let ?b = "encode_base (re_kind e)"
  have n: "length (re_data e) \<le> 2 ^ 30" using assms(2) by (simp add: raw_ok_def MAX_ENTRY_BYTES_def)
  then have u: "unat (of_nat (length (re_data e)) :: u64) = length (re_data e)" by (simp add: unat_of_nat)
  have "kind_code (re_kind e) < 8" by (cases "re_kind e" rule: kind_code.cases) simp_all
  with n have h: "parse_entry_header (?h @ ?b @ re_stream e @ rest)
      = Inr (of_nat (kind_code (re_kind e)), of_nat (length (re_data e)), length ?h)"
    using entry_header_parse [of "kind_code (re_kind e)" "length (re_data e)" "?b @ re_stream e @ rest"] by simp
  have k: "parse_kind (pre @ ?h @ ?b @ re_stream e @ rest) i (of_nat (kind_code (re_kind e)))
      (length pre + length ?h) = Inr (re_kind e, length pre + length ?h + length ?b)"
    using parse_kind_encode [of "pre @ ?h" "length pre + length ?h" "re_kind e" "re_stream e @ rest" i] assms(2)
    by (simp add: raw_ok_def)
  have z: "decompress_zlib c (re_stream e @ rest) (length (re_data e)) = Inr (re_data e, length (re_stream e))"
    using assms by (intro decompress_zlib_decodes [OF assms(1)]) (simp add: raw_ok_def)
  show ?thesis
    using n by (simp add: parse_entry_def encode_raw_def slice_from_def h k z u MAX_ENTRY_BYTES_def)
qed

lemma parse_entries_encode:
  assumes "decodes c S" "list_all (raw_ok c S) es"
  shows "parse_entries c (pre @ concat (map encode_raw es) @ rest) i (length es) (length pre)
    = Inr (layout (length pre) es)"
  using assms(2)
proof (induction es arbitrary: pre i)
  case (Cons e es)
  then show ?case
    using parse_entry_encode [OF assms(1), of e pre "concat (map encode_raw es) @ rest" i]
      Cons.IH [of "pre @ encode_raw e" "Suc i"]
    by simp
qed simp

lemma parse_pack_layout:
  assumes "decodes c S" "list_all (raw_ok c S) es" "length es < 2 ^ 32"
  shows "parse_pack c (encode_pack es @ trailer) = Inr (layout 12 es)"
proof -
  let ?pre = "as_bytes ''PACK'' @ be32 2 @ be32 (length es)"
  have l: "length (be32 n) = 4" for n by (simp add: be32_def)
  have "parse_entries c (?pre @ concat (map encode_raw es) @ trailer) 0 (length es) (length ?pre)
    = Inr (layout (length ?pre) es)"
    by (rule parse_entries_encode [OF assms(1,2)])
  moreover have "unat (from_be_bytes (be32 (length es))) = length es"
    using assms(3) by (simp add: from_be32 unat_of_nat)
  ultimately show ?thesis by (simp add: parse_pack_def encode_pack_def l from_be32 Let_def)
qed

text \<open>C30: The pack parser inverts the pack format. For every list of entries (direct objects of the
  four kinds, OFS_DELTA and REF_DELTA) whose bodies are streams of a conforming decoder, with
  fewer than 2^32 of them, parsing the serialised pack, whatever trailer follows, gives back the
  kinds, base references and data, each at the offset where its header starts.\<close>

theorem parse_pack_encode:
  assumes "decodes c S" "list_all (raw_ok c S) es" "length es < 2 ^ 32"
  shows "parse_pack c (encode_pack es @ trailer) = Inr (layout 12 es)"
  using assms by (rule parse_pack_layout)

text \<open>A decoder that meets the contract: a stream is a length byte and that many stored bytes.\<close>

definition stored_step :: "nat option \<Rightarrow> u8 list \<Rightarrow> nat \<Rightarrow> string + nat option \<times> nat \<times> u8 list \<times> zstatus" where
  "stored_step d buf n =
     (case d of
        None \<Rightarrow> (case buf of [] \<Rightarrow> Inr (None, 0, [], ZBufError) | b # _ \<Rightarrow> Inr (Some (unat b), 1, [], ZOk))
      | Some m \<Rightarrow> let k = min m (min (length buf) n)
                  in Inr (Some (m - k), k, take k buf, if k = m then ZStreamEnd else ZOk))"

definition stored :: "nat option codec" where
  "stored = \<lparr>zstep = stored_step, zinit = None, zdeflate = (\<lambda>bs. bs), zinflate = (\<lambda>bs. Inr bs),
     sha1 = (\<lambda>bs. take 20 (rev bs @ replicate 20 0))\<rparr>"

definition stored_stream :: "nat option \<Rightarrow> u8 list \<Rightarrow> u8 list \<Rightarrow> bool" where
  "stored_stream d z x =
     (case d of None \<Rightarrow> length x < 256 \<and> z = of_nat (length x) # x | Some m \<Rightarrow> z = x \<and> length x = m)"

lemma stored_codec_ok: "codec_ok stored"
  by (auto simp: codec_ok_def step_ok_def stored_def stored_step_def Let_def min_def
      split: option.splits list.splits)

lemma stored_decodes: "decodes stored stored_stream"
  unfolding decodes_def
proof (intro allI impI)
  fix d :: "nat option" and z x rest :: "u8 list" and n :: nat
  assume S: "stored_stream d z x" and n: "0 < n"
  show "\<exists>d' k p st. zstep stored d (z @ rest) n = Inr (d', k, p, st) \<and> k \<le> length z \<and> length p \<le> n
     \<and> prefix p x \<and> (if st = ZStreamEnd then k = length z \<and> p = x
           else stored_stream d' (drop k z) (drop (length p) x) \<and> (0 < k \<or> p \<noteq> []))"
  proof (cases d)
    case None
    with S show ?thesis
      by (auto simp: stored_def stored_step_def stored_stream_def unat_of_nat)
  next
    case (Some m)
    with S have z: "z = x" "length x = m" by (simp_all add: stored_stream_def)
    define k where "k = min m (min (length (z @ rest)) n)"
    have k: "k \<le> m" "k \<le> n" "k < m \<Longrightarrow> 0 < k" using n z by (auto simp: k_def)
    have "zstep stored d (z @ rest) n
        = Inr (Some (m - k), k, take k x, if k = m then ZStreamEnd else ZOk)"
      using Some z by (auto simp add: stored_def stored_step_def Let_def k_def min_def)
    then show ?thesis using k z by (auto simp: stored_stream_def take_is_prefix)
  qed
qed

definition sample_raws :: "raw_entry list" where
  "sample_raws =
     [\<lparr>re_kind = Direct Blob, re_data = [104, 105], re_stream = [2, 104, 105]\<rparr>,
      \<lparr>re_kind = OfsDelta 4, re_data = [2, 3, 0x90, 2, 1, 33], re_stream = [6, 2, 3, 0x90, 2, 1, 33]\<rparr>]"

lemma sample_raws_ok: "list_all (raw_ok stored stored_stream) sample_raws"
  by (simp add: sample_raws_def raw_ok_def stored_def stored_stream_def MAX_ENTRY_BYTES_def)

theorem parse_pack_encode_witness:
  "parse_pack stored (encode_pack sample_raws @ [1, 2, 3]) = Inr (layout 12 sample_raws)"
  using parse_pack_encode [OF stored_decodes sample_raws_ok, of "[1, 2, 3]"]
  by (simp add: sample_raws_def)

theorem parse_pack_safe_witness:
  "case parse_pack stored [1, 2, 3] of Inl e \<Rightarrow> \<not> panics e | Inr es \<Rightarrow> False"
  using parse_pack_safe [of stored "[1, 2, 3]"] stored_codec_ok
  by (simp add: codec_ok_def parse_pack_def)


end
