(* ===== verification/PackStore.thy ===== *)
theory PackStore
  imports PackParse
begin

text \<open>
  What \<open>store_with_full_resolution\<close> of \<open>src/native_pack/parse.rs\<close> promises, proved for every object
  store that keeps the first bytes of an object (the locale \<open>insert_once_store\<close>) and stated for the
  SQLite backend: on success every entry of the pack is in the store under the id of its
  reconstructed content, nothing that was there changed, and nothing else was added; a resolution
  that reports being stuck is stuck on bases that are really missing.
\<close>

section \<open>The specification\<close>

text \<open>The content of entry \<open>i\<close>, independent of any order of resolution: a direct entry is its own
  data, a delta is applied to the content of its base, which the store (\<open>base\<close>) or an earlier
  offset of the pack provides.\<close>

inductive materializes ::
  "(oid \<Rightarrow> (object_kind \<times> u8 list) option) \<Rightarrow> parsed_entry list \<Rightarrow> nat \<Rightarrow> object_kind \<times> u8 list \<Rightarrow> bool"
  for base es where
  direct: "i < length es \<Longrightarrow> pe_kind (es ! i) = Direct k \<Longrightarrow> materializes base es i (k, pe_data (es ! i))"
| ref_delta: "i < length es \<Longrightarrow> pe_kind (es ! i) = RefDelta b \<Longrightarrow> base (hex_oid b) = Some (k, p)
    \<Longrightarrow> apply_delta p (pe_data (es ! i)) = Inr q \<Longrightarrow> materializes base es i (k, q)"
| ofs_delta: "i < length es \<Longrightarrow> pe_kind (es ! i) = OfsDelta d \<Longrightarrow> unat d \<le> pe_offset (es ! i)
    \<Longrightarrow> pe_offset (es ! j) = pe_offset (es ! i) - unat d \<Longrightarrow> materializes base es j (k, p)
    \<Longrightarrow> apply_delta p (pe_data (es ! i)) = Inr q \<Longrightarrow> materializes base es i (k, q)"

inductive_cases materializesE: "materializes base es i kp"

definition base_of ::
  "'d codec \<Rightarrow> (object_key \<rightharpoonup> u8 list) \<Rightarrow> repo_id \<Rightarrow> oid \<Rightarrow> (object_kind \<times> u8 list) option" where
  "base_of c v r x =
     (case v (r, x) of None \<Rightarrow> None
      | Some bs \<Rightarrow> (case decode_loose c x bs of Inl _ \<Rightarrow> None | Inr kp \<Rightarrow> Some kp))"

text \<open>\<open>v\<close> is \<open>v0\<close> with the objects of the resolved entries added.\<close>

definition resolution_inv ::
  "'d codec \<Rightarrow> (object_key \<rightharpoonup> u8 list) \<Rightarrow> (object_key \<rightharpoonup> u8 list) \<Rightarrow> repo_id \<Rightarrow> parsed_entry list
     \<Rightarrow> cache \<Rightarrow> bool" where
  "resolution_inv c v0 v r es resolved =
     (v0 \<subseteq>\<^sub>m v
      \<and> (\<forall>i k p. resolved i = Some (k, p) \<longrightarrow> i < length es \<and> materializes (base_of c v r) es i (k, p)
            \<and> v (r, loose_oid_hex c k p) \<noteq> None)
      \<and> (\<forall>key bs. v key = Some bs \<longrightarrow> v0 key = None \<longrightarrow>
            (\<exists>i k p. resolved i = Some (k, p) \<and> key = (r, loose_oid_hex c k p)
               \<and> bs = loose_format_bytes c k p)))"

lemma base_of_mono: "v \<subseteq>\<^sub>m v' \<Longrightarrow> base_of c v r x = Some kp \<Longrightarrow> base_of c v' r x = Some kp"
  by (auto simp: base_of_def map_le_def dom_def split: option.splits)

lemma materializes_mono:
  assumes "materializes b es i kp" "\<And>x kp. b x = Some kp \<Longrightarrow> b' x = Some kp"
  shows "materializes b' es i kp"
  using assms by (induction rule: materializes.induct) (auto intro: materializes.intros)

lemma materializes_less: "materializes b es i kp \<Longrightarrow> i < length es"
  by (induction rule: materializes.induct) auto

lemma resolution_inv_add:
  assumes "resolution_inv c v0 v r es resolved" "materializes (base_of c v r) es i (k, p)" "resolved i = None"
    and "v' = v \<and> v (r, loose_oid_hex c k p) \<noteq> None
      \<or> v (r, loose_oid_hex c k p) = None \<and> v' = v((r, loose_oid_hex c k p) \<mapsto> loose_format_bytes c k p)"
  shows "resolution_inv c v0 v' r es (resolved(i \<mapsto> (k, p)))"
proof -
  have le: "v \<subseteq>\<^sub>m v'" using assms(4) by (auto simp: map_le_def dom_def)
  have m: "materializes (base_of c v' r) es j kp" if "materializes (base_of c v r) es j kp" for j kp
    by (rule materializes_mono [OF that]) (rule base_of_mono [OF le])
  have keep: "v' key \<noteq> None" if "v key \<noteq> None" for key
    using that assms(4) by auto
  have "v0 \<subseteq>\<^sub>m v'" using assms(1) le by (auto simp: resolution_inv_def intro: map_le_trans)
  moreover have "j < length es \<and> materializes (base_of c v' r) es j (k', p') \<and> v' (r, loose_oid_hex c k' p') \<noteq> None"
    if "(resolved(i \<mapsto> (k, p))) j = Some (k', p')" for j k' p'
  proof (cases "j = i")
    case True
    then show ?thesis using that m [OF assms(2)] materializes_less [OF assms(2)] assms(4) by auto
  next
    case False
    then show ?thesis using that assms(1) m keep unfolding resolution_inv_def by (metis fun_upd_other)
  qed
  moreover have "\<exists>j k' p'. (resolved(i \<mapsto> (k, p))) j = Some (k', p') \<and> key = (r, loose_oid_hex c k' p')
      \<and> bs = loose_format_bytes c k' p'" if new: "v' key = Some bs" "v0 key = None" for key bs
  proof (cases "v key = Some bs")
    case True
    then obtain j k' p' where "resolved j = Some (k', p')" "key = (r, loose_oid_hex c k' p')"
      "bs = loose_format_bytes c k' p'"
      using assms(1) new(2) unfolding resolution_inv_def by blast
    moreover from this have "j \<noteq> i" using assms(3) by auto
    ultimately show ?thesis by auto
  next
    case False
    then have "key = (r, loose_oid_hex c k p)" "bs = loose_format_bytes c k p"
      using new(1) assms(4) by (auto split: if_splits)
    then show ?thesis by (intro exI [of _ i] exI [of _ k] exI [of _ p]) simp
  qed
  ultimately show ?thesis unfolding resolution_inv_def by blast
qed

lemma loose_oid_wf: "codec_ok c \<Longrightarrow> oid_wf (loose_oid_hex c k p)"
  by (simp add: codec_ok_def loose_oid_hex_def oid_ok_hex_bytes)

definition entries_wf :: "parsed_entry list \<Rightarrow> bool" where
  "entries_wf es = (sorted_wrt (<) (map pe_offset es)
     \<and> (\<forall>e\<in>set es. \<forall>b. pe_kind e = RefDelta b \<longrightarrow> length b = 20))"

text \<open>A set of entries that is stuck: every base is a missing object of the store or an entry of the
  set itself.\<close>

definition missing_bases ::
  "(object_key \<rightharpoonup> u8 list) \<Rightarrow> repo_id \<Rightarrow> parsed_entry list \<Rightarrow> nat set \<Rightarrow> bool" where
  "missing_bases v r es P = (\<forall>i\<in>P. i < length es \<and>
     (case pe_kind (es ! i) of
        Direct _ \<Rightarrow> False
      | RefDelta b \<Rightarrow> v (r, hex_oid b) = None
      | OfsDelta d \<Rightarrow> \<exists>j\<in>P. unat d \<le> pe_offset (es ! i) \<and> pe_offset (es ! j) = pe_offset (es ! i) - unat d))"

lemma length_distinct_subset: "distinct xs \<Longrightarrow> set xs \<subseteq> set ys \<Longrightarrow> length xs \<le> length ys"
  by (metis card_length card_mono distinct_card finite_set le_trans)

definition is_stuck :: "error \<Rightarrow> bool" where
  "is_stuck e = (\<exists>n. e = PackParse (ResolutionStuck n))"

lemma offset_to_idx_Some:
  assumes "offset_to_idx es off = Some j"
  shows "j < length es \<and> pe_offset (es ! j) = off"
proof -
  from assms have "(off, j) \<in> set (zip (map pe_offset es) [0..<length es])"
    unfolding offset_to_idx_def by (metis map_of_SomeD set_rev)
  then show ?thesis by (auto simp: in_set_zip)
qed

section \<open>Resolution over a store that keeps the first bytes\<close>

context insert_once_store begin

lemma store_object_add:
  assumes "codec_ok c" "invar s" "resolution_inv c v0 (view s) r es resolved"
    "materializes (base_of c (view s) r) es i (k, p)" "resolved i = None"
  obtains s' where "store_object c (write_loose now) r k p s = Inr s'" "invar s'"
    "resolution_inv c v0 (view s') r es (resolved(i \<mapsto> (k, p)))"
proof (cases "view s (r, loose_oid_hex c k p) = None")
  case True
  then obtain s' where s': "write_loose now r (loose_oid_hex c k p) (loose_format_bytes c k p) s = Inr s'"
    "invar s'" "view s' = (view s)((r, loose_oid_hex c k p) \<mapsto> loose_format_bytes c k p)"
    using read_after_write [OF assms(2) loose_oid_wf [OF assms(1)], of r k p "loose_format_bytes c k p"] by auto
  with True show ?thesis
    using that [of s'] resolution_inv_add [OF assms(3-5), of "view s'"] by (simp add: store_object_def)
next
  case False
  then have "store_object c (write_loose now) r k p s = Inr s"
    using write_keeps [OF assms(2) loose_oid_wf [OF assms(1)] False] by (simp add: store_object_def)
  with False show ?thesis
    using that [of s] assms(2) resolution_inv_add [OF assms(3-5), of "view s"] by simp
qed

lemma read_base:
  assumes "invar s" "oid_wf x" "read_loose_inflated c read_loose s r x = Inr (Some kp)"
  shows "base_of c (view s) r x = Some kp"
  using assms by (auto simp: read_loose_inflated_def read_view res_simps base_of_def split: option.splits)

lemma read_base_None:
  assumes "invar s" "oid_wf x" "read_loose_inflated c read_loose s r x = Inr None"
  shows "view s (r, x) = None"
  using assms by (auto simp: read_loose_inflated_def read_view res_simps split: option.splits)

lemma find_base_materializes:
  assumes "invar s" "entries_wf es" "resolution_inv c v0 (view s) r es resolved" "i < length es"
    and "find_base c read_loose r es resolved i s = Inr (Some (k, p))" "apply_delta p (pe_data (es ! i)) = Inr q"
  shows "materializes (base_of c (view s) r) es i (k, q)"
proof (cases "pe_kind (es ! i)")
  case (RefDelta b)
  then have "length b = 20" using assms(2,4) by (auto simp: entries_wf_def)
  then have "oid_wf (hex_oid b)" by (simp add: hex_oid_def oid_ok_hex_bytes)
  with RefDelta assms(1,5) have "base_of c (view s) r (hex_oid b) = Some (k, p)"
    by (intro read_base) (auto simp: find_base_def)
  with RefDelta assms(4,6) show ?thesis by (blast intro: ref_delta)
next
  case (OfsDelta d)
  with assms(5) obtain j where j: "offset_to_idx es (pe_offset (es ! i) - unat d) = Some j"
    "resolved j = Some (k, p)" "unat d \<le> pe_offset (es ! i)"
    by (auto simp: find_base_def res_simps split: if_splits)
  then have "materializes (base_of c (view s) r) es j (k, p)"
    using assms(3) unfolding resolution_inv_def by blast
  with OfsDelta assms(4,6) j(3) offset_to_idx_Some [OF j(1)] show ?thesis
    by (blast intro: ofs_delta)
qed (use assms(5) in \<open>simp add: find_base_def\<close>)

lemma resolve_direct_spec:
  assumes "codec_ok c" "invar s" "resolution_inv c v0 (view s) r (done @ es) resolved"
    and "dom resolved = {i. i < length done \<and> (\<exists>k. pe_kind (done ! i) = Direct k)}" "count = card (dom resolved)"
  shows "\<exists>resolved' count' s'. resolve_direct c (write_loose now) r (length done) es resolved count s
      = (Inr (resolved', count'), s') \<and> invar s' \<and> resolution_inv c v0 (view s') r (done @ es) resolved'
      \<and> dom resolved' = {i. i < length (done @ es) \<and> (\<exists>k. pe_kind ((done @ es) ! i) = Direct k)}
      \<and> count' = card (dom resolved')"
  using assms(2-)
proof (induction es arbitrary: "done" resolved count s)
  case (Cons e es)
  have fin: "finite (dom resolved)" using Cons.prems(3) by simp
  have new: "length done \<notin> dom resolved" using Cons.prems(3) by simp
  show ?case
  proof (cases "\<exists>k. pe_kind e = Direct k")
    case True
    then obtain k where k: "pe_kind e = Direct k" by blast
    have "materializes (base_of c (view s) r) (done @ e # es) (length done) (k, pe_data ((done @ e # es) ! length done))"
      by (rule materializes.direct) (simp_all add: k)
    then have "materializes (base_of c (view s) r) (done @ e # es) (length done) (k, pe_data e)" by simp
    then obtain s1 where s1: "store_object c (write_loose now) r k (pe_data e) s = Inr s1" "invar s1"
      "resolution_inv c v0 (view s1) r (done @ e # es) (resolved(length done \<mapsto> (k, pe_data e)))"
      using store_object_add [OF assms(1) Cons.prems(1,2), of "length done" k "pe_data e"] new by blast
    define R where "R = resolved(length done \<mapsto> (k, pe_data e))"
    have R: "card (dom R) = count + 1" using fin new Cons.prems(4) by (simp add: R_def)
    have d: "dom R
        = {i. i < length (done @ [e]) \<and> (\<exists>k. pe_kind ((done @ [e]) ! i) = Direct k)}"
      using k by (auto simp: R_def Cons.prems(3) nth_append less_Suc_eq)
    have "\<exists>resolved' count' s'. resolve_direct c (write_loose now) r (length (done @ [e])) es
        R (count + 1) s1 = (Inr (resolved', count'), s') \<and> invar s'
      \<and> resolution_inv c v0 (view s') r ((done @ [e]) @ es) resolved'
      \<and> dom resolved' = {i. i < length ((done @ [e]) @ es) \<and> (\<exists>k. pe_kind (((done @ [e]) @ es) ! i) = Direct k)}
      \<and> count' = card (dom resolved')"
      using s1(2,3) [folded R_def] d R by (intro Cons.IH) simp_all
    then show ?thesis by (simp add: k s1(1) R_def)
  next
    case False
    then have d: "dom resolved = {i. i < length (done @ [e]) \<and> (\<exists>k. pe_kind ((done @ [e]) ! i) = Direct k)}"
      by (auto simp: Cons.prems(3) nth_append less_Suc_eq)
    have "\<exists>resolved' count' s'. resolve_direct c (write_loose now) r (length (done @ [e])) es
        resolved count s = (Inr (resolved', count'), s') \<and> invar s'
      \<and> resolution_inv c v0 (view s') r ((done @ [e]) @ es) resolved'
      \<and> dom resolved' = {i. i < length ((done @ [e]) @ es) \<and> (\<exists>k. pe_kind (((done @ [e]) @ es) ! i) = Direct k)}
      \<and> count' = card (dom resolved')"
      using d Cons.prems by (intro Cons.IH) simp_all
    then show ?thesis using False by (cases "pe_kind e") simp_all
  qed
qed auto

lemma find_base_not_stuck:
  assumes "invar s" "entries_wf es" "i < length es" "find_base c read_loose r es resolved i s = Inl e"
  shows "\<not> is_stuck e"
proof (cases "pe_kind (es ! i)")
  case (RefDelta b)
  then have "length b = 20" using assms(2,3) by (auto simp: entries_wf_def)
  then have "oid_wf (hex_oid b)" by (simp add: hex_oid_def oid_ok_hex_bytes)
  with RefDelta assms(1,4) show ?thesis
    by (auto simp: find_base_def read_loose_inflated_def read_view decode_loose_def res_simps Let_def is_stuck_def
        map_err_def ok_or_def split: option.splits sum.splits if_splits)
next
  case (OfsDelta d)
  with assms(4) show ?thesis
    by (auto simp: find_base_def res_simps ok_or_def is_stuck_def split: if_splits option.splits)
qed (use assms(4) in \<open>auto simp: find_base_def is_stuck_def\<close>)

lemma find_base_missing:
  assumes "invar s" "entries_wf es" "i < length es" "find_base c read_loose r es resolved i s = Inr None"
  shows "case pe_kind (es ! i) of
        Direct _ \<Rightarrow> False
      | RefDelta b \<Rightarrow> view s (r, hex_oid b) = None
      | OfsDelta d \<Rightarrow> \<exists>j\<in>{..<length es} - dom resolved. unat d \<le> pe_offset (es ! i)
          \<and> pe_offset (es ! j) = pe_offset (es ! i) - unat d"
proof (cases "pe_kind (es ! i)")
  case (RefDelta b)
  then have "length b = 20" using assms(2,3) by (auto simp: entries_wf_def)
  then have "oid_wf (hex_oid b)" by (simp add: hex_oid_def oid_ok_hex_bytes)
  with RefDelta assms(1,4) show ?thesis by (auto simp: find_base_def dest: read_base_None)
next
  case (OfsDelta d)
  with assms(4) obtain j where "offset_to_idx es (pe_offset (es ! i) - unat d) = Some j"
    "resolved j = None" "unat d \<le> pe_offset (es ! i)"
    by (auto simp: find_base_def res_simps split: if_splits)
  with OfsDelta offset_to_idx_Some show ?thesis by fastforce
qed (use assms(4) in \<open>simp add: find_base_def\<close>)

lemma resolve_pass_spec:
  assumes "codec_ok c" "entries_wf es"
    and "invar s" "resolution_inv c v0 (view s) r es resolved" "count = card (dom resolved)" "finite (dom resolved)"
    and "distinct pending" "set pending \<subseteq> {..<length es}" "set pending \<inter> dom resolved = {}"
  shows "case resolve_pass c read_loose (write_loose now) r es pending still resolved count s of
      (Inl e, s') \<Rightarrow> invar s' \<and> (\<exists>resolved'. resolution_inv c v0 (view s') r es resolved') \<and> \<not> is_stuck e
    | (Inr (still', resolved', count'), s') \<Rightarrow>
        invar s' \<and> resolution_inv c v0 (view s') r es resolved' \<and> count' = card (dom resolved')
        \<and> finite (dom resolved')
        \<and> (\<exists>rest. still' = still @ rest \<and> distinct rest \<and> set rest \<subseteq> set pending
             \<and> dom resolved' = dom resolved \<union> (set pending - set rest)
             \<and> (length rest = length pending \<longrightarrow> s' = s \<and> resolved' = resolved
                  \<and> (\<forall>i\<in>set pending. find_base c read_loose r es resolved i s = Inr None)))"
  (is "?P pending still resolved count s")
  using assms(3-)
proof (induction pending arbitrary: still resolved count s)
  case (Cons i pending)
  have i: "i < length es" "resolved i = None" using Cons.prems by auto
  show ?case
  proof (cases "find_base c read_loose r es resolved i s")
    case (Inl e)
    then show ?thesis
      using Cons.prems find_base_not_stuck [OF Cons.prems(1) assms(2) i(1) Inl] by auto
  next
    case (Inr found)
    note found = Inr
    show ?thesis
    proof (cases found)
      case None
      have st: "resolve_pass c read_loose (write_loose now) r es (i # pending) still resolved count s
        = resolve_pass c read_loose (write_loose now) r es pending (still @ [i]) resolved count s"
        using Inr None by simp
      have IH: "?P pending (still @ [i]) resolved count s"
        using Cons.prems by (intro Cons.IH) auto
      show ?thesis
      proof (cases "resolve_pass c read_loose (write_loose now) r es pending (still @ [i]) resolved count s")
        case (Pair res s')
        show ?thesis
        proof (cases res)
          case (Inl e)
          then show ?thesis using IH Pair by (simp add: st del: resolve_pass.simps)
        next
          case (Inr q)
          obtain still' resolved' count' where q: "q = (still', resolved', count')" by (cases q)
          from IH Pair Inr q obtain rest where post: "invar s'" "resolution_inv c v0 (view s') r es resolved'"
            "count' = card (dom resolved')" "finite (dom resolved')"
            and rest: "still' = (still @ [i]) @ rest" "distinct rest" "set rest \<subseteq> set pending"
              "dom resolved' = dom resolved \<union> (set pending - set rest)"
            and same: "length rest = length pending \<Longrightarrow> s' = s \<and> resolved' = resolved
                  \<and> (\<forall>i\<in>set pending. find_base c read_loose r es resolved i s = Inr None)"
            by auto
          have "still' = still @ (i # rest) \<and> distinct (i # rest) \<and> set (i # rest) \<subseteq> set (i # pending)
             \<and> dom resolved' = dom resolved \<union> (set (i # pending) - set (i # rest))"
            using rest Cons.prems(5) by auto
          moreover have "s' = s \<and> resolved' = resolved
              \<and> (\<forall>j\<in>set (i # pending). find_base c read_loose r es resolved j s = Inr None)"
            if "length (i # rest) = length (i # pending)"
            using that same found None by simp
          ultimately show ?thesis using post by (auto simp: st Pair Inr q simp del: resolve_pass.simps intro!: exI [of _ "i # rest"])
        qed
      qed
    next
      case (Some kp)
      obtain k p where kp: "kp = (k, p)" by (cases kp)
      show ?thesis
      proof (cases "apply_delta p (pe_data (es ! i))")
        case (Inl e)
        then show ?thesis using Cons.prems Inr Some kp by (auto simp: is_stuck_def)
      next
        case (Inr q)
        have "materializes (base_of c (view s) r) es i (k, q)"
          using find_base_materializes [OF Cons.prems(1) assms(2) Cons.prems(2) i(1) _ Inr, of k]
            found Some kp by simp
        then obtain s1 where s1: "store_object c (write_loose now) r k q s = Inr s1" "invar s1"
          "resolution_inv c v0 (view s1) r es (resolved(i \<mapsto> (k, q)))"
          using store_object_add [OF assms(1) Cons.prems(1,2), of i k q] i(2) by blast
        define R where "R = resolved(i \<mapsto> (k, q))"
        have R: "dom R = insert i (dom resolved)" "card (dom R) = Suc count" "finite (dom R)"
          using Cons.prems(3,4) i(2) by (auto simp: R_def domIff)
        have st: "resolve_pass c read_loose (write_loose now) r es (i # pending) still resolved count s
          = resolve_pass c read_loose (write_loose now) r es pending still R (Suc count) s1"
          using found Some kp Inr s1(1) by (simp add: R_def)
        have IH: "?P pending still R (Suc count) s1"
          using Cons.prems s1(2) s1(3) [folded R_def] R by (intro Cons.IH) auto
        show ?thesis
        proof (cases "resolve_pass c read_loose (write_loose now) r es pending still R (Suc count) s1")
          case (Pair res s')
          show ?thesis
          proof (cases res)
            case (Inl e)
            then show ?thesis using IH Pair by (simp add: st del: resolve_pass.simps)
          next
            case (Inr w)
            obtain still' resolved' count' where w: "w = (still', resolved', count')" by (cases w)
            from IH Pair Inr w obtain rest where post: "invar s'" "resolution_inv c v0 (view s') r es resolved'"
              "count' = card (dom resolved')" "finite (dom resolved')"
              and rest: "still' = still @ rest" "distinct rest" "set rest \<subseteq> set pending"
                "dom resolved' = dom R \<union> (set pending - set rest)"
              by auto
            have "still' = still @ rest \<and> distinct rest \<and> set rest \<subseteq> set (i # pending)
               \<and> dom resolved' = dom resolved \<union> (set (i # pending) - set rest)"
              using rest R(1) Cons.prems(5) by auto
            moreover have "length rest \<noteq> length (i # pending)"
              using length_distinct_subset [OF rest(2,3)] by simp
            ultimately show ?thesis using post by (auto simp: st Pair Inr w simp del: resolve_pass.simps)
          qed
        qed
      qed
    qed
  qed
qed simp

end

lemma pending_set:
  "set (filter (\<lambda>i. resolved i = None) [0..<n]) = {..<n} - dom resolved"
proof (rule set_eqI)
  show "x \<in> set (filter (\<lambda>i. resolved i = None) [0..<n]) \<longleftrightarrow> x \<in> {..<n} - dom resolved" for x
    by (cases "resolved x") auto
qed

lemma materializes_direct:
  "pe_kind (es ! i) = Direct k \<Longrightarrow> materializes b es i kp \<Longrightarrow> kp = (k, pe_data (es ! i))"
  by (erule materializesE) auto

lemma materializes_ref:
  "pe_kind (es ! i) = RefDelta x \<Longrightarrow> materializes b es i (k, q) \<Longrightarrow>
    \<exists>p. b (hex_oid x) = Some (k, p) \<and> apply_delta p (pe_data (es ! i)) = Inr q"
  by (erule materializesE) auto

lemma materializes_ofs:
  "pe_kind (es ! i) = OfsDelta d \<Longrightarrow> materializes b es i (k, q) \<Longrightarrow>
    \<exists>j p. unat d \<le> pe_offset (es ! i) \<and> pe_offset (es ! j) = pe_offset (es ! i) - unat d
      \<and> j < length es \<and> materializes b es j (k, p) \<and> apply_delta p (pe_data (es ! i)) = Inr q"
  by (erule materializesE) (auto dest: materializes_less)

lemma entries_wf_inj:
  assumes "entries_wf es" "i < length es" "j < length es" "pe_offset (es ! i) = pe_offset (es ! j)"
  shows "i = j"
proof -
  have "distinct (map pe_offset es)" using assms(1) by (simp add: entries_wf_def strict_sorted_iff)
  then show ?thesis using assms(2-) by (metis length_map nth_eq_iff_index_eq nth_map)
qed

lemma materializes_det:
  assumes "entries_wf es" "materializes b es i kp" "materializes b es i kp'"
  shows "kp = kp'"
  using assms(2,3)
proof (induction i kp arbitrary: kp' rule: materializes.induct)
  case (direct i k)
  then show ?case by (metis materializes_direct)
next
  case (ref_delta i x k p q)
  obtain k' q' where kp': "kp' = (k', q')" by (cases kp')
  from materializes_ref [OF ref_delta(2) ref_delta(5) [unfolded kp']] ref_delta(3,4) kp' show ?case by auto
next
  case (ofs_delta i d j k p q)
  obtain k' q' where kp': "kp' = (k', q')" by (cases kp')
  from materializes_ofs [OF ofs_delta(2) ofs_delta.prems [unfolded kp']] obtain j' p' where
    j: "pe_offset (es ! j') = pe_offset (es ! i) - unat d" "j' < length es"
    "materializes b es j' (k', p')" "apply_delta p' (pe_data (es ! i)) = Inr q'"
    by blast
  have "j' = j"
    by (rule entries_wf_inj [OF assms(1) j(2) materializes_less [OF ofs_delta(5)]]) (simp add: j(1) ofs_delta(4))
  with j(3) have "(k, p) = (k', p')" by (intro ofs_delta.IH) simp
  then show ?case using kp' j(4) ofs_delta(6) by simp
qed

lemma offset_to_idx_defined: "entries_wf es \<Longrightarrow> j < length es \<Longrightarrow> offset_to_idx es (pe_offset (es ! j)) = Some j"
proof -
  assume wf: "entries_wf es" and j: "j < length es"
  have "offset_to_idx es (pe_offset (es ! j)) \<noteq> None"
  proof -
    have "(pe_offset (es ! j), j) \<in> set (zip (map pe_offset es) [0..<length es])"
      using j by (auto simp: in_set_zip intro!: exI [of _ j])
    then show ?thesis unfolding offset_to_idx_def map_of_eq_None_iff set_map set_rev by force
  qed
  then show ?thesis using offset_to_idx_Some entries_wf_inj [OF wf] j by fastforce
qed

lemma not_stuck:
  assumes "entries_wf es" "missing_bases v r es P" "materializes b es i kp" "v0 \<subseteq>\<^sub>m v" "b = base_of c v0 r"
  shows "i \<notin> P"
  using assms(3)
proof (induction rule: materializes.induct)
  case (direct i k)
  then show ?case using assms(2) by (auto simp: missing_bases_def)
next
  case (ref_delta i x k p q)
  then have "v0 (r, hex_oid x) \<noteq> None" using assms(5) by (auto simp: base_of_def split: option.splits)
  then have "v (r, hex_oid x) \<noteq> None" using assms(4) by (metis domIff map_le_def)
  then show ?case using assms(2) ref_delta(2) by (auto simp: missing_bases_def)
next
  case (ofs_delta i d j k p q)
  show ?case
  proof
    assume "i \<in> P"
    with assms(2) ofs_delta(2) obtain j' where "j' \<in> P" "pe_offset (es ! j') = pe_offset (es ! i) - unat d"
      by (force simp: missing_bases_def)
    moreover from this have "j' < length es" using assms(2) by (auto simp: missing_bases_def)
    ultimately have "j' = j" using entries_wf_inj [OF assms(1), of j' j] ofs_delta materializes_less by metis
    with \<open>j' \<in> P\<close> ofs_delta.IH show False by simp
  qed
qed

context insert_once_store begin

lemma resolve_loop_spec:
  assumes "codec_ok c" "entries_wf es"
    and "invar s" "resolution_inv c v0 (view s) r es resolved" "count = card (dom resolved)"
    and "distinct pending" "set pending = {..<length es} - dom resolved"
  shows "case resolve_loop c read_loose (write_loose now) r es pending resolved count s of
      (Inl e, s') \<Rightarrow> invar s' \<and> (\<exists>resolved'. resolution_inv c v0 (view s') r es resolved')
        \<and> (\<forall>n. e = PackParse (ResolutionStuck n) \<longrightarrow>
             0 < n \<and> (\<exists>P. card P = n \<and> missing_bases (view s') r es P))
    | (Inr n, s') \<Rightarrow> invar s' \<and> n = length es
        \<and> (\<exists>resolved'. dom resolved' = {..<length es} \<and> resolution_inv c v0 (view s') r es resolved')"
  (is "?P pending resolved count s")
  using assms(3-)
proof (induction "length pending" arbitrary: pending resolved count s rule: less_induct)
  case less
  have sub: "dom resolved \<subseteq> {..<length es}" using less.prems(2) by (force simp: resolution_inv_def)
  then have fin: "finite (dom resolved)" by (rule finite_subset) simp
  show ?case
  proof (cases "pending = []")
    case True
    then have "dom resolved = {..<length es}" using less.prems(5) sub by auto
    then show ?thesis using True less.prems by (subst resolve_loop.simps) auto
  next
    case False
    let ?pass = "resolve_pass c read_loose (write_loose now) r es pending [] resolved count s"
    have pass: "set pending \<subseteq> {..<length es}" "set pending \<inter> dom resolved = {}" using less.prems(5) by auto
    note spec = resolve_pass_spec [OF assms(1,2) less.prems(1-3) fin less.prems(4) pass, where now = now and still = "[]"]
    obtain res s1 where p: "?pass = (res, s1)" by (cases ?pass)
    show ?thesis
    proof (cases res)
      case (Inl e)
      then show ?thesis using spec p False by (subst resolve_loop.simps) (auto simp: is_stuck_def)
    next
      case (Inr q)
      obtain rest resolved1 count1 where q: "q = (rest, resolved1, count1)" by (cases q)
      from spec p Inr q have post: "invar s1" "resolution_inv c v0 (view s1) r es resolved1"
          "count1 = card (dom resolved1)"
        and rest: "distinct rest" "set rest \<subseteq> set pending"
          "dom resolved1 = dom resolved \<union> (set pending - set rest)"
        and same: "length rest = length pending \<Longrightarrow> s1 = s \<and> resolved1 = resolved
              \<and> (\<forall>i\<in>set pending. find_base c read_loose r es resolved i s = Inr None)"
        by auto
      have unf: "resolve_loop c read_loose (write_loose now) r es pending resolved count s =
        (if length rest = length pending then (Inl (PackParse (ResolutionStuck (length rest))), s1)
         else resolve_loop c read_loose (write_loose now) r es rest resolved1 count1 s1)"
        using False p Inr q by (subst resolve_loop.simps) simp
      show ?thesis
      proof (cases "length rest = length pending")
        case True
        have "missing_bases (view s) r es (set pending)"
          unfolding missing_bases_def
        proof
          fix i assume i: "i \<in> set pending"
          then have "i < length es" using pass by auto
          with find_base_missing [OF less.prems(1) assms(2) this, of c r resolved, folded less.prems(5)] same [OF True] i
          show "i < length es \<and> (case pe_kind (es ! i) of Direct _ \<Rightarrow> False | RefDelta b \<Rightarrow> view s (r, hex_oid b) = None
             | OfsDelta d \<Rightarrow> \<exists>j\<in>set pending. unat d \<le> pe_offset (es ! i) \<and> pe_offset (es ! j) = pe_offset (es ! i) - unat d)"
            by blast
        qed
        moreover have "card (set pending) = length rest" "0 < length rest"
          using True False less.prems(4) by (simp_all add: distinct_card)
        ultimately show ?thesis using True same post by (simp add: unf) blast
      next
        case False
        then have "length rest < length pending" using length_distinct_subset [OF rest(1,2)] by simp
        then have "?P rest resolved1 count1 s1"
          using post rest pass less.prems(5) by (intro less.hyps) auto
        then show ?thesis using False by (simp add: unf)
      qed
    qed
  qed
qed

lemma full_resolution_spec:
  assumes "codec_ok c" "invar s" "parse_pack c pack = Inr es" "entries_wf es"
  shows "case store_with_full_resolution c read_loose (write_loose now) pack r s of
      (Inl e, s') \<Rightarrow> invar s' \<and> (\<exists>resolved. resolution_inv c (view s) (view s') r es resolved)
        \<and> (\<forall>n. e = PackParse (ResolutionStuck n) \<longrightarrow>
             0 < n \<and> (\<exists>P. card P = n \<and> missing_bases (view s') r es P))
    | (Inr n, s') \<Rightarrow> invar s' \<and> n = length es
        \<and> (\<exists>resolved. dom resolved = {..<length es} \<and> resolution_inv c (view s) (view s') r es resolved)"
proof -
  have "resolution_inv c (view s) (view s) r ([] @ es) Map.empty" by (simp add: resolution_inv_def)
  then obtain resolved count s1 where d: "resolve_direct c (write_loose now) r 0 es Map.empty 0 s
      = (Inr (resolved, count), s1)" "invar s1" "resolution_inv c (view s) (view s1) r es resolved"
      "count = card (dom resolved)"
    using resolve_direct_spec [OF assms(1,2), of "view s" r "[]" es Map.empty 0 now] by auto
  show ?thesis
    using resolve_loop_spec [OF assms(1,4) d(2,3,4) _ pending_set, where now = now]
    by (simp add: store_with_full_resolution_def assms(3) d(1))
qed

lemma find_base_available:
  assumes "invar s" "entries_wf es" "resolution_inv c v0 (view s) r es resolved" "i < length es"
    and "resolved i = None" "\<forall>i k. pe_kind (es ! i) = Direct k \<longrightarrow> i < length es \<longrightarrow> resolved i \<noteq> None"
    and "materializes (base_of c v0 r) es i (k0, q0)"
  shows "find_base c read_loose r es resolved i s = Inr None \<or>
    (\<exists>k p q. find_base c read_loose r es resolved i s = Inr (Some (k, p)) \<and> apply_delta p (pe_data (es ! i)) = Inr q)"
proof (cases "pe_kind (es ! i)")
  case (Direct k)
  then show ?thesis using assms(4-6) by blast
next
  case (RefDelta b)
  then have "length b = 20" using assms(2,4) by (auto simp: entries_wf_def)
  then have wf: "oid_wf (hex_oid b)" by (simp add: hex_oid_def oid_ok_hex_bytes)
  from materializes_ref [OF RefDelta assms(7)] obtain k p q where
    b: "base_of c v0 r (hex_oid b) = Some (k, p)" "apply_delta p (pe_data (es ! i)) = Inr q" by blast
  have "v0 \<subseteq>\<^sub>m view s" using assms(3) by (simp add: resolution_inv_def)
  then have "base_of c (view s) r (hex_oid b) = Some (k, p)" using b(1) by (rule base_of_mono)
  then obtain bs where "view s (r, hex_oid b) = Some bs" "decode_loose c (hex_oid b) bs = Inr (k, p)"
    by (auto simp: base_of_def split: option.splits sum.splits)
  then have "read_loose_inflated c read_loose s r (hex_oid b) = Inr (Some (k, p))"
    by (simp add: read_loose_inflated_def read_view [OF assms(1) wf])
  then show ?thesis using RefDelta b(2) by (simp add: find_base_def)
next
  case (OfsDelta d)
  from materializes_ofs [OF OfsDelta assms(7)] obtain j k p q where
    j: "unat d \<le> pe_offset (es ! i)" "pe_offset (es ! j) = pe_offset (es ! i) - unat d" "j < length es"
      "materializes (base_of c v0 r) es j (k, p)" "apply_delta p (pe_data (es ! i)) = Inr q" by blast
  have f: "find_base c read_loose r es resolved i s = Inr (resolved j)"
    using OfsDelta j(1,2) offset_to_idx_defined [OF assms(2) j(3)] by (simp add: find_base_def)
  have le: "v0 \<subseteq>\<^sub>m view s" using assms(3) by (simp add: resolution_inv_def)
  show ?thesis
  proof (cases "resolved j")
    case (Some kp')
    obtain k' p' where kp': "kp' = (k', p')" by (cases kp')
    have "materializes (base_of c (view s) r) es j kp'"
      using assms(3) Some kp' unfolding resolution_inv_def by blast
    moreover have "materializes (base_of c (view s) r) es j (k, p)"
      by (rule materializes_mono [OF j(4)]) (rule base_of_mono [OF le])
    ultimately have "kp' = (k, p)" by (rule materializes_det [OF assms(2)])
    then show ?thesis using f Some j(5) by simp
  qed (use f in simp)
qed

lemma resolve_pass_available:
  assumes "codec_ok c" "entries_wf es" "\<forall>i<length es. \<exists>kp. materializes (base_of c v0 r) es i kp"
    and "invar s" "resolution_inv c v0 (view s) r es resolved"
    and "\<forall>i k. pe_kind (es ! i) = Direct k \<longrightarrow> i < length es \<longrightarrow> resolved i \<noteq> None"
    and "distinct pending" "set pending \<subseteq> {..<length es}" "set pending \<inter> dom resolved = {}"
  shows "fst (resolve_pass c read_loose (write_loose now) r es pending still resolved count s) \<noteq> Inl e"
  using assms(4-)
proof (induction pending arbitrary: still resolved count s)
  case (Cons i pending)
  have i: "i < length es" "resolved i = None" using Cons.prems by auto
  with assms(3) obtain k0 q0 where "materializes (base_of c v0 r) es i (k0, q0)" by auto
  from find_base_available [OF Cons.prems(1) assms(2) Cons.prems(2) i Cons.prems(3) this] show ?case
  proof
    assume "find_base c read_loose r es resolved i s = Inr None"
    then show ?thesis using Cons by simp
  next
    assume "\<exists>k p q. find_base c read_loose r es resolved i s = Inr (Some (k, p)) \<and> apply_delta p (pe_data (es ! i)) = Inr q"
    then obtain k p q where f: "find_base c read_loose r es resolved i s = Inr (Some (k, p))"
      "apply_delta p (pe_data (es ! i)) = Inr q" by blast
    from store_object_add [OF assms(1) Cons.prems(1,2)
        find_base_materializes [OF Cons.prems(1) assms(2) Cons.prems(2) i(1) f] i(2)]
    obtain s1 where s1: "store_object c (write_loose now) r k q s = Inr s1" "invar s1"
      "resolution_inv c v0 (view s1) r es (resolved(i \<mapsto> (k, q)))" by blast
    have "fst (resolve_pass c read_loose (write_loose now) r es pending still (resolved(i \<mapsto> (k, q))) (count + 1) s1)
      \<noteq> Inl e"
    proof (rule Cons.IH [OF s1(2,3)])
      show "set pending \<inter> dom (resolved(i \<mapsto> (k, q))) = {}" using Cons.prems(4,6) by auto
      show "\<forall>j k'. pe_kind (es ! j) = Direct k' \<longrightarrow> j < length es \<longrightarrow> (resolved(i \<mapsto> (k, q))) j \<noteq> None"
        using Cons.prems(3) by (simp del: not_None_eq)
    qed (use Cons.prems in auto)
    then show ?thesis using f s1(1) by simp
  qed
qed simp

lemma resolve_loop_available:
  assumes "codec_ok c" "entries_wf es" "\<forall>i<length es. \<exists>kp. materializes (base_of c v0 r) es i kp"
    and "invar s" "resolution_inv c v0 (view s) r es resolved" "count = card (dom resolved)"
    and "\<forall>i k. pe_kind (es ! i) = Direct k \<longrightarrow> i < length es \<longrightarrow> resolved i \<noteq> None"
    and "distinct pending" "set pending = {..<length es} - dom resolved"
  shows "fst (resolve_loop c read_loose (write_loose now) r es pending resolved count s) = Inr (length es)"
  using assms(4-)
proof (induction "length pending" arbitrary: pending resolved count s rule: less_induct)
  case less
  let ?loop = "resolve_loop c read_loose (write_loose now) r es pending resolved count s"
  have sub: "dom resolved \<subseteq> {..<length es}" using less.prems(2) by (force simp: resolution_inv_def)
  then have fin: "finite (dom resolved)" by (rule finite_subset) simp
  show ?case
  proof (cases "pending = []")
    case True
    then have "dom resolved = {..<length es}" using less.prems(6) sub by auto
    then show ?thesis using True less.prems by (subst resolve_loop.simps) simp
  next
    case False
    let ?pass = "resolve_pass c read_loose (write_loose now) r es pending [] resolved count s"
    have pass: "set pending \<subseteq> {..<length es}" "set pending \<inter> dom resolved = {}" using less.prems(6) by auto
    note spec = resolve_pass_spec [OF assms(1,2) less.prems(1-3) fin less.prems(5) pass, where now = now and still = "[]"]
    note av = resolve_pass_available [OF assms(1-3) less.prems(1,2,4,5) pass, where now = now and still = "[]" and count = count]
    obtain res s1 where p: "?pass = (res, s1)" by (cases ?pass)
    with av obtain q where "res = Inr q" by (cases res) auto
    then obtain rest resolved1 count1 where q: "res = Inr (rest, resolved1, count1)" by (cases q) auto
    from spec p q have post: "invar s1" "resolution_inv c v0 (view s1) r es resolved1"
        "count1 = card (dom resolved1)"
      and rest: "distinct rest" "set rest \<subseteq> set pending"
        "dom resolved1 = dom resolved \<union> (set pending - set rest)"
      by auto
    have unf: "?loop = (if length rest = length pending then (Inl (PackParse (ResolutionStuck (length rest))), s1)
         else resolve_loop c read_loose (write_loose now) r es rest resolved1 count1 s1)"
      using False p q by (subst resolve_loop.simps) simp
    have "length rest \<noteq> length pending"
    proof
      assume "length rest = length pending"
      with unf have "?loop = (Inl (PackParse (ResolutionStuck (length rest))), s1)" by simp
      with resolve_loop_spec [OF assms(1,2) less.prems(1-3,5,6), where now = now]
      obtain P where "card P = length rest" "missing_bases (view s1) r es P" "0 < length rest" by auto
      then obtain i where i: "i \<in> P" "i < length es"
        by (metis card.empty ex_in_conv less_numeral_extra(3) missing_bases_def)
      have "v0 \<subseteq>\<^sub>m view s1" using post(2) by (simp add: resolution_inv_def)
      with assms(3) i not_stuck [OF assms(2) \<open>missing_bases (view s1) r es P\<close> _ this refl] show False by blast
    qed
    then have "length rest < length pending" using length_distinct_subset [OF rest(1,2)] by simp
    moreover have "\<forall>i k. pe_kind (es ! i) = Direct k \<longrightarrow> i < length es \<longrightarrow> resolved1 i \<noteq> None"
      using less.prems(4) rest(3) by (metis UnCI domIff)
    ultimately have "fst (resolve_loop c read_loose (write_loose now) r es rest resolved1 count1 s1) = Inr (length es)"
      using post rest pass less.prems(6) by (intro less.hyps) auto
    then show ?thesis using \<open>length rest \<noteq> length pending\<close> by (simp add: unf)
  qed
qed

lemma full_resolution_available:
  assumes "codec_ok c" "invar s" "parse_pack c pack = Inr es" "entries_wf es"
    and "\<forall>i<length es. \<exists>kp. materializes (base_of c (view s) r) es i kp"
  shows "fst (store_with_full_resolution c read_loose (write_loose now) pack r s) = Inr (length es)"
proof -
  have "resolution_inv c (view s) (view s) r ([] @ es) Map.empty" by (simp add: resolution_inv_def)
  then obtain resolved count s1 where d: "resolve_direct c (write_loose now) r 0 es Map.empty 0 s
      = (Inr (resolved, count), s1)" "invar s1" "resolution_inv c (view s) (view s1) r es resolved"
      "count = card (dom resolved)" "dom resolved = {i. i < length es \<and> (\<exists>k. pe_kind (es ! i) = Direct k)}"
    using resolve_direct_spec [OF assms(1,2), of "view s" r "[]" es Map.empty 0 now] by auto
  have dir: "\<forall>i k. pe_kind (es ! i) = Direct k \<longrightarrow> i < length es \<longrightarrow> resolved i \<noteq> None"
    using d(5) by blast
  show ?thesis
    using resolve_loop_available [OF assms(1,4,5) d(2-4) dir _ pending_set, where now = now]
    by (simp add: store_with_full_resolution_def assms(3) d(1))
qed

end

lemma parse_pack_wf: "codec_ok c \<Longrightarrow> parse_pack c pack = Inr es \<Longrightarrow> entries_wf es"
  using parse_pack_bound [of c pack] by (auto simp: entries_wf_def codec_ok_def)

section \<open>Properties on the SQLite backend\<close>

text \<open>\<open>SqliteObjectStore::ingest_pack\<close>: packs of at most 32 bytes hold no object.\<close>

definition sq_ingest_pack :: "'d codec \<Rightarrow> int \<Rightarrow> repo_id \<Rightarrow> u8 list \<Rightarrow> sq_store \<Rightarrow> (error + nat) \<times> sq_store" where
  "sq_ingest_pack c now r pack t =
     (if length pack \<le> 32 then (Inr 0, t)
      else store_with_full_resolution c sq_read (sq_write now) pack r t)"

text \<open>C8: Ingesting a pack is sound. When \<open>store_with_full_resolution\<close> succeeds on the SQLite store, it
  reports exactly the number of entries of the pack; every entry has a well-defined content (deltas
  applied along their chain of bases) and an object named by the hash of that content is present;
  every object that was stored before is unchanged, and every object that is new is the loose
  encoding of one of the entries under its own hash.\<close>

theorem pack_ingest_sound:
  assumes "codec_ok c" "sq_invar t"
    and "store_with_full_resolution c sq_read (sq_write now) pack r t = (Inr n, t')"
  shows "sq_invar t' \<and> sq_view t \<subseteq>\<^sub>m sq_view t' \<and>
    (\<exists>es. parse_pack c pack = Inr es \<and> n = length es
      \<and> (\<forall>i<n. \<exists>k p. materializes (base_of c (sq_view t') r) es i (k, p)
            \<and> sq_view t' (r, loose_oid_hex c k p) \<noteq> None)
      \<and> (\<forall>key bs. sq_view t' key = Some bs \<longrightarrow> sq_view t key = None \<longrightarrow>
            (\<exists>i<n. \<exists>k p. materializes (base_of c (sq_view t') r) es i (k, p)
               \<and> key = (r, loose_oid_hex c k p) \<and> bs = loose_format_bytes c k p)))"
proof -
  obtain es where es: "parse_pack c pack = Inr es"
    using assms(3) by (cases "parse_pack c pack") (auto simp: store_with_full_resolution_def)
  from sq.full_resolution_spec [OF assms(1,2) es parse_pack_wf [OF assms(1) es], where now = now and r = r] assms(3)
  obtain resolved where post: "sq_invar t'" "n = length es" "dom resolved = {..<length es}"
    "resolution_inv c (sq_view t) (sq_view t') r es resolved" by auto
  have some: "\<exists>k p. resolved i = Some (k, p)" if "i < length es" for i
  proof -
    have "i \<in> dom resolved" using post(3) that by simp
    then show ?thesis by (auto simp: dom_def)
  qed
  have "i < n" if "resolved i = Some kp" for i kp using that post(2,3) by (metis domI lessThan_iff)
  note less = this
  have inv: "sq_view t \<subseteq>\<^sub>m sq_view t'"
    "resolved i = Some (k, p) \<Longrightarrow> materializes (base_of c (sq_view t') r) es i (k, p)
       \<and> sq_view t' (r, loose_oid_hex c k p) \<noteq> None"
    "sq_view t' key = Some bs \<Longrightarrow> sq_view t key = None \<Longrightarrow>
       \<exists>i k p. resolved i = Some (k, p) \<and> key = (r, loose_oid_hex c k p) \<and> bs = loose_format_bytes c k p"
    for i k p key bs
    using post(4) unfolding resolution_inv_def by blast+
  have all: "\<exists>k p. materializes (base_of c (sq_view t') r) es i (k, p) \<and> sq_view t' (r, loose_oid_hex c k p) \<noteq> None"
    if "i < n" for i using some [of i] that post(2) inv(2) by metis
  have new: "\<exists>i<n. \<exists>k p. materializes (base_of c (sq_view t') r) es i (k, p)
      \<and> key = (r, loose_oid_hex c k p) \<and> bs = loose_format_bytes c k p"
    if "sq_view t' key = Some bs" "sq_view t key = None" for key bs
    using inv(3) [OF that] inv(2) less by metis
  show ?thesis using post(1,2) es inv(1) all new by blast
qed

text \<open>C25: A failed ingest damages nothing and is not spurious. Whatever the error, every object that
  was stored before is unchanged and what was added is the loose encoding of entries of the pack
  under their own hashes; and when the resolver gives up, there are exactly as many entries as it
  reports whose bases are absent from the store or are themselves among those entries.\<close>

theorem pack_ingest_failure:
  assumes "codec_ok c" "sq_invar t"
    and "store_with_full_resolution c sq_read (sq_write now) pack r t = (Inl e, t')"
  shows "sq_invar t' \<and> sq_view t \<subseteq>\<^sub>m sq_view t'
    \<and> (\<forall>es. parse_pack c pack = Inr es \<longrightarrow>
        (\<forall>key bs. sq_view t' key = Some bs \<longrightarrow> sq_view t key = None \<longrightarrow>
            (\<exists>i k p. materializes (base_of c (sq_view t') r) es i (k, p)
               \<and> key = (r, loose_oid_hex c k p) \<and> bs = loose_format_bytes c k p))
        \<and> (\<forall>m. e = PackParse (ResolutionStuck m) \<longrightarrow>
             0 < m \<and> (\<exists>P. card P = m \<and> missing_bases (sq_view t') r es P)))"
proof (cases "parse_pack c pack")
  case (Inl e')
  then show ?thesis using assms by (simp add: store_with_full_resolution_def)
next
  case (Inr es)
  from sq.full_resolution_spec [OF assms(1,2) Inr parse_pack_wf [OF assms(1) Inr], where now = now and r = r] assms(3)
  obtain resolved where post: "sq_invar t'" "resolution_inv c (sq_view t) (sq_view t') r es resolved"
    and stuck: "\<forall>n. e = PackParse (ResolutionStuck n) \<longrightarrow> 0 < n \<and> (\<exists>P. card P = n \<and> missing_bases (sq_view t') r es P)"
    by auto
  show ?thesis using post stuck Inr unfolding resolution_inv_def by (simp, metis)
qed


lemma sample_parse: "parse_pack stored (encode_pack sample_raws) = Inr (layout 12 sample_raws)"
  using parse_pack_layout [OF stored_decodes sample_raws_ok, of "[]"] by (simp add: sample_raws_def)

lemma sample_layout:
  "layout 12 sample_raws =
     [\<lparr>pe_offset = 12, pe_kind = Direct Blob, pe_data = [104, 105]\<rparr>,
      \<lparr>pe_offset = 16, pe_kind = OfsDelta 4, pe_data = [2, 3, 0x90, 2, 1, 33]\<rparr>]"
  by (simp add: sample_raws_def encode_raw_def encode_entry_header_def)

lemma sample_delta: "apply_delta [104, 105] [2, 3, 0x90, 2, 1, 33] = Inr [104, 105, 33]"
  by (simp add: apply_delta_def read_delta_varint_def delta_step_def delta_copy_def delta_insert_def
      MAX_ENTRY_BYTES_def Let_def copy_field_numeral)

lemma sample_materializes:
  "\<forall>i<length (layout 12 sample_raws). \<exists>kp. materializes b (layout 12 sample_raws) i kp"
proof -
  have u: "unat (4 :: u64) = 4" by (simp add: unat_numeral)
  have 0: "materializes b (layout 12 sample_raws) 0 (Blob, [104, 105])"
    using materializes.direct [of 0 "layout 12 sample_raws" Blob b] by (simp add: sample_layout)
  have "materializes b (layout 12 sample_raws) 1 (Blob, [104, 105, 33])"
    by (rule materializes.ofs_delta [OF _ _ _ _ 0, where d = 4]) (simp_all add: sample_layout sample_delta u)
  with 0 show ?thesis by (auto simp: sample_layout less_Suc_eq numeral_2_eq_2)
qed


theorem pack_ingest_sound_witness:
  "\<exists>t'. store_with_full_resolution stored sq_read (sq_write 7) (encode_pack sample_raws) (RepoId ''repo'') [] = (Inr 2, t')
     \<and> sq_invar t'"
proof -
  have inv: "sq_invar []" by (simp add: sq_invar_def)
  have "fst (store_with_full_resolution stored sq_read (sq_write 7) (encode_pack sample_raws) (RepoId ''repo'') [])
    = Inr (length (layout 12 sample_raws))"
    by (rule sq.full_resolution_available [OF stored_codec_ok inv sample_parse
          parse_pack_wf [OF stored_codec_ok sample_parse] sample_materializes])
  then obtain t' where t': "store_with_full_resolution stored sq_read (sq_write 7) (encode_pack sample_raws)
      (RepoId ''repo'') [] = (Inr 2, t')"
    by (cases "store_with_full_resolution stored sq_read (sq_write 7) (encode_pack sample_raws) (RepoId ''repo'') []")
      (simp add: sample_layout)
  with pack_ingest_sound [OF stored_codec_ok inv t'] show ?thesis by blast
qed

theorem pack_ingest_failure_witness:
  "\<exists>t'. store_with_full_resolution stored sq_read (sq_write 7) [1, 2, 3] (RepoId ''repo'') []
      = (Inl (PackParse (PackTooShort 3)), t') \<and> sq_invar t'"
proof -
  have "store_with_full_resolution stored sq_read (sq_write 7) [1, 2, 3] (RepoId ''repo'') []
      = (Inl (PackParse (PackTooShort 3)), [])"
    by (simp add: store_with_full_resolution_def parse_pack_def)
  from pack_ingest_failure [OF stored_codec_ok _ this] this show ?thesis by (simp add: sq_invar_def)
qed

end
