(* ===== verification/AuditLog.thy ===== *)
theory AuditLog
  imports Ids
begin

text \<open>
  The audit log of \<open>src/audit.rs\<close>: the row hash, the SQLite store with its operations \<open>record\<close>,
  \<open>list\<close>, \<open>count\<close>, \<open>prune_older_than\<close> and \<open>verify_chain\<close>, and the helper that every handler calls. The
  table \<open>audit_events\<close> is the list of its rows in the order of their ids, with the counter that
  AUTOINCREMENT keeps; \<open>sha256\<close> is a parameter. Each operation is one SQLite statement or one
  IMMEDIATE transaction, so operations do not interleave.
\<close>

section \<open>Definitions\<close>

record audit_event =
  ae_id :: int
  ae_ts :: int
  ae_event :: string
  ae_actor :: string
  ae_repo :: "repo_id option"
  ae_fields :: string
  ae_request :: "string option"

record audit_query =
  aq_since :: "int option"
  aq_until :: "int option"
  aq_event :: "string option"
  aq_actor :: "string option"
  aq_repo :: "string option"
  aq_limit :: "nat option"
  aq_offset :: "nat option"

record audit_row =
  ar_id :: nat
  ar_ts :: int
  ar_event :: string
  ar_actor :: string
  ar_repo :: "string option"
  ar_fields :: string
  ar_request :: "string option"
  ar_prev :: "u8 list option"
  ar_hash :: "u8 list option"

record audit_store =
  au_rows :: "audit_row list"
  au_seq :: nat

definition GENESIS_HASH :: "u8 list" where
  "GENESIS_HASH = replicate 32 0"

text \<open>\<open>i64::to_le_bytes\<close>.\<close>

definition le_bytes_i64 :: "int \<Rightarrow> u8 list" where
  "le_bytes_i64 ts = map (\<lambda>i. word_of_int (ts div 256 ^ i)) [0..<8]"

definition unwrap_or_empty :: "string option \<Rightarrow> string" where
  "unwrap_or_empty x = (case x of None \<Rightarrow> [] | Some s \<Rightarrow> s)"

text \<open>The bytes that \<open>hash_row\<close> feeds to the digest after \<open>prev_hash\<close>.\<close>

definition event_bytes :: "audit_event \<Rightarrow> u8 list" where
  "event_bytes evt =
     le_bytes_i64 (ae_ts evt) @ as_bytes (ae_event evt) @ [0] @ as_bytes (ae_actor evt) @ [0]
       @ as_bytes (unwrap_or_empty (map_option repo_str (ae_repo evt))) @ [0]
       @ as_bytes (ae_fields evt) @ [0] @ as_bytes (unwrap_or_empty (ae_request evt))"

definition hash_row :: "(u8 list \<Rightarrow> u8 list) \<Rightarrow> u8 list \<Rightarrow> audit_event \<Rightarrow> u8 list" where
  "hash_row sha256 prev_hash evt = sha256 (prev_hash @ event_bytes evt)"

text \<open>The tail query of \<open>record\<close>, newest chained row first.\<close>

definition chain_tail :: "audit_row list \<Rightarrow> u8 list" where
  "chain_tail rows =
     (case find (\<lambda>row. ar_hash row \<noteq> None) (rev rows) of
        None \<Rightarrow> GENESIS_HASH
      | Some row \<Rightarrow> the (ar_hash row))"

definition audit_record :: "(u8 list \<Rightarrow> u8 list) \<Rightarrow> audit_event \<Rightarrow> audit_store \<Rightarrow> audit_store" where
  "audit_record sha256 evt st =
     (let prev_hash = chain_tail (au_rows st);
          row_hash = hash_row sha256 prev_hash evt;
          row = \<lparr>ar_id = au_seq st + 1, ar_ts = ae_ts evt, ar_event = ae_event evt, ar_actor = ae_actor evt,
                 ar_repo = map_option repo_str (ae_repo evt), ar_fields = ae_fields evt,
                 ar_request = ae_request evt, ar_prev = Some prev_hash, ar_hash = Some row_hash\<rparr>
      in st\<lparr>au_rows := au_rows st @ [row], au_seq := au_seq st + 1\<rparr>)"

text \<open>Reading a row back: a repo id that no longer validates becomes \<open>None\<close>.\<close>

definition row_event :: "audit_row \<Rightarrow> audit_event" where
  "row_event row =
     \<lparr>ae_id = int (ar_id row), ae_ts = ar_ts row, ae_event = ar_event row, ae_actor = ar_actor row,
      ae_repo = (case ar_repo row of None \<Rightarrow> None
                 | Some s \<Rightarrow> (case repo_id_try_from s of Inl _ \<Rightarrow> None | Inr r \<Rightarrow> Some r)),
      ae_fields = ar_fields row, ae_request = ar_request row\<rparr>"

definition query_matches :: "audit_query \<Rightarrow> audit_row \<Rightarrow> bool" where
  "query_matches q row =
     ((case aq_since q of None \<Rightarrow> True | Some v \<Rightarrow> ar_ts row \<ge> v)
      \<and> (case aq_until q of None \<Rightarrow> True | Some v \<Rightarrow> ar_ts row \<le> v)
      \<and> (case aq_event q of None \<Rightarrow> True | Some v \<Rightarrow> ar_event row = v)
      \<and> (case aq_actor q of None \<Rightarrow> True | Some v \<Rightarrow> ar_actor row = v)
      \<and> (case aq_repo q of None \<Rightarrow> True | Some v \<Rightarrow> ar_repo row = Some v))"

definition query_limit :: "audit_query \<Rightarrow> nat" where
  "query_limit q = min (case aq_limit q of None \<Rightarrow> 100 | Some n \<Rightarrow> n) 1000"

definition query_offset :: "audit_query \<Rightarrow> nat" where
  "query_offset q = (case aq_offset q of None \<Rightarrow> 0 | Some n \<Rightarrow> n)"

definition audit_list :: "audit_query \<Rightarrow> audit_store \<Rightarrow> audit_event list" where
  "audit_list q st =
     map row_event (take (query_limit q) (drop (query_offset q)
       (filter (query_matches q) (rev (au_rows st)))))"

definition audit_count :: "audit_store \<Rightarrow> nat" where
  "audit_count st = length (au_rows st)"

definition prune_older_than :: "int \<Rightarrow> audit_store \<Rightarrow> nat \<times> audit_store" where
  "prune_older_than cutoff_ts st =
     (length (filter (\<lambda>row. ar_ts row < cutoff_ts) (au_rows st)),
      st\<lparr>au_rows := filter (\<lambda>row. \<not> ar_ts row < cutoff_ts) (au_rows st)\<rparr>)"

text \<open>One tick of \<open>spawn_prune_task\<close>: no task runs when the retention is zero.\<close>

definition prune_tick :: "int \<Rightarrow> nat \<Rightarrow> audit_store \<Rightarrow> audit_store" where
  "prune_tick now retention st =
     (if retention = 0 then st else snd (prune_older_than (max (now - int retention) (- (2 ^ 63))) st))"

definition chain_broken :: "nat \<Rightarrow> string \<Rightarrow> error" where
  "chain_broken row_id what = Other (''audit chain broken at row id='' @ fmt_dec row_id @ '': '' @ what @ '' mismatch'')"

fun verify_rows ::
  "(u8 list \<Rightarrow> u8 list) \<Rightarrow> u8 list option \<Rightarrow> nat \<Rightarrow> audit_row list \<Rightarrow> error + nat" where
  "verify_rows sha256 expected_prev verified [] = Inr verified"
| "verify_rows sha256 expected_prev verified (row # rows) =
     (case ar_prev row of
        None \<Rightarrow> Inl (Db (DbOther ''InvalidColumnType''))
      | Some stored_prev \<Rightarrow>
          let stored_hash = the (ar_hash row);
              expected = (case expected_prev of None \<Rightarrow> GENESIS_HASH | Some h \<Rightarrow> h)
          in if stored_prev \<noteq> expected then Inl (chain_broken (ar_id row) ''prev_hash'')
             else if hash_row sha256 stored_prev (row_event row) \<noteq> stored_hash
             then Inl (chain_broken (ar_id row) ''row_hash'')
             else verify_rows sha256 (Some stored_hash) (verified + 1) rows)"

definition verify_chain :: "(u8 list \<Rightarrow> u8 list) \<Rightarrow> audit_store \<Rightarrow> error + nat" where
  "verify_chain sha256 st = verify_rows sha256 None 0 (filter (\<lambda>row. ar_hash row \<noteq> None) (au_rows st))"

text \<open>\<open>record\<close> of the module, the helper of the handlers: the time is the clock's, the id is
  assigned by the store.\<close>

definition audit_emit ::
  "(u8 list \<Rightarrow> u8 list) \<Rightarrow> int \<Rightarrow> string \<Rightarrow> string \<Rightarrow> repo_id option \<Rightarrow> string \<Rightarrow> string option
     \<Rightarrow> audit_store \<Rightarrow> audit_store" where
  "audit_emit sha256 now event actor repo fjson request st =
     audit_record sha256 \<lparr>ae_id = 0, ae_ts = now, ae_event = event, ae_actor = actor, ae_repo = repo,
       ae_fields = fjson, ae_request = request\<rparr> st"

section \<open>Lemmas\<close>

definition event_wf :: "audit_event \<Rightarrow> bool" where
  "event_wf evt = (case ae_repo evt of None \<Rightarrow> True | Some r \<Rightarrow> repo_id_ok (repo_str r))"

abbreviation chained :: "audit_store \<Rightarrow> audit_row list" where
  "chained st \<equiv> filter (\<lambda>row. ar_hash row \<noteq> None) (au_rows st)"

text \<open>What \<open>verify_rows\<close> accepts, without the counter: each row continues the hash before it.\<close>

fun links :: "(u8 list \<Rightarrow> u8 list) \<Rightarrow> u8 list \<Rightarrow> audit_row list \<Rightarrow> bool" where
  "links sha256 prev [] = True"
| "links sha256 prev (row # rows) =
     (ar_prev row = Some prev \<and> the (ar_hash row) = hash_row sha256 prev (row_event row)
      \<and> links sha256 (the (ar_hash row)) rows)"

fun last_hash :: "u8 list \<Rightarrow> audit_row list \<Rightarrow> u8 list" where
  "last_hash h [] = h"
| "last_hash h (row # rows) = last_hash (the (ar_hash row)) rows"

lemma verify_rows_links:
  "verify_rows sha256 e k rows = Inr n \<longleftrightarrow>
     links sha256 (case e of None \<Rightarrow> GENESIS_HASH | Some h \<Rightarrow> h) rows \<and> n = k + length rows"
  by (induction rows arbitrary: e k) (auto simp: Let_def split: option.splits)

lemma verify_chain_iff:
  "verify_chain sha256 st = Inr n \<longleftrightarrow> links sha256 GENESIS_HASH (chained st) \<and> n = length (chained st)"
  by (simp add: verify_chain_def verify_rows_links)

lemma links_append:
  "links sha256 h (xs @ ys) \<longleftrightarrow> links sha256 h xs \<and> links sha256 (last_hash h xs) ys"
  by (induction xs arbitrary: h) auto

lemma last_hash_append: "last_hash h (xs @ [row]) = the (ar_hash row)"
  by (induction xs arbitrary: h) auto

lemma find_filter: "find P xs = find (\<lambda>_. True) (filter P xs)"
  by (induction xs) auto

lemma chain_tail_last: "chain_tail rows = last_hash GENESIS_HASH (filter (\<lambda>row. ar_hash row \<noteq> None) rows)"
proof -
  have "find (\<lambda>row. ar_hash row \<noteq> None) (rev rows)
      = find (\<lambda>_. True) (rev (filter (\<lambda>row. ar_hash row \<noteq> None) rows))"
    by (simp only: find_filter [of "\<lambda>row. ar_hash row \<noteq> None"] rev_filter)
  then show ?thesis
    by (cases "filter (\<lambda>row. ar_hash row \<noteq> None) rows" rule: rev_cases)
      (simp_all add: chain_tail_def last_hash_append)
qed

lemma event_bytes_row:
  assumes "event_wf evt"
  shows "event_bytes (row_event \<lparr>ar_id = i, ar_ts = ae_ts evt, ar_event = ae_event evt, ar_actor = ae_actor evt,
       ar_repo = map_option repo_str (ae_repo evt), ar_fields = ae_fields evt, ar_request = ae_request evt,
       ar_prev = p, ar_hash = h\<rparr>) = event_bytes evt"
  using assms
  by (cases "ae_repo evt") (auto simp: event_bytes_def row_event_def event_wf_def unwrap_or_empty_def
      repo_id_try_from_iff split: sum.splits dest: repo_id_try_from_Inl)

lemma record_links:
  assumes "links sha256 GENESIS_HASH (chained st)" "event_wf evt"
  shows "links sha256 GENESIS_HASH (chained (audit_record sha256 evt st))"
    and "length (chained (audit_record sha256 evt st)) = length (chained st) + 1"
  using assms by (simp_all add: audit_record_def Let_def links_append chain_tail_last hash_row_def event_bytes_row)

text \<open>The inputs that a run of the chain hashes.\<close>

fun hash_inputs :: "u8 list \<Rightarrow> audit_row list \<Rightarrow> u8 list list" where
  "hash_inputs prev [] = []"
| "hash_inputs prev (row # rows) = (prev @ event_bytes (row_event row)) # hash_inputs (the (ar_hash row)) rows"

lemma hash_inputs_append:
  "hash_inputs h (xs @ ys) = hash_inputs h xs @ hash_inputs (last_hash h xs) ys"
  by (induction xs arbitrary: h) auto

lemma length_last_hash:
  assumes "\<forall>x. length (sha256 x) = 32"
  shows "links sha256 h rows \<Longrightarrow> length h = 32 \<Longrightarrow> length (last_hash h rows) = 32"
proof (induction rows arbitrary: h)
  case (Cons row rows)
  then have "length (the (ar_hash row)) = 32" "links sha256 (the (ar_hash row)) rows"
    using assms by (auto simp: hash_row_def)
  from Cons.IH [OF this(2,1)] show ?case by simp
qed simp

lemma links_unique:
  assumes len: "\<forall>x. length (sha256 x) = 32" "length h = 32"
    and "length rows = length rows'" "links sha256 h rows" "links sha256 h rows'"
    and "last_hash h rows = last_hash h rows'"
  shows "map (event_bytes \<circ> row_event) rows = map (event_bytes \<circ> row_event) rows'
    \<or> (\<exists>x\<in>set (hash_inputs h rows). \<exists>y\<in>set (hash_inputs h rows'). x \<noteq> y \<and> sha256 x = sha256 y)"
  using assms(3-)
proof (induction rows arbitrary: rows' rule: rev_induct)
  case (snoc a xs)
  then obtain b ys where r': "rows' = ys @ [b]" by (cases rows' rule: rev_cases) auto
  let ?x = "last_hash h xs @ event_bytes (row_event a)" and ?y = "last_hash h ys @ event_bytes (row_event b)"
  have sha: "sha256 ?x = sha256 ?y"
    using snoc.prems by (simp add: r' links_append last_hash_append hash_row_def)
  show ?case
  proof (cases "?x = ?y")
    case True
    moreover have "length (last_hash h xs) = length (last_hash h ys)"
      using snoc.prems length_last_hash [OF len(1) _ len(2)] by (simp add: r' links_append)
    ultimately have "last_hash h xs = last_hash h ys" "event_bytes (row_event a) = event_bytes (row_event b)"
      by simp_all
    with snoc.IH [of ys] snoc.prems show ?thesis
      by (auto simp: r' links_append hash_inputs_append)
  next
    case False
    then show ?thesis using sha by (auto simp: r' hash_inputs_append)
  qed
qed simp

lemma sorted_filter_rows:
  "sorted_wrt (<) (map ar_id rows) \<Longrightarrow> sorted_wrt (<) (map ar_id (filter P rows))"
  by (metis sorted_wrt_filter sorted_wrt_map)

definition audit_inv :: "audit_store \<Rightarrow> bool" where
  "audit_inv st = (sorted_wrt (<) (map ar_id (au_rows st)) \<and> (\<forall>row\<in>set (au_rows st). ar_id row \<le> au_seq st))"

lemma audit_inv_record: "audit_inv st \<Longrightarrow> audit_inv (audit_record sha256 evt st)"
  by (force simp: audit_inv_def audit_record_def Let_def sorted_wrt_append)

lemma audit_inv_prune: "audit_inv st \<Longrightarrow> audit_inv (snd (prune_older_than cutoff st))"
  by (auto simp: audit_inv_def prune_older_than_def sorted_filter_rows)

text \<open>The stored byte fields are recovered from the bytes that are hashed.\<close>

lemma le_bytes_mod:
  assumes "map (\<lambda>i. word_of_int (x div 256 ^ i) :: u8) [0..<k] = map (\<lambda>i. word_of_int (y div 256 ^ i)) [0..<k]"
  shows "x mod 256 ^ k = y mod 256 ^ k"
  using assms
proof (induction k)
  case (Suc k)
  have s: "z mod 256 ^ Suc k = 256 ^ k * (z div 256 ^ k mod 256) + z mod 256 ^ k" for z :: int
    using zmod_zmult2_eq [of 256 z "256 ^ k"] by (simp add: mult.commute)
  have "(word_of_int (x div 256 ^ k) :: u8) = word_of_int (y div 256 ^ k)" using Suc.prems by simp
  then have "x div 256 ^ k mod 256 = y div 256 ^ k mod 256"
    by (auto dest!: arg_cong [of _ _ uint] simp: uint_word_of_int_eq take_bit_eq_mod)
  moreover have "x mod 256 ^ k = y mod 256 ^ k" using Suc by simp
  ultimately show ?case by (simp only: s)
qed simp

lemma le_bytes_inj:
  assumes "le_bytes_i64 x = le_bytes_i64 y" "- (2 ^ 63) \<le> x" "x < 2 ^ 63" "- (2 ^ 63) \<le> y" "y < 2 ^ 63"
  shows "x = y"
proof -
  have "x mod 256 ^ 8 = y mod 256 ^ 8"
    using assms(1) unfolding le_bytes_i64_def by (rule le_bytes_mod)
  then have "(x - y) mod 2 ^ 64 = 0" by (simp add: mod_eq_dvd_iff)
  then obtain q where q: "x - y = 2 ^ 64 * q" by (auto simp: zmod_eq_0_iff)
  with assms(2-) have "- 1 < q" "q < 1" by simp_all
  with q show ?thesis by simp
qed

lemma split_at_nul:
  assumes "a @ [0] @ b = a' @ [0] @ b'" "0 \<notin> set a" "0 \<notin> set (a' :: u8 list)"
  shows "a = a' \<and> b = b'"
  using assms by (auto simp: append_eq_append_conv2 Cons_eq_append_conv append_eq_Cons_conv)

lemma as_bytes_inj: "as_bytes s = as_bytes t \<longleftrightarrow> s = t"
  by (metis str_of_as_bytes)

definition nul_free :: "string \<Rightarrow> bool" where
  "nul_free s = (CHR 0x00 \<notin> set s)"

lemma nul_free_bytes: "nul_free s \<Longrightarrow> 0 \<notin> set (as_bytes s)"
proof -
  have "byte_of_char c = 0 \<longleftrightarrow> c = CHR 0x00" for c
  proof -
    have z: "byte_of_char (CHR 0x00) = 0" by (simp add: byte_of_char_def)
    show ?thesis
    proof
      assume "byte_of_char c = 0"
      then have "char_of_byte (byte_of_char c) = char_of_byte (byte_of_char (CHR 0x00))" by (simp only: z)
      then show "c = CHR 0x00" by (simp only: char_of_byte_of_char)
    qed (simp only: z)
  qed
  then show "nul_free s \<Longrightarrow> 0 \<notin> set (as_bytes s)"
    by (induction s) (simp_all add: nul_free_def, metis)
qed

definition event_fields_ok :: "audit_event \<Rightarrow> bool" where
  "event_fields_ok e = (event_wf e \<and> nul_free (ae_event e) \<and> nul_free (ae_actor e) \<and> nul_free (ae_fields e)
     \<and> - (2 ^ 63) \<le> ae_ts e \<and> ae_ts e < 2 ^ 63)"

lemma repo_id_nul_free: "repo_id_ok s \<Longrightarrow> nul_free s"
  by (auto simp: repo_id_ok_def list_all_iff nul_free_def is_lower_def is_digit_def)

lemma hash_input_injective:
  assumes "event_fields_ok a" "event_fields_ok b" "event_bytes a = event_bytes b"
  shows "ae_ts a = ae_ts b \<and> ae_event a = ae_event b \<and> ae_actor a = ae_actor b \<and> ae_repo a = ae_repo b
    \<and> ae_fields a = ae_fields b \<and> unwrap_or_empty (ae_request a) = unwrap_or_empty (ae_request b)"
proof -
  let ?r = "\<lambda>e. unwrap_or_empty (map_option repo_str (ae_repo e))"
  have rf: "nul_free (?r e)" if "event_fields_ok e" for e
    using that by (cases "ae_repo e")
      (auto simp: event_fields_ok_def event_wf_def unwrap_or_empty_def nul_free_def dest: repo_id_nul_free)
  have l: "length (le_bytes_i64 x) = 8" for x by (simp add: le_bytes_i64_def)
  from assms(3) l have ts: "le_bytes_i64 (ae_ts a) = le_bytes_i64 (ae_ts b)"
    and 1: "as_bytes (ae_event a) @ [0] @ (as_bytes (ae_actor a) @ [0] @ as_bytes (?r a) @ [0]
        @ as_bytes (ae_fields a) @ [0] @ as_bytes (unwrap_or_empty (ae_request a)))
      = as_bytes (ae_event b) @ [0] @ (as_bytes (ae_actor b) @ [0] @ as_bytes (?r b) @ [0]
        @ as_bytes (ae_fields b) @ [0] @ as_bytes (unwrap_or_empty (ae_request b)))"
    by (simp_all add: event_bytes_def)
  have n: "0 \<notin> set (as_bytes (ae_event e))" "0 \<notin> set (as_bytes (ae_actor e))" "0 \<notin> set (as_bytes (?r e))"
    "0 \<notin> set (as_bytes (ae_fields e))" if "event_fields_ok e" for e
    using that rf [OF that] by (simp_all add: event_fields_ok_def nul_free_bytes)
  note na = n [OF assms(1)] and nb = n [OF assms(2)]
  note 2 = split_at_nul [OF 1 na(1) nb(1)]
  note 3 = split_at_nul [OF 2 [THEN conjunct2] na(2) nb(2)]
  note 4 = split_at_nul [OF 3 [THEN conjunct2] na(3) nb(3)]
  note 5 = split_at_nul [OF 4 [THEN conjunct2] na(4) nb(4)]
  have "ae_ts a = ae_ts b"
    using ts assms(1,2) by (intro le_bytes_inj) (auto simp: event_fields_ok_def)
  moreover have "ae_repo a = ae_repo b"
  proof -
    have "?r a = ?r b" using 4 by (simp add: as_bytes_inj)
    moreover have "repo_str r \<noteq> []" if "event_fields_ok e" "ae_repo e = Some r" for e r
      using that by (auto simp: event_fields_ok_def event_wf_def repo_id_ok_def)
    ultimately show ?thesis using assms(1,2)
      by (cases "ae_repo a"; cases "ae_repo b") (force simp: unwrap_or_empty_def repo_id.expand)+
  qed
  ultimately show ?thesis using 2 3 5 by (simp add: as_bytes_inj)
qed


lemma record_chain:
  assumes "links sha256 GENESIS_HASH (chained st)" "list_all event_wf evts"
  shows "links sha256 GENESIS_HASH (chained (fold (audit_record sha256) evts st))
    \<and> length (chained (fold (audit_record sha256) evts st)) = length (chained st) + length evts"
  using assms
proof (induction evts arbitrary: st)
  case (Cons e evts)
  with record_links [of sha256 st e] Cons.IH [of "audit_record sha256 e st"] show ?case by simp
qed simp

section \<open>Properties\<close>

text \<open>Recording never breaks the chain. From any log whose chain verifies (an empty one, or one with
  unchained rows of before the migration), recording any sequence of events gives a log that
  verifies, with exactly that many more verified rows.\<close>

theorem record_keeps_chain:
  assumes "verify_chain sha256 st = Inr n" "list_all event_wf evts"
  shows "verify_chain sha256 (fold (audit_record sha256) evts st) = Inr (n + length evts)"
  using record_chain [of sha256 st evts] assms by (auto simp: verify_chain_iff)

definition sample_event :: "int \<Rightarrow> audit_event" where
  "sample_event t = \<lparr>ae_id = 0, ae_ts = t, ae_event = ''repo.create'', ae_actor = ''admin'',
     ae_repo = Some (RepoId ''demo''), ae_fields = ''{}'', ae_request = None\<rparr>"

definition empty_log :: audit_store where
  "empty_log = \<lparr>au_rows = [], au_seq = 0\<rparr>"

lemma sample_event_wf: "event_wf (sample_event t)"
  by (simp add: event_wf_def sample_event_def repo_id_ok_def is_lower_def)

lemma empty_log_verifies: "verify_chain sha256 empty_log = Inr 0"
  by (simp add: verify_chain_def empty_log_def)

theorem record_keeps_chain_witness:
  "verify_chain (\<lambda>_. replicate 32 1) (fold (audit_record (\<lambda>_. replicate 32 1)) [sample_event 5, sample_event 9] empty_log)
     = Inr 2"
  using record_keeps_chain [OF empty_log_verifies, of "[sample_event 5, sample_event 9]"] sample_event_wf
  by simp


text \<open>What is hashed determines the event. For events as the server builds them (valid repo id,
  64-bit time, no NUL inside event, actor and fields) equal hash inputs mean equal time, event,
  actor, repo and fields; the request id is determined up to absent against empty.\<close>

theorem hash_input_determines_event:
  assumes "event_fields_ok a" "event_fields_ok b" "event_bytes a = event_bytes b"
  shows "ae_ts a = ae_ts b \<and> ae_event a = ae_event b \<and> ae_actor a = ae_actor b \<and> ae_repo a = ae_repo b
    \<and> ae_fields a = ae_fields b \<and> unwrap_or_empty (ae_request a) = unwrap_or_empty (ae_request b)"
  using assms by (rule hash_input_injective)

theorem hash_input_determines_event_witness:
  "ae_repo (sample_event 7) = ae_repo ((sample_event 7)\<lparr>ae_request := Some []\<rparr>)
    \<and> sample_event 7 \<noteq> (sample_event 7)\<lparr>ae_request := Some []\<rparr>"
proof -
  have ok: "event_fields_ok (sample_event 7)" "event_fields_ok ((sample_event 7)\<lparr>ae_request := Some []\<rparr>)"
    by (simp_all add: event_fields_ok_def event_wf_def sample_event_def nul_free_def repo_id_ok_def is_lower_def)
  have "event_bytes (sample_event 7) = event_bytes ((sample_event 7)\<lparr>ae_request := Some []\<rparr>)"
    by (simp add: event_bytes_def unwrap_or_empty_def sample_event_def)
  from hash_input_determines_event [OF ok this] show ?thesis by (simp add: sample_event_def)
qed

text \<open>Retention breaks verification. When a prune removes the first chained row of a log that
  verifies and keeps some later one, \<open>verify_chain\<close> reports tampering at the first row that is
  left, although nobody tampered (no row hash being the all-zero genesis value).\<close>

theorem prune_breaks_chain:
  assumes "verify_chain sha256 st = Inr n" "\<forall>row\<in>set (chained st). ar_hash row \<noteq> Some GENESIS_HASH"
    and "chained st = first # rows" "ar_ts first < cutoff" "row \<in> set rows" "cutoff \<le> ar_ts row"
  shows "\<exists>r. r \<in> set rows \<and> verify_chain sha256 (snd (prune_older_than cutoff st)) = Inl (chain_broken (ar_id r) ''prev_hash'')"
proof -
  let ?keep = "\<lambda>row. \<not> ar_ts row < cutoff"
  have ch: "chained (snd (prune_older_than cutoff st)) = filter ?keep rows"
  proof -
    have "chained (snd (prune_older_than cutoff st)) = filter ?keep (chained st)"
      by (auto simp: prune_older_than_def intro: filter_cong)
    also have "\<dots> = filter ?keep (first # rows)" by (simp only: assms(3))
    also have "\<dots> = filter ?keep rows" using assms(4) by simp
    finally show ?thesis .
  qed
  have "filter ?keep rows \<noteq> []" using assms(5,6) by (force simp: filter_empty_conv)
  then obtain r rs where r: "filter ?keep rows = r # rs" by (cases "filter ?keep rows") auto
  then obtain pre post where rows: "rows = pre @ r # post" by (metis append_eq_Cons_conv filter_eq_ConsD)
  have "links sha256 GENESIS_HASH (chained st)" using assms(1) by (simp only: verify_chain_iff)
  then have links: "links sha256 GENESIS_HASH ((first # pre) @ r # post)"
    unfolding assms(3) rows by (simp only: append_Cons)
  then have prev: "ar_prev r = Some (last_hash GENESIS_HASH (first # pre))"
    by (simp only: links_append links.simps)
  have "last_hash GENESIS_HASH (first # pre) \<noteq> GENESIS_HASH"
  proof (cases pre rule: rev_cases)
    case Nil
    have "first \<in> set (chained st)" using assms(3) by simp
    with assms(2) have "ar_hash first \<noteq> Some GENESIS_HASH" "ar_hash first \<noteq> None" by auto
    then show ?thesis using Nil by auto
  next
    case (snoc ys y)
    have "y \<in> set (chained st)" using assms(3) rows snoc by simp
    with assms(2) have "ar_hash y \<noteq> Some GENESIS_HASH" "ar_hash y \<noteq> None" by auto
    then show ?thesis using snoc last_hash_append [of GENESIS_HASH "first # ys" y] by auto
  qed
  then have "verify_rows sha256 None 0 (r # rs) = Inl (chain_broken (ar_id r) ''prev_hash'')"
    using prev by (simp add: Let_def)
  then show ?thesis using ch r rows by (auto simp: verify_chain_def)
qed

definition sample_digest :: "u8 list \<Rightarrow> u8 list" where
  "sample_digest bytes = replicate 32 1"

definition sample_store :: audit_store where
  "sample_store = fold (audit_record sample_digest) [sample_event 5, sample_event 9] empty_log"

definition sample_row :: "nat \<Rightarrow> int \<Rightarrow> u8 list \<Rightarrow> audit_row" where
  "sample_row i t prev = \<lparr>ar_id = i, ar_ts = t, ar_event = ''repo.create'', ar_actor = ''admin'', ar_repo = Some ''demo'',
     ar_fields = ''{}'', ar_request = None, ar_prev = Some prev, ar_hash = Some (replicate 32 1)\<rparr>"

lemma sample_log: "chained sample_store = sample_row 1 5 GENESIS_HASH # [sample_row 2 9 (replicate 32 1)]"
  by (simp add: sample_store_def audit_record_def Let_def empty_log_def sample_event_def chain_tail_def hash_row_def
      sample_digest_def sample_row_def)

lemma sample_log_verifies: "verify_chain sample_digest sample_store = Inr 2"
  using record_chain [of sample_digest empty_log "[sample_event 5, sample_event 9]"] sample_event_wf
  unfolding verify_chain_iff sample_store_def by (simp add: empty_log_def)


theorem prune_breaks_chain_witness:
  "\<exists>row_id. verify_chain sample_digest (snd (prune_older_than 6 sample_store)) = Inl (chain_broken row_id ''prev_hash'')"
proof -
  have ne: "\<forall>row\<in>set (chained sample_store). ar_hash row \<noteq> Some GENESIS_HASH"
    unfolding sample_log by (simp add: sample_row_def GENESIS_HASH_def)
  have t: "ar_ts (sample_row 1 5 GENESIS_HASH) < 6" "6 \<le> ar_ts (sample_row 2 9 (replicate 32 1))"
    by (simp_all add: sample_row_def)
  have "\<exists>r. r \<in> set [sample_row 2 9 (replicate 32 1)]
      \<and> verify_chain sample_digest (snd (prune_older_than 6 sample_store)) = Inl (chain_broken (ar_id r) ''prev_hash'')"
    by (rule prune_breaks_chain [OF sample_log_verifies ne sample_log t(1) list.set_intros(1) t(2)])
  then show ?thesis by (elim exE conjE) (rule exI)
qed

text \<open>Listing is faithful. On a log whose ids ascend (an invariant of recording and pruning), a
  listing is newest first, holds at most 1000 rows, each of them a matching row of the log, and
  consecutive pages concatenate to one larger page: paging neither skips nor repeats a row.\<close>

theorem audit_list_pages:
  assumes "audit_inv st" "a + b \<le> 1000"
    and "aq_limit q = Some a" "aq_offset q = Some off"
  shows "sorted_wrt (>) (map ae_id (audit_list q st)) \<and> length (audit_list q st) \<le> a
    \<and> (\<forall>e\<in>set (audit_list q st). \<exists>row\<in>set (au_rows st). query_matches q row \<and> e = row_event row)
    \<and> audit_list q st @ audit_list (q\<lparr>aq_limit := Some b, aq_offset := Some (off + a)\<rparr>) st
        = audit_list (q\<lparr>aq_limit := Some (a + b)\<rparr>) st"
proof -
  let ?rows = "filter (query_matches q) (rev (au_rows st))"
  have "sorted_wrt (\<lambda>x y. ar_id y < ar_id x) (rev (au_rows st))"
    using assms(1) by (simp add: audit_inv_def sorted_wrt_rev sorted_wrt_map)
  then have "sorted_wrt (\<lambda>x y. ar_id y < ar_id x) (take a (drop off ?rows))"
    by (intro sorted_wrt_take sorted_wrt_drop sorted_wrt_filter)
  then have srt: "sorted_wrt (>) (map ae_id (audit_list q st))"
    using assms by (simp add: audit_list_def query_limit_def query_offset_def sorted_wrt_map row_event_def)
  have qm: "query_matches (q\<lparr>aq_limit := l, aq_offset := k\<rparr>) = query_matches q"
    "query_matches (q\<lparr>aq_limit := l\<rparr>) = query_matches q" for l k
    by (simp_all add: query_matches_def fun_eq_iff)
  have page: "audit_list q st = map row_event (take a (drop off ?rows))"
    "audit_list (q\<lparr>aq_limit := Some b, aq_offset := Some (off + a)\<rparr>) st = map row_event (take b (drop (off + a) ?rows))"
    "audit_list (q\<lparr>aq_limit := Some (a + b)\<rparr>) st = map row_event (take (a + b) (drop off ?rows))"
    using assms by (simp_all add: audit_list_def query_limit_def query_offset_def qm)
  have spl: "take (a + b) (drop off ?rows) = take a (drop off ?rows) @ take b (drop (off + a) ?rows)"
    by (simp add: take_add add.commute)
  have mem: "x \<in> set (au_rows st) \<and> query_matches q x" if "x \<in> set (take a (drop off ?rows))" for x
    using in_set_dropD [OF in_set_takeD [OF that]] by simp
  show ?thesis
  proof (intro conjI)
    show "\<forall>e\<in>set (audit_list q st). \<exists>row\<in>set (au_rows st). query_matches q row \<and> e = row_event row"
    proof
      fix e assume "e \<in> set (audit_list q st)"
      then obtain x where "x \<in> set (take a (drop off ?rows))" "e = row_event x" unfolding page set_map by blast
      with mem [of x] show "\<exists>row\<in>set (au_rows st). query_matches q row \<and> e = row_event row" by blast
    qed
  qed (use srt in \<open>simp_all only: page spl map_append length_map length_take min.cobounded2\<close>)
qed

theorem audit_list_pages_witness:
  "audit_list \<lparr>aq_since = None, aq_until = None, aq_event = None, aq_actor = None, aq_repo = None,
      aq_limit = Some 1, aq_offset = Some 0\<rparr> empty_log @ [] = []"
proof -
  have "audit_inv empty_log" by (simp add: audit_inv_def empty_log_def)
  from audit_list_pages [OF this, of 1 2, where off = 0]
  show ?thesis by (auto simp: audit_list_def empty_log_def)
qed

end
