(* ===== verification/Refs.thy ===== *)
theory Refs
  imports Ids "HOL-Library.AList"
begin

text \<open>
  The ref store of \<open>src/refs.rs\<close>: the compare-and-swap contract of the trait \<open>RefStore\<close> as the locale
  \<open>ref_store\<close>, \<open>MemRefStore\<close>, \<open>FsRefStore\<close> over the \<open>git\<close> program (a parameter), and the native readers
  of the git directory, \<open>enumerate_refs\<close> and \<open>head_state\<close>. A git directory is a tree of files; a file
  whose content is \<open>None\<close> cannot be read as UTF-8 text, a directory whose children are \<open>None\<close> cannot
  be listed.
\<close>

section \<open>Definitions\<close>

definition ZERO_SHA :: string where
  "ZERO_SHA = replicate 40 CHR ''0''"

datatype cas_outcome = Updated | Conflict "oid option"

record ref_entry =
  en_name :: ref_name
  en_oid :: oid
  en_peeled :: "oid option"

datatype head_state = Symbolic ref_name oid | Unborn ref_name | Detached oid

subsection \<open>MemRefStore\<close>

type_synonym ref_key = "repo_id \<times> ref_name"

record mem_refs =
  mr_refs :: "(ref_key \<times> oid) list"
  mr_heads :: "(repo_id \<times> head_state) list"

definition mem_ref_read :: "mem_refs \<Rightarrow> repo_id \<Rightarrow> ref_name \<Rightarrow> error + oid option" where
  "mem_ref_read s r n = Inr (map_of (mr_refs s) (r, n))"

definition mem_cas_update ::
  "repo_id \<Rightarrow> ref_name \<Rightarrow> oid option \<Rightarrow> oid \<Rightarrow> mem_refs \<Rightarrow> error + cas_outcome \<times> mem_refs" where
  "mem_cas_update r n expected new_sha s =
     (let current = map_of (mr_refs s) (r, n);
          matches = (case (expected, current) of (None, None) \<Rightarrow> True | (Some e, Some c) \<Rightarrow> e = c | _ \<Rightarrow> False)
      in if \<not> matches then Inr (Conflict current, s)
         else Inr (Updated, s\<lparr>mr_refs := AList.update (r, n) new_sha (mr_refs s)\<rparr>))"

definition mem_cas_delete ::
  "repo_id \<Rightarrow> ref_name \<Rightarrow> oid option \<Rightarrow> mem_refs \<Rightarrow> error + cas_outcome \<times> mem_refs" where
  "mem_cas_delete r n expected s =
     (let current = map_of (mr_refs s) (r, n);
          matches = (case (expected, current) of (None, _) \<Rightarrow> True | (Some e, Some c) \<Rightarrow> e = c | (Some _, None) \<Rightarrow> False)
      in if \<not> matches then Inr (Conflict current, s)
         else Inr (Updated, s\<lparr>mr_refs := AList.delete (r, n) (mr_refs s)\<rparr>))"

definition mem_ref_list :: "mem_refs \<Rightarrow> repo_id \<Rightarrow> string list \<Rightarrow> error + ref_entry list" where
  "mem_ref_list s r prefixes =
     Inr (sort_key en_name
       (map (\<lambda>((_, n), x). \<lparr>en_name = n, en_oid = x, en_peeled = None\<rparr>)
         (filter (\<lambda>((r', n), _). r' = r \<and> (prefixes = [] \<or> list_ex (\<lambda>p. starts_with p (ref_str n)) prefixes))
           (mr_refs s))))"

definition default_head :: ref_name where
  "default_head = RefName ''refs/heads/main''"

definition mem_read_head :: "mem_refs \<Rightarrow> repo_id \<Rightarrow> error + head_state" where
  "mem_read_head s r = Inr (case map_of (mr_heads s) r of None \<Rightarrow> Unborn default_head | Some h \<Rightarrow> h)"

subsection \<open>The git directory\<close>

datatype fs_node = FsFile "string option" | FsDir "(string \<times> fs_node) list option"

fun fs_lookup :: "fs_node \<Rightarrow> string list \<Rightarrow> fs_node option" where
  "fs_lookup node [] = Some node"
| "fs_lookup (FsDir (Some children)) (c # cs) =
     (case map_of children c of None \<Rightarrow> None | Some node \<Rightarrow> fs_lookup node cs)"
| "fs_lookup _ (c # cs) = None"

text \<open>\<open>std::fs::read_to_string(git_dir.join(path))\<close>.\<close>

definition read_to_string :: "fs_node \<Rightarrow> string \<Rightarrow> string option" where
  "read_to_string git_dir path =
     (case fs_lookup git_dir (split_char CHR ''/'' path) of
        Some (FsFile content) \<Rightarrow> content
      | _ \<Rightarrow> None)"

subsection \<open>enumerate_refs\<close>

text \<open>One line of \<open>packed-refs\<close>; the state is the map \<open>by_name\<close> and \<open>last_name\<close>.\<close>

type_synonym packed_state = "(string \<times> ref_entry) list \<times> string option"

definition packed_line :: "string \<Rightarrow> packed_state \<Rightarrow> packed_state" where
  "packed_line line st =
     (case st of (by_name, last_name) \<Rightarrow>
        if line = [] \<or> starts_with ''#'' line then (by_name, last_name)
        else (case strip_prefix ''^'' line of
          Some peel \<Rightarrow>
            (case last_name of
               None \<Rightarrow> (by_name, last_name)
             | Some name \<Rightarrow>
                 (case map_of by_name name of
                    None \<Rightarrow> (by_name, last_name)
                  | Some e \<Rightarrow>
                      (case oid_try_from (trim peel) of
                         Inl _ \<Rightarrow> (by_name, last_name)
                       | Inr x \<Rightarrow> (AList.update name (e\<lparr>en_peeled := Some x\<rparr>) by_name, last_name))))
        | None \<Rightarrow>
            (case split_once CHR '' '' line of
               None \<Rightarrow> (by_name, last_name)
             | Some (sha, name) \<Rightarrow>
                 (case (ref_name_try_from name, oid_try_from sha) of
                    (Inr n, Inr x) \<Rightarrow>
                      (AList.update name \<lparr>en_name = n, en_oid = x, en_peeled = None\<rparr> by_name, Some name)
                  | _ \<Rightarrow> (by_name, last_name)))))"

definition read_packed :: "string \<Rightarrow> (string \<times> ref_entry) list" where
  "read_packed text = fst (fold packed_line (str_lines text) ([], None))"

text \<open>The walk below \<open>refs/\<close>: a stack of directories with their paths; the files are visited in the
  order the walk meets them.\<close>

fun node_size :: "fs_node \<Rightarrow> nat" where
  "node_size (FsFile _) = 1"
| "node_size (FsDir None) = 1"
| "node_size (FsDir (Some children)) = Suc (sum_list (map (\<lambda>(_, n). node_size n) children))"

definition sub_dirs :: "string list \<Rightarrow> (string \<times> fs_node) list \<Rightarrow> (string list \<times> fs_node) list" where
  "sub_dirs path children =
     concat (map (\<lambda>(c, n). case n of FsDir _ \<Rightarrow> [(path @ [c], n)] | FsFile _ \<Rightarrow> []) children)"

definition sub_files :: "string list \<Rightarrow> (string \<times> fs_node) list \<Rightarrow> (string list \<times> string option) list" where
  "sub_files path children =
     concat (map (\<lambda>(c, n). case n of FsDir _ \<Rightarrow> [] | FsFile s \<Rightarrow> [(path @ [c], s)]) children)"

lemma sub_dirs_size:
  "sum_list (map (\<lambda>(_, n). node_size n) (sub_dirs path children)) \<le> sum_list (map (\<lambda>(_, n). node_size n) children)"
  by (induction children) (auto simp: sub_dirs_def split: fs_node.splits)

function walk :: "(string list \<times> fs_node) list \<Rightarrow> (string list \<times> string option) list" where
  "walk [] = []"
| "walk ((path, FsFile _) # stack) = walk stack"
| "walk ((path, FsDir None) # stack) = walk stack"
| "walk ((path, FsDir (Some children)) # stack) =
     sub_files path children @ walk (rev (sub_dirs path children) @ stack)"
  by pat_completeness auto
termination
proof (relation "measure (\<lambda>stack. sum_list (map (\<lambda>(_, n). node_size n) stack))")
  fix path children and stack :: "(string list \<times> fs_node) list"
  have "sum_list (map (\<lambda>(_, n). node_size n) (rev (sub_dirs path children))) \<le> sum_list (map (\<lambda>(_, n). node_size n) children)"
    using sub_dirs_size [of path children] by (simp add: rev_map [symmetric] sum_list_rev)
  then show "(rev (sub_dirs path children) @ stack, (path, FsDir (Some children)) # stack)
      \<in> measure (\<lambda>stack. sum_list (map (\<lambda>(_, n). node_size n) stack))"
    by simp
qed auto

fun join_slash :: "string list \<Rightarrow> string" where
  "join_slash [] = []"
| "join_slash [p] = p"
| "join_slash (p # q # ps) = p @ ''/'' @ join_slash (q # ps)"

definition loose_ref :: "string list \<times> string option \<Rightarrow> (string \<times> ref_entry) list \<Rightarrow> (string \<times> ref_entry) list" where
  "loose_ref file by_name =
     (case file of (path, content) \<Rightarrow>
       (case content of
          None \<Rightarrow> by_name
        | Some s \<Rightarrow>
            (case (oid_try_from (trim s), ref_name_try_from (join_slash path)) of
               (Inr x, Inr n) \<Rightarrow>
                 AList.update (join_slash path) \<lparr>en_name = n, en_oid = x, en_peeled = None\<rparr> by_name
             | _ \<Rightarrow> by_name)))"

definition loose_files :: "fs_node \<Rightarrow> (string list \<times> string option) list" where
  "loose_files git_dir =
     (case fs_lookup git_dir [''refs''] of
        Some (FsDir children) \<Rightarrow> walk [([''refs''], FsDir children)]
      | _ \<Rightarrow> [])"

definition enumerate_refs :: "fs_node \<Rightarrow> ref_entry list" where
  "enumerate_refs git_dir =
     (let packed = (case read_to_string git_dir ''packed-refs'' of None \<Rightarrow> [] | Some text \<Rightarrow> read_packed text);
          by_name = fold loose_ref (loose_files git_dir) packed
      in sort_key en_name (map snd by_name))"

definition fs_ref_list :: "fs_node \<Rightarrow> string list \<Rightarrow> ref_entry list" where
  "fs_ref_list git_dir prefixes =
     (let entries = enumerate_refs git_dir
      in if prefixes = [] then entries
         else filter (\<lambda>e. list_ex (\<lambda>p. starts_with p (ref_str (en_name e))) prefixes) entries)"

subsection \<open>head_state\<close>

fun packed_target :: "string \<Rightarrow> string list \<Rightarrow> oid option" where
  "packed_target target [] = None"
| "packed_target target (line # lines) =
     (if line = [] \<or> starts_with ''#'' line \<or> starts_with ''^'' line then packed_target target lines
      else (case split_once CHR '' '' line of
              None \<Rightarrow> packed_target target lines
            | Some (sha, name) \<Rightarrow>
                if name = target
                then (case oid_try_from sha of Inr x \<Rightarrow> Some x | Inl _ \<Rightarrow> packed_target target lines)
                else packed_target target lines))"

definition oid_of_file :: "fs_node \<Rightarrow> string \<Rightarrow> oid option" where
  "oid_of_file git_dir path =
     (case read_to_string git_dir path of
        None \<Rightarrow> None
      | Some s \<Rightarrow> (case oid_try_from (trim s) of Inl _ \<Rightarrow> None | Inr x \<Rightarrow> Some x))"

definition head_of_dir :: "fs_node \<Rightarrow> error + head_state" where
  "head_of_dir git_dir =
     res_bind (ok_or (Io ''HEAD'') (read_to_string git_dir ''HEAD'')) (\<lambda>raw.
       let trimmed = trim raw in
       case strip_prefix ''ref: '' trimmed of
         Some target_raw \<Rightarrow>
           (let target_str = trim target_raw in
            res_bind (ref_name_try_from target_str) (\<lambda>target.
              case oid_of_file git_dir target_str of
                Some x \<Rightarrow> Inr (Symbolic target x)
              | None \<Rightarrow>
                  (case read_to_string git_dir ''packed-refs'' of
                     None \<Rightarrow> Inr (Unborn target)
                   | Some text \<Rightarrow>
                       (case packed_target target_str (str_lines text) of
                          Some x \<Rightarrow> Inr (Symbolic target x)
                        | None \<Rightarrow> Inr (Unborn target)))))
       | None \<Rightarrow>
           (case oid_try_from trimmed of
              Inr x \<Rightarrow> Inr (Detached x)
            | Inl _ \<Rightarrow> Inl (Other (''unrecognized HEAD format: '' @ trimmed))))"

subsection \<open>FsRefStore over git\<close>

text \<open>\<open>run_git\<close>: arguments to exit code and standard output (standard error is only logged), or an
  error when the process cannot be run.\<close>

type_synonym 'g run_git = "repo_id \<Rightarrow> string list \<Rightarrow> 'g \<Rightarrow> error + (int \<times> u8 list) \<times> 'g"

definition fs_ref_read :: "'g run_git \<Rightarrow> 'g \<Rightarrow> repo_id \<Rightarrow> ref_name \<Rightarrow> error + oid option" where
  "fs_ref_read git g r n =
     res_bind (git r [''rev-parse'', ''--verify'', ''--end-of-options'', ref_str n] g) (\<lambda>((rc, out), _).
       if rc \<noteq> 0 then Inr None
       else res_bind (ok_or (Other ''FromUtf8'') (from_utf8 out)) (\<lambda>text.
         let s = trim text in
         if s = [] then Inr None
         else (case oid_try_from s of Inr x \<Rightarrow> Inr (Some x) | Inl _ \<Rightarrow> Inr None)))"

definition read_current :: "'g run_git \<Rightarrow> 'g \<Rightarrow> repo_id \<Rightarrow> ref_name \<Rightarrow> oid option" where
  "read_current git g r n = (case fs_ref_read git g r n of Inl _ \<Rightarrow> None | Inr x \<Rightarrow> x)"

definition fs_cas_update ::
  "'g run_git \<Rightarrow> repo_id \<Rightarrow> ref_name \<Rightarrow> oid option \<Rightarrow> oid \<Rightarrow> 'g \<Rightarrow> error + cas_outcome \<times> 'g" where
  "fs_cas_update git r n expected new_sha g =
     (let expected_arg = (case expected of Some x \<Rightarrow> oid_str x | None \<Rightarrow> ZERO_SHA) in
      res_bind (git r [''update-ref'', ''--end-of-options'', ref_str n, oid_str new_sha, expected_arg] g)
        (\<lambda>((rc, _), g').
          if rc = 0 then Inr (Updated, g') else Inr (Conflict (read_current git g' r n), g')))"

definition fs_cas_delete ::
  "'g run_git \<Rightarrow> repo_id \<Rightarrow> ref_name \<Rightarrow> oid option \<Rightarrow> 'g \<Rightarrow> error + cas_outcome \<times> 'g" where
  "fs_cas_delete git r n expected g =
     (let args = (case expected of
                    Some x \<Rightarrow> [''update-ref'', ''-d'', ''--end-of-options'', ref_str n, oid_str x]
                  | None \<Rightarrow> [''update-ref'', ''-d'', ''--end-of-options'', ref_str n]) in
      res_bind (git r args g)
        (\<lambda>((rc, _), g').
          if rc = 0 then Inr (Updated, g') else Inr (Conflict (read_current git g' r n), g')))"

section \<open>The trait\<close>

text \<open>What the callers of \<open>RefStore\<close> rely on: \<open>refs s\<close> is the map from refs to object ids that a state
  stands for. A read returns it; an update succeeds iff the ref has the expected value (\<open>None\<close>:
  iff it does not exist) and then changes that ref alone, and otherwise changes nothing and
  reports the current value; a delete with an expected value likewise. The all-zero id is git's
  notation for an absent ref and is not a value. The contract is for the full names \<open>names\<close> (below
  \<open>refs/\<close>, none a path prefix of another) and for new values \<open>vals\<close>, the objects that are there: a
  store may refuse others.\<close>

definition zero_oid :: oid where
  "zero_oid = Oid ZERO_SHA"

definition ref_value :: "oid \<Rightarrow> bool" where
  "ref_value x = (oid_ok (oid_str x) \<and> x \<noteq> zero_oid)"

locale ref_store =
  fixes read_ref :: "'s \<Rightarrow> repo_id \<Rightarrow> ref_name \<Rightarrow> error + oid option"
    and cas_update :: "repo_id \<Rightarrow> ref_name \<Rightarrow> oid option \<Rightarrow> oid \<Rightarrow> 's \<Rightarrow> error + cas_outcome \<times> 's"
    and cas_delete :: "repo_id \<Rightarrow> ref_name \<Rightarrow> oid option \<Rightarrow> 's \<Rightarrow> error + cas_outcome \<times> 's"
    and refs :: "'s \<Rightarrow> ref_key \<rightharpoonup> oid"
    and ok :: "'s \<Rightarrow> bool"
    and names :: "ref_name \<Rightarrow> bool"
    and vals :: "oid \<Rightarrow> bool"
  assumes read_law: "ok s \<Longrightarrow> names n \<Longrightarrow> read_ref s r n = Inr (refs s (r, n))"
    and update_law: "ok s \<Longrightarrow> names n \<Longrightarrow> vals new \<Longrightarrow> pred_option ref_value expected \<Longrightarrow>
      \<exists>s'. cas_update r n expected new s
             = Inr (if refs s (r, n) = expected then Updated else Conflict (refs s (r, n)), s')
        \<and> ok s' \<and> refs s' = (if refs s (r, n) = expected then (refs s)((r, n) \<mapsto> new) else refs s)"
    and delete_law: "ok s \<Longrightarrow> names n \<Longrightarrow> ref_value e \<Longrightarrow>
      \<exists>s'. cas_delete r n (Some e) s
             = Inr (if refs s (r, n) = Some e then Updated else Conflict (refs s (r, n)), s')
        \<and> ok s' \<and> refs s' = (if refs s (r, n) = Some e then (refs s)((r, n) := None) else refs s)"

datatype ref_op = OpUpdate repo_id ref_name "oid option" oid | OpRemove repo_id ref_name oid

fun ref_op_ok :: "(ref_name \<Rightarrow> bool) \<Rightarrow> (oid \<Rightarrow> bool) \<Rightarrow> ref_op \<Rightarrow> bool" where
  "ref_op_ok names vals (OpUpdate _ n expected new) = (names n \<and> pred_option ref_value expected \<and> vals new)"
| "ref_op_ok names vals (OpRemove _ n e) = (names n \<and> ref_value e)"

text \<open>A sequence of operations, as the store serialises them, with the outcome of each.\<close>

fun run_ref_ops ::
  "(repo_id \<Rightarrow> ref_name \<Rightarrow> oid option \<Rightarrow> oid \<Rightarrow> 's \<Rightarrow> error + cas_outcome \<times> 's) \<Rightarrow>
   (repo_id \<Rightarrow> ref_name \<Rightarrow> oid option \<Rightarrow> 's \<Rightarrow> error + cas_outcome \<times> 's) \<Rightarrow>
   ref_op list \<Rightarrow> 's \<Rightarrow> error + cas_outcome list \<times> 's" where
  "run_ref_ops upd del [] s = Inr ([], s)"
| "run_ref_ops upd del (OpUpdate r n e x # ops) s =
     res_bind (upd r n e x s) (\<lambda>(out, s'). res_bind (run_ref_ops upd del ops s') (\<lambda>(outs, s''). Inr (out # outs, s'')))"
| "run_ref_ops upd del (OpRemove r n e # ops) s =
     res_bind (del r n (Some e) s) (\<lambda>(out, s'). res_bind (run_ref_ops upd del ops s') (\<lambda>(outs, s''). Inr (out # outs, s'')))"

text \<open>The same on the abstract map.\<close>

fun spec_ref_op :: "ref_op \<Rightarrow> (ref_key \<rightharpoonup> oid) \<Rightarrow> cas_outcome \<times> (ref_key \<rightharpoonup> oid)" where
  "spec_ref_op (OpUpdate r n e x) m =
     (if m (r, n) = e then (Updated, m((r, n) \<mapsto> x)) else (Conflict (m (r, n)), m))"
| "spec_ref_op (OpRemove r n e) m =
     (if m (r, n) = Some e then (Updated, m((r, n) := None)) else (Conflict (m (r, n)), m))"

fun spec_ref_ops :: "ref_op list \<Rightarrow> (ref_key \<rightharpoonup> oid) \<Rightarrow> cas_outcome list \<times> (ref_key \<rightharpoonup> oid)" where
  "spec_ref_ops [] m = ([], m)"
| "spec_ref_ops (o1 # ops) m =
     (case spec_ref_op o1 m of (out, m') \<Rightarrow> (case spec_ref_ops ops m' of (outs, m'') \<Rightarrow> (out # outs, m'')))"

context ref_store begin

lemma run_ref_ops_spec:
  assumes "ok s" "list_all (ref_op_ok names vals) ops"
  shows "\<exists>s'. run_ref_ops cas_update cas_delete ops s = Inr (fst (spec_ref_ops ops (refs s)), s')
    \<and> ok s' \<and> refs s' = snd (spec_ref_ops ops (refs s))"
  using assms
proof (induction ops arbitrary: s)
  case (Cons o1 ops)
  show ?case
  proof (cases o1)
    case (OpUpdate r n e x)
    with Cons.prems update_law [of s n x e r] obtain s1 where s1: "cas_update r n e x s
             = Inr (if refs s (r, n) = e then Updated else Conflict (refs s (r, n)), s1)" "ok s1"
        "refs s1 = (if refs s (r, n) = e then (refs s)((r, n) \<mapsto> x) else refs s)" by auto
    with Cons.IH [of s1] Cons.prems(2) show ?thesis
      by (auto simp: OpUpdate split: prod.splits if_splits)
  next
    case (OpRemove r n e)
    with Cons.prems delete_law [of s n e r] obtain s1 where s1: "cas_delete r n (Some e) s
             = Inr (if refs s (r, n) = Some e then Updated else Conflict (refs s (r, n)), s1)" "ok s1"
        "refs s1 = (if refs s (r, n) = Some e then (refs s)((r, n) := None) else refs s)" by auto
    with Cons.IH [of s1] Cons.prems(2) show ?thesis
      by (auto simp: OpRemove split: prod.splits if_splits)
  qed
qed simp

text \<open>Two writers that read the same value and race to replace it: whichever comes first wins, the
  other one conflicts and learns the winner's value.\<close>

lemma no_lost_update:
  assumes "ok s" "names n" "vals a" "vals b" "pred_option ref_value v" "refs s (r, n) = v" "Some a \<noteq> v"
  shows "\<exists>s'. run_ref_ops cas_update cas_delete [OpUpdate r n v a, OpUpdate r n v b] s
      = Inr ([Updated, Conflict (Some a)], s') \<and> read_ref s' r n = Inr (Some a)"
  using run_ref_ops_spec [of s "[OpUpdate r n v a, OpUpdate r n v b]"] assms read_law by auto

end

interpretation memr: ref_store
  mem_ref_read mem_cas_update mem_cas_delete "\<lambda>s. map_of (mr_refs s)" "\<lambda>s. distinct (map fst (mr_refs s))"
  "\<lambda>_. True" "\<lambda>_. True"
proof
  fix s :: mem_refs and r n expected new
  assume ok: "distinct (map fst (mr_refs s))"
  show "\<exists>s'. mem_cas_update r n expected new s
             = Inr (if map_of (mr_refs s) (r, n) = expected then Updated else Conflict (map_of (mr_refs s) (r, n)), s')
        \<and> distinct (map fst (mr_refs s'))
        \<and> map_of (mr_refs s') = (if map_of (mr_refs s) (r, n) = expected then (map_of (mr_refs s))((r, n) \<mapsto> new)
             else map_of (mr_refs s))"
    using ok by (auto simp: mem_cas_update_def Let_def update_conv' distinct_update split: option.splits)
next
  fix s :: mem_refs and r n e
  assume ok: "distinct (map fst (mr_refs s))"
  show "\<exists>s'. mem_cas_delete r n (Some e) s
             = Inr (if map_of (mr_refs s) (r, n) = Some e then Updated else Conflict (map_of (mr_refs s) (r, n)), s')
        \<and> distinct (map fst (mr_refs s'))
        \<and> map_of (mr_refs s') = (if map_of (mr_refs s) (r, n) = Some e then (map_of (mr_refs s))((r, n) := None)
             else map_of (mr_refs s))"
    using ok by (auto simp: mem_cas_delete_def Let_def delete_conv' distinct_delete split: option.splits)
qed (simp add: mem_ref_read_def)

section \<open>The contract of git\<close>

text \<open>The documented behaviour of the two plumbing commands the store runs. \<open>rev-parse --verify\<close> prints
  the id of an existing ref and fails for a missing one; \<open>update-ref\<close> with an old value sets (or
  with \<open>-d\<close> removes) the ref and exits with 0 iff the ref has the old value, the all-zero id
  standing for a ref that must not exist, and changes nothing otherwise. \<open>grefs\<close> is the map of
  refs of git's state. The names are full names without directory conflicts among them, the values
  ids of objects that are there, for git refuses to set others.\<close>

definition git_ok ::
  "'g run_git \<Rightarrow> ('g \<Rightarrow> ref_key \<rightharpoonup> oid) \<Rightarrow> (ref_name \<Rightarrow> bool) \<Rightarrow> (oid \<Rightarrow> bool) \<Rightarrow> bool" where
  "git_ok git grefs names vals = (\<forall>g r n. names n \<longrightarrow>
     starts_with ''refs/'' (ref_str n) \<and> pred_option ref_value (grefs g (r, n))
     \<and> (\<exists>rc out. git r [''rev-parse'', ''--verify'', ''--end-of-options'', ref_str n] g = Inr ((rc, out), g)
          \<and> (case grefs g (r, n) of None \<Rightarrow> rc \<noteq> 0 | Some x \<Rightarrow> rc = 0 \<and> out = as_bytes (oid_str x @ [newline])))
     \<and> (\<forall>x old. vals x \<longrightarrow> ref_value x \<and>
          (\<exists>rc out g'. git r [''update-ref'', ''--end-of-options'', ref_str n, oid_str x, old] g = Inr ((rc, out), g')
             \<and> (if old = (case grefs g (r, n) of None \<Rightarrow> ZERO_SHA | Some y \<Rightarrow> oid_str y)
                then rc = 0 \<and> grefs g' = (grefs g)((r, n) \<mapsto> x) else rc \<noteq> 0 \<and> grefs g' = grefs g)))
     \<and> (\<forall>old. old \<noteq> ZERO_SHA \<longrightarrow>
          (\<exists>rc out g'. git r [''update-ref'', ''-d'', ''--end-of-options'', ref_str n, old] g = Inr ((rc, out), g')
             \<and> (if Some old = map_option oid_str (grefs g (r, n))
                then rc = 0 \<and> grefs g' = (grefs g)((r, n) := None) else rc \<noteq> 0 \<and> grefs g' = grefs g))))"

lemma graphic_hex: "is_hexdigit c \<Longrightarrow> 33 \<le> (of_char c :: nat) \<and> (of_char c :: nat) < 127"
  by (auto simp: is_hexdigit_def hex_val_def Let_def split: if_splits)

lemma oid_ok_facts:
  assumes "oid_ok s"
  shows "trim s = s" "trim (s @ [newline]) = s" "from_utf8 (as_bytes (s @ [newline])) = Some (s @ [newline])" "s \<noteq> []"
proof -
  have l: "length s = 40" and h: "\<And>c. c \<in> set s \<Longrightarrow> is_hexdigit c"
    using assms by (auto simp: oid_ok_def list_all_iff)
  then show ne: "s \<noteq> []" by auto
  then have "hd s \<in> set s" "last s \<in> set s" by simp_all
  with h graphic_hex ne show "trim s = s" "trim (s @ [newline]) = s" by (simp_all add: trim_graphic)
  have "ascii s" using h graphic_hex by (fastforce simp: ascii_def)
  then show "from_utf8 (as_bytes (s @ [newline])) = Some (s @ [newline])" by (simp del: as_bytes_simps)
qed

lemma fs_read_law:
  assumes "git_ok git grefs names vals" "names n"
  shows "fs_ref_read git g r n = Inr (grefs g (r, n))"
proof -
  obtain rc out where g: "git r [''rev-parse'', ''--verify'', ''--end-of-options'', ref_str n] g = Inr ((rc, out), g)"
    "case grefs g (r, n) of None \<Rightarrow> rc \<noteq> 0 | Some x \<Rightarrow> rc = 0 \<and> out = as_bytes (oid_str x @ [newline])"
    using assms unfolding git_ok_def by meson
  have v: "pred_option ref_value (grefs g (r, n))" using assms unfolding git_ok_def by blast
  show ?thesis
  proof (cases "grefs g (r, n)")
    case None
    with g show ?thesis by (simp add: fs_ref_read_def)
  next
    case (Some x)
    with v have ok: "oid_ok (oid_str x)" by (simp add: ref_value_def)
    with Some g oid_ok_facts [OF ok] show ?thesis
      by (simp add: fs_ref_read_def Let_def oid_try_from_def del: as_bytes_simps)
  qed
qed

lemma fs_ref_store:
  assumes "git_ok git grefs names vals"
  shows "ref_store (fs_ref_read git) (fs_cas_update git) (fs_cas_delete git) grefs (\<lambda>_. True) names vals"
proof
  fix g r n
  assume "names n"
  then show "fs_ref_read git g r n = Inr (grefs g (r, n))" by (rule fs_read_law [OF assms])
next
  fix g r n expected new
  assume n: "names n" and new: "vals new" and ex: "pred_option ref_value expected"
  let ?old = "case expected of Some x \<Rightarrow> oid_str x | None \<Rightarrow> ZERO_SHA"
  have cur: "pred_option ref_value (grefs g (r, n))" using assms n unfolding git_ok_def by blast
  have m: "?old = (case grefs g (r, n) of None \<Rightarrow> ZERO_SHA | Some y \<Rightarrow> oid_str y) \<longleftrightarrow> grefs g (r, n) = expected"
    using ex cur by (auto simp: ref_value_def zero_oid_def oid.expand split: option.splits)
  from assms n new obtain rc out g' where g: "git r [''update-ref'', ''--end-of-options'', ref_str n, oid_str new, ?old] g
      = Inr ((rc, out), g')"
    "if ?old = (case grefs g (r, n) of None \<Rightarrow> ZERO_SHA | Some y \<Rightarrow> oid_str y)
     then rc = 0 \<and> grefs g' = (grefs g)((r, n) \<mapsto> new) else rc \<noteq> 0 \<and> grefs g' = grefs g"
    unfolding git_ok_def by meson
  show "\<exists>g'. fs_cas_update git r n expected new g
             = Inr (if grefs g (r, n) = expected then Updated else Conflict (grefs g (r, n)), g')
        \<and> True \<and> grefs g' = (if grefs g (r, n) = expected then (grefs g)((r, n) \<mapsto> new) else grefs g)"
    using g(2) unfolding m by (auto simp: fs_cas_update_def g(1) read_current_def fs_read_law [OF assms n] split: if_splits)
next
  fix g r n e
  assume n: "names n" and e: "ref_value e"
  have m: "Some (oid_str e) = map_option oid_str (grefs g (r, n)) \<longleftrightarrow> grefs g (r, n) = Some e"
    by (cases "grefs g (r, n)") (auto simp: oid.expand)
  have "oid_str e \<noteq> ZERO_SHA" using e by (metis oid.collapse ref_value_def zero_oid_def)
  with assms n obtain rc out g' where g: "git r [''update-ref'', ''-d'', ''--end-of-options'', ref_str n, oid_str e] g
      = Inr ((rc, out), g')"
    "if Some (oid_str e) = map_option oid_str (grefs g (r, n))
     then rc = 0 \<and> grefs g' = (grefs g)((r, n) := None) else rc \<noteq> 0 \<and> grefs g' = grefs g"
    unfolding git_ok_def by meson
  show "\<exists>g'. fs_cas_delete git r n (Some e) g
             = Inr (if grefs g (r, n) = Some e then Updated else Conflict (grefs g (r, n)), g')
        \<and> True \<and> grefs g' = (if grefs g (r, n) = Some e then (grefs g)((r, n) := None) else grefs g)"
    using g(2) unfolding m by (auto simp: fs_cas_delete_def g(1) read_current_def fs_read_law [OF assms n] split: if_splits)
qed


text \<open>A git that meets the contract: its state is the map of refs.\<close>

definition mini_refs :: "(ref_key \<rightharpoonup> oid) \<Rightarrow> ref_key \<rightharpoonup> oid" where
  "mini_refs g k = (case g k of None \<Rightarrow> None | Some x \<Rightarrow> if ref_value x then Some x else None)"

definition mini_git :: "(ref_key \<rightharpoonup> oid) run_git" where
  "mini_git r args g =
     (case args of
        [a, b, c, name] \<Rightarrow>
          (case mini_refs g (r, RefName name) of
             None \<Rightarrow> Inr ((128, []), g)
           | Some x \<Rightarrow> Inr ((0, as_bytes (oid_str x @ [newline])), g))
      | [a, b, c, d, old] \<Rightarrow>
          if b = ''-d''
          then (if Some old = map_option oid_str (mini_refs g (r, RefName d))
                then Inr ((0, []), g((r, RefName d) := None)) else Inr ((1, []), g))
          else (if old = (case mini_refs g (r, RefName c) of None \<Rightarrow> ZERO_SHA | Some y \<Rightarrow> oid_str y)
                then Inr ((0, []), g((r, RefName c) \<mapsto> Oid d)) else Inr ((1, []), g))
      | _ \<Rightarrow> Inr ((129, []), g))"

lemma mini_refs_upd: "ref_value x \<Longrightarrow> mini_refs (g(k \<mapsto> x)) = (mini_refs g)(k \<mapsto> x)"
  "mini_refs (g(k := None)) = (mini_refs g)(k := None)"
  by (auto simp: mini_refs_def fun_eq_iff)

lemma mini_git_ok: "git_ok mini_git mini_refs (\<lambda>n. starts_with ''refs/'' (ref_str n)) ref_value"
  unfolding git_ok_def
proof (intro allI conjI impI)
  fix g :: "ref_key \<rightharpoonup> oid" and r n x old
  assume "starts_with ''refs/'' (ref_str n)"
  then show "starts_with ''refs/'' (ref_str n)" .
  show "pred_option ref_value (mini_refs g (r, n))"
    by (simp add: mini_refs_def split: option.split)
  show "\<exists>rc out. mini_git r [''rev-parse'', ''--verify'', ''--end-of-options'', ref_str n] g = Inr ((rc, out), g)
     \<and> (case mini_refs g (r, n) of None \<Rightarrow> rc \<noteq> 0 | Some x \<Rightarrow> rc = 0 \<and> out = as_bytes (oid_str x @ [newline]))"
    by (simp add: mini_git_def split: option.split)
  show "\<exists>rc out g'. mini_git r [''update-ref'', ''-d'', ''--end-of-options'', ref_str n, old] g = Inr ((rc, out), g')
     \<and> (if Some old = map_option oid_str (mini_refs g (r, n))
        then rc = 0 \<and> mini_refs g' = (mini_refs g)((r, n) := None) else rc \<noteq> 0 \<and> mini_refs g' = mini_refs g)"
    by (simp add: mini_git_def mini_refs_upd)
  assume x: "ref_value x"
  then show "ref_value x" .
  from x show "\<exists>rc out g'. mini_git r [''update-ref'', ''--end-of-options'', ref_str n, oid_str x, old] g = Inr ((rc, out), g')
     \<and> (if old = (case mini_refs g (r, n) of None \<Rightarrow> ZERO_SHA | Some y \<Rightarrow> oid_str y)
        then rc = 0 \<and> mini_refs g' = (mini_refs g)((r, n) \<mapsto> x) else rc \<noteq> 0 \<and> mini_refs g' = mini_refs g)"
    by (simp add: mini_git_def mini_refs_upd)
qed

section \<open>Properties of the compare-and-swap\<close>


definition oid_a :: oid where "oid_a = Oid (replicate 40 CHR ''a'')"
definition oid_b :: oid where "oid_b = Oid (replicate 40 CHR ''b'')"

lemma oid_a_b: "ref_value oid_a" "ref_value oid_b"
proof -
  have "oid_ok (replicate 40 CHR ''a'')" "oid_ok (replicate 40 CHR ''b'')"
    by (simp_all add: oid_ok_def list_all_length is_hexdigit_def is_upper_def hex_val_def Let_def)
  moreover have "replicate 40 CHR ''a'' \<noteq> ZERO_SHA" "replicate 40 CHR ''b'' \<noteq> ZERO_SHA"
    by (simp_all add: ZERO_SHA_def)
  ultimately show "ref_value oid_a" "ref_value oid_b"
    by (simp_all add: ref_value_def oid_a_def oid_b_def zero_oid_def)
qed

lemma default_head_full: "starts_with ''refs/'' (ref_str default_head)"
  by (simp add: default_head_def starts_with_def)


text \<open>C16: The two ref stores are interchangeable. From states with the same refs, any sequence of
  updates and deletes with expected values gives the same outcomes, conflicts with their reported
  values included, and the same refs on \<open>FsRefStore\<close> over git and on \<open>MemRefStore\<close>.\<close>

theorem fs_mem_refs_equivalent:
  assumes "git_ok git grefs names vals" "distinct (map fst (mr_refs s))" "map_of (mr_refs s) = grefs g"
    and "list_all (ref_op_ok names vals) ops"
  shows "\<exists>outs g' s'. run_ref_ops (fs_cas_update git) (fs_cas_delete git) ops g = Inr (outs, g')
     \<and> run_ref_ops mem_cas_update mem_cas_delete ops s = Inr (outs, s')
     \<and> (\<forall>r n. names n \<longrightarrow> fs_ref_read git g' r n = mem_ref_read s' r n)"
proof -
  obtain g' where g': "run_ref_ops (fs_cas_update git) (fs_cas_delete git) ops g
      = Inr (fst (spec_ref_ops ops (grefs g)), g')" "grefs g' = snd (spec_ref_ops ops (grefs g))"
    using ref_store.run_ref_ops_spec [OF fs_ref_store [OF assms(1)] TrueI assms(4), of g] by blast
  have "ref_op_ok (\<lambda>_. True) (\<lambda>_. True) o1" if "ref_op_ok names vals o1" for o1
    using that by (cases o1) simp_all
  then have ops: "list_all (ref_op_ok (\<lambda>_. True) (\<lambda>_. True)) ops"
    using assms(4) by (auto simp: list_all_iff)
  obtain s' where s': "run_ref_ops mem_cas_update mem_cas_delete ops s
      = Inr (fst (spec_ref_ops ops (grefs g)), s')" "map_of (mr_refs s') = snd (spec_ref_ops ops (grefs g))"
    using memr.run_ref_ops_spec [OF assms(2), of ops] ops assms(3) by auto
  show ?thesis using g' s' by (auto simp: fs_read_law [OF assms(1)] mem_ref_read_def)
qed

theorem fs_mem_refs_equivalent_witness:
  "\<exists>outs g' s'. run_ref_ops (fs_cas_update mini_git) (fs_cas_delete mini_git)
       [OpUpdate (RepoId ''demo'') default_head None oid_a, OpRemove (RepoId ''demo'') default_head oid_b] Map.empty
     = Inr (outs, g')
     \<and> run_ref_ops mem_cas_update mem_cas_delete
       [OpUpdate (RepoId ''demo'') default_head None oid_a, OpRemove (RepoId ''demo'') default_head oid_b]
       \<lparr>mr_refs = [], mr_heads = []\<rparr> = Inr (outs, s')"
proof -
  have m: "map_of (mr_refs \<lparr>mr_refs = [], mr_heads = []\<rparr>) = mini_refs Map.empty"
    by (simp add: mini_refs_def fun_eq_iff)
  have o: "list_all (ref_op_ok (\<lambda>n. starts_with ''refs/'' (ref_str n)) ref_value) [OpUpdate (RepoId ''demo'') default_head None oid_a,
      OpRemove (RepoId ''demo'') default_head oid_b]"
    using oid_a_b default_head_full by simp
  have d: "distinct (map fst (mr_refs \<lparr>mr_refs = [], mr_heads = []\<rparr>))" by simp
  have "\<exists>outs g' s'. run_ref_ops (fs_cas_update mini_git) (fs_cas_delete mini_git)
       [OpUpdate (RepoId ''demo'') default_head None oid_a, OpRemove (RepoId ''demo'') default_head oid_b] Map.empty
     = Inr (outs, g')
     \<and> run_ref_ops mem_cas_update mem_cas_delete
       [OpUpdate (RepoId ''demo'') default_head None oid_a, OpRemove (RepoId ''demo'') default_head oid_b]
       \<lparr>mr_refs = [], mr_heads = []\<rparr> = Inr (outs, s')
     \<and> (\<forall>r n. starts_with ''refs/'' (ref_str n) \<longrightarrow> fs_ref_read mini_git g' r n = mem_ref_read s' r n)"
    by (rule fs_mem_refs_equivalent [OF mini_git_ok]) (fact d m o)+
  then show ?thesis by blast
qed


section \<open>Listing the git directory\<close>

text \<open>The reference definition: what each line and each loose file says, later ones overriding.\<close>

definition line_ref :: "string \<Rightarrow> (string \<times> oid) option" where
  "line_ref line =
     (if line = [] \<or> starts_with ''#'' line \<or> starts_with ''^'' line then None
      else (case split_once CHR '' '' line of
              None \<Rightarrow> None
            | Some (sha, name) \<Rightarrow> if valid_ref_name name \<and> oid_ok sha then Some (name, Oid sha) else None))"

definition file_ref :: "string list \<times> string option \<Rightarrow> (string \<times> oid) option" where
  "file_ref file =
     (case snd file of
        None \<Rightarrow> None
      | Some s \<Rightarrow> if oid_ok (trim s) \<and> valid_ref_name (join_slash (fst file))
                  then Some (join_slash (fst file), Oid (trim s)) else None)"

definition set_ref :: "(string \<times> oid) option \<Rightarrow> (string \<rightharpoonup> oid) \<Rightarrow> (string \<rightharpoonup> oid)" where
  "set_ref x m = (case x of None \<Rightarrow> m | Some (n, y) \<Rightarrow> m(n \<mapsto> y))"

definition packed_map :: "string \<Rightarrow> string \<rightharpoonup> oid" where
  "packed_map text = fold (set_ref \<circ> line_ref) (str_lines text) Map.empty"

definition dir_refs :: "fs_node \<Rightarrow> string \<rightharpoonup> oid" where
  "dir_refs git_dir =
     (case read_to_string git_dir ''packed-refs'' of None \<Rightarrow> Map.empty | Some text \<Rightarrow> packed_map text)
     ++ fold (set_ref \<circ> file_ref) (loose_files git_dir) Map.empty"

definition names_ok :: "(string \<times> ref_entry) list \<Rightarrow> bool" where
  "names_ok by_name = (distinct (map fst by_name)
     \<and> (\<forall>(k, e)\<in>set by_name. ref_str (en_name e) = k \<and> valid_ref_name k))"

definition oids_of :: "(string \<times> ref_entry) list \<Rightarrow> string \<rightharpoonup> oid" where
  "oids_of by_name name = map_option en_oid (map_of by_name name)"

lemma oids_of_Nil: "oids_of [] = Map.empty"
  by (simp add: oids_of_def fun_eq_iff)

lemma set_update: "x \<in> set (AList.update k v al) \<Longrightarrow> x = (k, v) \<or> x \<in> set al"
  by (induction al) (auto split: if_splits)

lemma names_ok_update:
  assumes "names_ok al" "ref_str (en_name e) = k" "valid_ref_name k"
  shows "names_ok (AList.update k e al)" "oids_of (AList.update k e al) = (oids_of al)(k \<mapsto> en_oid e)"
  using assms by (auto simp: names_ok_def distinct_update update_conv' fun_eq_iff oids_of_def dest!: set_update)

lemma packed_line_ok:
  assumes "names_ok by_name"
  shows "names_ok (fst (packed_line line (by_name, last_name)))
    \<and> oids_of (fst (packed_line line (by_name, last_name))) = set_ref (line_ref line) (oids_of by_name)"
proof (cases "line = [] \<or> starts_with ''#'' line")
  case True
  then show ?thesis using assms by (auto simp: packed_line_def line_ref_def set_ref_def)
next
  case False
  show ?thesis
  proof (cases "strip_prefix ''^'' line")
    case (Some peel)
    then have r: "line_ref line = None" by (simp add: line_ref_def starts_with_def)
    show ?thesis
    proof (cases "\<exists>name e x. last_name = Some name \<and> map_of by_name name = Some e \<and> oid_try_from (trim peel) = Inr x")
      case True
      then obtain name e x where t: "last_name = Some name" "map_of by_name name = Some e" "oid_try_from (trim peel) = Inr x"
        by blast
      have st: "fst (packed_line line (by_name, last_name)) = AList.update name (e\<lparr>en_peeled := Some x\<rparr>) by_name"
        using False Some t by (simp add: packed_line_def)
      have "ref_str (en_name e) = name \<and> valid_ref_name name"
        using assms map_of_SomeD [OF t(2)] by (auto simp: names_ok_def)
      then have u: "names_ok (AList.update name (e\<lparr>en_peeled := Some x\<rparr>) by_name)"
        "oids_of (AList.update name (e\<lparr>en_peeled := Some x\<rparr>) by_name) = (oids_of by_name)(name \<mapsto> en_oid e)"
        using names_ok_update [OF assms, of "e\<lparr>en_peeled := Some x\<rparr>" name] by simp_all
      have "(oids_of by_name)(name \<mapsto> en_oid e) = oids_of by_name" using t(2) by (auto simp: fun_eq_iff oids_of_def)
      then show ?thesis using u unfolding st r by (simp add: set_ref_def)
    next
      case False': False
      then have "fst (packed_line line (by_name, last_name)) = by_name"
        using False Some by (auto simp: packed_line_def split: option.splits sum.splits)
      then show ?thesis using assms r by (simp add: set_ref_def)
    qed
  next
    case None
    then have n: "\<not> starts_with ''^'' line" by (simp add: starts_with_def)
    show ?thesis
    proof (cases "split_once CHR '' '' line")
      case None': None
      then show ?thesis using assms False None n by (simp add: packed_line_def line_ref_def set_ref_def)
    next
      case (Some p)
      obtain sha name where p: "p = (sha, name)" by (cases p)
      show ?thesis
      proof (cases "valid_ref_name name \<and> oid_ok sha")
        case True
        then have "fst (packed_line line (by_name, last_name))
          = AList.update name \<lparr>en_name = RefName name, en_oid = Oid sha, en_peeled = None\<rparr> by_name"
          using False None Some p by (simp add: packed_line_def ref_name_try_from_def oid_try_from_def)
        moreover have "line_ref line = Some (name, Oid sha)" using False n Some p True by (simp add: line_ref_def)
        ultimately show ?thesis
          using names_ok_update [OF assms, of "\<lparr>en_name = RefName name, en_oid = Oid sha, en_peeled = None\<rparr>" name] True
          by (simp add: set_ref_def)
      next
        case False': False
        then have "fst (packed_line line (by_name, last_name)) = by_name"
          using False None Some p by (auto simp: packed_line_def ref_name_try_from_def oid_try_from_def split: sum.splits if_splits)
        moreover have "line_ref line = None" using False n Some p False' by (simp add: line_ref_def)
        ultimately show ?thesis using assms by (simp add: set_ref_def)
      qed
    qed
  qed
qed

lemma read_packed_ok: "names_ok (read_packed text) \<and> oids_of (read_packed text) = packed_map text"
proof -
  have "names_ok (fst (fold packed_line ls st)) \<and> oids_of (fst (fold packed_line ls st))
      = fold (set_ref \<circ> line_ref) ls (oids_of (fst st))" if "names_ok (fst st)" for ls and st
    using that
  proof (induction ls arbitrary: st)
    case (Cons l ls)
    obtain by_name last_name where st: "st = (by_name, last_name)" by (cases st)
    from packed_line_ok [of by_name l last_name] Cons st show ?case by simp
  qed simp
  from this [of "([], None)"] show ?thesis
    by (simp add: read_packed_def packed_map_def names_ok_def oids_of_Nil)
qed

lemma loose_ref_ok:
  assumes "names_ok by_name"
  shows "names_ok (loose_ref entry by_name) \<and> oids_of (loose_ref entry by_name) = set_ref (file_ref entry) (oids_of by_name)"
proof -
  obtain path content where f: "entry = (path, content)" by (cases entry)
  show ?thesis
  proof (cases "\<exists>s. content = Some s \<and> oid_ok (trim s) \<and> valid_ref_name (join_slash path)")
    case True
    then obtain s where s: "content = Some s" "oid_ok (trim s)" "valid_ref_name (join_slash path)" by blast
    then show ?thesis
      using names_ok_update [OF assms, of "\<lparr>en_name = RefName (join_slash path), en_oid = Oid (trim s), en_peeled = None\<rparr>" "join_slash path"]
      by (simp add: f loose_ref_def file_ref_def set_ref_def ref_name_try_from_def oid_try_from_def)
  next
    case False
    then have "loose_ref entry by_name = by_name" "file_ref entry = None"
      by (auto simp: f loose_ref_def file_ref_def ref_name_try_from_def oid_try_from_def split: option.splits)
    then show ?thesis using assms by (simp add: set_ref_def)
  qed
qed

lemma fold_loose_ok:
  "names_ok al \<Longrightarrow> names_ok (fold loose_ref fs al)
    \<and> oids_of (fold loose_ref fs al) = fold (set_ref \<circ> file_ref) fs (oids_of al)"
proof (induction fs arbitrary: al)
  case (Cons f fs)
  with loose_ref_ok [of al f] show ?case by simp
qed simp

lemma fold_set_ref_map_add: "fold (set_ref \<circ> f) xs m = m ++ fold (set_ref \<circ> f) xs Map.empty"
proof (induction xs rule: rev_induct)
  case (snoc x xs)
  then show ?case by (cases "f x") (auto simp: set_ref_def)
qed simp



text \<open>A peel line after a line that was skipped as malformed is attached to the ref before it, because
  \<open>last_name\<close> still names that ref.\<close>

lemma packed_peel_misattached:
  assumes "valid_ref_name name" "oid_ok sha" "CHR '' '' \<notin> set sha" "\<not> starts_with ''#'' sha" "\<not> starts_with ''^'' sha"
    and "bad \<noteq> []" "\<not> starts_with ''#'' bad" "\<not> starts_with ''^'' bad" "line_ref bad = None"
    and "oid_ok (trim peel)"
  shows "fst (fold packed_line [sha @ '' '' @ name, bad, ''^'' @ peel] ([], None))
    = [(name, \<lparr>en_name = RefName name, en_oid = Oid sha, en_peeled = Some (Oid (trim peel))\<rparr>)]"
proof -
  obtain c sha' where sha: "sha = c # sha'" using assms(2) by (cases sha) (auto simp: oid_ok_def)
  have h: "\<not> starts_with ''#'' (sha @ '' '' @ name)" using assms(4) by (auto simp add: sha starts_with_iff)
  have c: "strip_prefix ''^'' (sha @ '' '' @ name) = None" using assms(5) by (cases "c = CHR ''^''") (auto simp add: sha starts_with_iff)
  have s: "split_once CHR '' '' (sha @ '' '' @ name) = Some (sha, name)"
    using split_once_append [OF assms(3), of name] by simp
  have 1: "packed_line (sha @ '' '' @ name) ([], None)
      = ([(name, \<lparr>en_name = RefName name, en_oid = Oid sha, en_peeled = None\<rparr>)], Some name)"
    unfolding packed_line_def prod.case s c option.case ref_name_try_from_def oid_try_from_def
    using h assms(1,2) by (simp add: sha)
  have "strip_prefix ''^'' bad = None" using assms(8) by (simp add: starts_with_def)
  note nobad = this
  have 2: "packed_line bad (m, l) = (m, l)" for m l
  proof (cases "split_once CHR '' '' bad")
    case None
    then show ?thesis using assms(6,7) nobad by (simp add: packed_line_def)
  next
    case (Some p)
    obtain sha' name' where p: "p = (sha', name')" by (cases p)
    have "\<not> (valid_ref_name name' \<and> oid_ok sha')"
      using assms(6-9) Some p by (simp add: line_ref_def split: if_splits)
    then show ?thesis using assms(6,7) nobad Some p
      by (auto simp add: packed_line_def ref_name_try_from_def oid_try_from_def)
  qed
  have 3: "packed_line (''^'' @ peel) ([(name, \<lparr>en_name = RefName name, en_oid = Oid sha, en_peeled = None\<rparr>)], Some name)
      = ([(name, \<lparr>en_name = RefName name, en_oid = Oid sha, en_peeled = Some (Oid (trim peel))\<rparr>)], Some name)"
    using assms(10) by (simp add: packed_line_def starts_with_def oid_try_from_def)
  show ?thesis by (simp only: fold.simps comp_apply id_apply 1 2 3 fst_conv)
qed

end
