(* ===== verification/WireProto.thy ===== *)
theory WireProto
  imports PktLine ObjectStore
begin

text \<open>
  The request parsers of \<open>src/git_wire/proto.rs\<close>: the protocol v2 commands \<open>ls-refs\<close> and \<open>fetch\<close>, and the
  body of a push. The two v2 parsers share the shape of their loops over \<open>PktIter\<close>, which is
  modelled once: \<open>read_caps\<close> for the capability section and \<open>arg_loop\<close> for the argument section, the
  latter with the treatment of one argument line as a parameter.
\<close>

section \<open>Definitions\<close>

record ls_refs_args =
  la_peel :: bool
  la_symrefs :: bool
  la_prefixes :: "string list"

record v2_fetch_request =
  fr_wants :: "string list"
  fr_haves :: "string list"
  fr_done :: bool
  fr_unsupported :: bool
  fr_no_progress :: bool

definition fetch_is_simple :: "v2_fetch_request \<Rightarrow> bool" where
  "fetch_is_simple req = (fr_done req \<and> \<not> fr_unsupported req)"

record ref_update =
  ru_old :: string
  ru_new :: string
  ru_name :: string

definition ref_update_ZERO :: string where
  "ref_update_ZERO = ''0000000000000000000000000000000000000000''"

definition is_create :: "ref_update \<Rightarrow> bool" where
  "is_create u = (ru_old u = ref_update_ZERO)"

definition is_delete :: "ref_update \<Rightarrow> bool" where
  "is_delete u = (ru_new u = ref_update_ZERO)"

record receive_pack_request =
  rp_updates :: "ref_update list"
  rp_report_status :: bool
  rp_sideband_64k :: bool
  rp_unsupported :: bool
  rp_pack :: "u8 list"

definition push_is_simple :: "receive_pack_request \<Rightarrow> bool" where
  "push_is_simple req =
     (if \<not> rp_report_status req then False
      else if rp_unsupported req then False
      else if rp_updates req = [] then False
      else True)"

definition is_known_capability :: "string \<Rightarrow> bool" where
  "is_known_capability line =
     (starts_with ''agent='' line \<or> starts_with ''object-format='' line \<or> starts_with ''session-id='' line)"

definition is_hex40 :: "string \<Rightarrow> bool" where
  "is_hex40 s = is_hex40_bytes (as_bytes s)"

text \<open>\<open>str::from_utf8(d).ok()?.trim_end_matches('\<newline>')\<close> with the line feed as character.\<close>

definition line_text :: "u8 list \<Rightarrow> string option" where
  "line_text d = map_option (trim_end_char newline) (from_utf8 d)"

text \<open>The capability section. Every step of the iterator shortens its buffer or ends it, as for
  \<open>pkt_drain\<close>.\<close>

definition iter_size :: "pkt_iter \<Rightarrow> nat" where
  "iter_size it = 2 * length (pi_buf it) + of_bool (\<not> pi_done it)"

lemma pkt_next_size: "pkt_next it = (Some x, it') \<Longrightarrow> iter_size it' < iter_size it"
  unfolding iter_size_def by (rule pkt_next_decreases)

datatype caps_end = CapsDelim pkt_iter | CapsFlush | CapsFail

function read_caps :: "pkt_iter \<Rightarrow> caps_end" where
  "read_caps it =
     (case pkt_next it of
        (None, _) \<Rightarrow> CapsFail
      | (Some (Inl e), _) \<Rightarrow> CapsFail
      | (Some (Inr line), it') \<Rightarrow>
          (case line of
             Delim \<Rightarrow> CapsDelim it'
           | Flush \<Rightarrow> CapsFlush
           | Data d \<Rightarrow>
               (case line_text d of
                  None \<Rightarrow> CapsFail
                | Some s \<Rightarrow> if is_known_capability s then read_caps it' else CapsFail)
           | RespEnd \<Rightarrow> CapsFail))"
  by pat_completeness auto
termination
  by (relation "measure iter_size") (simp_all only: wf_measure in_measure pkt_next_size [OF sym])

text \<open>The argument section: a step takes one line and the request so far.\<close>

function arg_loop :: "(string \<Rightarrow> 'r \<Rightarrow> 'r option) \<Rightarrow> pkt_iter \<Rightarrow> 'r \<Rightarrow> 'r option" where
  "arg_loop step it req =
     (case pkt_next it of
        (None, _) \<Rightarrow> None
      | (Some (Inl e), _) \<Rightarrow> None
      | (Some (Inr line), it') \<Rightarrow>
          (case line of
             Flush \<Rightarrow> Some req
           | Data d \<Rightarrow>
               (case line_text d of
                  None \<Rightarrow> None
                | Some s \<Rightarrow> (case step s req of None \<Rightarrow> None | Some req' \<Rightarrow> arg_loop step it' req'))
           | _ \<Rightarrow> None))"
  by pat_completeness auto
termination
  by (relation "measure (\<lambda>(step, it, req). iter_size it)")
    (simp_all only: wf_measure in_measure prod.case pkt_next_size [OF sym])

declare read_caps.simps [simp del] arg_loop.simps [simp del]

subsection \<open>ls-refs\<close>

definition ls_refs_line :: "string \<Rightarrow> ls_refs_args \<Rightarrow> ls_refs_args option" where
  "ls_refs_line s args =
     (if s = ''peel'' then Some (args\<lparr>la_peel := True\<rparr>)
      else if s = ''symrefs'' then Some (args\<lparr>la_symrefs := True\<rparr>)
      else case strip_prefix ''ref-prefix '' s of
        Some p \<Rightarrow> Some (args\<lparr>la_prefixes := la_prefixes args @ [p]\<rparr>)
      | None \<Rightarrow> if s = ''unborn'' then Some args else None)"

definition no_ls_args :: ls_refs_args where
  "no_ls_args = \<lparr>la_peel = False, la_symrefs = False, la_prefixes = []\<rparr>"

text \<open>The first frame of both v2 commands: \<open>None\<close> unless it is a data frame with the command's text.\<close>

definition expect_command :: "string \<Rightarrow> u8 list \<Rightarrow> pkt_iter option" where
  "expect_command cmd body =
     (case pkt_next (pkt_iter_new body) of
        (Some (Inr (Data d)), it) \<Rightarrow> if line_text d = Some cmd then Some it else None
      | _ \<Rightarrow> None)"

definition parse_ls_refs_only :: "u8 list \<Rightarrow> ls_refs_args option" where
  "parse_ls_refs_only body =
     (case expect_command ''command=ls-refs'' body of
        None \<Rightarrow> None
      | Some it \<Rightarrow>
          (case read_caps it of
             CapsFail \<Rightarrow> None
           | CapsFlush \<Rightarrow> Some no_ls_args
           | CapsDelim it' \<Rightarrow> arg_loop ls_refs_line it' no_ls_args))"

subsection \<open>fetch\<close>

definition fetch_line :: "string \<Rightarrow> v2_fetch_request \<Rightarrow> v2_fetch_request option" where
  "fetch_line s req =
     (case strip_prefix ''want '' s of
        Some x \<Rightarrow> if is_hex40 x then Some (req\<lparr>fr_wants := fr_wants req @ [x]\<rparr>) else None
      | None \<Rightarrow>
          (case strip_prefix ''have '' s of
             Some x \<Rightarrow> if is_hex40 x then Some (req\<lparr>fr_haves := fr_haves req @ [x]\<rparr>) else None
           | None \<Rightarrow>
               if s = ''done'' then Some (req\<lparr>fr_done := True\<rparr>)
               else if s = ''no-progress'' then Some (req\<lparr>fr_no_progress := True\<rparr>)
               else if s \<in> {''thin-pack'', ''ofs-delta'', ''include-tag''} then Some req
               else Some (req\<lparr>fr_unsupported := True\<rparr>)))"

definition fetch_default :: v2_fetch_request where
  "fetch_default = \<lparr>fr_wants = [], fr_haves = [], fr_done = False, fr_unsupported = False, fr_no_progress = False\<rparr>"

definition parse_v2_fetch :: "u8 list \<Rightarrow> v2_fetch_request option" where
  "parse_v2_fetch body =
     (case expect_command ''command=fetch'' body of
        None \<Rightarrow> None
      | Some it \<Rightarrow>
          (case read_caps it of
             CapsDelim it' \<Rightarrow> arg_loop fetch_line it' fetch_default
           | _ \<Rightarrow> None))"

subsection \<open>The body of a push\<close>

text \<open>One capability of the first line.\<close>

definition push_cap :: "string \<Rightarrow> receive_pack_request \<Rightarrow> receive_pack_request" where
  "push_cap c req =
     (if c = [] then req
      else if c = ''report-status'' \<or> c = ''report-status-v2'' then req\<lparr>rp_report_status := True\<rparr>
      else if c = ''side-band-64k'' then req\<lparr>rp_sideband_64k := True\<rparr>
      else if c \<in> {''ofs-delta'', ''delete-refs'', ''no-thin'', ''quiet''} then req
      else if c \<in> {''atomic'', ''push-options'', ''push-cert''} then req\<lparr>rp_unsupported := True\<rparr>
      else if starts_with ''agent='' c \<or> starts_with ''session-id='' c \<or> starts_with ''object-format='' c then req
      else req\<lparr>rp_unsupported := True\<rparr>)"

text \<open>One data line of the loop.\<close>

definition push_line :: "bool \<Rightarrow> string \<Rightarrow> receive_pack_request \<Rightarrow> receive_pack_request option" where
  "push_line first s req =
     (let (head, caps) = (case split_once (CHR 0x00) s of Some (h, c) \<Rightarrow> (h, Some c) | None \<Rightarrow> (s, None));
          parts = splitn 3 CHR '' '' head
      in if length parts \<noteq> 3 then None
         else let old = parts ! 0; new = parts ! 1; name = parts ! 2 in
           if \<not> is_hex40 old \<or> \<not> is_hex40 new then None
           else let req = req\<lparr>rp_updates := rp_updates req @ [\<lparr>ru_old = old, ru_new = new, ru_name = name\<rparr>]\<rparr> in
             if first
             then (case caps of
                     Some cs \<Rightarrow> Some (fold push_cap (split_char CHR '' '' cs) req)
                   | None \<Rightarrow> Some (req\<lparr>rp_unsupported := True\<rparr>))
             else Some req)"

function push_loop :: "bool \<Rightarrow> u8 list \<Rightarrow> receive_pack_request \<Rightarrow> receive_pack_request option" where
  "push_loop first buf req =
     (case pkt_read buf of
        Inl e \<Rightarrow> None
      | Inr (line, rest) \<Rightarrow>
          (case line of
             Flush \<Rightarrow> Some (req\<lparr>rp_pack := rest\<rparr>)
           | Data d \<Rightarrow>
               (case line_text d of
                  None \<Rightarrow> None
                | Some s \<Rightarrow> (case push_line first s req of None \<Rightarrow> None | Some req' \<Rightarrow> push_loop False rest req'))
           | _ \<Rightarrow> None))"
  by pat_completeness auto
termination
  by (relation "measure (\<lambda>(first, buf, req). length buf)") (auto dest!: pkt_read_shorter)

declare push_loop.simps [simp del]

definition parse_receive_pack_body :: "u8 list \<Rightarrow> receive_pack_request option" where
  "parse_receive_pack_body body =
     push_loop True body \<lparr>rp_updates = [], rp_report_status = False, rp_sideband_64k = False,
       rp_unsupported = False, rp_pack = []\<rparr>"

section \<open>The loops as scans of the frame sequence\<close>

text \<open>\<open>fold_lines\<close> runs the treatment of a line over the payloads of an argument section.\<close>

fun fold_lines :: "(string \<Rightarrow> 'r \<Rightarrow> 'r option) \<Rightarrow> u8 list list \<Rightarrow> 'r \<Rightarrow> 'r option" where
  "fold_lines step [] req = Some req"
| "fold_lines step (d # ds) req =
     (case line_text d of
        None \<Rightarrow> None
      | Some s \<Rightarrow> (case step s req of None \<Rightarrow> None | Some req' \<Rightarrow> fold_lines step ds req'))"

abbreviation data_frames :: "u8 list list \<Rightarrow> (pkt_error + pkt_line) list" where
  "data_frames ds \<equiv> map (\<lambda>d. Inr (Data d)) ds"

definition cap_line :: "u8 list \<Rightarrow> bool" where
  "cap_line d = (case line_text d of None \<Rightarrow> False | Some s \<Rightarrow> is_known_capability s)"

definition framed :: "pkt_line \<Rightarrow> (u8 list list \<Rightarrow> (pkt_error + pkt_line) list \<Rightarrow> bool) \<Rightarrow> (pkt_error + pkt_line) list \<Rightarrow> bool" where
  "framed f P xs = (\<exists>ds rest. xs = data_frames ds @ Inr f # rest \<and> P ds rest)"

lemma framed_Nil: "\<not> framed f P []"
  by (simp add: framed_def)

lemma framed_Cons:
  "framed f P (x # xs) \<longleftrightarrow>
     (x = Inr f \<and> P [] xs) \<or> (\<exists>d. x = Inr (Data d) \<and> framed f (\<lambda>ds. P (d # ds)) xs)"
proof
  assume "framed f P (x # xs)"
  then obtain ds rest where "x # xs = data_frames ds @ Inr f # rest" "P ds rest" by (auto simp: framed_def)
  then show "(x = Inr f \<and> P [] xs) \<or> (\<exists>d. x = Inr (Data d) \<and> framed f (\<lambda>ds. P (d # ds)) xs)"
    by (cases ds) (auto simp: framed_def)
next
  assume "(x = Inr f \<and> P [] xs) \<or> (\<exists>d. x = Inr (Data d) \<and> framed f (\<lambda>ds. P (d # ds)) xs)"
  then show "framed f P (x # xs)"
  proof
    assume "x = Inr f \<and> P [] xs"
    then show ?thesis unfolding framed_def by (intro exI [of _ "[]"] exI [of _ xs]) simp
  next
    assume "\<exists>d. x = Inr (Data d) \<and> framed f (\<lambda>ds. P (d # ds)) xs"
    then obtain d ds rest where "x = Inr (Data d)" "xs = data_frames ds @ Inr f # rest" "P (d # ds) rest"
      by (auto simp: framed_def)
    then show ?thesis unfolding framed_def by (intro exI [of _ "d # ds"] exI [of _ rest]) simp
  qed
qed

lemma framed_False [simp]: "\<not> framed f (\<lambda>ds rest. False) xs"
  by (simp add: framed_def)

text \<open>The two kinds of step of the iterator, for the loops below.\<close>

lemma drain_next:
  "pkt_next it = (None, it') \<Longrightarrow> pkt_drain it = []"
  "pkt_next it = (Some x, it') \<Longrightarrow> pkt_drain it = x # pkt_drain it'"
  by (simp_all add: pkt_drain.simps [of it])

lemmas framed_simps = drain_next framed_Nil framed_Cons

lemma arg_loop_section:
  "arg_loop step it req = Some r \<longleftrightarrow> framed Flush (\<lambda>ds rest. fold_lines step ds req = Some r) (pkt_drain it)"
proof (induction step it req rule: arg_loop.induct)
  case (1 step it req)
  show ?case
    by (subst arg_loop.simps)
      (auto simp: framed_simps 1 split: prod.splits option.splits sum.splits pkt_line.splits)
qed

lemma cap_line_simps:
  "line_text d = None \<Longrightarrow> \<not> cap_line d" "line_text d = Some s \<Longrightarrow> cap_line d = is_known_capability s"
  by (simp_all add: cap_line_def)

lemma read_caps_section:
  "(\<exists>it'. read_caps it = CapsDelim it' \<and> pkt_drain it' = q)
     \<longleftrightarrow> framed Delim (\<lambda>ds rest. rest = q \<and> list_all cap_line ds) (pkt_drain it)"
  "read_caps it = CapsFlush \<longleftrightarrow> framed Flush (\<lambda>ds rest. list_all cap_line ds) (pkt_drain it)"
proof (induction it rule: read_caps.induct)
  case (1 it)
  {
    case 1
    show ?case
      by (subst read_caps.simps)
        (auto simp: framed_simps "1.IH" cap_line_simps split: prod.splits option.splits sum.splits pkt_line.splits)
  next
    case 2
    show ?case
      by (subst read_caps.simps)
        (auto simp: framed_simps "1.IH" cap_line_simps split: prod.splits option.splits sum.splits pkt_line.splits)
  }
qed

lemma expect_command_iff:
  "(\<exists>it. expect_command cmd body = Some it \<and> pkt_drain it = q) \<longleftrightarrow>
     (\<exists>d. pkt_drain (pkt_iter_new body) = Inr (Data d) # q \<and> line_text d = Some cmd)"
proof -
  obtain x it where n: "pkt_next (pkt_iter_new body) = (x, it)" by (cases "pkt_next (pkt_iter_new body)")
  show ?thesis
    by (auto simp: expect_command_def n pkt_drain.simps [of "pkt_iter_new body"]
        split: option.splits sum.splits pkt_line.splits)
qed

section \<open>What the argument lines mean\<close>

definition oid_line_ok :: "string \<Rightarrow> bool" where
  "oid_line_ok l =
     ((case strip_prefix ''want '' l of None \<Rightarrow> True | Some x \<Rightarrow> is_hex40 x)
      \<and> (case strip_prefix ''have '' l of None \<Rightarrow> True | Some x \<Rightarrow> is_hex40 x))"

definition fetch_line_known :: "string \<Rightarrow> bool" where
  "fetch_line_known l =
     (starts_with ''want '' l \<or> starts_with ''have '' l
      \<or> l \<in> {''done'', ''no-progress'', ''thin-pack'', ''ofs-delta'', ''include-tag''})"

definition fetch_summary :: "string list \<Rightarrow> v2_fetch_request" where
  "fetch_summary ls =
     \<lparr>fr_wants = List.map_filter (strip_prefix ''want '') ls,
      fr_haves = List.map_filter (strip_prefix ''have '') ls,
      fr_done = (''done'' \<in> set ls),
      fr_unsupported = (\<not> list_all fetch_line_known ls),
      fr_no_progress = (''no-progress'' \<in> set ls)\<rparr>"

definition ls_line_known :: "string \<Rightarrow> bool" where
  "ls_line_known l = (l \<in> {''peel'', ''symrefs'', ''unborn''} \<or> starts_with ''ref-prefix '' l)"

definition ls_summary :: "string list \<Rightarrow> ls_refs_args" where
  "ls_summary ls =
     \<lparr>la_peel = (''peel'' \<in> set ls), la_symrefs = (''symrefs'' \<in> set ls),
      la_prefixes = List.map_filter (strip_prefix ''ref-prefix '') ls\<rparr>"

lemma map_filter_snoc: "List.map_filter f (xs @ [x]) = List.map_filter f xs @ (case f x of None \<Rightarrow> [] | Some y \<Rightarrow> [y])"
  by (induction xs) (auto simp: List.map_filter_simps split: option.splits)

lemma strip_prefix_other:
  assumes "strip_prefix p s = Some x" "p = c # p'" "q = d # q'" "c \<noteq> d"
  shows "strip_prefix q s = None"
  using assms by (cases s) (auto split: if_splits)

lemma fetch_line_snoc:
  "fetch_line l (fetch_summary ls) = (if oid_line_ok l then Some (fetch_summary (ls @ [l])) else None)"
proof (cases "strip_prefix ''want '' l")
  case (Some x)
  have "strip_prefix ''have '' l = None" by (rule strip_prefix_other [OF Some refl refl]) simp
  moreover have "l \<noteq> ''done''" "l \<noteq> ''no-progress''" using Some by auto
  ultimately show ?thesis using Some
    by (simp add: fetch_line_def oid_line_ok_def fetch_summary_def map_filter_snoc fetch_line_known_def starts_with_def)
next
  case None
  note want = this
  show ?thesis
  proof (cases "strip_prefix ''have '' l")
    case (Some x)
    have "l \<noteq> ''done''" "l \<noteq> ''no-progress''" using Some by auto
    then show ?thesis using Some want
      by (simp add: fetch_line_def oid_line_ok_def fetch_summary_def map_filter_snoc fetch_line_known_def starts_with_def)
  next
    case None
    then show ?thesis using want
      by (auto simp add: fetch_line_def oid_line_ok_def fetch_summary_def map_filter_snoc fetch_line_known_def starts_with_def)
  qed
qed

lemma ls_line_snoc:
  "ls_refs_line l (ls_summary ls) = (if ls_line_known l then Some (ls_summary (ls @ [l])) else None)"
  by (auto simp: ls_refs_line_def ls_line_known_def ls_summary_def map_filter_snoc starts_with_def split: option.splits)

lemma fold_lines_summary:
  assumes "\<And>l ls. step l (summary ls) = (if ok l then Some (summary (ls @ [l])) else None)"
  shows "fold_lines step ds (summary ls) = Some r \<longleftrightarrow>
    (\<exists>ls'. map line_text ds = map Some ls' \<and> list_all ok ls' \<and> r = summary (ls @ ls'))"
proof (induction ds arbitrary: ls)
  case (Cons d ds)
  show ?case
  proof (cases "line_text d")
    case (Some l)
    have "(\<exists>ls'. map line_text (d # ds) = map Some ls' \<and> list_all ok ls' \<and> r = summary (ls @ ls'))
        \<longleftrightarrow> ok l \<and> (\<exists>ls'. map line_text ds = map Some ls' \<and> list_all ok ls' \<and> r = summary ((ls @ [l]) @ ls'))"
      using Some by (auto simp: Cons_eq_map_conv)
    then show ?thesis using Some Cons.IH by (simp add: assms)
  qed (auto simp: Cons_eq_map_conv)
qed auto

lemma fetch_default_summary: "fetch_default = fetch_summary []"
  by (simp add: fetch_default_def fetch_summary_def List.map_filter_simps)

lemma no_ls_args_summary: "no_ls_args = ls_summary []"
  by (simp add: no_ls_args_def ls_summary_def List.map_filter_simps)

text \<open>The frame sequence of a v2 command: the command, its capabilities and, after a delimiter, its
  argument lines, then whatever comes after the flush.\<close>

definition command_frames ::
  "string \<Rightarrow> u8 list list \<Rightarrow> (pkt_error + pkt_line) list \<Rightarrow> (pkt_error + pkt_line) list \<Rightarrow> bool" where
  "command_frames cmd caps tail fs =
     (\<exists>d. fs = Inr (Data d) # data_frames caps @ tail \<and> line_text d = Some cmd \<and> list_all cap_line caps)"

lemma after_delim:
  "(\<exists>it it'. expect_command cmd body = Some it \<and> read_caps it = CapsDelim it' \<and> arg_loop step it' r0 = Some r)
     \<longleftrightarrow> (\<exists>caps ds rest. command_frames cmd caps (Inr Delim # data_frames ds @ Inr Flush # rest) (pkt_drain (pkt_iter_new body))
           \<and> fold_lines step ds r0 = Some r)" (is "?L \<longleftrightarrow> ?R")
proof -
  have "?L \<longleftrightarrow> (\<exists>q q'. (\<exists>it. expect_command cmd body = Some it \<and> pkt_drain it = q \<and> (\<exists>it'. read_caps it = CapsDelim it' \<and> pkt_drain it' = q'))
      \<and> framed Flush (\<lambda>ds rest. fold_lines step ds r0 = Some r) q')"
    unfolding arg_loop_section by blast
  also have "\<dots> \<longleftrightarrow> (\<exists>q q'. (\<exists>d. pkt_drain (pkt_iter_new body) = Inr (Data d) # q \<and> line_text d = Some cmd)
      \<and> framed Delim (\<lambda>ds rest. rest = q' \<and> list_all cap_line ds) q \<and> framed Flush (\<lambda>ds rest. fold_lines step ds r0 = Some r) q')"
    unfolding read_caps_section(1) expect_command_iff [symmetric] by blast
  also have "\<dots> \<longleftrightarrow> ?R"
    unfolding framed_def command_frames_def by blast
  finally show ?thesis .
qed

lemma at_flush:
  "(\<exists>it. expect_command cmd body = Some it \<and> read_caps it = CapsFlush)
     \<longleftrightarrow> (\<exists>caps rest. command_frames cmd caps (Inr Flush # rest) (pkt_drain (pkt_iter_new body)))"
proof -
  have "(\<exists>it. expect_command cmd body = Some it \<and> read_caps it = CapsFlush) \<longleftrightarrow>
      (\<exists>q. (\<exists>d. pkt_drain (pkt_iter_new body) = Inr (Data d) # q \<and> line_text d = Some cmd)
        \<and> framed Flush (\<lambda>ds rest. list_all cap_line ds) q)"
    unfolding read_caps_section(2) expect_command_iff [symmetric] by blast
  also have "\<dots> \<longleftrightarrow> (\<exists>caps rest. command_frames cmd caps (Inr Flush # rest) (pkt_drain (pkt_iter_new body)))"
    unfolding framed_def command_frames_def by blast
  finally show ?thesis .
qed

text \<open>Framed bytes, for concrete bodies.\<close>

lemma drain_frames: "list_all frame_ok fs \<Longrightarrow> pkt_drain (pkt_iter_new (concat (map frame_bytes fs))) = map Inr fs"
  by (induction fs) (simp_all add: pkt_drain_Nil pkt_drain_step [OF pkt_read_frame])

section \<open>Properties of the v2 commands\<close>

text \<open>C32: \<open>parse_v2_fetch\<close> accepts exactly the fetch commands. It answers \<open>Some req\<close> iff the body frames
  as the line \<open>command=fetch\<close>, known capabilities, a delimiter, argument lines in UTF-8 and a
  flush, with 40 hexadecimal digits after every \<open>want\<close> and \<open>have\<close>; and then \<open>req\<close> lists the wants
  and the haves in order, has \<open>done\<close> and \<open>no-progress\<close> iff such a line is there, and is marked
  unsupported iff some line is not one the server implements. Bytes after the flush are not read.\<close>

theorem parse_v2_fetch_exact:
  "parse_v2_fetch body = Some req \<longleftrightarrow>
     (\<exists>caps ds ls rest.
        command_frames ''command=fetch'' caps (Inr Delim # data_frames ds @ Inr Flush # rest) (pkt_drain (pkt_iter_new body))
        \<and> map line_text ds = map Some ls \<and> list_all oid_line_ok ls \<and> req = fetch_summary ls)"
proof -
  have "parse_v2_fetch body = Some req \<longleftrightarrow>
      (\<exists>it it'. expect_command ''command=fetch'' body = Some it \<and> read_caps it = CapsDelim it'
        \<and> arg_loop fetch_line it' (fetch_summary []) = Some req)"
    by (auto simp: parse_v2_fetch_def fetch_default_summary split: option.splits caps_end.splits)
  then show ?thesis
    unfolding after_delim fold_lines_summary [of fetch_line fetch_summary oid_line_ok, OF fetch_line_snoc] append_Nil
    by blast
qed

definition hex_a :: string where
  "hex_a = replicate 40 CHR ''a''"

lemma hex_a_ok: "is_hex40 hex_a" "ascii hex_a" "hex_a \<noteq> []" "last hex_a \<noteq> newline"
  by (simp_all add: is_hex40_def is_hex40_bytes_def hex_a_def as_bytes_def list_all_iff is_hex_byte_def
      word_le_nat_alt ascii_def)

lemma line_text_newline: "ascii s \<Longrightarrow> s = [] \<or> last s \<noteq> newline \<Longrightarrow> line_text (as_bytes (s @ [newline])) = Some s"
  by (simp add: line_text_def trim_end_char_id del: as_bytes_simps)

definition sample_fetch :: "u8 list" where
  "sample_fetch = concat (map frame_bytes
     [Data (as_bytes (''command=fetch'' @ [newline])), Data (as_bytes (''agent=git/2'' @ [newline])), Delim,
      Data (as_bytes ((''want '' @ hex_a) @ [newline])), Data (as_bytes (''done'' @ [newline])), Flush])"

theorem parse_v2_fetch_exact_witness:
  "parse_v2_fetch sample_fetch = Some (fetch_summary [''want '' @ hex_a, ''done''])
     \<and> fetch_is_simple (fetch_summary [''want '' @ hex_a, ''done''])"
proof
  let ?ls = "[''want '' @ hex_a, ''done'']"
  let ?ds = "[as_bytes ((''want '' @ hex_a) @ [newline]), as_bytes (''done'' @ [newline])]"
  have "list_all frame_ok [Data (as_bytes (''command=fetch'' @ [newline])), Data (as_bytes (''agent=git/2'' @ [newline])), Delim,
      Data (as_bytes ((''want '' @ hex_a) @ [newline])), Data (as_bytes (''done'' @ [newline])), Flush]"
    by (simp add: PKT_LINE_MAX_PAYLOAD_def hex_a_def)
  then have drain: "pkt_drain (pkt_iter_new sample_fetch) = Inr (Data (as_bytes (''command=fetch'' @ [newline])))
      # data_frames [as_bytes (''agent=git/2'' @ [newline])] @ Inr Delim # data_frames ?ds @ Inr Flush # []"
    unfolding sample_fetch_def by (subst drain_frames) (simp_all del: as_bytes_simps)
  have "line_text (as_bytes (''command=fetch'' @ [newline])) = Some ''command=fetch''"
    "line_text (as_bytes (''agent=git/2'' @ [newline])) = Some ''agent=git/2''"
    by (rule line_text_newline; simp)+
  then have cmd: "command_frames ''command=fetch'' [as_bytes (''agent=git/2'' @ [newline])]
      (Inr Delim # data_frames ?ds @ Inr Flush # []) (pkt_drain (pkt_iter_new sample_fetch))"
    unfolding command_frames_def drain
    by (auto simp del: as_bytes_simps simp add: cap_line_simps is_known_capability_def starts_with_def)
  have "line_text (as_bytes ((''want '' @ hex_a) @ [newline])) = Some (''want '' @ hex_a)"
    "line_text (as_bytes (''done'' @ [newline])) = Some ''done''"
    by (rule line_text_newline; simp add: hex_a_ok)+
  then have texts: "map line_text ?ds = map Some ?ls" by (simp del: as_bytes_simps)
  have ok: "list_all oid_line_ok ?ls" by (simp add: oid_line_ok_def hex_a_ok)
  show "parse_v2_fetch sample_fetch = Some (fetch_summary ?ls)"
    unfolding parse_v2_fetch_exact using cmd texts ok by blast
  show "fetch_is_simple (fetch_summary ?ls)"
    by (simp add: fetch_is_simple_def fetch_summary_def fetch_line_known_def starts_with_def)
qed

text \<open>\<open>parse_ls_refs_only\<close> accepts exactly the ls-refs commands with known argument lines, and its
  result holds the two flags and the prefixes of those lines in order; a body without an argument
  section asks for nothing. Bytes after the flush are not read.\<close>

theorem parse_ls_refs_exact:
  "parse_ls_refs_only body = Some args \<longleftrightarrow>
     (\<exists>caps rest. command_frames ''command=ls-refs'' caps (Inr Flush # rest) (pkt_drain (pkt_iter_new body)) \<and> args = ls_summary [])
     \<or> (\<exists>caps ds ls rest.
          command_frames ''command=ls-refs'' caps (Inr Delim # data_frames ds @ Inr Flush # rest) (pkt_drain (pkt_iter_new body))
          \<and> map line_text ds = map Some ls \<and> list_all ls_line_known ls \<and> args = ls_summary ls)"
proof -
  have "parse_ls_refs_only body = Some args \<longleftrightarrow>
      (\<exists>it. expect_command ''command=ls-refs'' body = Some it \<and> read_caps it = CapsFlush) \<and> args = ls_summary []
      \<or> (\<exists>it it'. expect_command ''command=ls-refs'' body = Some it \<and> read_caps it = CapsDelim it'
          \<and> arg_loop ls_refs_line it' (ls_summary []) = Some args)"
    by (auto simp: parse_ls_refs_only_def no_ls_args_summary split: option.splits caps_end.splits)
  then show ?thesis
    unfolding after_delim at_flush fold_lines_summary [of ls_refs_line ls_summary ls_line_known, OF ls_line_snoc] append_Nil
    by blast
qed

section \<open>The push body\<close>

text \<open>The frames read off a buffer, and what they leave.\<close>

fun pkt_reads :: "u8 list \<Rightarrow> pkt_line list \<Rightarrow> u8 list \<Rightarrow> bool" where
  "pkt_reads buf [] rest = (buf = rest)"
| "pkt_reads buf (f # fs) rest = (case pkt_read buf of Inl _ \<Rightarrow> False | Inr (l, tail) \<Rightarrow> l = f \<and> pkt_reads tail fs rest)"

text \<open>A command line: the update before the NUL, the capabilities after it.\<close>

definition line_update :: "string \<Rightarrow> ref_update \<Rightarrow> bool" where
  "line_update l u =
     (takeWhile (\<lambda>c. c \<noteq> CHR 0x00) l = ru_old u @ '' '' @ ru_new u @ '' '' @ ru_name u
      \<and> is_hex40 (ru_old u) \<and> is_hex40 (ru_new u))"

definition line_caps :: "string \<Rightarrow> string list option" where
  "line_caps l = (case dropWhile (\<lambda>c. c \<noteq> CHR 0x00) l of [] \<Rightarrow> None | _ # cs \<Rightarrow> Some (split_char CHR '' '' cs))"

definition push_cap_known :: "string \<Rightarrow> bool" where
  "push_cap_known c =
     (c \<in> {[], ''report-status'', ''report-status-v2'', ''side-band-64k'', ''ofs-delta'', ''delete-refs'', ''no-thin'', ''quiet''}
      \<or> starts_with ''agent='' c \<or> starts_with ''session-id='' c \<or> starts_with ''object-format='' c)"

definition push_flags :: "string list option \<Rightarrow> receive_pack_request \<Rightarrow> bool" where
  "push_flags caps req =
     (case caps of
        None \<Rightarrow> rp_unsupported req \<and> \<not> rp_report_status req \<and> \<not> rp_sideband_64k req
      | Some cs \<Rightarrow>
          rp_report_status req = (''report-status'' \<in> set cs \<or> ''report-status-v2'' \<in> set cs)
          \<and> rp_sideband_64k req = (''side-band-64k'' \<in> set cs)
          \<and> rp_unsupported req = (\<not> list_all push_cap_known cs))"

lemma split_once_nul:
  "(case split_once (CHR 0x00) s of Some (h, c) \<Rightarrow> (h, Some c) | None \<Rightarrow> (s, None))
     = (takeWhile (\<lambda>c. c \<noteq> CHR 0x00) s, case dropWhile (\<lambda>c. c \<noteq> CHR 0x00) s of [] \<Rightarrow> None | _ # cs \<Rightarrow> Some cs)"
  by (induction s) (auto split: option.splits prod.splits list.splits)

lemma is_hex40_no_space: "is_hex40 s \<Longrightarrow> CHR '' '' \<notin> set s"
  using oid_is_valid_iff [of s] unfolding oid_is_valid_def is_hex40_def
  by (auto simp: list_all_iff is_hexdigit_def hex_val_def Let_def)

lemma splitn_3_length:
  "length (splitn 3 d h) = 3 \<longleftrightarrow> (\<exists>a b c. h = a @ d # b @ d # c \<and> d \<notin> set a \<and> d \<notin> set b)"
proof
  assume len: "length (splitn 3 d h) = 3"
  then obtain a r where a: "split_once d h = Some (a, r)"
    by (cases "split_once d h") (auto simp: splitn_3)
  with len obtain b c where b: "split_once d r = Some (b, c)"
    by (cases "split_once d r") (auto simp: splitn_3)
  from a b show "\<exists>a b c. h = a @ d # b @ d # c \<and> d \<notin> set a \<and> d \<notin> set b"
    unfolding split_once_Some_iff by blast
next
  assume "\<exists>a b c. h = a @ d # b @ d # c \<and> d \<notin> set a \<and> d \<notin> set b"
  then show "length (splitn 3 d h) = 3" by (auto simp: splitn_3)
qed

lemma hex_parts:
  "(length (splitn 3 CHR '' '' h) = 3 \<and> is_hex40 (splitn 3 CHR '' '' h ! 0) \<and> is_hex40 (splitn 3 CHR '' '' h ! 1)
      \<and> u = \<lparr>ru_old = splitn 3 CHR '' '' h ! 0, ru_new = splitn 3 CHR '' '' h ! 1, ru_name = splitn 3 CHR '' '' h ! 2\<rparr>)
   \<longleftrightarrow> (h = ru_old u @ '' '' @ ru_new u @ '' '' @ ru_name u \<and> is_hex40 (ru_old u) \<and> is_hex40 (ru_new u))"
  (is "?L \<longleftrightarrow> ?R")
proof
  assume ?L
  moreover from this obtain a b c where "h = a @ CHR '' '' # b @ CHR '' '' # c" "CHR '' '' \<notin> set a" "CHR '' '' \<notin> set b"
    unfolding splitn_3_length by blast
  ultimately show ?R by (simp add: splitn_3)
next
  assume r: ?R
  then have "CHR '' '' \<notin> set (ru_old u)" "CHR '' '' \<notin> set (ru_new u)" by (auto dest: is_hex40_no_space)
  then have "splitn 3 CHR '' '' h = [ru_old u, ru_new u, ru_name u]" using r by (simp add: splitn_3)
  with r show ?L by simp
qed

definition push_caps :: "string list option \<Rightarrow> receive_pack_request \<Rightarrow> receive_pack_request" where
  "push_caps caps req = (case caps of None \<Rightarrow> req\<lparr>rp_unsupported := True\<rparr> | Some cs \<Rightarrow> fold push_cap cs req)"

lemma line_caps_split:
  "line_caps s = map_option (split_char CHR '' '')
     (case dropWhile (\<lambda>c. c \<noteq> CHR 0x00) s of [] \<Rightarrow> None | _ # cs \<Rightarrow> Some cs)"
  unfolding line_caps_def by (cases "dropWhile (\<lambda>c. c \<noteq> CHR 0x00) s") (simp_all only: list.case option.map)

lemma guarded_some:
  "(if l \<noteq> (3::nat) then None else if \<not> a \<or> \<not> b then None
        else if first then (case cs of Some x \<Rightarrow> Some (g x) | None \<Rightarrow> Some n) else Some y) = Some z
      \<longleftrightarrow> l = 3 \<and> a \<and> b \<and> z = (if first then (case map_option f cs of None \<Rightarrow> n | Some x \<Rightarrow> h x) else y)"
  if "\<And>x. g x = h (f x)"
  using that by (cases cs) auto

lemma push_line_iff:
  "push_line first s req = Some req' \<longleftrightarrow>
     (\<exists>u. line_update s u \<and> req' = (let r = req\<lparr>rp_updates := rp_updates req @ [u]\<rparr>
        in if first then push_caps (line_caps s) r else r))"
proof -
  let ?h = "takeWhile (\<lambda>c. c \<noteq> CHR 0x00) s"
  let ?u = "\<lparr>ru_old = splitn 3 CHR '' '' ?h ! 0, ru_new = splitn 3 CHR '' '' ?h ! 1, ru_name = splitn 3 CHR '' '' ?h ! 2\<rparr>"
  let ?r = "req\<lparr>rp_updates := rp_updates req @ [?u]\<rparr>"
  have "push_line first s req = Some req' \<longleftrightarrow>
      length (splitn 3 CHR '' '' ?h) = 3 \<and> is_hex40 (splitn 3 CHR '' '' ?h ! 0) \<and> is_hex40 (splitn 3 CHR '' '' ?h ! 1)
      \<and> req' = (if first then push_caps (line_caps s) ?r else ?r)"
    unfolding push_line_def split_once_nul Let_def prod.case push_caps_def line_caps_split
    by (rule guarded_some) (rule refl)
  then show ?thesis
    unfolding line_update_def hex_parts [symmetric] Let_def by blast
qed

lemma push_cap_step:
  "push_cap c req = req\<lparr>
     rp_report_status := rp_report_status req \<or> c = ''report-status'' \<or> c = ''report-status-v2'',
     rp_sideband_64k := rp_sideband_64k req \<or> c = ''side-band-64k'',
     rp_unsupported := rp_unsupported req \<or> \<not> push_cap_known c\<rparr>"
proof (cases "c \<in> {[], ''report-status'', ''report-status-v2'', ''side-band-64k'', ''ofs-delta'', ''delete-refs'', ''no-thin'',
    ''quiet'', ''atomic'', ''push-options'', ''push-cert''}")
  case True
  then show ?thesis
    by (elim insertE emptyE) (simp_all add: push_cap_def push_cap_known_def starts_with_def)
next
  case False
  then have ne: "c \<noteq> []" "c \<noteq> ''report-status''" "c \<noteq> ''report-status-v2''" "c \<noteq> ''side-band-64k''"
    "c \<notin> {''ofs-delta'', ''delete-refs'', ''no-thin'', ''quiet''}" "c \<notin> {''atomic'', ''push-options'', ''push-cert''}"
    by simp_all
  then have "push_cap_known c \<longleftrightarrow> starts_with ''agent='' c \<or> starts_with ''session-id='' c \<or> starts_with ''object-format='' c"
    by (simp add: push_cap_known_def)
  with ne show ?thesis by (simp only: push_cap_def) simp
qed

lemma push_cap_fold:
  "fold push_cap cs req = req\<lparr>
     rp_report_status := rp_report_status req \<or> ''report-status'' \<in> set cs \<or> ''report-status-v2'' \<in> set cs,
     rp_sideband_64k := rp_sideband_64k req \<or> ''side-band-64k'' \<in> set cs,
     rp_unsupported := rp_unsupported req \<or> \<not> list_all push_cap_known cs\<rparr>"
proof (induction cs arbitrary: req)
  case (Cons c cs)
  show ?case
    unfolding fold.simps comp_apply Cons.IH unfolding push_cap_step [of c req]
    by (cases req) (auto simp: eq_commute [of _ c])
qed simp

lemma pkt_reads_data:
  assumes "pkt_read buf = Inr (line, tail)"
  shows "pkt_reads buf (map Data ds @ [Flush]) rest \<longleftrightarrow>
    (case ds of [] \<Rightarrow> line = Flush \<and> tail = rest | d # ds' \<Rightarrow> line = Data d \<and> pkt_reads tail (map Data ds' @ [Flush]) rest)"
  using assms by (cases ds) simp_all

lemma push_loop_step:
  "push_loop first buf req = Some req' \<longleftrightarrow>
     (\<exists>rest. pkt_read buf = Inr (Flush, rest) \<and> req' = req\<lparr>rp_pack := rest\<rparr>)
     \<or> (\<exists>d rest s req1. pkt_read buf = Inr (Data d, rest) \<and> line_text d = Some s \<and> push_line first s req = Some req1
          \<and> push_loop False rest req1 = Some req')"
  by (subst push_loop.simps) (auto split: sum.splits pkt_line.splits option.splits prod.splits)

definition push_tail :: "u8 list \<Rightarrow> receive_pack_request \<Rightarrow> receive_pack_request \<Rightarrow> u8 list list \<Rightarrow> string list \<Rightarrow> ref_update list \<Rightarrow> bool" where
  "push_tail buf req req' ds ls us =
     (pkt_reads buf (map Data ds @ [Flush]) (rp_pack req') \<and> map line_text ds = map Some ls
        \<and> list_all2 line_update ls us
        \<and> req' = req\<lparr>rp_updates := rp_updates req @ us, rp_pack := rp_pack req'\<rparr>)"

lemma push_tail_Nil:
  "push_tail buf req req' [] ls us \<longleftrightarrow> (\<exists>rest. pkt_read buf = Inr (Flush, rest) \<and> req' = req\<lparr>rp_pack := rest\<rparr>) \<and> ls = [] \<and> us = []"
  unfolding push_tail_def by (cases "pkt_read buf"; cases req; cases req') auto

lemma push_tail_Cons:
  "push_tail buf req req' (d # ds) ls us \<longleftrightarrow>
     (\<exists>rest s u ls' us'. pkt_read buf = Inr (Data d, rest) \<and> line_text d = Some s \<and> line_update s u
        \<and> ls = s # ls' \<and> us = u # us' \<and> push_tail rest (req\<lparr>rp_updates := rp_updates req @ [u]\<rparr>) req' ds ls' us')"
proof (cases "pkt_read buf")
    case (Inr p)
    obtain line rest where p: "p = (line, rest)" by (cases p)
    show ?thesis
      unfolding push_tail_def by (cases ls; cases us) (auto simp: Inr p)
qed (simp add: push_tail_def)

lemma push_loop_rest: "push_loop False buf req = Some req' \<longleftrightarrow> (\<exists>ds ls us. push_tail buf req req' ds ls us)"
proof
  show "\<exists>ds ls us. push_tail buf req req' ds ls us" if "push_loop False buf req = Some req'"
    using that
  proof (induction "length buf" arbitrary: buf req rule: less_induct)
    case less
    from less(2) consider rest where "pkt_read buf = Inr (Flush, rest)" "req' = req\<lparr>rp_pack := rest\<rparr>"
      | d rest s req1 where "pkt_read buf = Inr (Data d, rest)" "line_text d = Some s"
          "push_line False s req = Some req1" "push_loop False rest req1 = Some req'"
      using push_loop_step by blast
    then show ?case
    proof cases
      case 1
      then have "push_tail buf req req' [] [] []" unfolding push_tail_Nil by blast
      then show ?thesis by blast
    next
      case 2
      have "length rest < length buf" using pkt_read_shorter [OF 2(1)] by simp
      from less(1) [OF this 2(4)] obtain ds ls us where P: "push_tail rest req1 req' ds ls us" by blast
      obtain u where u: "line_update s u" "req1 = req\<lparr>rp_updates := rp_updates req @ [u]\<rparr>"
        using 2(3) unfolding push_line_iff Let_def if_False by blast
      have "push_tail buf req req' (d # ds) (s # ls) (u # us)"
        unfolding push_tail_Cons using P 2(1,2) u(1) unfolding u(2) by blast
      then show ?thesis by blast
    qed
  qed
next
  assume "\<exists>ds ls us. push_tail buf req req' ds ls us"
  then obtain ds ls us where "push_tail buf req req' ds ls us" by blast
  then show "push_loop False buf req = Some req'"
  proof (induction ds arbitrary: buf req ls us)
    case Nil
    then show ?case unfolding push_tail_Nil by (subst push_loop_step) blast
  next
    case (Cons d ds)
    then obtain rest s u ls' us' where r: "pkt_read buf = Inr (Data d, rest)" "line_text d = Some s" "line_update s u"
        and P: "push_tail rest (req\<lparr>rp_updates := rp_updates req @ [u]\<rparr>) req' ds ls' us'"
      unfolding push_tail_Cons by blast
    have "push_line False s req = Some (req\<lparr>rp_updates := rp_updates req @ [u]\<rparr>)"
      unfolding push_line_iff Let_def if_False using r(3) by blast
    with r Cons.IH [OF P] show ?case by (subst push_loop_step) blast
  qed
qed

definition push_spec :: "u8 list list \<Rightarrow> string list \<Rightarrow> receive_pack_request \<Rightarrow> u8 list \<Rightarrow> bool" where
  "push_spec ds ls req body =
     (pkt_reads body (map Data ds @ [Flush]) (rp_pack req) \<and> map line_text ds = map Some ls
        \<and> list_all2 line_update ls (rp_updates req)
        \<and> (case ls of
             [] \<Rightarrow> \<not> rp_report_status req \<and> \<not> rp_sideband_64k req \<and> \<not> rp_unsupported req
           | l # _ \<Rightarrow> push_flags (line_caps l) req))"

lemma push_caps_flags:
  assumes "\<not> rp_report_status r" "\<not> rp_sideband_64k r" "\<not> rp_unsupported r"
  shows "req = push_caps caps r\<lparr>rp_updates := us, rp_pack := p\<rparr>
    \<longleftrightarrow> rp_updates req = us \<and> rp_pack req = p \<and> push_flags caps req"
  using assms unfolding push_caps_def push_flags_def
  by (cases r; cases req; cases caps) (auto simp: push_cap_fold)

text \<open>C31: The body of a push is read exactly. \<open>parse_receive_pack_body\<close> answers \<open>Some req\<close> iff the body
  starts with command lines closed by a flush, each of them two 40-digit object ids and a name;
  \<open>req\<close> then lists those updates in order, its flags are what the capabilities of the first line
  say (none at all counts as unsupported), and its pack is all that follows the flush.\<close>

theorem parse_receive_pack_exact:
  "parse_receive_pack_body body = Some req \<longleftrightarrow> (\<exists>ds ls. push_spec ds ls req body)"
proof -
  let ?r0 = "\<lparr>rp_updates = [], rp_report_status = False, rp_sideband_64k = False, rp_unsupported = False, rp_pack = []\<rparr>"
  have step: "parse_receive_pack_body body = Some req \<longleftrightarrow>
     (\<exists>rest. pkt_read body = Inr (Flush, rest) \<and> req = ?r0\<lparr>rp_pack := rest\<rparr>)
     \<or> (\<exists>d rest s u ds ls us. pkt_read body = Inr (Data d, rest) \<and> line_text d = Some s \<and> line_update s u
          \<and> push_tail rest (push_caps (line_caps s) (?r0\<lparr>rp_updates := [u]\<rparr>)) req ds ls us)" (is "_ \<longleftrightarrow> ?A \<or> ?B")
    unfolding parse_receive_pack_body_def
    unfolding push_loop_step [of True] push_line_iff push_loop_rest Let_def if_True
    by (simp only: receive_pack_request.simps append_Nil) blast
  have A: "?A \<longleftrightarrow> push_spec [] [] req body"
    unfolding push_spec_def by (cases "pkt_read body"; cases req) auto
  have upd: "rp_updates (push_caps caps (?r0\<lparr>rp_updates := [u]\<rparr>)) = [u]" for caps u
    by (simp add: push_caps_def push_cap_fold split: option.split)
  have tail: "push_tail rest (push_caps (line_caps s) (?r0\<lparr>rp_updates := [u]\<rparr>)) req ds ls us \<longleftrightarrow>
     pkt_reads rest (map Data ds @ [Flush]) (rp_pack req) \<and> map line_text ds = map Some ls \<and> list_all2 line_update ls us
       \<and> rp_updates req = u # us \<and> push_flags (line_caps s) req" for rest s u ds ls us
    unfolding push_tail_def upd using push_caps_flags [where r = "?r0\<lparr>rp_updates := [u]\<rparr>" and req = req and caps = "line_caps s" and us = "[u] @ us" and p = "rp_pack req"]
    by simp
  have B: "?B \<longleftrightarrow> (\<exists>d ds l ls. push_spec (d # ds) (l # ls) req body)"
    unfolding tail push_spec_def by (cases "pkt_read body"; auto simp: list_all2_Cons1; blast)
  have "push_spec ds ls req body \<Longrightarrow> (ds = [] \<longleftrightarrow> ls = [])" for ds ls
    unfolding push_spec_def by (auto dest: arg_cong [of _ _ length])
  then have "(\<exists>ds ls. push_spec ds ls req body) \<longleftrightarrow> push_spec [] [] req body \<or> (\<exists>d ds l ls. push_spec (d # ds) (l # ls) req body)"
    by (metis list.exhaust)
  with step A B show ?thesis by blast
qed

definition sample_push_line :: string where
  "sample_push_line = hex_a @ '' '' @ hex_a @ '' refs/heads/main'' @ [CHR 0x00] @ ''report-status agent=git/2''"

definition sample_push :: "u8 list" where
  "sample_push = concat (map frame_bytes [Data (as_bytes (sample_push_line @ [newline])), Flush]) @ as_bytes ''PACK''"

definition sample_push_request :: receive_pack_request where
  "sample_push_request = \<lparr>rp_updates = [\<lparr>ru_old = hex_a, ru_new = hex_a, ru_name = ''refs/heads/main''\<rparr>],
     rp_report_status = True, rp_sideband_64k = False, rp_unsupported = False, rp_pack = as_bytes ''PACK''\<rparr>"

lemma hex_a_chars: "c \<in> set hex_a \<Longrightarrow> c = CHR ''a''"
  by (simp add: hex_a_def)

theorem parse_receive_pack_exact_witness:
  "parse_receive_pack_body sample_push = Some sample_push_request \<and> push_is_simple sample_push_request"
proof
  let ?d = "as_bytes (sample_push_line @ [newline])"
  have ok: "frame_ok (Data ?d)"
    by (simp add: sample_push_line_def hex_a_def PKT_LINE_MAX_PAYLOAD_def)
  have reads: "pkt_reads sample_push (map Data [?d] @ [Flush]) (rp_pack sample_push_request)"
    unfolding sample_push_def sample_push_request_def
    using pkt_read_frame [OF ok] pkt_read_frame [of Flush]
    by (simp del: as_bytes_simps frame_bytes.simps)
  have asc: "ascii sample_push_line"
    by (simp add: sample_push_line_def hex_a_ok)
  have txt1: "line_text ?d = Some sample_push_line"
    using asc by (intro line_text_newline) (simp_all add: sample_push_line_def)
  have tw: "takeWhile (\<lambda>c. c \<noteq> CHR 0x00) (hex_a @ s) = hex_a @ takeWhile (\<lambda>c. c \<noteq> CHR 0x00) s"
    "dropWhile (\<lambda>c. c \<noteq> CHR 0x00) (hex_a @ s) = dropWhile (\<lambda>c. c \<noteq> CHR 0x00) s" for s
    by (rule takeWhile_append2 dropWhile_append2; use hex_a_chars in fastforce)+
  have "line_update sample_push_line \<lparr>ru_old = hex_a, ru_new = hex_a, ru_name = ''refs/heads/main''\<rparr>"
    by (simp add: line_update_def sample_push_line_def tw hex_a_ok)
  moreover have "line_caps sample_push_line = Some [''report-status'', ''agent=git/2'']"
    by (simp add: line_caps_def sample_push_line_def tw)
  ultimately have "push_spec [?d] [sample_push_line] sample_push_request sample_push"
    using reads txt1 by (simp add: push_spec_def push_flags_def push_cap_known_def sample_push_request_def starts_with_def
        del: as_bytes_simps pkt_reads.simps)
  then show "parse_receive_pack_body sample_push = Some sample_push_request"
    unfolding parse_receive_pack_exact by blast
  show "push_is_simple sample_push_request" by (simp add: push_is_simple_def sample_push_request_def)
qed

end
