(* ===== verification/GitCmd.thy ===== *)
theory GitCmd
  imports Errors
begin

text \<open>
  The commands of \<open>src/git_cmd.rs\<close>: which arguments, environment and pipes the server gives to the
  \<open>git\<close> program. The program itself is a parameter of the theories that run it: \<open>'g git\<close> takes a
  command, its standard input and the state of the world to an exit code with the two output
  streams, or to the error of a process that cannot be run.
\<close>

section \<open>Commands\<close>

record command =
  cmd_args :: "string list"
  cmd_env :: "(string \<times> string) list"

type_synonym proc_output = "int \<times> u8 list \<times> u8 list"

type_synonym 'g git = "command \<Rightarrow> u8 list option \<Rightarrow> 'g \<Rightarrow> (error + proc_output) \<times> 'g"

definition git_cmd :: "string list \<Rightarrow> command" where
  "git_cmd args = \<lparr>cmd_args = args, cmd_env = []\<rparr>"

definition run_git ::
  "'g git \<Rightarrow> string \<Rightarrow> string list \<Rightarrow> (string \<times> string) list \<Rightarrow> u8 list option \<Rightarrow> 'g \<Rightarrow> (error + proc_output) \<times> 'g" where
  "run_git git git_dir args env stdin g =
     git \<lparr>cmd_args = [''--git-dir'', git_dir] @ args, cmd_env = env\<rparr> stdin g"

definition git_protocol_env :: "string option \<Rightarrow> (string \<times> string) list" where
  "git_protocol_env git_protocol = (case git_protocol of None \<Rightarrow> [] | Some gp \<Rightarrow> [(''GIT_PROTOCOL'', gp)])"

definition pack_handler_advertise :: "string \<Rightarrow> string \<Rightarrow> string option \<Rightarrow> command" where
  "pack_handler_advertise git_dir service git_protocol =
     \<lparr>cmd_args = [service, ''--stateless-rpc'', ''--advertise-refs'', git_dir],
      cmd_env = git_protocol_env git_protocol\<rparr>"

definition pack_handler_serve :: "string \<Rightarrow> string \<Rightarrow> string option \<Rightarrow> command" where
  "pack_handler_serve git_dir service git_protocol =
     \<lparr>cmd_args = [service, ''--stateless-rpc'', git_dir], cmd_env = git_protocol_env git_protocol\<rparr>"

definition pack_objects_revs :: "string \<Rightarrow> command" where
  "pack_objects_revs git_dir =
     git_cmd [''--git-dir'', git_dir, ''pack-objects'', ''--stdout'', ''--revs'', ''--thin'', ''--delta-base-offset'']"

definition unpack_objects :: "string \<Rightarrow> command" where
  "unpack_objects git_dir =
     git_cmd [''--git-dir'', git_dir, ''-c'', ''core.fsync=loose-object'', ''-c'', ''core.fsyncMethod=fsync'',
       ''unpack-objects'', ''-q'']"

definition rev_list_objects_all :: "string \<Rightarrow> command" where
  "rev_list_objects_all git_dir = git_cmd [''--git-dir'', git_dir, ''rev-list'', ''--objects'', ''--all'']"

definition rev_list_check_connected ::
  "'g git \<Rightarrow> string \<Rightarrow> string list \<Rightarrow> 'g \<Rightarrow> (error + int \<times> u8 list) \<times> 'g" where
  "rev_list_check_connected git git_dir tips g =
     (case git (git_cmd ([''--git-dir'', git_dir, ''rev-list'', ''--objects''] @ tips @ [''--not'', ''--all''])) None g of
        (Inl e, g') \<Rightarrow> (Inl e, g')
      | (Inr (rc, _, stderr), g') \<Rightarrow> (Inr (rc, stderr), g'))"

section \<open>Decoding the output streams\<close>

text \<open>\<open>String::from_utf8_lossy\<close>: every maximal ill-formed prefix becomes U+FFFD. \<open>utf8_need\<close> is the number
  of continuation bytes a lead byte asks for, \<open>utf8_second\<close> the range of the first of them, and
  \<open>utf8_got\<close> counts the continuation bytes that are there.\<close>

definition utf8_need :: "u8 \<Rightarrow> nat" where
  "utf8_need b =
     (if 0xC2 \<le> b \<and> b \<le> 0xDF then 1 else if 0xE0 \<le> b \<and> b \<le> 0xEF then 2
      else if 0xF0 \<le> b \<and> b \<le> 0xF4 then 3 else 0)"

definition utf8_second :: "u8 \<Rightarrow> u8 \<Rightarrow> bool" where
  "utf8_second b c =
     (if b = 0xE0 then 0xA0 \<le> c \<and> c \<le> 0xBF else if b = 0xED then 0x80 \<le> c \<and> c \<le> 0x9F
      else if b = 0xF0 then 0x90 \<le> c \<and> c \<le> 0xBF else if b = 0xF4 then 0x80 \<le> c \<and> c \<le> 0x8F
      else utf8_cont c)"

definition utf8_got :: "u8 \<Rightarrow> u8 list \<Rightarrow> nat" where
  "utf8_got b bs =
     (case take (utf8_need b) bs of
        [] \<Rightarrow> 0
      | c # cs \<Rightarrow> if utf8_second b c then Suc (length (takeWhile utf8_cont cs)) else 0)"

function lossy_bytes :: "u8 list \<Rightarrow> u8 list" where
  "lossy_bytes [] = []"
| "lossy_bytes (b # bs) =
     (if b < 0x80 then b # lossy_bytes bs
      else let k = utf8_got b bs in
        (if utf8_need b > 0 \<and> k = utf8_need b then b # take k bs else [0xEF, 0xBF, 0xBD]) @ lossy_bytes (drop k bs))"
  by pat_completeness auto
termination by (relation "measure length") auto

definition from_utf8_lossy :: "u8 list \<Rightarrow> string" where
  "from_utf8_lossy bs = str_of_bytes (lossy_bytes bs)"

end
