(* ===== verification/V2Response.thy ===== *)
theory V2Response
  imports WireProto GitCmd Refs
begin

text \<open>
  The response builders of \<open>src/git_wire/v2.rs\<close>: the framed pack of a \<open>fetch\<close> with its fallback to
  \<open>git pack-objects\<close>, and the rows of \<open>ls-refs\<close>. The native pack generator (gix) and the ref store are
  parameters; a response is its content type and its body, the status being 200.
\<close>

section \<open>Definitions\<close>

record wire_response =
  wr_type :: string
  wr_body :: "u8 list"

text \<open>\<open>slice::chunks\<close>.\<close>

function chunks :: "nat \<Rightarrow> 'a list \<Rightarrow> 'a list list" where
  "chunks n xs = (if xs = [] \<or> n = 0 then [] else take n xs # chunks n (drop n xs))"
  by pat_completeness auto
termination by (relation "measure (\<lambda>(n, xs). length xs)") auto

declare chunks.simps [simp del]

definition CHUNK :: nat where
  "CHUNK = PKT_LINE_MAX_PAYLOAD - 1"

text \<open>The band-1 loop of the fetch response, which the push report of \<open>smart_http.rs\<close> repeats.\<close>

definition write_band_data :: "u8 list \<Rightarrow> u8 list \<Rightarrow> u8 list" where
  "write_band_data out bytes = fold (\<lambda>chunk out. write_data out (1 # chunk)) (chunks CHUNK bytes) out"

definition pack_objects_input :: "string list \<Rightarrow> string list \<Rightarrow> string" where
  "pack_objects_input wants haves =
     concat (map (\<lambda>w. w @ [newline]) wants) @ concat (map (\<lambda>h. ''^'' @ h @ [newline]) haves)"

definition generate_pack_via_pack_objects ::
  "'g git \<Rightarrow> string \<Rightarrow> string list \<Rightarrow> string list \<Rightarrow> 'g \<Rightarrow> (error + u8 list) \<times> 'g" where
  "generate_pack_via_pack_objects git repo_path wants haves g =
     (case git (pack_objects_revs repo_path) (Some (as_bytes (pack_objects_input wants haves))) g of
        (Inl e, g') \<Rightarrow> (Inl e, g')
      | (Inr (rc, pack, err), g') \<Rightarrow>
          if rc \<noteq> 0 then (Inl (Other (''pack-objects failed: '' @ trim (from_utf8_lossy err))), g')
          else (Inr pack, g'))"

definition native_v2_fetch_response ::
  "(string \<Rightarrow> string list \<Rightarrow> string list \<Rightarrow> error + u8 list) \<Rightarrow> 'g git \<Rightarrow> string \<Rightarrow> v2_fetch_request \<Rightarrow> 'g
     \<Rightarrow> (error + wire_response) \<times> 'g" where
  "native_v2_fetch_response generate_pack git repo_path req g =
     (case (case generate_pack repo_path (fr_wants req) (fr_haves req) of
              Inr p \<Rightarrow> (Inr p, g)
            | Inl _ \<Rightarrow> generate_pack_via_pack_objects git repo_path (fr_wants req) (fr_haves req) g) of
        (Inl e, g') \<Rightarrow> (Inl e, g')
      | (Inr pack, g') \<Rightarrow>
          let body = write_data [] (as_bytes (''packfile'' @ [newline]));
              body = write_band_data body pack;
              body = write_flush body
          in (Inr \<lparr>wr_type = ''application/x-git-upload-pack-result'', wr_body = body\<rparr>, g'))"

subsection \<open>ls-refs\<close>

record ls_refs_row =
  lr_oid :: string
  lr_name :: string
  lr_extra :: "string option"

definition head_rows :: "bool \<Rightarrow> head_state \<Rightarrow> ls_refs_row list" where
  "head_rows symrefs h =
     (case h of
        Symbolic target x \<Rightarrow>
          [\<lparr>lr_oid = oid_str x, lr_name = ''HEAD'',
            lr_extra = (if symrefs then Some ('' symref-target:'' @ ref_str target) else None)\<rparr>]
      | Detached x \<Rightarrow> [\<lparr>lr_oid = oid_str x, lr_name = ''HEAD'', lr_extra = None\<rparr>]
      | Unborn target \<Rightarrow>
          if symrefs
          then [\<lparr>lr_oid = ''unborn'', lr_name = ''HEAD'', lr_extra = Some ('' symref-target:'' @ ref_str target)\<rparr>]
          else [])"

definition ref_row :: "bool \<Rightarrow> ref_entry \<Rightarrow> ls_refs_row" where
  "ref_row peel e =
     \<lparr>lr_oid = oid_str (en_oid e), lr_name = ref_str (en_name e),
      lr_extra = (if peel then map_option (\<lambda>p. '' peeled:'' @ oid_str p) (en_peeled e) else None)\<rparr>"

definition row_line :: "ls_refs_row \<Rightarrow> string" where
  "row_line row =
     (case lr_extra row of
        Some ex \<Rightarrow> lr_oid row @ '' '' @ lr_name row @ ex @ [newline]
      | None \<Rightarrow> lr_oid row @ '' '' @ lr_name row @ [newline])"

text \<open>The rows; \<open>read_head\<close> and \<open>list\<close> are those of the ref store.\<close>

definition ls_refs_rows ::
  "(repo_id \<Rightarrow> error + head_state) \<Rightarrow> (repo_id \<Rightarrow> string list \<Rightarrow> error + ref_entry list) \<Rightarrow> string \<Rightarrow> ls_refs_args
     \<Rightarrow> error + ls_refs_row list" where
  "ls_refs_rows read_head list repo args =
     (if la_prefixes args = [] then Inr []
      else let want_head = list_ex (\<lambda>p. p = ''HEAD'') (la_prefixes args);
               other_prefixes = filter (\<lambda>p. p \<noteq> ''HEAD'') (la_prefixes args)
           in res_bind (repo_id_try_from repo) (\<lambda>r.
              res_bind (if want_head then res_bind (read_head r) (\<lambda>h. Inr (head_rows (la_symrefs args) h)) else Inr []) (\<lambda>rows.
              if other_prefixes = [] then Inr rows
              else res_bind (list r other_prefixes) (\<lambda>entries.
                Inr (rows @ map (ref_row (la_peel args)) (sort_key (\<lambda>e. ref_str (en_name e)) entries))))))"

definition native_ls_refs_response ::
  "(repo_id \<Rightarrow> error + head_state) \<Rightarrow> (repo_id \<Rightarrow> string list \<Rightarrow> error + ref_entry list) \<Rightarrow> string \<Rightarrow> ls_refs_args
     \<Rightarrow> error + wire_response" where
  "native_ls_refs_response read_head list repo args =
     res_bind (ls_refs_rows read_head list repo args) (\<lambda>rows.
       let body = fold (\<lambda>row body. write_data body (as_bytes (row_line row))) rows [];
           body = write_flush body
       in Inr \<lparr>wr_type = ''application/x-git-upload-pack-result'', wr_body = body\<rparr>)"

section \<open>Chunks and bands\<close>

lemma concat_chunks: "n > 0 \<Longrightarrow> concat (chunks n xs) = xs"
  by (induction n xs rule: chunks.induct) (subst chunks.simps, simp)

lemma chunks_size: "c \<in> set (chunks n xs) \<Longrightarrow> c \<noteq> [] \<and> length c \<le> n"
proof (induction n xs rule: chunks.induct)
  case (1 n xs)
  show ?case
  proof (cases "xs = [] \<or> n = 0")
    case True
    with 1(2) show ?thesis by (simp add: chunks.simps)
  next
    case False
    with 1(2) have "c = take n xs \<or> c \<in> set (chunks n (drop n xs))" by (subst (asm) chunks.simps) simp
    with 1(1) [OF False] False show ?thesis by auto
  qed
qed

lemma write_frame:
  "write_data out p = out @ frame_bytes (Data p)" "write_flush out = out @ frame_bytes Flush"
  using write_append(1) [of out p] write_append(2) [of out] by simp_all

lemma fold_write_data:
  "fold (\<lambda>x out. write_data out (f x)) xs out = out @ concat (map frame_bytes (map (\<lambda>x. Data (f x)) xs))"
  by (induction xs arbitrary: out) (simp_all add: write_frame del: frame_bytes.simps)

lemma write_band_data_frames:
  "write_band_data out bytes = out @ concat (map frame_bytes (map (\<lambda>c. Data (1 # c)) (chunks CHUNK bytes)))"
  by (simp only: write_band_data_def fold_write_data)

lemma band_frames_ok: "list_all frame_ok (map (\<lambda>c. Data (1 # c)) (chunks CHUNK bytes))"
  using chunks_size by (fastforce simp: list_all_iff CHUNK_def PKT_LINE_MAX_PAYLOAD_def)

text \<open>The reading side: the pack data of band 1, up to the flush.\<close>

fun demux :: "(pkt_error + pkt_line) list \<Rightarrow> u8 list option" where
  "demux (Inr (Data (b # c)) # fs) = (if b = 1 then map_option ((@) c) (demux fs) else None)"
| "demux fs = (if fs = [Inr Flush] then Some [] else None)"

definition client_fetch :: "u8 list \<Rightarrow> u8 list option" where
  "client_fetch body =
     (case pkt_drain (pkt_iter_new body) of
        Inr (Data h) # fs \<Rightarrow> if h = as_bytes (''packfile'' @ [newline]) then demux fs else None
      | _ \<Rightarrow> None)"

lemma demux_bands: "demux (map (\<lambda>c. Inr (Data (1 # c))) cs @ [Inr Flush]) = Some (concat cs)"
  by (induction cs) simp_all

lemma drain_bands:
  "pkt_drain (pkt_iter_new (write_flush (write_band_data [] bytes)))
     = map (\<lambda>c. Inr (Data (1 # c))) (chunks CHUNK bytes) @ [Inr Flush]"
proof -
  have "write_flush (write_band_data [] bytes)
      = concat (map frame_bytes (map (\<lambda>c. Data (1 # c)) (chunks CHUNK bytes) @ [Flush]))"
    by (simp add: write_frame write_band_data_frames del: frame_bytes.simps)
  moreover have "list_all frame_ok (map (\<lambda>c. Data (1 # c)) (chunks CHUNK bytes) @ [Flush])"
    using band_frames_ok by simp
  ultimately show ?thesis using drain_frames [of "map (\<lambda>c. Data (1 # c)) (chunks CHUNK bytes) @ [Flush]"] by simp
qed

lemma client_fetch_body:
  "client_fetch (write_flush (write_band_data (write_data [] (as_bytes (''packfile'' @ [newline]))) pack)) = Some pack"
proof -
  let ?h = "as_bytes (''packfile'' @ [newline])"
  have e: "write_flush (write_band_data (write_data [] ?h) pack)
      = concat (map frame_bytes (Data ?h # map (\<lambda>c. Data (1 # c)) (chunks CHUNK pack) @ [Flush]))"
    by (simp add: write_frame write_band_data_frames del: as_bytes_simps frame_bytes.simps)
  have "list_all frame_ok (Data ?h # map (\<lambda>c. Data (1 # c)) (chunks CHUNK pack) @ [Flush])"
    using band_frames_ok by (simp add: PKT_LINE_MAX_PAYLOAD_def)
  from drain_frames [OF this]
  have "pkt_drain (pkt_iter_new (write_flush (write_band_data (write_data [] ?h) pack)))
      = Inr (Data ?h) # map (\<lambda>c. Inr (Data (1 # c))) (chunks CHUNK pack) @ [Inr Flush]"
    unfolding e by (simp del: as_bytes_simps)
  then show ?thesis
    by (simp only: client_fetch_def list.case sum.case pkt_line.case if_True demux_bands)
      (simp add: concat_chunks CHUNK_def PKT_LINE_MAX_PAYLOAD_def)
qed

section \<open>Properties\<close>

text \<open>C36: A fetch delivers the pack that was generated. Whenever the handler answers, a client that
  checks the \<open>packfile\<close> line and joins the band-1 data frames up to the flush gets, byte for byte, the
  pack of the native generator or, where that one failed, the standard output of a successful
  \<open>git pack-objects\<close>; whatever the size of the pack.\<close>

theorem fetch_delivers_pack:
  assumes "native_v2_fetch_response generate_pack git repo_path req g = (Inr resp, g')"
  shows "\<exists>pack. client_fetch (wr_body resp) = Some pack
    \<and> (generate_pack repo_path (fr_wants req) (fr_haves req) = Inr pack \<and> g' = g
       \<or> (\<exists>e err. generate_pack repo_path (fr_wants req) (fr_haves req) = Inl e
            \<and> git (pack_objects_revs repo_path) (Some (as_bytes (pack_objects_input (fr_wants req) (fr_haves req)))) g
                = (Inr (0, pack, err), g')))"
  using assms client_fetch_body
  by (cases "generate_pack repo_path (fr_wants req) (fr_haves req)")
    (auto simp: native_v2_fetch_response_def generate_pack_via_pack_objects_def Let_def
      split: prod.splits sum.splits if_splits)

theorem fetch_delivers_pack_witness:
  "\<exists>resp. native_v2_fetch_response (\<lambda>_ _ _. Inl (GixError ''no base''))
       (\<lambda>cmd stdin n. (Inr (0, as_bytes ''PACK'', []), n + 1)) ''/srv/demo.git'' fetch_default (0::nat) = (Inr resp, 1)
     \<and> client_fetch (wr_body resp) = Some (as_bytes ''PACK'')"
proof -
  let ?git = "\<lambda>cmd stdin n::nat. (Inr (0, as_bytes ''PACK'', []), n + 1) :: (error + proc_output) \<times> nat"
  obtain resp where r: "native_v2_fetch_response (\<lambda>_ _ _. Inl (GixError ''no base'')) ?git ''/srv/demo.git'' fetch_default 0 = (Inr resp, 1)"
    by (simp add: native_v2_fetch_response_def generate_pack_via_pack_objects_def Let_def)
  from fetch_delivers_pack [OF r] have "client_fetch (wr_body resp) = Some (as_bytes ''PACK'')" by auto
  with r show ?thesis by blast
qed

lemma fs_list_prefixes:
  "prefixes \<noteq> [] \<Longrightarrow> fs_ref_list git_dir prefixes
     = filter (\<lambda>e. list_ex (\<lambda>p. starts_with p (ref_str (en_name e))) prefixes) (enumerate_refs git_dir)"
  by (simp add: fs_ref_list_def Let_def)

lemma sort_fs_list:
  "sort_key (\<lambda>e. ref_str (en_name e)) (filter P (enumerate_refs git_dir)) = filter P (enumerate_refs git_dir)"
proof -
  have "sorted (map en_name (enumerate_refs git_dir))"
    by (simp add: enumerate_refs_def Let_def)
  then have "sorted (map (\<lambda>e. ref_str (en_name e)) (enumerate_refs git_dir))"
    by (simp add: sorted_wrt_map less_eq_ref_name_def)
  then have "sorted (map (\<lambda>e. ref_str (en_name e)) (filter P (enumerate_refs git_dir)))"
    by (rule sorted_filter)
  then show ?thesis by (rule sort_key_id_if_sorted)
qed

text \<open>The rows an ls-refs request asks for, over a git directory.\<close>

definition asked_rows :: "fs_node \<Rightarrow> head_state \<Rightarrow> ls_refs_args \<Rightarrow> ls_refs_row list" where
  "asked_rows git_dir h args =
     (if ''HEAD'' \<in> set (la_prefixes args) then head_rows (la_symrefs args) h else [])
     @ map (ref_row (la_peel args))
         (filter (\<lambda>e. \<exists>p\<in>set (la_prefixes args) - {''HEAD''}. starts_with p (ref_str (en_name e))) (enumerate_refs git_dir))"

lemma ls_refs_rows_fs:
  assumes "repo_id_try_from repo = Inr r" "read_head r = Inr h"
  shows "ls_refs_rows read_head (\<lambda>r ps. Inr (fs_ref_list git_dir ps)) repo args = Inr (asked_rows git_dir h args)"
proof (cases "la_prefixes args = []")
  case True
  then show ?thesis by (simp add: ls_refs_rows_def asked_rows_def)
next
  case False
  let ?others = "filter (\<lambda>p. p \<noteq> ''HEAD'') (la_prefixes args)"
  let ?keep = "\<lambda>e. \<exists>p\<in>set (la_prefixes args) - {''HEAD''}. starts_with p (ref_str (en_name e))"
  have keep: "(\<lambda>e. list_ex (\<lambda>p. starts_with p (ref_str (en_name e))) ?others) = ?keep"
    by (auto simp: fun_eq_iff list_ex_iff)
  have head: "list_ex (\<lambda>p. p = ''HEAD'') (la_prefixes args) \<longleftrightarrow> ''HEAD'' \<in> set (la_prefixes args)"
    by (auto simp: list_ex_iff)
  show ?thesis
  proof (cases "?others = []")
    case True
    then have none: "set (la_prefixes args) - {''HEAD''} = {}" by (auto simp: filter_empty_conv)
    have "filter ?keep (enumerate_refs git_dir) = []" unfolding none by simp
    then show ?thesis
      using False True assms by (simp add: ls_refs_rows_def head asked_rows_def Let_def)
  next
    case others: False
    have "sort_key (\<lambda>e. ref_str (en_name e)) (fs_ref_list git_dir ?others) = filter ?keep (enumerate_refs git_dir)"
      by (simp only: fs_list_prefixes [OF others] sort_fs_list keep)
    then show ?thesis
      using False others assms
      by (simp add: ls_refs_rows_def head asked_rows_def Let_def del: filter_filter)
  qed
qed

text \<open>An ls-refs answer is exactly what was asked for. Over a git directory with a readable HEAD, the
  response frames one line per row: HEAD first if it was asked for (with its target if symrefs
  were), then every ref of the directory whose name has one of the other prefixes, in ascending
  order of names, and a flush; no prefixes, no rows.\<close>

theorem ls_refs_lists_asked:
  assumes "repo_id_try_from repo = Inr r" "head_of_dir git_dir = Inr h"
    and "list_all (\<lambda>row. length (row_line row) \<le> 65516) (asked_rows git_dir h args)"
  shows "\<exists>resp. native_ls_refs_response (\<lambda>_. head_of_dir git_dir) (\<lambda>_ ps. Inr (fs_ref_list git_dir ps)) repo args = Inr resp
    \<and> pkt_drain (pkt_iter_new (wr_body resp))
        = map (\<lambda>row. Inr (Data (as_bytes (row_line row)))) (asked_rows git_dir h args) @ [Inr Flush]"
proof -
  let ?fs = "map (\<lambda>row. Data (as_bytes (row_line row))) (asked_rows git_dir h args) @ [Flush]"
  have "list_all frame_ok ?fs"
    using assms(3) by (simp add: list_all_iff PKT_LINE_MAX_PAYLOAD_def)
  then have "pkt_drain (pkt_iter_new (concat (map frame_bytes ?fs))) = map Inr ?fs" by (rule drain_frames)
  moreover have "write_flush (fold (\<lambda>row body. write_data body (as_bytes (row_line row))) (asked_rows git_dir h args) [])
      = concat (map frame_bytes ?fs)"
    by (simp add: fold_write_data write_frame(2) del: frame_bytes.simps)
  ultimately show ?thesis
    using ls_refs_rows_fs [of repo r "\<lambda>_. head_of_dir git_dir" h git_dir args] assms(1,2)
    by (simp add: native_ls_refs_response_def Let_def comp_def)
qed

definition sample_dir :: fs_node where
  "sample_dir = FsDir (Some [(''HEAD'', FsFile (Some (hex_a @ [newline])))])"

lemma sample_dir_head: "head_of_dir sample_dir = Inr (Detached (Oid hex_a))"
proof -
  have "oid_ok hex_a"
    by (simp add: oid_ok_def hex_a_def list_all_iff is_hexdigit_def is_upper_def hex_val_def Let_def)
  moreover have "trim (hex_a @ [newline]) = hex_a"
    by (rule trim_graphic) (simp_all add: hex_a_def)
  moreover have "strip_prefix ''ref: '' hex_a = None" by (simp add: hex_a_def numeral_eq_Suc)
  ultimately show ?thesis
    by (simp add: head_of_dir_def sample_dir_def read_to_string_def oid_try_from_def Let_def)
qed

theorem ls_refs_lists_asked_witness:
  "\<exists>resp. native_ls_refs_response (\<lambda>_. head_of_dir sample_dir) (\<lambda>_ ps. Inr (fs_ref_list sample_dir ps)) ''demo''
       \<lparr>la_peel = False, la_symrefs = True, la_prefixes = [''HEAD'', ''refs/heads/'']\<rparr> = Inr resp
     \<and> pkt_drain (pkt_iter_new (wr_body resp)) = [Inr (Data (as_bytes (hex_a @ '' HEAD'' @ [newline]))), Inr Flush]"
proof -
  let ?args = "\<lparr>la_peel = False, la_symrefs = True, la_prefixes = [''HEAD'', ''refs/heads/'']\<rparr>"
  have repo: "repo_id_try_from ''demo'' = Inr (RepoId ''demo'')"
    by (simp add: repo_id_try_from_iff repo_id_ok_def is_lower_def)
  have "enumerate_refs sample_dir = []"
    by (simp add: enumerate_refs_def sample_dir_def read_to_string_def loose_files_def)
  then have rows: "asked_rows sample_dir (Detached (Oid hex_a)) ?args = [\<lparr>lr_oid = hex_a, lr_name = ''HEAD'', lr_extra = None\<rparr>]"
    by (simp add: asked_rows_def head_rows_def)
  have "list_all (\<lambda>row. length (row_line row) \<le> 65516) (asked_rows sample_dir (Detached (Oid hex_a)) ?args)"
    unfolding rows by (simp add: row_line_def hex_a_def)
  from ls_refs_lists_asked [OF repo sample_dir_head this] show ?thesis
    unfolding rows by (simp add: row_line_def del: as_bytes_simps)
qed

end
