(* ===== verification/Tokens.thy ===== *)
theory Tokens
  imports Ids
begin

text \<open>
  The token store of \<open>src/tokens.rs\<close>. The SQLite table \<open>tokens\<close> is the list of its rows; SHA-256, the
  base64 encoder and the random bytes of a new token are parameters, as is the clock, in seconds.
  Casts between \<open>u64\<close> and \<open>i64\<close> and the sum of clock and lifetime wrap as in a release build.
\<close>

section \<open>Definitions\<close>

definition as_i64 :: "nat \<Rightarrow> int" where
  "as_i64 n = (let m = n mod 2 ^ 64 in if m < 2 ^ 63 then int m else int m - 2 ^ 64)"

definition as_u64 :: "int \<Rightarrow> nat" where
  "as_u64 i = nat (i mod 2 ^ 64)"

definition saturating_sub_i64 :: "int \<Rightarrow> int \<Rightarrow> int" where
  "saturating_sub_i64 a b = max (- (2 ^ 63)) (min (2 ^ 63 - 1) (a - b))"

datatype scope = Read | Write

definition scope_str :: "scope \<Rightarrow> string" where
  "scope_str s = (case s of Read \<Rightarrow> ''read'' | Write \<Rightarrow> ''write'')"

definition scope_parse :: "string \<Rightarrow> error + scope" where
  "scope_parse s =
     (if s = ''read'' then Inr Read else if s = ''write'' then Inr Write
      else Inl (Other (''invalid scope '' @ s)))"

record token_record =
  tk_repo :: repo_id
  tk_scope :: scope

record token_summary =
  ts_id :: string
  ts_repo :: repo_id
  ts_scope :: scope
  ts_created :: nat
  ts_expires :: "nat option"
  ts_revoked :: "nat option"
  ts_subject :: "subject option"

record token_row =
  tr_hash :: string
  tr_repo :: string
  tr_scope :: string
  tr_created :: int
  tr_expires :: "int option"
  tr_revoked :: "int option"
  tr_subject :: "string option"

definition random_token :: "(u8 list \<Rightarrow> string) \<Rightarrow> u8 list \<Rightarrow> string" where
  "random_token b64 bytes = b64 bytes"

definition sha256_hex :: "(u8 list \<Rightarrow> u8 list) \<Rightarrow> string \<Rightarrow> string" where
  "sha256_hex sha256 s = hex_bytes (sha256 (as_bytes s))"

text \<open>A lifetime in seconds becomes the expiry column.\<close>

definition expiry :: "nat \<Rightarrow> nat \<Rightarrow> int" where
  "expiry now ttl = as_i64 ((now + ttl) mod 2 ^ 64)"

text \<open>\<open>raw\<close> is what \<open>random_token\<close> returned. The insertion fails on a hash that is there already, the
  primary key; a token that is not valid would be a panic.\<close>

definition mint ::
  "(u8 list \<Rightarrow> u8 list) \<Rightarrow> nat \<Rightarrow> string \<Rightarrow> repo_id \<Rightarrow> scope \<Rightarrow> nat option \<Rightarrow> subject option \<Rightarrow> token_row list
     \<Rightarrow> error + token \<times> token_row list" where
  "mint sha256 now raw repo scope ttl subject rows =
     res_bind (token_try_from raw) (\<lambda>token.
       let hash = sha256_hex sha256 (token_str token);
           row = \<lparr>tr_hash = hash, tr_repo = repo_str repo, tr_scope = scope_str scope, tr_created = as_i64 now,
                  tr_expires = map_option (expiry now) ttl, tr_revoked = None,
                  tr_subject = map_option subject_str subject\<rparr>
       in if \<exists>r\<in>set rows. tr_hash r = hash then Inl (Db (SqliteFailure (OtherCode 19)))
          else Inr (token, rows @ [row]))"

text \<open>The condition that the queries share.\<close>

definition row_active :: "int \<Rightarrow> token_row \<Rightarrow> bool" where
  "row_active now row = (tr_revoked row = None \<and> (case tr_expires row of None \<Rightarrow> True | Some e \<Rightarrow> e > now))"

definition token_lookup ::
  "(u8 list \<Rightarrow> u8 list) \<Rightarrow> nat \<Rightarrow> token \<Rightarrow> token_row list \<Rightarrow> error + token_record option" where
  "token_lookup sha256 now token rows =
     (case find (\<lambda>row. tr_hash row = sha256_hex sha256 (token_str token) \<and> row_active (as_i64 now) row) rows of
        None \<Rightarrow> Inr None
      | Some row \<Rightarrow>
          (case repo_id_try_from (tr_repo row) of
             Inl _ \<Rightarrow> Inr None
           | Inr repo \<Rightarrow> res_bind (scope_parse (tr_scope row)) (\<lambda>s. Inr (Some \<lparr>tk_repo = repo, tk_scope = s\<rparr>))))"

definition update_where :: "(token_row \<Rightarrow> bool) \<Rightarrow> int \<Rightarrow> token_row list \<Rightarrow> nat \<times> token_row list" where
  "update_where cond now rows =
     (length (filter cond rows), map (\<lambda>row. if cond row then row\<lparr>tr_revoked := Some now\<rparr> else row) rows)"

definition revoke :: "(u8 list \<Rightarrow> u8 list) \<Rightarrow> nat \<Rightarrow> token \<Rightarrow> token_row list \<Rightarrow> bool \<times> token_row list" where
  "revoke sha256 now token rows =
     (let hash = sha256_hex sha256 (token_str token);
          (affected, rows') = update_where (\<lambda>row. tr_hash row = hash \<and> tr_revoked row = None) (as_i64 now) rows
      in (affected > 0, rows'))"

definition revoke_all_for_repo :: "nat \<Rightarrow> repo_id \<Rightarrow> token_row list \<Rightarrow> nat \<times> token_row list" where
  "revoke_all_for_repo now repo rows =
     update_where (\<lambda>row. tr_repo row = repo_str repo \<and> row_active (as_i64 now) row) (as_i64 now) rows"

definition count_active :: "nat \<Rightarrow> token_row list \<Rightarrow> nat" where
  "count_active now rows = length (filter (row_active (as_i64 now)) rows)"

definition tokens_prune :: "nat \<Rightarrow> nat \<Rightarrow> token_row list \<Rightarrow> nat \<times> token_row list" where
  "tokens_prune now grace rows =
     (let cutoff = saturating_sub_i64 (as_i64 now) (as_i64 grace);
          dead = (\<lambda>row. tr_revoked row \<noteq> None \<or> (case tr_expires row of None \<Rightarrow> False | Some e \<Rightarrow> e \<le> cutoff))
      in (length (filter dead rows), filter (\<lambda>row. \<not> dead row) rows))"

fun list_rows :: "token_row list \<Rightarrow> error + token_summary list" where
  "list_rows [] = Inr []"
| "list_rows (row # rows) =
     (case repo_id_try_from (tr_repo row) of
        Inl _ \<Rightarrow> list_rows rows
      | Inr repo \<Rightarrow>
          res_bind (scope_parse (tr_scope row)) (\<lambda>s.
            map_sum id ((#) \<lparr>ts_id = take 16 (tr_hash row), ts_repo = repo, ts_scope = s,
                ts_created = as_u64 (tr_created row), ts_expires = map_option as_u64 (tr_expires row),
                ts_revoked = map_option as_u64 (tr_revoked row),
                ts_subject = (case tr_subject row of None \<Rightarrow> None
                              | Some x \<Rightarrow> (case subject_try_from x of Inl _ \<Rightarrow> None | Inr y \<Rightarrow> Some y))\<rparr>)
              (list_rows rows)))"

definition list_for_repo :: "nat \<Rightarrow> repo_id \<Rightarrow> subject option \<Rightarrow> token_row list \<Rightarrow> error + token_summary list" where
  "list_for_repo now repo subject_filter rows =
     list_rows (sort_key (\<lambda>row. - tr_created row)
       (filter (\<lambda>row. tr_repo row = repo_str repo \<and> row_active (as_i64 now) row
            \<and> (case subject_filter of None \<Rightarrow> True | Some s \<Rightarrow> tr_subject row = Some (subject_str s))) rows))"

section \<open>Lemmas\<close>

lemma as_i64_small [simp]: "n < 2 ^ 63 \<Longrightarrow> as_i64 n = int n"
  by (simp add: as_i64_def Let_def)

definition hash_of :: "(u8 list \<Rightarrow> u8 list) \<Rightarrow> token \<Rightarrow> string" where
  "hash_of sha256 t = sha256_hex sha256 (token_str t)"

text \<open>The type invariant of the table: hashes are distinct (the primary key) and the repo and scope columns
  hold what \<open>mint\<close> writes.\<close>

definition tokens_inv :: "token_row list \<Rightarrow> bool" where
  "tokens_inv rows = (distinct (map tr_hash rows)
     \<and> (\<forall>row\<in>set rows. repo_id_ok (tr_repo row) \<and> (\<exists>s. tr_scope row = scope_str s)))"

lemma scope_parse_str [simp]: "scope_parse (scope_str s) = Inr s"
  by (cases s) (simp_all add: scope_parse_def scope_str_def)

text \<open>What a row grants.\<close>

definition row_record :: "token_row \<Rightarrow> token_record" where
  "row_record row = \<lparr>tk_repo = RepoId (tr_repo row), tk_scope = (if tr_scope row = ''read'' then Read else Write)\<rparr>"

lemma lookup_inv:
  assumes "tokens_inv rows"
  shows "token_lookup sha256 now t rows
    = Inr (map_option row_record (find (\<lambda>row. tr_hash row = hash_of sha256 t \<and> row_active (as_i64 now) row) rows))"
proof (cases "find (\<lambda>row. tr_hash row = hash_of sha256 t \<and> row_active (as_i64 now) row) rows")
  case None
  then show ?thesis by (simp add: token_lookup_def hash_of_def)
next
  case (Some row)
  then have "row \<in> set rows" by (auto simp: find_Some_iff)
  with assms obtain s where s: "repo_id_ok (tr_repo row)" "tr_scope row = scope_str s"
    unfolding tokens_inv_def by blast
  then have "repo_id_try_from (tr_repo row) = Inr (RepoId (tr_repo row))" by (simp add: repo_id_try_from_iff)
  with Some s(2) show ?thesis
    by (cases s) (simp_all add: token_lookup_def hash_of_def row_record_def scope_parse_def scope_str_def)
qed

lemma find_unique:
  assumes "distinct (map tr_hash rows)" "row \<in> set rows" "tr_hash row = h"
  shows "find (\<lambda>r. tr_hash r = h \<and> P r) rows = (if P row then Some row else None)"
proof -
  have "r = row" if "r \<in> set rows" "tr_hash r = h" for r
    using assms that by (metis distinct_map inj_on_def)
  then have "find (\<lambda>r. tr_hash r = h \<and> P r) rows = find (\<lambda>r. r = row \<and> P row) rows"
    using assms(3) by (intro find_cong) auto
  also have "\<dots> = (if P row then Some row else None)"
    using assms(2) by (induction rows) (auto simp: find_None_iff)
  finally show ?thesis .
qed

lemma find_absent: "h \<notin> tr_hash ` set rows \<Longrightarrow> find (\<lambda>r. tr_hash r = h \<and> P r) rows = None"
  by (auto simp: find_None_iff)

lemma find_append: "find P (xs @ ys) = (case find P xs of None \<Rightarrow> find P ys | Some x \<Rightarrow> Some x)"
  by (induction xs) auto

text \<open>Only the row of the presented hash decides.\<close>

lemma lookup_cases:
  assumes "tokens_inv rows"
  obtains "hash_of sha256 t \<notin> tr_hash ` set rows" "\<And>now. token_lookup sha256 now t rows = Inr None"
  | row where "row \<in> set rows" "tr_hash row = hash_of sha256 t"
      "\<And>now. token_lookup sha256 now t rows = Inr (if row_active (as_i64 now) row then Some (row_record row) else None)"
proof (cases "hash_of sha256 t \<in> tr_hash ` set rows")
  case False
  then show ?thesis using that(1) by (simp add: lookup_inv [OF assms] find_absent)
next
  case True
  then obtain row where "row \<in> set rows" "tr_hash row = hash_of sha256 t" by auto
  moreover have "distinct (map tr_hash rows)" using assms by (simp add: tokens_inv_def)
  ultimately show ?thesis using that(2) by (simp add: lookup_inv [OF assms] find_unique)
qed

lemma lookup_row:
  assumes "tokens_inv rows" "row \<in> set rows" "tr_hash row = hash_of sha256 t"
  shows "token_lookup sha256 now t rows = Inr (if row_active (as_i64 now) row then Some (row_record row) else None)"
  using find_unique [OF _ assms(2,3)] assms(1) by (simp add: lookup_inv tokens_inv_def)

lemma mint_inv:
  assumes "mint sha256 now raw repo scope ttl subject rows = Inr (t, rows')" "repo_id_ok (repo_str repo)" "tokens_inv rows"
  shows "tokens_inv rows'"
  using assms by (fastforce simp: mint_def res_bind_Inr_iff Let_def tokens_inv_def split: if_splits)

lemma update_where_inv: "tokens_inv rows \<Longrightarrow> tokens_inv (snd (update_where cond now rows))"
proof -
  have "map tr_hash (snd (update_where cond now rows)) = map tr_hash rows"
    by (auto simp: update_where_def)
  moreover assume "tokens_inv rows"
  ultimately show ?thesis unfolding tokens_inv_def by (simp only:) (auto simp: update_where_def)
qed

lemma filter_inv: "tokens_inv rows \<Longrightarrow> tokens_inv (filter P rows)"
  by (auto simp: tokens_inv_def intro: distinct_map_filter)

lemma inactive_later: "\<not> row_active n row \<Longrightarrow> n \<le> n' \<Longrightarrow> \<not> row_active n' row"
  by (auto simp: row_active_def split: option.splits)

section \<open>Histories\<close>

text \<open>The operations that change the table, each with its time.\<close>

datatype token_op =
    OpMint nat string repo_id scope "nat option" "subject option"
  | OpRevoke nat token
  | OpRevokeAll nat repo_id
  | OpPrune nat nat

fun op_time :: "token_op \<Rightarrow> nat" where
  "op_time (OpMint now _ _ _ _ _) = now"
| "op_time (OpRevoke now _) = now"
| "op_time (OpRevokeAll now _) = now"
| "op_time (OpPrune now _) = now"

fun op_ok :: "token_op \<Rightarrow> bool" where
  "op_ok (OpMint _ _ repo _ _ _) = repo_id_ok (repo_str repo)"
| "op_ok _ = True"

fun op_mints :: "(u8 list \<Rightarrow> u8 list) \<Rightarrow> token_op \<Rightarrow> string option" where
  "op_mints sha256 (OpMint _ raw _ _ _ _) = Some (sha256_hex sha256 raw)"
| "op_mints sha256 _ = None"

fun token_step :: "(u8 list \<Rightarrow> u8 list) \<Rightarrow> token_op \<Rightarrow> token_row list \<Rightarrow> token_row list" where
  "token_step sha256 (OpMint now raw repo scope ttl subject) rows =
     (case mint sha256 now raw repo scope ttl subject rows of Inl _ \<Rightarrow> rows | Inr (_, rows') \<Rightarrow> rows')"
| "token_step sha256 (OpRevoke now t) rows = snd (revoke sha256 now t rows)"
| "token_step sha256 (OpRevokeAll now repo) rows = snd (revoke_all_for_repo now repo rows)"
| "token_step sha256 (OpPrune now grace) rows = snd (tokens_prune now grace rows)"

lemma revoke_snd:
  "snd (revoke sha256 now t rows)
     = snd (update_where (\<lambda>row. tr_hash row = hash_of sha256 t \<and> tr_revoked row = None) (as_i64 now) rows)"
  by (simp add: revoke_def Let_def hash_of_def split: prod.split)

lemma step_inv: "op_ok op \<Longrightarrow> tokens_inv rows \<Longrightarrow> tokens_inv (token_step sha256 op rows)"
proof (cases op)
  case (OpMint now raw repo scope ttl subject)
  assume "op_ok op" "tokens_inv rows"
  then show ?thesis using OpMint mint_inv by (auto split: sum.split)
next
  case (OpPrune now grace)
  assume "tokens_inv rows"
  then show ?thesis using OpPrune by (simp add: tokens_prune_def Let_def filter_inv)
qed (simp_all add: revoke_snd revoke_all_for_repo_def update_where_inv)

text \<open>A hash is dead at a time when no row of it is active; it stays dead from then on.\<close>

definition dead_at :: "nat \<Rightarrow> string \<Rightarrow> token_row list \<Rightarrow> bool" where
  "dead_at now h rows = (\<forall>row\<in>set rows. tr_hash row = h \<longrightarrow> \<not> row_active (int now) row)"

lemma update_where_dead: "dead_at now h rows \<Longrightarrow> dead_at now h (snd (update_where cond n rows))"
  by (auto simp: dead_at_def update_where_def row_active_def)

lemma step_dead:
  assumes "dead_at now h rows" "op_mints sha256 op \<noteq> Some h"
  shows "dead_at now h (token_step sha256 op rows)"
proof (cases op)
  case (OpMint n raw repo scope ttl subject)
  with assms show ?thesis
    by (auto simp: mint_def res_bind_Inr_iff Let_def dead_at_def token_try_from_def split: sum.split if_splits)
next
  case (OpPrune n grace)
  with assms show ?thesis by (auto simp: tokens_prune_def Let_def dead_at_def)
qed (simp_all add: revoke_snd revoke_all_for_repo_def update_where_dead assms)

lemma run_dead:
  "dead_at now h rows \<Longrightarrow> \<forall>op\<in>set ops. op_mints sha256 op \<noteq> Some h \<Longrightarrow> dead_at now h (fold (token_step sha256) ops rows)"
  by (induction ops arbitrary: rows) (simp_all add: step_dead)

lemma run_inv: "list_all op_ok ops \<Longrightarrow> tokens_inv rows \<Longrightarrow> tokens_inv (fold (token_step sha256) ops rows)"
  by (induction ops arbitrary: rows) (simp_all add: step_inv)

lemma dead_lookup:
  assumes "dead_at now (hash_of sha256 t) rows" "now \<le> now'" "now' < 2 ^ 63"
  shows "token_lookup sha256 now' t rows = Inr None"
proof -
  have "find (\<lambda>row. tr_hash row = sha256_hex sha256 (token_str t) \<and> row_active (as_i64 now') row) rows = None"
    using assms inactive_later [of "int now" _ "int now'"] by (auto simp: find_None_iff dead_at_def hash_of_def)
  then show ?thesis by (simp add: token_lookup_def)
qed

section \<open>Properties\<close>

text \<open>C24: Revocation is final. Once a token has been revoked it authorizes nothing at any later time,
  whatever tokens are minted, revoked, rotated or pruned in between, as long as no minted token
  has its hash; the same holds for a token that was never minted.\<close>

theorem revocation_is_final:
  assumes "revoke sha256 now t rows = (b, rows')"
    and "\<forall>op\<in>set ops. op_mints sha256 op \<noteq> Some (sha256_hex sha256 (token_str t))"
    and "now \<le> now'" "now' < 2 ^ 63"
  shows "token_lookup sha256 now' t (fold (token_step sha256) ops rows') = Inr None"
proof -
  have "rows' = snd (revoke sha256 now t rows)" using assms(1) by simp
  then have "dead_at now (hash_of sha256 t) rows'"
    by (auto simp: revoke_snd update_where_def dead_at_def row_active_def)
  with assms(2) have "dead_at now (hash_of sha256 t) (fold (token_step sha256) ops rows')"
    by (intro run_dead) (simp_all add: hash_of_def)
  then show ?thesis using assms(3,4) by (rule dead_lookup)
qed

text \<open>A minted token grants exactly what was asked for, exactly as long. If \<open>mint\<close> succeeds then the
  token resolves to the given repo and scope at every moment before its expiry (always, without a
  lifetime) and to nothing from the expiry on, and no other token resolves differently than before.\<close>

theorem mint_grants_exactly:
  assumes "mint sha256 now raw repo scope ttl subject rows = Inr (t, rows')"
    and "tokens_inv rows" "repo_id_ok (repo_str repo)"
    and "pred_option (\<lambda>d. now + d < 2 ^ 63) ttl" "now' < 2 ^ 63"
  shows "token_lookup sha256 now' t rows'
      = Inr (if pred_option (\<lambda>d. now' < now + d) ttl then Some \<lparr>tk_repo = repo, tk_scope = scope\<rparr> else None)
    \<and> (\<forall>u. sha256_hex sha256 (token_str u) \<noteq> sha256_hex sha256 (token_str t)
          \<longrightarrow> token_lookup sha256 now' u rows' = token_lookup sha256 now' u rows)"
proof -
  let ?row = "\<lparr>tr_hash = hash_of sha256 t, tr_repo = repo_str repo, tr_scope = scope_str scope, tr_created = as_i64 now,
     tr_expires = map_option (expiry now) ttl, tr_revoked = None, tr_subject = map_option subject_str subject\<rparr>"
  have rows': "rows' = rows @ [?row]"
    using assms(1) by (auto simp: mint_def res_bind_Inr_iff Let_def hash_of_def split: if_splits)
  have "tokens_inv rows'" using mint_inv [OF assms(1,3,2)] .
  moreover have "?row \<in> set rows'" by (simp add: rows')
  ultimately have "token_lookup sha256 now' t rows' = Inr (if row_active (as_i64 now') ?row then Some (row_record ?row) else None)"
    by (rule lookup_row) simp
  moreover have "row_active (as_i64 now') ?row \<longleftrightarrow> pred_option (\<lambda>d. now' < now + d) ttl"
    using assms(4,5) by (cases ttl) (auto simp: row_active_def expiry_def)
  moreover have "row_record ?row = \<lparr>tk_repo = repo, tk_scope = scope\<rparr>"
    by (cases scope) (simp_all add: row_record_def scope_str_def)
  moreover have "token_lookup sha256 now' u rows' = token_lookup sha256 now' u rows"
    if "sha256_hex sha256 (token_str u) \<noteq> sha256_hex sha256 (token_str t)" for u
    using that by (simp add: token_lookup_def rows' find_append hash_of_def split: option.split)
  ultimately show ?thesis by simp
qed


definition sample_rows :: "token_row list" where
  "sample_rows = [\<lparr>tr_hash = hex_bytes (as_bytes ''tok1''), tr_repo = ''demo'', tr_scope = ''write'', tr_created = 5,
     tr_expires = Some 100, tr_revoked = None, tr_subject = Some ''alice''\<rparr>]"

lemma sample_rows_inv: "tokens_inv sample_rows"
proof -
  have "''write'' = scope_str Write" by (simp add: scope_str_def)
  then show ?thesis by (simp add: tokens_inv_def sample_rows_def repo_id_ok_def is_lower_def) blast
qed

lemma hex_tok: "hex_bytes (as_bytes ''tok2'') \<noteq> hex_bytes (as_bytes ''tok1'')"
  by code_simp

theorem revocation_is_final_witness:
  "\<exists>rows'. revoke (\<lambda>x. x) 7 (Token ''tok1'') sample_rows = (True, rows')
     \<and> token_lookup (\<lambda>x. x) 20 (Token ''tok1'')
         (fold (token_step (\<lambda>x. x)) [OpMint 8 ''tok2'' (RepoId ''demo'') Read None None, OpRevokeAll 9 (RepoId ''demo'')] rows')
       = Inr None"
proof -
  let ?ops = "[OpMint 8 ''tok2'' (RepoId ''demo'') Read None None, OpRevokeAll 9 (RepoId ''demo'')]"
  obtain rows' where r: "revoke (\<lambda>x. x) 7 (Token ''tok1'') sample_rows = (True, rows')"
    by (simp add: revoke_def update_where_def sample_rows_def sha256_hex_def Let_def)
  have "\<forall>op\<in>set ?ops. op_mints (\<lambda>x. x) op \<noteq> Some (sha256_hex (\<lambda>x. x) (token_str (Token ''tok1'')))"
    using hex_tok by (simp add: sha256_hex_def)
  from revocation_is_final [OF r this, of 20] r show ?thesis by simp
qed

theorem mint_grants_exactly_witness:
  "\<exists>t rows'. mint (\<lambda>x. x) 10 ''tok2'' (RepoId ''demo'') Read (Some 60) None sample_rows = Inr (t, rows')
     \<and> token_lookup (\<lambda>x. x) 69 t rows' = Inr (Some \<lparr>tk_repo = RepoId ''demo'', tk_scope = Read\<rparr>)
     \<and> token_lookup (\<lambda>x. x) 70 t rows' = Inr None"
proof -
  have tok: "token_try_from ''tok2'' = Inr (Token ''tok2'')"
    by (simp add: token_try_from_def is_graphic_def)
  obtain rows' where m: "mint (\<lambda>x. x) 10 ''tok2'' (RepoId ''demo'') Read (Some 60) None sample_rows = Inr (Token ''tok2'', rows')"
    using hex_tok by (auto simp add: mint_def tok sample_rows_def sha256_hex_def Let_def)
  have ok: "repo_id_ok (repo_str (RepoId ''demo''))" by (simp add: repo_id_ok_def is_lower_def)
  have "pred_option (\<lambda>d. 10 + d < 2 ^ 63) (Some (60::nat))" by simp
  from mint_grants_exactly [OF m sample_rows_inv ok this, of 69] mint_grants_exactly [OF m sample_rows_inv ok this, of 70] m
  show ?thesis by auto
qed

text \<open>Rotation kills all tokens of a repo and nothing else. \<open>revoke_all_for_repo\<close> reports how many tokens it
  revoked, from then on no token resolves to that repo, and every other token resolves as before.\<close>

theorem rotation_is_exact:
  assumes "revoke_all_for_repo now repo rows = (n, rows')" "tokens_inv rows"
    and "now \<le> now'" "now' < 2 ^ 63"
  shows "n + count_active now rows' = count_active now rows
    \<and> token_lookup sha256 now' t rows'
        = (case token_lookup sha256 now' t rows of
             Inr (Some r) \<Rightarrow> if tk_repo r = repo then Inr None else Inr (Some r)
           | x \<Rightarrow> x)"
proof -
  let ?c = "\<lambda>row. tr_repo row = repo_str repo \<and> row_active (as_i64 now) row"
  let ?f = "\<lambda>row. if ?c row then row\<lparr>tr_revoked := Some (as_i64 now)\<rparr> else row"
  have n: "n = length (filter ?c rows)" and rows': "rows' = map ?f rows"
    using assms(1) by (auto simp: revoke_all_for_repo_def update_where_def)
  have act: "row_active m (?f row) \<longleftrightarrow> row_active m row \<and> \<not> ?c row" for m row
    by (auto simp: row_active_def)
  have "n + count_active now rows' = count_active now rows"
    unfolding n rows' count_active_def filter_map comp_def act
    by (induction rows) auto
  moreover have "token_lookup sha256 now' t rows'
        = (case token_lookup sha256 now' t rows of
             Inr (Some r) \<Rightarrow> if tk_repo r = repo then Inr None else Inr (Some r)
           | x \<Rightarrow> x)"
  proof -
    have inv': "tokens_inv rows'"
      using update_where_inv [OF assms(2), of ?c "as_i64 now"] rows' by (simp add: update_where_def)
    show ?thesis
    proof (cases rule: lookup_cases [OF assms(2), of sha256 t])
      case 1
      then have "hash_of sha256 t \<notin> tr_hash ` set rows'" by (auto simp: rows')
      then have "token_lookup sha256 now' t rows' = Inr None"
        by (simp add: lookup_inv [OF inv'] find_absent)
      with 1 show ?thesis by simp
    next
      case (2 row)
      then have "?f row \<in> set rows'" "tr_hash (?f row) = hash_of sha256 t" by (auto simp: rows')
      from lookup_row [OF inv' this]
      have l: "token_lookup sha256 now' t rows' = Inr (if row_active (int now') row \<and> \<not> ?c row then Some (row_record row) else None)"
        using assms(4) act by (simp add: row_record_def cong: if_cong)
      have "row_active (int now') row \<Longrightarrow> row_active (as_i64 now) row"
        using inactive_later [of "int now" row "int now'"] assms(3,4) by fastforce
      moreover have "tk_repo (row_record row) = repo \<longleftrightarrow> tr_repo row = repo_str repo"
        by (cases repo) (simp add: row_record_def)
      ultimately show ?thesis using l 2(3) [of now'] assms(4) by auto
    qed
  qed
  ultimately show ?thesis by blast
qed

theorem rotation_is_exact_witness:
  "\<exists>rows'. revoke_all_for_repo 7 (RepoId ''demo'') sample_rows = (1, rows')
     \<and> token_lookup (\<lambda>x. x) 8 (Token ''tok1'') sample_rows = Inr (Some \<lparr>tk_repo = RepoId ''demo'', tk_scope = Write\<rparr>)
     \<and> token_lookup (\<lambda>x. x) 8 (Token ''tok1'') rows' = Inr None"
proof -
  obtain rows' where r: "revoke_all_for_repo 7 (RepoId ''demo'') sample_rows = (1, rows')"
    by (simp add: revoke_all_for_repo_def update_where_def sample_rows_def row_active_def)
  have "token_lookup (\<lambda>x. x) 8 (Token ''tok1'') sample_rows = Inr (Some \<lparr>tk_repo = RepoId ''demo'', tk_scope = Write\<rparr>)"
    by (simp add: lookup_inv [OF sample_rows_inv] hash_of_def sha256_hex_def)
      (simp add: sample_rows_def row_active_def row_record_def)
  with r rotation_is_exact [OF r sample_rows_inv, of 8 "\<lambda>x. x" "Token ''tok1''"] show ?thesis by simp
qed

text \<open>Pruning is invisible. Deleting the revoked and the long-expired rows changes no lookup, no count and
  no listing, at the time of the sweep or later.\<close>

theorem prune_invisible:
  assumes "now < 2 ^ 63" "grace < 2 ^ 63" "now \<le> now'" "now' < 2 ^ 63"
  shows "token_lookup sha256 now' t (snd (tokens_prune now grace rows)) = token_lookup sha256 now' t rows
    \<and> count_active now' (snd (tokens_prune now grace rows)) = count_active now' rows
    \<and> list_for_repo now' repo subj (snd (tokens_prune now grace rows)) = list_for_repo now' repo subj rows"
proof -
  define dead :: "token_row \<Rightarrow> bool" where "dead = (\<lambda>row. tr_revoked row \<noteq> None
     \<or> (case tr_expires row of None \<Rightarrow> False | Some e \<Rightarrow> e \<le> saturating_sub_i64 (as_i64 now) (as_i64 grace)))"
  have pr: "snd (tokens_prune now grace rows) = filter (\<lambda>row. \<not> dead row) rows"
    by (simp add: tokens_prune_def dead_def Let_def)
  have "saturating_sub_i64 (as_i64 now) (as_i64 grace) \<le> int now'"
    using assms by (simp add: saturating_sub_i64_def)
  then have sub: "row_active (int now') row \<Longrightarrow> \<not> dead row" for row
    by (auto simp: dead_def row_active_def split: option.splits)
  have find_eq: "find (\<lambda>row. P row \<and> row_active (int now') row) (filter (\<lambda>row. \<not> dead row) rows)
      = find (\<lambda>row. P row \<and> row_active (int now') row) rows" for P
    using sub by (induction rows) auto
  have filter_eq: "filter (\<lambda>row. P row \<and> row_active (int now') row \<and> Q row) (filter (\<lambda>row. \<not> dead row) rows)
      = filter (\<lambda>row. P row \<and> row_active (int now') row \<and> Q row) rows" for P Q
    using sub by (induction rows) auto
  show ?thesis
    unfolding pr token_lookup_def count_active_def list_for_repo_def
    using assms(4) find_eq filter_eq filter_eq [of "\<lambda>_. True" "\<lambda>_. True"] by simp
qed

theorem prune_invisible_witness:
  "token_lookup (\<lambda>x. x) 200 (Token ''tok1'') (snd (tokens_prune 200 60 sample_rows))
      = token_lookup (\<lambda>x. x) 200 (Token ''tok1'') sample_rows
    \<and> fst (tokens_prune 200 60 sample_rows) = 1"
  using prune_invisible [of 200 60 200 "\<lambda>x. x" "Token ''tok1''" sample_rows]
  by (simp add: tokens_prune_def sample_rows_def saturating_sub_i64_def Let_def)

text \<open>A very long lifetime is no lifetime at all. When clock plus lifetime reaches \<open>2 ^ 63\<close> (but not
  \<open>2 ^ 64\<close>) the cast to the signed column makes the expiry negative: the mint succeeds, and the
  token it returned never authorizes anything.\<close>

theorem mint_ttl_wraps:
  assumes "mint sha256 now raw repo scope (Some ttl) subject rows = Inr (t, rows')"
    and "2 ^ 63 \<le> now + ttl" "now + ttl < 2 ^ 64" "now' < 2 ^ 63"
  shows "token_lookup sha256 now' t rows' = Inr None"
proof -
  let ?row = "\<lparr>tr_hash = hash_of sha256 t, tr_repo = repo_str repo, tr_scope = scope_str scope, tr_created = as_i64 now,
     tr_expires = Some (expiry now ttl), tr_revoked = None, tr_subject = map_option subject_str subject\<rparr>"
  have "rows' = rows @ [?row]" and fresh: "hash_of sha256 t \<notin> tr_hash ` set rows"
    using assms(1) by (auto simp: mint_def res_bind_Inr_iff Let_def hash_of_def split: if_splits)
  moreover have "expiry now ttl < 0"
    using assms(2,3) by (simp add: expiry_def as_i64_def Let_def)
  ultimately show ?thesis
    using assms(4) fresh find_absent [OF fresh]
    by (simp add: token_lookup_def find_append hash_of_def row_active_def)
qed

theorem mint_ttl_wraps_witness:
  "\<exists>t rows'. mint (\<lambda>x. x) 10 ''tok2'' (RepoId ''demo'') Read (Some (2 ^ 63)) None sample_rows = Inr (t, rows')
     \<and> token_lookup (\<lambda>x. x) 10 t rows' = Inr None"
proof -
  have tok: "token_try_from ''tok2'' = Inr (Token ''tok2'')"
    by (simp add: token_try_from_def is_graphic_def)
  obtain rows' where m: "mint (\<lambda>x. x) 10 ''tok2'' (RepoId ''demo'') Read (Some (2 ^ 63)) None sample_rows = Inr (Token ''tok2'', rows')"
    using hex_tok by (auto simp add: mint_def tok sample_rows_def sha256_hex_def Let_def)
  with mint_ttl_wraps [OF m, of 10] show ?thesis by simp
qed

end
