(* ===== verification/Auth.thy ===== *)
theory Auth
  imports Tokens
begin

text \<open>
  Authentication: \<open>src/auth.rs\<close> and \<open>src/jwt.rs\<close>. The decoders of base64 and of JSON web tokens are
  parameters; a header is absent, present but not text, or text. The constant-time comparison is
  equality.
\<close>

section \<open>Definitions\<close>

datatype principal = Admin | User string

definition principal_subject :: "principal \<Rightarrow> string option" where
  "principal_subject p = (case p of Admin \<Rightarrow> None | User s \<Rightarrow> Some s)"

definition audit_label :: "principal \<Rightarrow> string" where
  "audit_label p = (case p of Admin \<Rightarrow> ''admin'' | User s \<Rightarrow> s)"

text \<open>\<open>headers.get(AUTHORIZATION)\<close> and its \<open>to_str\<close>.\<close>

type_synonym header = "string option option"

definition header_text :: "header \<Rightarrow> string option" where
  "header_text h = (case h of None \<Rightarrow> None | Some v \<Rightarrow> v)"

definition basic_token :: "(string \<Rightarrow> u8 list option) \<Rightarrow> header \<Rightarrow> error + string" where
  "basic_token b64_decode h =
     res_bind (ok_or UnauthorizedBasic (header_text h)) (\<lambda>value.
     res_bind (ok_or UnauthorizedBasic (strip_prefix ''Basic '' value)) (\<lambda>b64.
     res_bind (ok_or UnauthorizedBasic (b64_decode b64)) (\<lambda>decoded.
     res_bind (ok_or UnauthorizedBasic (from_utf8 decoded)) (\<lambda>decoded.
     res_bind (ok_or UnauthorizedBasic (split_once CHR '':'' decoded)) (\<lambda>(_, pass).
       Inr pass)))))"

definition authorize_git ::
  "(string \<Rightarrow> u8 list option) \<Rightarrow> (token \<Rightarrow> error + token_record option) \<Rightarrow> header \<Rightarrow> string \<Rightarrow> scope
     \<Rightarrow> error + token_record" where
  "authorize_git b64_decode lookup h repo required =
     res_bind (basic_token b64_decode h) (\<lambda>token.
     res_bind (token_try_from token) (\<lambda>token_typed.
     res_bind (lookup token_typed) (\<lambda>found.
     res_bind (ok_or UnauthorizedBasic found) (\<lambda>record.
       if repo_str (tk_repo record) \<noteq> repo then Inl (Forbidden ''token not valid for this repo'')
       else if required = Write \<and> tk_scope record \<noteq> Write then Inl (Forbidden ''token is read-only'')
       else Inr record))))"

subsection \<open>JSON web tokens\<close>

record claims =
  cl_user_id :: "string option"
  cl_sub :: "string option"

definition claims_subject :: "claims \<Rightarrow> string option" where
  "claims_subject c = (case cl_user_id c of Some u \<Rightarrow> Some u | None \<Rightarrow> cl_sub c)"

text \<open>The settings of \<open>Validation\<close> that \<open>verify\<close> makes; the algorithm list is \<open>[HS256]\<close>.\<close>

record jwt_validation =
  jv_algorithms :: "string list"
  jv_required :: "string list"
  jv_nbf :: bool
  jv_aud :: "string list option"
  jv_validate_aud :: bool
  jv_iss :: "string list option"

definition jwt_settings :: "string option \<Rightarrow> string option \<Rightarrow> jwt_validation" where
  "jwt_settings expected_aud expected_iss =
     \<lparr>jv_algorithms = [''HS256''],
      jv_required = [''exp''] @ (case expected_aud of Some _ \<Rightarrow> [''aud''] | None \<Rightarrow> [])
        @ (case expected_iss of Some _ \<Rightarrow> [''iss''] | None \<Rightarrow> []),
      jv_nbf = True,
      jv_aud = map_option (\<lambda>a. [a]) expected_aud,
      jv_validate_aud = (expected_aud \<noteq> None),
      jv_iss = map_option (\<lambda>i. [i]) expected_iss\<rparr>"

type_synonym jwt_decoder = "string \<Rightarrow> u8 list \<Rightarrow> jwt_validation \<Rightarrow> claims option"

definition jwt_verify :: "jwt_decoder \<Rightarrow> string \<Rightarrow> string \<Rightarrow> string option \<Rightarrow> string option \<Rightarrow> error + claims" where
  "jwt_verify decode secret token expected_aud expected_iss =
     res_bind (ok_or Unauthorized (decode token (as_bytes secret) (jwt_settings expected_aud expected_iss))) (\<lambda>c.
       if claims_subject c = None then Inl Unauthorized else Inr c)"

definition authorize_rest ::
  "jwt_decoder \<Rightarrow> header \<Rightarrow> string \<Rightarrow> string option \<Rightarrow> string option \<Rightarrow> string option \<Rightarrow> error + principal" where
  "authorize_rest decode h admin_token jwt_secret expected_aud expected_iss =
     res_bind (ok_or Unauthorized (header_text h)) (\<lambda>value.
     res_bind (ok_or Unauthorized (strip_prefix ''Bearer '' value)) (\<lambda>presented.
       if length presented = length admin_token \<and> as_bytes presented = as_bytes admin_token then Inr Admin
       else (case jwt_secret of
               None \<Rightarrow> Inl Unauthorized
             | Some secret \<Rightarrow>
                 (case jwt_verify decode secret presented expected_aud expected_iss of
                    Inl _ \<Rightarrow> Inl Unauthorized
                  | Inr c \<Rightarrow> (case claims_subject c of Some s \<Rightarrow> Inr (User s) | None \<Rightarrow> Inl Unauthorized)))))"

section \<open>Properties\<close>

text \<open>C23: A git request is let through exactly for a live token of that repo with enough scope. The
  authorization succeeds iff the header is Basic credentials whose password is a well-formed token
  that resolves, at the time of the request, to a record of this very repo, with write scope where
  write is required; it then returns that record.\<close>

theorem authorize_git_exact:
  "authorize_git b64_decode lookup h repo required = Inr record \<longleftrightarrow>
     (\<exists>b64 bytes user pass.
        h = Some (Some (''Basic '' @ b64)) \<and> b64_decode b64 = Some bytes \<and> from_utf8 bytes = Some (user @ '':'' @ pass)
        \<and> CHR '':'' \<notin> set user
        \<and> token_try_from pass = Inr (Token pass) \<and> lookup (Token pass) = Inr (Some record)
        \<and> repo_str (tk_repo record) = repo \<and> (required = Read \<or> tk_scope record = Write))"
proof -
  have tok: "token_try_from s = Inr t \<longleftrightarrow> token_try_from s = Inr (Token s) \<and> t = Token s" for s t
    by (auto simp: token_try_from_def split: if_splits)
  have req: "\<not> (required = Write \<and> tk_scope record \<noteq> Write) \<longleftrightarrow> required = Read \<or> tk_scope record = Write"
    by (cases required) auto
  have basic: "basic_token b64_decode h = Inr pass \<longleftrightarrow>
      (\<exists>b64 bytes user. h = Some (Some (''Basic '' @ b64)) \<and> b64_decode b64 = Some bytes
        \<and> from_utf8 bytes = Some (user @ '':'' @ pass) \<and> CHR '':'' \<notin> set user)" for pass
    by (auto simp: basic_token_def header_text_def res_bind_Inr_iff ok_or_Inr_iff strip_prefix_iff split_once_Some_iff
        split: option.splits)
  show ?thesis
    unfolding authorize_git_def res_bind_Inr_iff ok_or_Inr_iff basic
    using req by (subst tok) (auto split: if_splits)
qed


text \<open>A malformed token is not a failed login. Credentials whose password is not a well-formed token
  (empty, longer than 256 bytes, or with a byte that is not printable) are answered with the
  client error of the identifier, a 400 without the Basic challenge, although the documentation of
  \<open>authorize_git\<close> lists 401 and 403 as the only outcomes.\<close>

theorem malformed_token_is_400:
  assumes "basic_token b64_decode h = Inr pass" "pass = [] \<or> length pass > 256 \<or> \<not> list_all is_graphic pass"
  shows "\<exists>e. authorize_git b64_decode lookup h repo required = Inl e \<and> status (into_response e) = 400
    \<and> www_authenticate (into_response e) = None"
  using assms
  by (auto simp: authorize_git_def token_try_from_def into_response_def is_retryable_db_def bare_response_def
      status_code_def)

theorem malformed_token_is_400_witness:
  "\<exists>e. authorize_git (\<lambda>_. Some (as_bytes ''x:'')) (\<lambda>_. Inr None) (Some (Some ''Basic eDo='')) ''demo'' Read = Inl e
     \<and> status (into_response e) = 400"
proof -
  have "from_utf8 (as_bytes ''x:'') = Some ''x:''" by (rule from_utf8_ascii) simp
  then have "basic_token (\<lambda>_. Some (as_bytes ''x:'')) (Some (Some ''Basic eDo='')) = Inr []"
    by (simp add: basic_token_def header_text_def del: as_bytes_simps)
  from malformed_token_is_400 [OF this] show ?thesis by blast
qed


text \<open>What \<open>jwt_settings\<close> asks of the decoder.\<close>

lemma jwt_settings_pin:
  "''exp'' \<in> set (jv_required (jwt_settings aud iss)) \<and> jv_algorithms (jwt_settings aud iss) = [''HS256'']
    \<and> (aud = Some a \<longrightarrow> ''aud'' \<in> set (jv_required (jwt_settings aud iss)) \<and> jv_aud (jwt_settings aud iss) = Some [a])
    \<and> (iss = Some i \<longrightarrow> ''iss'' \<in> set (jv_required (jwt_settings aud iss)) \<and> jv_iss (jwt_settings aud iss) = Some [i])"
  by (simp add: jwt_settings_def split: option.split)

end
