(* ===== verification/Ownership.thy ===== *)
theory Ownership
  imports Auth
begin

text \<open>
  Who owns a repo: \<open>src/ownership.rs\<close>. The SQLite table \<open>repos\<close> is the list of its rows in order of
  insertion; \<open>INSERT OR REPLACE\<close> deletes the row of the same id and appends the new one. Rows with
  equal creation times have no order in SQL; the model keeps the order of the table.
\<close>

section \<open>Definitions\<close>

record repos_row =
  rr_id :: string
  rr_owner :: "string option"
  rr_created :: int

record repo_row =
  ro_id :: repo_id
  ro_owner :: "subject option"
  ro_created :: int

definition owner_of_column :: "string option \<Rightarrow> subject option" where
  "owner_of_column owner =
     (case owner of None \<Rightarrow> None | Some s \<Rightarrow> (case subject_try_from s of Inl _ \<Rightarrow> None | Inr x \<Rightarrow> Some x))"

definition row_to_repo_row :: "repos_row \<Rightarrow> repo_row option" where
  "row_to_repo_row row =
     (case repo_id_try_from (rr_id row) of
        Inl _ \<Rightarrow> None
      | Inr r \<Rightarrow> Some \<lparr>ro_id = r, ro_owner = owner_of_column (rr_owner row), ro_created = rr_created row\<rparr>)"

definition record_owner :: "int \<Rightarrow> repo_id \<Rightarrow> subject option \<Rightarrow> repos_row list \<Rightarrow> repos_row list" where
  "record_owner now repo owner rows =
     filter (\<lambda>row. rr_id row \<noteq> repo_str repo) rows
       @ [\<lparr>rr_id = repo_str repo, rr_owner = map_option subject_str owner, rr_created = now\<rparr>]"

definition get_owner :: "repo_id \<Rightarrow> repos_row list \<Rightarrow> subject option option" where
  "get_owner repo rows =
     map_option (\<lambda>row. owner_of_column (rr_owner row)) (find (\<lambda>row. rr_id row = repo_str repo) rows)"

definition owner_delete :: "repo_id \<Rightarrow> repos_row list \<Rightarrow> repos_row list" where
  "owner_delete repo rows = filter (\<lambda>row. rr_id row \<noteq> repo_str repo) rows"

definition count_by_owner :: "subject \<Rightarrow> repos_row list \<Rightarrow> nat" where
  "count_by_owner s rows = length (filter (\<lambda>row. rr_owner row = Some (subject_str s)) rows)"

definition newest_first :: "repos_row list \<Rightarrow> repos_row list" where
  "newest_first rows = sort_key (\<lambda>row. - rr_created row) rows"

definition list_all_repos :: "repos_row list \<Rightarrow> repo_row list" where
  "list_all_repos rows = List.map_filter row_to_repo_row (newest_first rows)"

definition list_paginated :: "nat \<Rightarrow> nat \<Rightarrow> repos_row list \<Rightarrow> repo_row list" where
  "list_paginated limit offset rows =
     List.map_filter row_to_repo_row (take limit (drop offset (newest_first rows)))"

definition count_all :: "repos_row list \<Rightarrow> nat" where
  "count_all rows = length rows"

definition list_by_owner :: "subject \<Rightarrow> repos_row list \<Rightarrow> repo_row list" where
  "list_by_owner s rows =
     List.map_filter row_to_repo_row (newest_first (filter (\<lambda>row. rr_owner row = Some (subject_str s)) rows))"

definition list_paginated_by_owner :: "subject \<Rightarrow> nat \<Rightarrow> nat \<Rightarrow> repos_row list \<Rightarrow> repo_row list" where
  "list_paginated_by_owner s limit offset rows =
     List.map_filter row_to_repo_row
       (take limit (drop offset (newest_first (filter (\<lambda>row. rr_owner row = Some (subject_str s)) rows))))"

definition get_row :: "repo_id \<Rightarrow> repos_row list \<Rightarrow> repo_row option" where
  "get_row repo rows =
     (case find (\<lambda>row. rr_id row = repo_str repo) rows of None \<Rightarrow> None | Some row \<Rightarrow> row_to_repo_row row)"

definition check_repo_quota :: "principal \<Rightarrow> nat \<Rightarrow> repos_row list \<Rightarrow> error + unit" where
  "check_repo_quota p limit rows =
     (if p = Admin then Inr ()
      else res_bind (ok_or (QuotaExceeded ''<no-subject>'' limit) (principal_subject p)) (\<lambda>s.
           res_bind (subject_try_from s) (\<lambda>subject.
             if count_by_owner subject rows \<ge> limit then Inl (QuotaExceeded (subject_str subject) limit)
             else Inr ())))"

definition enforce_owner :: "principal \<Rightarrow> string \<Rightarrow> repos_row list \<Rightarrow> error + unit" where
  "enforce_owner p repo rows =
     (if p = Admin then Inr ()
      else res_bind (ok_or (Forbidden ''non-admin principal has no subject'') (principal_subject p)) (\<lambda>caller.
           res_bind (repo_id_try_from repo) (\<lambda>r.
             case get_owner r rows of
               Some (Some owner) \<Rightarrow>
                 if subject_str owner = caller then Inr () else Inl (Forbidden ''not the repo owner'')
             | _ \<Rightarrow> Inl (Forbidden ''repo is admin-owned or unregistered''))))"

section \<open>Lemmas\<close>

text \<open>The invariant of the table: ids are distinct (the primary key), and the columns hold what typed values
  put there.\<close>

definition repos_inv :: "repos_row list \<Rightarrow> bool" where
  "repos_inv rows = (distinct (map rr_id rows)
     \<and> (\<forall>row\<in>set rows. repo_id_ok (rr_id row)
          \<and> (case rr_owner row of None \<Rightarrow> True | Some s \<Rightarrow> subject_try_from s = Inr (Subject s))))"

definition subject_ok :: "subject \<Rightarrow> bool" where
  "subject_ok s = (subject_try_from (subject_str s) = Inr s)"

lemma repos_inv_filter: "repos_inv rows \<Longrightarrow> repos_inv (filter P rows)"
  by (auto simp: repos_inv_def intro: distinct_map_filter)

lemma record_owner_inv:
  assumes "repos_inv rows" "repo_id_ok (repo_str repo)" "pred_option subject_ok owner"
  shows "repos_inv (record_owner now repo owner rows)"
  using repos_inv_filter [OF assms(1), of "\<lambda>row. rr_id row \<noteq> repo_str repo"] assms(2,3)
  by (cases owner) (auto simp: record_owner_def repos_inv_def subject_ok_def subject_try_from_iff)

text \<open>The abstract state of the table: the owner of each repo.\<close>

definition owners :: "repos_row list \<Rightarrow> repo_id \<rightharpoonup> subject option" where
  "owners rows = (\<lambda>r. get_owner r rows)"

lemma owner_of_subject: "subject_ok s \<Longrightarrow> owner_of_column (Some (subject_str s)) = Some s"
  by (simp add: owner_of_column_def subject_ok_def)

lemma find_append_repo: "find P (xs @ ys) = (case find P xs of None \<Rightarrow> find P ys | Some x \<Rightarrow> Some x)"
  by (induction xs) auto

lemma find_filter_other: "\<forall>x. P x \<longrightarrow> Q x \<Longrightarrow> find P (filter Q xs) = find P xs"
  by (induction xs) auto

lemma find_filter_none: "\<forall>x. P x \<longrightarrow> \<not> Q x \<Longrightarrow> find P (filter Q xs) = None"
  by (auto simp: find_None_iff)

lemma owners_record:
  "pred_option subject_ok owner \<Longrightarrow> owners (record_owner now repo owner rows) = (owners rows)(repo \<mapsto> owner)"
proof
  fix r
  assume ok: "pred_option subject_ok owner"
  show "owners (record_owner now repo owner rows) r = ((owners rows)(repo \<mapsto> owner)) r"
  proof (cases "r = repo")
    case True
    have "owner_of_column (map_option subject_str owner) = owner"
      using ok by (cases owner) (simp_all add: owner_of_subject, simp add: owner_of_column_def)
    with True show ?thesis
      by (simp add: owners_def get_owner_def record_owner_def find_append_repo find_filter_none)
  next
    case False
    then have "repo_str r \<noteq> repo_str repo" by (metis repo_id.expand)
    with False show ?thesis
      by (simp add: owners_def get_owner_def record_owner_def find_append_repo find_filter_other split: option.split)
  qed
qed

lemma owners_delete: "owners (owner_delete repo rows) = (owners rows)(repo := None)"
proof
  fix r
  show "owners (owner_delete repo rows) r = ((owners rows)(repo := None)) r"
  proof (cases "r = repo")
    case True
    then show ?thesis by (simp add: owners_def get_owner_def owner_delete_def find_filter_none)
  next
    case False
    then have "repo_str r \<noteq> repo_str repo" by (metis repo_id.expand)
    with False show ?thesis by (simp add: owners_def get_owner_def owner_delete_def find_filter_other)
  qed
qed


section \<open>The defaults of the trait\<close>

text \<open>\<open>OwnershipStore\<close> gives \<open>list_paginated\<close>, \<open>list_paginated_by_owner\<close> and \<open>count_all\<close> bodies of their own, over
  the listings; the SQLite store overrides them.\<close>

definition page_of :: "nat \<Rightarrow> nat \<Rightarrow> 'a list \<Rightarrow> 'a list" where
  "page_of limit offset all =
     (if offset \<ge> length all then []
      else let end = min (offset + limit) (length all) in take (end - offset) (drop offset all))"

definition default_count_all :: "repos_row list \<Rightarrow> nat" where
  "default_count_all rows = length (list_all_repos rows)"

lemma page_of_eq: "page_of limit offset xs = take limit (drop offset xs)"
  by (simp add: page_of_def Let_def min_def)

lemma map_filter_total: "\<forall>x\<in>set xs. f x \<noteq> None \<Longrightarrow> List.map_filter f xs = map (\<lambda>x. the (f x)) xs"
  by (induction xs) (auto simp: List.map_filter_simps)

lemma row_total: "repos_inv rows \<Longrightarrow> row \<in> set rows \<Longrightarrow> row_to_repo_row row \<noteq> None"
  by (auto simp: repos_inv_def row_to_repo_row_def dest!: repo_id_try_from_Inl split: sum.split)

lemma set_newest [simp]: "set (newest_first rows) = set rows"
  by (simp add: newest_first_def)

section \<open>Histories\<close>

datatype owner_op = Record int repo_id "subject option" | Forget repo_id

fun owner_step :: "owner_op \<Rightarrow> repos_row list \<Rightarrow> repos_row list" where
  "owner_step (Record now r owner) rows = record_owner now r owner rows"
| "owner_step (Forget r) rows = owner_delete r rows"

fun owner_spec :: "owner_op \<Rightarrow> (repo_id \<rightharpoonup> subject option) \<Rightarrow> (repo_id \<rightharpoonup> subject option)" where
  "owner_spec (Record now r owner) m = m(r \<mapsto> owner)"
| "owner_spec (Forget r) m = m(r := None)"

fun owner_op_ok :: "owner_op \<Rightarrow> bool" where
  "owner_op_ok (Record now r owner) = (repo_id_ok (repo_str r) \<and> pred_option subject_ok owner)"
| "owner_op_ok (Forget r) = True"

lemma run_owners:
  "list_all owner_op_ok ops \<Longrightarrow> owners (fold owner_step ops rows) = fold owner_spec ops (owners rows)"
proof (induction ops arbitrary: rows)
  case (Cons op ops)
  then have "owners (owner_step op rows) = owner_spec op (owners rows)"
    by (cases op) (simp_all add: owners_record owners_delete)
  with Cons show ?case by simp
qed simp

lemma enforce_owner_iff:
  "enforce_owner p repo rows = Inr () \<longleftrightarrow>
     p = Admin \<or> (\<exists>s r. p = User s \<and> repo_id_try_from repo = Inr r \<and> owners rows r = Some (Some (Subject s)))"
proof (cases p)
  case (User s)
  have "(case x of Some (Some owner) \<Rightarrow> if subject_str owner = s then Inr () else Inl e | _ \<Rightarrow> Inl e') = Inr ()
      \<longleftrightarrow> x = Some (Some (Subject s))" for x :: "subject option option" and e e' :: error
    by (auto split: option.splits intro: subject.expand)
  then show ?thesis
    using User by (simp add: enforce_owner_def principal_subject_def res_bind_Inr_iff owners_def)
qed (simp add: enforce_owner_def)

section \<open>Properties\<close>

text \<open>A repo obeys its recorded owner. After any history of recordings and deletions, a caller passes
  \<open>enforce_owner\<close> iff it is the admin, or a user whose subject is the one that the last recording
  for that repo named, with no deletion since; repos without a record or recorded for the admin
  are closed to every user.\<close>

theorem enforce_owner_history:
  assumes "list_all owner_op_ok ops"
  shows "enforce_owner p repo (fold owner_step ops rows) = Inr () \<longleftrightarrow>
    p = Admin \<or> (\<exists>s r. p = User s \<and> repo_id_try_from repo = Inr r
      \<and> fold owner_spec ops (owners rows) r = Some (Some (Subject s)))"
  by (simp add: enforce_owner_iff run_owners [OF assms])

theorem enforce_owner_history_witness:
  "enforce_owner (User ''bob'') ''demo''
      (fold owner_step [Record 1 (RepoId ''demo'') (Some (Subject ''alice'')), Record 2 (RepoId ''demo'') (Some (Subject ''bob''))] [])
     = Inr ()
   \<and> enforce_owner (User ''alice'') ''demo''
      (fold owner_step [Record 1 (RepoId ''demo'') (Some (Subject ''alice'')), Record 2 (RepoId ''demo'') (Some (Subject ''bob''))] [])
     \<noteq> Inr ()"
proof -
  let ?ops = "[Record 1 (RepoId ''demo'') (Some (Subject ''alice'')), Record 2 (RepoId ''demo'') (Some (Subject ''bob''))]"
  have r: "repo_id_try_from ''demo'' = Inr (RepoId ''demo'')"
    by (simp add: repo_id_try_from_iff repo_id_ok_def is_lower_def)
  have "list_all owner_op_ok ?ops"
    by (simp add: subject_ok_def subject_try_from_def repo_id_ok_def is_lower_def)
  note h = enforce_owner_history [OF this, of _ "''demo''" "[]"]
  show ?thesis unfolding h by (simp add: r)
qed

text \<open>The SQL overrides are the defaults. On every table of well-formed rows the paged listings of the
  SQLite store are the slices that the trait's default bodies take from the full listings, and the
  count is the length of the listing.\<close>

theorem sql_pages_are_defaults:
  assumes "repos_inv rows"
  shows "list_paginated limit offset rows = page_of limit offset (list_all_repos rows)
    \<and> list_paginated_by_owner s limit offset rows = page_of limit offset (list_by_owner s rows)
    \<and> count_all rows = default_count_all rows"
proof -
  have tot: "List.map_filter row_to_repo_row xs = map (\<lambda>x. the (row_to_repo_row x)) xs" if "set xs \<subseteq> set rows" for xs
    using row_total [OF assms] that by (intro map_filter_total) blast
  have sub: "set (take limit (drop offset xs)) \<subseteq> set rows" if "set xs \<subseteq> set rows" for xs
    using that by (meson in_set_dropD in_set_takeD subsetD subsetI)
  have mine: "set (newest_first (filter P rows)) \<subseteq> set rows" for P by auto
  show ?thesis
    unfolding page_of_eq list_paginated_def list_paginated_by_owner_def list_all_repos_def list_by_owner_def
      count_all_def default_count_all_def
    by (simp add: tot sub mine take_map drop_map) (simp add: newest_first_def)
qed

theorem sql_pages_are_defaults_witness:
  "list_paginated 1 1 [\<lparr>rr_id = ''demo'', rr_owner = None, rr_created = 1\<rparr>, \<lparr>rr_id = ''repo'', rr_owner = None, rr_created = 2\<rparr>]
     = [\<lparr>ro_id = RepoId ''demo'', ro_owner = None, ro_created = 1\<rparr>]"
proof -
  have r: "repo_id_try_from ''demo'' = Inr (RepoId ''demo'')" "repo_id_try_from ''repo'' = Inr (RepoId ''repo'')"
    by (simp_all add: repo_id_try_from_iff repo_id_ok_def is_lower_def)
  have "repos_inv [\<lparr>rr_id = ''demo'', rr_owner = None, rr_created = 1\<rparr>, \<lparr>rr_id = ''repo'', rr_owner = None, rr_created = 2\<rparr>]"
    by (simp add: repos_inv_def repo_id_ok_def is_lower_def)
  from sql_pages_are_defaults [OF this, of 1 1] show ?thesis
    by (simp add: page_of_def list_all_repos_def newest_first_def row_to_repo_row_def r owner_of_column_def
        List.map_filter_simps)
qed

text \<open>A creation as the handlers do it: the quota check, then the recording.\<close>

definition guarded_create :: "nat \<Rightarrow> int \<Rightarrow> principal \<Rightarrow> repo_id \<Rightarrow> repos_row list \<Rightarrow> repos_row list" where
  "guarded_create limit now p repo rows =
     (case check_repo_quota p limit rows of
        Inl _ \<Rightarrow> rows
      | Inr _ \<Rightarrow> record_owner now repo (map_option Subject (principal_subject p)) rows)"

datatype quota_op = Create int principal repo_id | Remove repo_id

fun quota_step :: "nat \<Rightarrow> quota_op \<Rightarrow> repos_row list \<Rightarrow> repos_row list" where
  "quota_step limit (Create now p repo) rows = guarded_create limit now p repo rows"
| "quota_step limit (Remove repo) rows = owner_delete repo rows"

lemma count_filter_le: "count_by_owner s (filter P rows) \<le> count_by_owner s rows"
  by (induction rows) (auto simp: count_by_owner_def)

lemma quota_step_bound:
  assumes "\<And>s. count_by_owner s rows \<le> limit"
  shows "count_by_owner s (quota_step limit op rows) \<le> limit"
proof (cases op)
  case (Remove repo)
  have "count_by_owner s (owner_delete repo rows) \<le> count_by_owner s rows"
    unfolding owner_delete_def by (rule count_filter_le)
  then show ?thesis using Remove assms [of s] by simp
next
  case (Create now p repo)
  let ?kept = "filter (\<lambda>row. rr_id row \<noteq> repo_str repo) rows"
  have kept: "count_by_owner s ?kept \<le> limit" using assms count_filter_le le_trans by blast
  show ?thesis
  proof (cases p)
    case Admin
    then show ?thesis using Create kept
      by (simp add: guarded_create_def check_repo_quota_def record_owner_def principal_subject_def count_by_owner_def)
  next
    case (User u)
    show ?thesis
    proof (cases "check_repo_quota p limit rows")
      case (Inl e)
      then show ?thesis using Create assms by (simp add: guarded_create_def)
    next
      case (Inr x)
      then obtain w where "subject_try_from u = Inr w" "count_by_owner w rows < limit"
        using User by (auto simp: check_repo_quota_def principal_subject_def res_bind_def split: sum.splits if_splits)
      then have "count_by_owner (Subject u) rows < limit" by (simp add: subject_try_from_iff)
      then have "count_by_owner (Subject u) ?kept < limit" using count_filter_le le_less_trans by blast
      then show ?thesis using Create Inr User kept
        by (cases "subject_str s = u") (auto simp: guarded_create_def record_owner_def principal_subject_def count_by_owner_def)
    qed
  qed
qed

text \<open>Nobody exceeds the repo quota. Let every creation ask \<open>check_repo_quota\<close> and then record the new id
  for its caller, as the handlers do one after the other; then after any sequence of creations and
  deletions no user owns more repos than the limit.\<close>

theorem quota_never_exceeded:
  assumes "\<And>s. count_by_owner s rows \<le> limit"
  shows "count_by_owner s (fold (quota_step limit) ops rows) \<le> limit"
  using assms by (induction ops arbitrary: rows) (simp_all add: quota_step_bound)

theorem quota_never_exceeded_witness:
  "count_by_owner (Subject ''alice'')
     (fold (quota_step 1) [Create 1 (User ''alice'') (RepoId ''demo''), Create 2 (User ''alice'') (RepoId ''more'')] []) \<le> 1"
  by (rule quota_never_exceeded) (simp add: count_by_owner_def)

end
