(* ===== verification/RateLimit.thy ===== *)
theory RateLimit
  imports Complex_Main Auth
begin

text \<open>
  The token-bucket limiters: \<open>src/rate_limit.rs\<close>, keyed by subject and class, and
  \<open>src/ip_rate_limit.rs\<close>, keyed by address. Times are seconds of the monotonic clock; the \<open>f64\<close>
  arithmetic of the buckets is exact in the model (rational numbers), so what is proved holds up
  to rounding. A bucket map is a partial function.
\<close>

section \<open>Definitions\<close>

datatype limit_class = CCreate | CToken | CCommit | CDefault

record budget =
  bg_capacity :: nat
  bg_refill :: rat

definition per_min :: "nat \<Rightarrow> nat \<Rightarrow> budget" where
  "per_min capacity n = \<lparr>bg_capacity = capacity, bg_refill = of_nat n / 60\<rparr>"

definition default_budgets :: "limit_class \<Rightarrow> budget" where
  "default_budgets c =
     (case c of
        CCreate \<Rightarrow> per_min 20 10
      | CToken \<Rightarrow> per_min 120 120
      | CCommit \<Rightarrow> \<lparr>bg_capacity = 600, bg_refill = 10\<rparr>
      | CDefault \<Rightarrow> per_min 300 300)"

definition default_unauth :: budget where
  "default_unauth = \<lparr>bg_capacity = 60, bg_refill = 2\<rparr>"

record bucket =
  bk_tokens :: rat
  bk_last :: rat

text \<open>The refill and the decision, which the two limiters share; \<open>as_secs_f64\<close> of a duration is the
  difference of the instants, which saturates at zero.\<close>

definition refilled :: "budget \<Rightarrow> rat \<Rightarrow> bucket \<Rightarrow> bucket" where
  "refilled b now k =
     (let elapsed = max 0 (now - bk_last k)
      in \<lparr>bk_tokens = min (bk_tokens k + elapsed * bg_refill b) (of_nat (bg_capacity b)), bk_last = now\<rparr>)"

definition retry_secs :: "budget \<Rightarrow> rat \<Rightarrow> nat" where
  "retry_secs b tokens = max (nat \<lceil>(1 - tokens) / bg_refill b\<rceil>) 1"

definition bucket_check :: "budget \<Rightarrow> rat \<Rightarrow> bucket option \<Rightarrow> (error + unit) \<times> bucket" where
  "bucket_check b now entry =
     (let k = (case entry of None \<Rightarrow> \<lparr>bk_tokens = of_nat (bg_capacity b), bk_last = now\<rparr> | Some k \<Rightarrow> k);
          k = refilled b now k
      in if bk_tokens k < 1 then (Inl (RateLimited (retry_secs b (bk_tokens k))), k)
         else (Inr (), k\<lparr>bk_tokens := bk_tokens k - 1\<rparr>))"

type_synonym subject_buckets = "string \<times> limit_class \<rightharpoonup> bucket"

definition limiter_check ::
  "(limit_class \<Rightarrow> budget) \<Rightarrow> rat \<Rightarrow> principal \<Rightarrow> limit_class \<Rightarrow> subject_buckets \<Rightarrow> (error + unit) \<times> subject_buckets" where
  "limiter_check budgets now p c buckets =
     (case p of
        Admin \<Rightarrow> (Inr (), buckets)
      | User subject \<Rightarrow>
          (case bucket_check (budgets c) now (buckets (subject, c)) of
             (r, k) \<Rightarrow> (r, buckets((subject, c) \<mapsto> k))))"

definition ip_check :: "budget \<Rightarrow> rat \<Rightarrow> string \<Rightarrow> (string \<rightharpoonup> bucket) \<Rightarrow> (error + unit) \<times> (string \<rightharpoonup> bucket)" where
  "ip_check b now ip buckets =
     (case bucket_check b now (buckets ip) of (r, k) \<Rightarrow> (r, buckets(ip \<mapsto> k)))"

definition evict_stale :: "rat \<Rightarrow> rat \<Rightarrow> ('k \<rightharpoonup> bucket) \<Rightarrow> ('k \<rightharpoonup> bucket)" where
  "evict_stale now stale_after buckets =
     (\<lambda>key. case buckets key of None \<Rightarrow> None
        | Some k \<Rightarrow> if max 0 (now - bk_last k) < stale_after then Some k else None)"

section \<open>The potential of a bucket\<close>

text \<open>The tokens a key could spend at a time: what its bucket would hold after the refill, a full bucket
  when there is none.\<close>

definition potential :: "budget \<Rightarrow> bucket option \<Rightarrow> rat \<Rightarrow> rat" where
  "potential b entry t =
     (case entry of None \<Rightarrow> of_nat (bg_capacity b) | Some k \<Rightarrow> bk_tokens (refilled b t k))"

definition entry_ok :: "budget \<Rightarrow> bucket option \<Rightarrow> rat \<Rightarrow> bool" where
  "entry_ok b entry t = (case entry of None \<Rightarrow> True | Some k \<Rightarrow> bk_last k \<le> t \<and> 0 \<le> bk_tokens k)"

lemma potential_check:
  assumes "entry_ok b entry t" "bucket_check b t entry = (r, k)" "0 \<le> bg_refill b"
  shows "potential b (Some k) t = potential b entry t - of_bool (r = Inr ())" "entry_ok b (Some k) t"
    and "r = Inr () \<longleftrightarrow> 1 \<le> potential b entry t"
  using assms
  by (auto simp: bucket_check_def potential_def refilled_def entry_ok_def Let_def min_def max_def split: option.splits if_splits)

lemma potential_later:
  assumes "entry_ok b entry t" "t \<le> t'" "0 \<le> bg_refill b"
  shows "potential b entry t' \<le> potential b entry t + bg_refill b * (t' - t)" "entry_ok b entry t'"
proof -
  show "entry_ok b entry t'" using assms by (auto simp: entry_ok_def split: option.splits)
  have "0 \<le> bg_refill b * (t' - t)" using assms by simp
  then show "potential b entry t' \<le> potential b entry t + bg_refill b * (t' - t)"
    using assms by (auto simp: potential_def refilled_def entry_ok_def Let_def min_def max_def algebra_simps split: option.splits)
qed

lemma potential_evict:
  assumes "entry_ok b (buckets key) t" "of_nat (bg_capacity b) \<le> bg_refill b * stale" "0 \<le> bg_refill b"
  shows "potential b (evict_stale t stale buckets key) t = potential b (buckets key) t"
    "entry_ok b (evict_stale t stale buckets key) t"
proof -
  show "entry_ok b (evict_stale t stale buckets key) t"
    using assms(1) by (auto simp: evict_stale_def entry_ok_def split: option.splits)
  show "potential b (evict_stale t stale buckets key) t = potential b (buckets key) t"
  proof (cases "buckets key")
    case (Some k)
    show ?thesis
    proof (cases "max 0 (t - bk_last k) < stale")
      case False
      then have "bg_refill b * stale \<le> bg_refill b * max 0 (t - bk_last k)"
        using assms(3) by (intro mult_left_mono) auto
      moreover have "0 \<le> bk_tokens k" using assms(1) Some by (simp add: entry_ok_def)
      ultimately have "of_nat (bg_capacity b) \<le> bk_tokens k + max 0 (t - bk_last k) * bg_refill b"
        using assms(2) by (simp add: mult.commute)
      then show ?thesis using Some False by (simp add: evict_stale_def potential_def refilled_def Let_def)
    qed (simp add: evict_stale_def Some)
  qed (simp add: evict_stale_def)
qed

lemma potential_le: "potential b entry t \<le> of_nat (bg_capacity b)"
  by (simp add: potential_def refilled_def Let_def split: option.split)

section \<open>Histories\<close>

datatype limit_event = Request rat principal limit_class | Sweep rat rat

fun event_time :: "limit_event \<Rightarrow> rat" where
  "event_time (Request t _ _) = t"
| "event_time (Sweep t _) = t"

text \<open>The number of admitted requests of one user and class.\<close>

fun admitted :: "(limit_class \<Rightarrow> budget) \<Rightarrow> string \<Rightarrow> limit_class \<Rightarrow> limit_event list \<Rightarrow> subject_buckets \<Rightarrow> nat" where
  "admitted budgets s c [] buckets = 0"
| "admitted budgets s c (Request t p c' # es) buckets =
     (case limiter_check budgets t p c' buckets of
        (r, buckets') \<Rightarrow> of_bool (r = Inr () \<and> p = User s \<and> c' = c) + admitted budgets s c es buckets')"
| "admitted budgets s c (Sweep t stale # es) buckets = admitted budgets s c es (evict_stale t stale buckets)"

fun sweep_slow :: "budget \<Rightarrow> limit_event \<Rightarrow> bool" where
  "sweep_slow b (Sweep t stale) = (of_nat (bg_capacity b) \<le> bg_refill b * stale)"
| "sweep_slow b (Request _ _ _) = True"

lemma admitted_bound:
  assumes "0 \<le> bg_refill (budgets c)" "list_all (sweep_slow (budgets c)) es"
    and "entry_ok (budgets c) (buckets (s, c)) t" "sorted (t # map event_time es)"
    and "t_end = last (t # map event_time es)"
  shows "of_nat (admitted budgets s c es buckets)
    \<le> potential (budgets c) (buckets (s, c)) t + bg_refill (budgets c) * (t_end - t)"
  using assms(2-5)
proof (induction es arbitrary: buckets t)
  case Nil
  have "0 \<le> potential (budgets c) (buckets (s, c)) t"
    using Nil(2) assms(1) by (auto simp: potential_def refilled_def entry_ok_def Let_def split: option.splits)
  then show ?case using Nil by simp
next
  case (Cons ev es)
  let ?b = "budgets c" and ?t = "event_time ev"
  have le: "t \<le> ?t" and t_end: "t_end = last (?t # map event_time es)" using Cons.prems by auto
  have srt: "sorted (?t # map event_time es)" using Cons.prems(3) by simp
  have slow: "list_all (sweep_slow ?b) es" using Cons.prems(1) by simp
  note later = potential_later [OF Cons.prems(2) le assms(1)]
  have adv: "bg_refill ?b * (?t - t) + bg_refill ?b * (t_end - ?t) = bg_refill ?b * (t_end - t)"
    by (simp add: algebra_simps)
  show ?case
  proof (cases ev)
    case (Sweep t' stale)
    then have cap: "of_nat (bg_capacity ?b) \<le> bg_refill ?b * stale" using Cons.prems(1) by simp
    have t': "t' = ?t" using Sweep by simp
    note ev' = potential_evict [where buckets = buckets and key = "(s, c)" and b = "budgets c", OF later(2) cap assms(1)]
    from Cons.IH [of "evict_stale ?t stale buckets", OF slow ev'(2) srt t_end]
    have "of_nat (admitted budgets s c es (evict_stale ?t stale buckets))
        \<le> potential ?b (buckets (s, c)) ?t + bg_refill ?b * (t_end - ?t)"
      by (simp only: ev'(1))
    moreover have "admitted budgets s c (ev # es) buckets = admitted budgets s c es (evict_stale ?t stale buckets)"
      by (simp add: Sweep)
    ultimately show ?thesis using later(1) adv by (simp only:)
  next
    case (Request t' p c')
    then have t': "t' = ?t" by simp
    obtain r buckets' where l: "limiter_check budgets ?t p c' buckets = (r, buckets')"
      by (cases "limiter_check budgets ?t p c' buckets")
    then have l': "limiter_check budgets t' p c' buckets = (r, buckets')" by (simp only: t')
    show ?thesis
    proof (cases "p = User s \<and> c' = c")
      case True
      obtain k where k: "bucket_check ?b ?t (buckets (s, c)) = (r, k)" "buckets' = buckets((s, c) \<mapsto> k)"
        using l True by (auto simp: limiter_check_def split: prod.splits)
      note ck = potential_check [OF later(2) k(1) assms(1)]
      have ok: "entry_ok ?b (buckets' (s, c)) ?t" using ck(2) k(2) by simp
      have sk: "buckets' (s, c) = Some k" by (simp add: k(2))
      have "of_nat (admitted budgets s c es buckets') \<le> potential ?b (Some k) ?t + bg_refill ?b * (t_end - ?t)"
        using Cons.IH [of buckets', OF slow ok srt t_end] by (simp only: sk)
      moreover have "admitted budgets s c (ev # es) buckets = of_bool (r = Inr ()) + admitted budgets s c es buckets'"
        using l' True by (simp add: Request)
      ultimately show ?thesis
        using ck(1) later(1) adv by (simp only: of_nat_add of_nat_of_bool)
    next
      case False
      then have same: "buckets' (s, c) = buckets (s, c)"
        using l by (auto simp: limiter_check_def split: principal.splits prod.splits)
      have ok: "entry_ok ?b (buckets' (s, c)) ?t" using later(2) same by simp
      from Cons.IH [of buckets', OF slow ok srt t_end]
      have "of_nat (admitted budgets s c es buckets') \<le> potential ?b (buckets (s, c)) ?t + bg_refill ?b * (t_end - ?t)"
        by (simp only: same)
      moreover have "admitted budgets s c (ev # es) buckets = admitted budgets s c es buckets'"
        using l' False by (simp add: Request)
      ultimately show ?thesis using later(1) adv by (simp only:)
    qed
  qed
qed

section \<open>Properties\<close>


text \<open>The shipped budgets with the hourly staleness of the cleanup task.\<close>

lemma default_sweeps_slow: "sweep_slow (default_budgets c) (Sweep t 3600)"
  by (cases c) (simp_all add: default_budgets_def per_min_def)


text \<open>Retry-After is honest. A refused caller that waits the number of seconds it was told, with no other
  request on its bucket in between, is admitted.\<close>

theorem retry_after_suffices:
  assumes "bucket_check b now entry = (Inl (RateLimited n), k)"
    and "0 < bg_refill b" "1 \<le> bg_capacity b" "entry_ok b entry now" "now + of_nat n \<le> t"
  shows "fst (bucket_check b t (Some k)) = Inr ()"
proof -
  let ?x = "bk_tokens k"
  have k: "bk_last k = now" "n = retry_secs b ?x"
    using assms(1) by (auto simp: bucket_check_def Let_def refilled_def split: if_splits option.splits)
  have ok: "entry_ok b (Some k) now" using potential_check(2) [OF assms(4,1)] assms(2) by simp
  have "(1 - ?x) / bg_refill b \<le> of_int \<lceil>(1 - ?x) / bg_refill b\<rceil>" by (rule le_of_int_ceiling)
  also have "\<dots> \<le> of_nat n"
  proof -
    have "\<lceil>(1 - ?x) / bg_refill b\<rceil> \<le> int n" unfolding k(2) retry_secs_def by simp
    then show ?thesis by (metis of_int_le_iff of_int_of_nat_eq)
  qed
  finally have "(1 - ?x) / bg_refill b \<le> t - now" using assms(5) by linarith
  then have "1 - ?x \<le> (t - now) * bg_refill b" using assms(2) by (simp add: pos_divide_le_eq)
  then have "1 \<le> potential b (Some k) t"
    using assms(3,5) k(1) by (simp add: potential_def refilled_def Let_def max_def)
  moreover have "entry_ok b (Some k) t" using ok assms(5) by (auto simp: entry_ok_def)
  ultimately show ?thesis
    using potential_check(3) [of b "Some k" t "fst (bucket_check b t (Some k))" "snd (bucket_check b t (Some k))"] assms(2)
    by simp
qed

theorem retry_after_suffices_witness:
  "\<exists>k. bucket_check default_unauth 10 (Some \<lparr>bk_tokens = 0, bk_last = 10\<rparr>) = (Inl (RateLimited 1), k)
     \<and> fst (bucket_check default_unauth 11 (Some k)) = Inr ()"
proof -
  obtain k where k: "bucket_check default_unauth 10 (Some \<lparr>bk_tokens = 0, bk_last = 10\<rparr>) = (Inl (RateLimited 1), k)"
  proof -
    have "\<lceil>1 / 2 :: rat\<rceil> = 1" by (simp add: ceiling_eq_iff)
    then show thesis
      using that by (simp add: bucket_check_def refilled_def default_unauth_def retry_secs_def Let_def)
  qed
  have "entry_ok default_unauth (Some \<lparr>bk_tokens = 0, bk_last = 10\<rparr>) 10" by (simp add: entry_ok_def)
  from retry_after_suffices [OF k _ _ this, of 11] k show ?thesis by (simp add: default_unauth_def)
qed

end
