(* ===== verification/SmartHttp.thy ===== *)
theory SmartHttp
  imports V2Response Auth
begin

text \<open>
  The smart-HTTP endpoints of \<open>src/smart_http.rs\<close>: routing and authorization, the v2 advertisement,
  the dispatch between the native paths and the \<open>git\<close> program, and the native push with its
  connectivity gate and its report. The process runner, the ref store, the pack generator and the
  object store's \<open>ingest_pack\<close> are parameters over a world \<open>'g\<close>. Where the source interpolates an
  error or a debug rendering into a text, \<open>display\<close> renders the error and the debug quotes are left
  out.
\<close>

section \<open>Definitions\<close>

subsection \<open>Requests\<close>

text \<open>A request as the handler sees it: the two headers it reads, the method, the query and the body, which is
  an error if it cannot be read or is larger than 1 GiB.\<close>

record git_request =
  rq_auth :: header
  rq_protocol :: header
  rq_method :: string
  rq_query :: "string option"
  rq_body :: "error + u8 list"

definition required_scope :: "string \<Rightarrow> string \<Rightarrow> string option \<Rightarrow> scope" where
  "required_scope method rest query =
     (if ends_with ''git-receive-pack'' rest \<and> method = ''POST'' then Write
      else if ends_with ''info/refs'' rest \<and>
          (case query of Some q \<Rightarrow> contains_str ''service=git-receive-pack'' q | None \<Rightarrow> False)
      then Write
      else Read)"

fun service_of :: "string list \<Rightarrow> error + string" where
  "service_of [] = Inl (BadRequest (BadOther ''missing ?service=... on info/refs''))"
| "service_of (kv # kvs) =
     (case strip_prefix ''service='' kv of
        None \<Rightarrow> service_of kvs
      | Some v \<Rightarrow>
          if v = ''git-upload-pack'' \<or> v = ''git-receive-pack'' then Inr v
          else Inl (BadRequest (BadOther (''unsupported service '' @ v))))"

definition service_from_query :: "string \<Rightarrow> error + string" where
  "service_from_query query = service_of (split_char CHR ''&'' query)"

text \<open>\<open>v.split([':', ','])\<close>.\<close>

definition split_protocol :: "string \<Rightarrow> string list" where
  "split_protocol v = split_char CHR '':'' (map (\<lambda>c. if c = CHR '','' then CHR '':'' else c) v)"

definition wants_v2 :: "header \<Rightarrow> bool" where
  "wants_v2 h =
     (case header_text h of None \<Rightarrow> False | Some v \<Rightarrow> list_ex (\<lambda>s. trim s = ''version=2'') (split_protocol v))"

subsection \<open>info/refs\<close>

text \<open>\<open>pkt_line\<close> of this module, on text; in a release build the payload is cut at the cap.\<close>

definition pkt_line_str :: "string \<Rightarrow> string" where
  "pkt_line_str payload =
     (let truncated = (if length payload > PKT_LINE_MAX_PAYLOAD then take PKT_LINE_MAX_PAYLOAD payload else payload)
      in fmt_04x (length truncated + 4) @ truncated)"

definition native_v2_info_refs :: "string \<Rightarrow> wire_response" where
  "native_v2_info_refs service =
     \<lparr>wr_type = ''application/x-'' @ service @ ''-advertisement'',
      wr_body = as_bytes (pkt_line_str (''# service='' @ service @ [newline])) @ as_bytes ''0000''
        @ as_bytes (pkt_line_str (''version 2'' @ [newline]))
        @ as_bytes (pkt_line_str (''agent=artifacts/0.0.1'' @ [newline]))
        @ as_bytes (pkt_line_str (''ls-refs=unborn'' @ [newline]))
        @ as_bytes (pkt_line_str (''fetch=shallow'' @ [newline]))
        @ as_bytes (pkt_line_str (''object-format=sha1'' @ [newline]))
        @ as_bytes ''0000''\<rparr>"

definition info_refs :: "'g git \<Rightarrow> string \<Rightarrow> string \<Rightarrow> header \<Rightarrow> bool \<Rightarrow> 'g \<Rightarrow> (error + wire_response) \<times> 'g" where
  "info_refs git repo_path service protocol force_subprocess g =
     (if \<not> force_subprocess \<and> wants_v2 protocol then (Inr (native_v2_info_refs service), g)
      else let sub = the (strip_prefix ''git-'' service) in
        case git (pack_handler_advertise repo_path sub (header_text protocol)) None g of
          (Inl e, g') \<Rightarrow> (Inl e, g')
        | (Inr (rc, out, err), g') \<Rightarrow>
            if rc \<noteq> 0
            then (Inl (Other (''git '' @ sub @ '' --advertise-refs failed: '' @ trim (from_utf8_lossy err))), g')
            else (Inr \<lparr>wr_type = ''application/x-'' @ service @ ''-advertisement'',
                       wr_body = as_bytes (pkt_line_str (''# service='' @ service @ [newline])) @ as_bytes ''0000'' @ out\<rparr>,
                  g'))"

subsection \<open>The native push\<close>

text \<open>The dependencies of a push, over the world.\<close>

record 'g push_env =
  pe_update :: "repo_id \<Rightarrow> ref_name \<Rightarrow> oid option \<Rightarrow> oid \<Rightarrow> 'g \<Rightarrow> error + cas_outcome \<times> 'g"
  pe_delete :: "repo_id \<Rightarrow> ref_name \<Rightarrow> oid option \<Rightarrow> 'g \<Rightarrow> error + cas_outcome \<times> 'g"
  pe_ingest :: "repo_id \<Rightarrow> u8 list \<Rightarrow> 'g \<Rightarrow> (error + nat) \<times> 'g"
  pe_git :: "'g git"
  pe_display :: "error \<Rightarrow> string"
  pe_native_index :: "string option"

definition unpack_objects_via_subprocess :: "'g git \<Rightarrow> string \<Rightarrow> u8 list \<Rightarrow> 'g \<Rightarrow> (error + unit) \<times> 'g" where
  "unpack_objects_via_subprocess git repo_path pack g =
     (case git (unpack_objects repo_path) (Some pack) g of
        (Inl e, g') \<Rightarrow> (Inl e, g')
      | (Inr (rc, _, err), g') \<Rightarrow>
          if rc \<noteq> 0 then (Inl (Other (''unpack-objects failed: '' @ trim (from_utf8_lossy err))), g')
          else (Inr (), g'))"

definition apply_ref_update :: "'g push_env \<Rightarrow> string \<Rightarrow> ref_update \<Rightarrow> 'g \<Rightarrow> (string + unit) \<times> 'g" where
  "apply_ref_update env repo u g =
     (case repo_id_try_from repo of
        Inl e \<Rightarrow> (Inl (''invalid repo id: '' @ pe_display env e), g)
      | Inr r \<Rightarrow>
     (case ref_name_try_from (ru_name u) of
        Inl e \<Rightarrow> (Inl (''invalid ref name: '' @ pe_display env e), g)
      | Inr n \<Rightarrow>
     (case oid_try_from (ru_old u) of
        Inl e \<Rightarrow> (Inl (''invalid old oid: '' @ pe_display env e), g)
      | Inr old \<Rightarrow>
     (case oid_try_from (ru_new u) of
        Inl e \<Rightarrow> (Inl (''invalid new oid: '' @ pe_display env e), g)
      | Inr new_oid \<Rightarrow>
          let outcome =
            (if is_delete u then pe_delete env r n (Some old) g
             else let expected = (if is_create u then None else Some old) in pe_update env r n expected new_oid g)
          in case outcome of
               Inr (Updated, g') \<Rightarrow> (Inr (), g')
             | Inr (Conflict _, g') \<Rightarrow> (Inl ''non-fast-forward'', g')
             | Inl e \<Rightarrow> (Inl (''error '' @ pe_display env e), g)))))"

text \<open>Unpacking: nothing for an empty pack, the native indexer with its fallback where the variable asks for
  it, \<open>git unpack-objects\<close> otherwise.\<close>

definition prefer_native_index :: "string option \<Rightarrow> bool" where
  "prefer_native_index v = (case v of None \<Rightarrow> False | Some s \<Rightarrow> s \<noteq> [] \<and> s \<noteq> ''0'')"

definition unpack_push :: "'g push_env \<Rightarrow> string \<Rightarrow> string \<Rightarrow> u8 list \<Rightarrow> 'g \<Rightarrow> (error + string + unit) \<times> 'g" where
  "unpack_push env repo_path repo pack g =
     (let by_git = (\<lambda>g. case unpack_objects_via_subprocess (pe_git env) repo_path pack g of
                          (Inl e, g') \<Rightarrow> (Inr (Inl (pe_display env e)), g')
                        | (Inr _, g') \<Rightarrow> (Inr (Inr ()), g'))
      in if pack = [] then (Inr (Inr ()), g)
         else if prefer_native_index (pe_native_index env)
         then (case repo_id_try_from repo of
                 Inl e \<Rightarrow> (Inl e, g)
               | Inr r \<Rightarrow>
                   (case pe_ingest env r pack g of
                      (Inr _, g') \<Rightarrow> (Inr (Inr ()), g')
                    | (Inl _, g') \<Rightarrow> by_git g'))
         else by_git g)"

definition check_connectivity :: "'g push_env \<Rightarrow> string \<Rightarrow> ref_update list \<Rightarrow> 'g \<Rightarrow> (string + unit) \<times> 'g" where
  "check_connectivity env repo_path updates g =
     (let new_tips = map ru_new (filter (\<lambda>u. \<not> is_delete u) updates)
      in if new_tips = [] then (Inr (), g)
         else (case rev_list_check_connected (pe_git env) repo_path new_tips g of
                 (Inr (rc, stderr), g') \<Rightarrow>
                   if rc = 0 then (Inr (), g')
                   else (Inl (''rev-list exited '' @ fmt_int rc @ '': '' @ trim (from_utf8_lossy stderr)), g')
               | (Inl e, g') \<Rightarrow> (Inl (''connectivity check could not run: '' @ pe_display env e), g')))"

definition update_line :: "ref_update \<Rightarrow> string + unit \<Rightarrow> string" where
  "update_line u res =
     (case res of
        Inr _ \<Rightarrow> ''ok '' @ ru_name u @ [newline]
      | Inl reason \<Rightarrow> ''ng '' @ ru_name u @ '' '' @ reason @ [newline])"

text \<open>The loop over the updates: each is applied and reported in turn.\<close>

fun push_updates :: "'g push_env \<Rightarrow> string \<Rightarrow> ref_update list \<Rightarrow> u8 list \<Rightarrow> 'g \<Rightarrow> u8 list \<times> 'g" where
  "push_updates env repo [] report g = (report, g)"
| "push_updates env repo (u # us) report g =
     (case apply_ref_update env repo u g of
        (res, g') \<Rightarrow> push_updates env repo us (write_data report (as_bytes (update_line u res))) g')"

definition report_all :: "string \<Rightarrow> ref_update list \<Rightarrow> u8 list \<Rightarrow> u8 list" where
  "report_all reason us report =
     fold (\<lambda>u report. write_data report (as_bytes (update_line u (Inl reason)))) us report"

definition push_report ::
  "'g push_env \<Rightarrow> string \<Rightarrow> string \<Rightarrow> receive_pack_request \<Rightarrow> string + unit \<Rightarrow> 'g \<Rightarrow> u8 list \<times> 'g" where
  "push_report env repo_path repo req unpacked g =
     (case unpacked of
        Inl msg \<Rightarrow>
          (write_flush (report_all ''unpacker error'' (rp_updates req)
             (write_data [] (as_bytes (''unpack '' @ msg @ [newline])))), g)
      | Inr _ \<Rightarrow>
          let report = write_data [] (as_bytes (''unpack ok'' @ [newline])) in
          case check_connectivity env repo_path (rp_updates req) g of
            (Inl detail, g') \<Rightarrow> (write_flush (report_all ''missing necessary objects'' (rp_updates req) report), g')
          | (Inr _, g') \<Rightarrow>
              (case push_updates env repo (rp_updates req) report g' of (report, g'') \<Rightarrow> (write_flush report, g'')))"

definition native_receive_pack_response ::
  "'g push_env \<Rightarrow> string \<Rightarrow> string \<Rightarrow> receive_pack_request \<Rightarrow> 'g \<Rightarrow> (error + wire_response) \<times> 'g" where
  "native_receive_pack_response env repo_path repo req g =
     (case unpack_push env repo_path repo (rp_pack req) g of
        (Inl e, g') \<Rightarrow> (Inl e, g')
      | (Inr unpacked, g') \<Rightarrow>
          (case push_report env repo_path repo req unpacked g' of
             (report, g'') \<Rightarrow>
               (Inr \<lparr>wr_type = ''application/x-git-receive-pack-result'',
                     wr_body = (if rp_sideband_64k req then write_flush (write_band_data [] report) else report)\<rparr>, g'')))"

subsection \<open>The pack endpoints and the router\<close>

record 'g git_env =
  ge_push :: "'g push_env"
  ge_read_head :: "repo_id \<Rightarrow> 'g \<Rightarrow> error + head_state"
  ge_list :: "repo_id \<Rightarrow> string list \<Rightarrow> 'g \<Rightarrow> error + ref_entry list"
  ge_generate :: "string \<Rightarrow> string list \<Rightarrow> string list \<Rightarrow> 'g \<Rightarrow> error + u8 list"
  ge_b64 :: "string \<Rightarrow> u8 list option"
  ge_lookup :: "token \<Rightarrow> 'g \<Rightarrow> error + token_record option"
  ge_is_dir :: "string \<Rightarrow> 'g \<Rightarrow> bool"
  ge_quota :: "string \<Rightarrow> 'g \<Rightarrow> error + unit"
  ge_repos_dir :: string
  ge_disable_native :: bool

definition pack_handler_subprocess ::
  "'g git \<Rightarrow> string \<Rightarrow> string \<Rightarrow> header \<Rightarrow> u8 list \<Rightarrow> 'g \<Rightarrow> (error + wire_response) \<times> 'g" where
  "pack_handler_subprocess git repo_path sub protocol body g =
     (case git (pack_handler_serve repo_path sub (header_text protocol)) (Some body) g of
        (Inl e, g') \<Rightarrow> (Inl e, g')
      | (Inr (rc, out, err), g') \<Rightarrow>
          if rc \<noteq> 0 then (Inl (Other (''git '' @ sub @ '' failed: '' @ trim (from_utf8_lossy err))), g')
          else (Inr \<lparr>wr_type = ''application/x-git-'' @ sub @ ''-result'', wr_body = out\<rparr>, g'))"

definition pack_handler ::
  "'g git_env \<Rightarrow> string \<Rightarrow> string \<Rightarrow> git_request \<Rightarrow> string option \<Rightarrow> 'g \<Rightarrow> (error + wire_response) \<times> 'g" where
  "pack_handler env repo_path sub rq native g =
     (case rq_body rq of
        Inl e \<Rightarrow> (Inl e, g)
      | Inr body \<Rightarrow>
          let subprocess = pack_handler_subprocess (pe_git (ge_push env)) repo_path sub (rq_protocol rq) body g in
          case native of
            None \<Rightarrow> subprocess
          | Some repo \<Rightarrow>
              if sub = ''upload-pack'' then
                (case parse_ls_refs_only body of
                   Some args \<Rightarrow>
                     (native_ls_refs_response (\<lambda>r. ge_read_head env r g) (\<lambda>r ps. ge_list env r ps g) repo args, g)
                 | None \<Rightarrow>
                     (case parse_v2_fetch body of
                        Some req \<Rightarrow>
                          if fetch_is_simple req
                          then native_v2_fetch_response (\<lambda>p w h. ge_generate env p w h g) (pe_git (ge_push env)) repo_path req g
                          else subprocess
                      | None \<Rightarrow> subprocess))
              else if sub = ''receive-pack'' then
                (case parse_receive_pack_body body of
                   Some req \<Rightarrow>
                     if push_is_simple req then native_receive_pack_response (ge_push env) repo_path repo req g
                     else subprocess
                 | None \<Rightarrow> subprocess)
              else subprocess)"

definition repo_of_id :: "string \<Rightarrow> string" where
  "repo_of_id s = (if ends_with ''.git'' s then take (length s - 4) s else s)"

definition git_handler ::
  "'g git_env \<Rightarrow> string \<Rightarrow> string \<Rightarrow> git_request \<Rightarrow> 'g \<Rightarrow> (error + wire_response) \<times> 'g" where
  "git_handler env repo_arg rest rq g =
     (let repo = repo_of_id repo_arg in
      case validate_repo_id repo of
        Inl e \<Rightarrow> (Inl e, g)
      | Inr _ \<Rightarrow>
          let repo_path = ge_repos_dir env @ ''/'' @ repo @ ''.git'' in
          if \<not> ge_is_dir env repo_path g then (Inl (RepoNotFound repo), g)
          else let query = (case rq_query rq of None \<Rightarrow> [] | Some q \<Rightarrow> q);
                   scope = required_scope (rq_method rq) rest (Some query) in
            case authorize_git (ge_b64 env) (\<lambda>t. ge_lookup env t g) (rq_auth rq) repo scope of
              Inl e \<Rightarrow> (Inl e, g)
            | Inr _ \<Rightarrow>
                let native = (if ge_disable_native env then None else Some repo) in
                if rq_method rq = ''GET'' \<and> rest = ''info/refs'' then
                  (case service_from_query query of
                     Inl e \<Rightarrow> (Inl e, g)
                   | Inr service \<Rightarrow>
                       info_refs (pe_git (ge_push env)) repo_path service (rq_protocol rq) (ge_disable_native env) g)
                else if rq_method rq = ''POST'' \<and> rest = ''git-upload-pack'' then
                  pack_handler env repo_path ''upload-pack'' rq native g
                else if rq_method rq = ''POST'' \<and> rest = ''git-receive-pack'' then
                  (case ge_quota env repo g of
                     Inl e \<Rightarrow> (Inl e, g)
                   | Inr _ \<Rightarrow> pack_handler env repo_path ''receive-pack'' rq native g)
                else (Inl (BadRequest (BadOther (''unsupported git endpoint: '' @ rq_method rq @ '' /'' @ rest))), g))"

section \<open>What the client reads\<close>

definition cut :: "string \<Rightarrow> pkt_error + pkt_line" where
  "cut line = Inr (Data (take 65516 (as_bytes line)))"

lemma frame_cut: "frame_bytes (Data p) = frame_bytes (Data (take 65516 p))"
  by (auto simp: write_data_def Let_def PKT_LINE_MAX_PAYLOAD_def)

lemma drain_lines:
  "pkt_drain (pkt_iter_new (concat (map frame_bytes (map (\<lambda>l. Data (as_bytes l)) ls @ [Flush])))) = map cut ls @ [Inr Flush]"
proof -
  let ?fs = "map (\<lambda>l. Data (take 65516 (as_bytes l))) ls @ [Flush]"
  have "concat (map frame_bytes (map (\<lambda>l. Data (as_bytes l)) ls)) = concat (map frame_bytes (map (\<lambda>l. Data (take 65516 (as_bytes l))) ls))"
    by (induction ls) (simp_all add: frame_cut [of "as_bytes _"] del: frame_bytes.simps)
  then have e: "concat (map frame_bytes (map (\<lambda>l. Data (as_bytes l)) ls @ [Flush])) = concat (map frame_bytes ?fs)"
    by simp
  have "list_all frame_ok ?fs" by (simp add: list_all_iff PKT_LINE_MAX_PAYLOAD_def)
  from drain_frames [OF this] show ?thesis unfolding e by (simp add: cut_def)
qed

text \<open>The frames of the report, inside band 1 where the client asked for it.\<close>

definition report_frames :: "bool \<Rightarrow> u8 list \<Rightarrow> (pkt_error + pkt_line) list" where
  "report_frames sideband body =
     (if sideband then (case demux (pkt_drain (pkt_iter_new body)) of None \<Rightarrow> [] | Some report \<Rightarrow> pkt_drain (pkt_iter_new report))
      else pkt_drain (pkt_iter_new body))"

lemma report_frames_body:
  "report_frames sideband (if sideband then write_flush (write_band_data [] report) else report) = pkt_drain (pkt_iter_new report)"
  by (simp add: report_frames_def drain_bands demux_bands concat_chunks CHUNK_def PKT_LINE_MAX_PAYLOAD_def)

fun apply_all :: "'g push_env \<Rightarrow> string \<Rightarrow> ref_update list \<Rightarrow> 'g \<Rightarrow> (string + unit) list \<times> 'g" where
  "apply_all env repo [] g = ([], g)"
| "apply_all env repo (u # us) g =
     (case apply_ref_update env repo u g of
        (res, g') \<Rightarrow> (case apply_all env repo us g' of (ress, g'') \<Rightarrow> (res # ress, g'')))"

lemma push_updates_lines:
  assumes "apply_all env repo us g = (ress, g')"
  shows "push_updates env repo us report g
    = (report @ concat (map frame_bytes (map (\<lambda>l. Data (as_bytes l)) (map2 update_line us ress))), g')"
  using assms
proof (induction us arbitrary: report g ress)
  case (Cons u us)
  obtain res g1 where u: "apply_ref_update env repo u g = (res, g1)" by (cases "apply_ref_update env repo u g")
  obtain ress1 where us: "apply_all env repo us g1 = (ress1, g')" "ress = res # ress1"
    using Cons.prems u by (auto split: prod.splits)
  show ?case
    using Cons.IH [OF us(1)] by (simp add: u us(2) write_frame(1) del: frame_bytes.simps)
qed simp

lemma report_all_lines:
  "report_all reason us report
    = report @ concat (map frame_bytes (map (\<lambda>l. Data (as_bytes l)) (map (\<lambda>u. update_line u (Inl reason)) us)))"
  unfolding report_all_def fold_write_data by (simp add: comp_def)

lemma drain_report:
  "pkt_drain (pkt_iter_new (write_flush (write_data [] (as_bytes l) @ concat (map frame_bytes (map (\<lambda>l. Data (as_bytes l)) ls)))))
     = map cut (l # ls) @ [Inr Flush]"
  using drain_lines [of "l # ls"] by (simp only: write_frame list.map concat.simps append.assoc map_append concat_append append_Nil append_Nil2)

section \<open>Properties\<close>

text \<open>C1: A push moves no ref unless it unpacked and is connected, and its report says what happened. When the
  native push answers: if unpacking failed, or the closure of the new tips is incomplete, then the
  ref store was not touched and the report refuses every update; otherwise the updates were applied
  one by one in order and each line says \<open>ok\<close> or \<open>ng\<close> according to its own result. The client reads
  these lines (each cut at the frame cap), with or without the side band.\<close>

theorem push_gate_and_report:
  assumes "native_receive_pack_response env repo_path repo req g = (Inr resp, g'')"
  shows "\<exists>unpacked g'. unpack_push env repo_path repo (rp_pack req) g = (Inr unpacked, g') \<and>
    (let frames = report_frames (rp_sideband_64k req) (wr_body resp) in
     case unpacked of
       Inl msg \<Rightarrow> g'' = g' \<and> frames = map cut ((''unpack '' @ msg @ [newline])
         # map (\<lambda>u. update_line u (Inl ''unpacker error'')) (rp_updates req)) @ [Inr Flush]
     | Inr _ \<Rightarrow>
        (case check_connectivity env repo_path (rp_updates req) g' of
           (Inl _, g1) \<Rightarrow> g'' = g1 \<and> frames = map cut ((''unpack ok'' @ [newline])
             # map (\<lambda>u. update_line u (Inl ''missing necessary objects'')) (rp_updates req)) @ [Inr Flush]
         | (Inr _, g1) \<Rightarrow>
            (case apply_all env repo (rp_updates req) g1 of
               (ress, g2) \<Rightarrow> g'' = g2 \<and> frames = map cut ((''unpack ok'' @ [newline])
                 # map2 update_line (rp_updates req) ress) @ [Inr Flush])))"
proof -
  obtain unpacked g' report where u: "unpack_push env repo_path repo (rp_pack req) g = (Inr unpacked, g')"
    "push_report env repo_path repo req unpacked g' = (report, g'')"
    and body: "wr_body resp = (if rp_sideband_64k req then write_flush (write_band_data [] report) else report)"
    using assms by (auto simp: native_receive_pack_response_def split: prod.splits sum.splits)
  have fr: "report_frames (rp_sideband_64k req) (wr_body resp) = pkt_drain (pkt_iter_new report)"
    unfolding body by (rule report_frames_body)
  show ?thesis
  proof (cases unpacked)
    case (Inl msg)
    have r: "report = write_flush (report_all ''unpacker error'' (rp_updates req) (write_data [] (as_bytes (''unpack '' @ msg @ [newline]))))"
      "g'' = g'" using u(2) Inl by (simp_all add: push_report_def)
    show ?thesis
      using u(1) unfolding fr r report_all_lines drain_report Let_def Inl by simp
  next
    case (Inr x)
    obtain c g1 where c: "check_connectivity env repo_path (rp_updates req) g' = (c, g1)"
      by (cases "check_connectivity env repo_path (rp_updates req) g'")
    show ?thesis
    proof (cases c)
      case (Inl detail)
      have r: "report = write_flush (report_all ''missing necessary objects'' (rp_updates req) (write_data [] (as_bytes (''unpack ok'' @ [newline]))))"
        "g'' = g1" using u(2) Inr c Inl by (simp_all add: push_report_def Let_def)
      show ?thesis
        using u(1) c unfolding fr r report_all_lines drain_report Let_def Inr Inl by simp
    next
      case (Inr y)
      obtain ress g2 where a: "apply_all env repo (rp_updates req) g1 = (ress, g2)"
        by (cases "apply_all env repo (rp_updates req) g1")
      have r: "report = write_flush (write_data [] (as_bytes (''unpack ok'' @ [newline]))
          @ concat (map frame_bytes (map (\<lambda>l. Data (as_bytes l)) (map2 update_line (rp_updates req) ress))))" "g'' = g2"
        using u(2) \<open>unpacked = Inr x\<close> c Inr push_updates_lines [OF a]
        by (simp_all add: push_report_def Let_def)
      show ?thesis
        using u(1) c a unfolding fr r drain_report Let_def Inr \<open>unpacked = Inr x\<close> by simp
    qed
  qed
qed

definition sample_push_env :: "(ref_key \<rightharpoonup> oid) push_env" where
  "sample_push_env = \<lparr>pe_update = fs_cas_update mini_git, pe_delete = fs_cas_delete mini_git,
     pe_ingest = (\<lambda>_ _ g. (Inr 0, g)), pe_git = (\<lambda>_ _ g. (Inr (0, [], []), g)), pe_display = (\<lambda>_. ''error''),
     pe_native_index = None\<rparr>"

lemma hex_a_value: "oid_ok hex_a" "ref_value (Oid hex_a)" "hex_a \<noteq> ref_update_ZERO"
proof -
  show "oid_ok hex_a"
    by (simp add: oid_ok_def hex_a_def list_all_iff is_hexdigit_def is_upper_def hex_val_def Let_def)
  then show "ref_value (Oid hex_a)"
    by (simp add: ref_value_def zero_oid_def ZERO_SHA_def hex_a_def)
  show "hex_a \<noteq> ref_update_ZERO" by (simp add: hex_a_def ref_update_ZERO_def numeral_eq_Suc)
qed

lemma main_ref_name: "ref_name_try_from ''refs/heads/main'' = Inr default_head"
proof -
  have "valid_ref_name ''refs/heads/main''" by code_simp
  then show ?thesis by (simp add: ref_name_try_from_iff default_head_def)
qed

lemma demo_repo: "repo_id_try_from ''demo'' = Inr (RepoId ''demo'')"
  by (simp add: repo_id_try_from_iff repo_id_ok_def is_lower_def)

theorem push_gate_and_report_witness:
  "\<exists>resp. native_receive_pack_response sample_push_env ''/srv/demo.git'' ''demo'' sample_push_request Map.empty = (Inr resp, Map.empty)
     \<and> report_frames False (wr_body resp)
       = map cut [''unpack ok'' @ [newline], ''ng refs/heads/main non-fast-forward'' @ [newline]] @ [Inr Flush]"
proof -
  let ?u = "\<lparr>ru_old = hex_a, ru_new = hex_a, ru_name = ''refs/heads/main''\<rparr>"
  have m: "ref_store (fs_ref_read mini_git) (fs_cas_update mini_git) (fs_cas_delete mini_git) mini_refs (\<lambda>_. True)
      (\<lambda>n. starts_with ''refs/'' (ref_str n)) ref_value"
    by (rule fs_ref_store [OF mini_git_ok])
  have "\<exists>c. fs_cas_update mini_git (RepoId ''demo'') default_head (Some (Oid hex_a)) (Oid hex_a) Map.empty = Inr (Conflict c, Map.empty)"
    by (simp add: fs_cas_update_def mini_git_def mini_refs_def hex_a_def ZERO_SHA_def starts_with_def)
  then have apply_u: "apply_ref_update sample_push_env ''demo'' ?u Map.empty = (Inl ''non-fast-forward'', Map.empty)"
    using hex_a_value by (auto simp: apply_ref_update_def demo_repo main_ref_name oid_try_from_def is_delete_def is_create_def
        sample_push_env_def)
  have up: "unpack_push sample_push_env ''/srv/demo.git'' ''demo'' (rp_pack sample_push_request) Map.empty = (Inr (Inr ()), Map.empty)"
    by (simp add: unpack_push_def sample_push_env_def sample_push_request_def prefer_native_index_def
        unpack_objects_via_subprocess_def Let_def)
  have con: "check_connectivity sample_push_env ''/srv/demo.git'' (rp_updates sample_push_request) Map.empty = (Inr (), Map.empty)"
    by (simp add: check_connectivity_def sample_push_env_def rev_list_check_connected_def Let_def)
  have all: "apply_all sample_push_env ''demo'' (rp_updates sample_push_request) Map.empty = ([Inl ''non-fast-forward''], Map.empty)"
    by (simp add: sample_push_request_def apply_u)
  obtain resp g'' where r: "native_receive_pack_response sample_push_env ''/srv/demo.git'' ''demo'' sample_push_request Map.empty = (Inr resp, g'')"
    by (cases "push_report sample_push_env ''/srv/demo.git'' ''demo'' sample_push_request (Inr ()) Map.empty")
      (auto simp: native_receive_pack_response_def up)
  note p = push_gate_and_report [OF r]
  have "g'' = Map.empty \<and> report_frames (rp_sideband_64k sample_push_request) (wr_body resp)
      = map cut ((''unpack ok'' @ [newline]) # map2 update_line (rp_updates sample_push_request) [Inl ''non-fast-forward'']) @ [Inr Flush]"
    using p unfolding up Let_def by (auto simp only: prod.inject sum.inject con all prod.case sum.case)
  with r show ?thesis by (simp add: sample_push_request_def update_line_def)
qed



section \<open>Who may push\<close>

lemma split_char_infix: "p \<in> set (split_char d s) \<Longrightarrow> \<exists>a b. s = a @ p @ b"
proof (induction s arbitrary: p)
  case (Cons c s)
  show ?case
  proof (cases "c = d")
    case True
    with Cons.prems consider "p = []" | "p \<in> set (split_char d s)" by auto
    then show ?thesis
    proof cases
      case 1
      then have "c # s = [] @ p @ (c # s)" by simp
      then show ?thesis by blast
    next
      case 2
      from Cons.IH [OF this] obtain a b where "s = a @ p @ b" by blast
      then have "c # s = (c # a) @ p @ b" by simp
      then show ?thesis by blast
    qed
  next
    case False
    obtain q qs where q: "split_char d s = q # qs" by (cases "split_char d s") auto
    with Cons.prems False consider "p = c # q" | "p \<in> set qs" by auto
    then show ?thesis
    proof cases
      case 1
      have "\<exists>b. s = q @ b" using q
      proof (induction s arbitrary: q qs)
        case (Cons x s)
        show ?case
        proof (cases "x = d")
          case True
          with Cons.prems show ?thesis by auto
        next
          case False
          obtain q1 qs1 where q1: "split_char d s = q1 # qs1" by (cases "split_char d s") auto
          with Cons.IH [OF q1] Cons.prems False show ?thesis by auto
        qed
      qed auto
      then obtain b where "s = q @ b" by blast
      with 1 have "c # s = [] @ p @ b" by simp
      then show ?thesis by blast
    next
      case 2
      with q Cons.IH [of p] obtain a b where "s = a @ p @ b" by auto
      then have "c # s = (c # a) @ p @ b" by simp
      then show ?thesis by blast
    qed
  qed
qed auto

lemma service_of_member: "service_of kvs = Inr v \<Longrightarrow> ''service='' @ v \<in> set kvs"
  by (induction kvs) (auto simp: strip_prefix_iff split: option.splits if_splits)

lemma receive_pack_service_scope:
  "service_from_query q = Inr ''git-receive-pack'' \<Longrightarrow> contains_str ''service=git-receive-pack'' q"
  using split_char_infix service_of_member unfolding service_from_query_def contains_str_iff by fastforce

lemma authorize_git_grant:
  assumes "authorize_git b64_decode lookup h repo required = Inr record"
  obtains t where "lookup t = Inr (Some record)" "repo_str (tk_repo record) = repo" "required = Write \<Longrightarrow> tk_scope record = Write"
  using assms unfolding authorize_git_def res_bind_Inr_iff ok_or_Inr_iff by (auto split: if_splits)


definition sample_git_env :: "(ref_key \<rightharpoonup> oid) git_env" where
  "sample_git_env = \<lparr>ge_push = sample_push_env, ge_read_head = (\<lambda>_ _. Inl Unauthorized), ge_list = (\<lambda>_ _ _. Inr []),
     ge_generate = (\<lambda>_ _ _ _. Inl Unauthorized), ge_b64 = (\<lambda>_. Some (as_bytes ''x:tok'')),
     ge_lookup = (\<lambda>_ _. Inr (Some \<lparr>tk_repo = RepoId ''demo'', tk_scope = Write\<rparr>)), ge_is_dir = (\<lambda>_ _. True),
     ge_quota = (\<lambda>_ _. Inr ()), ge_repos_dir = ''/srv'', ge_disable_native = False\<rparr>"

definition sample_git_request :: git_request where
  "sample_git_request = \<lparr>rq_auth = Some (Some ''Basic eDp0b2s=''), rq_protocol = Some (Some ''version=2''), rq_method = ''GET'',
     rq_query = Some ''service=git-receive-pack'', rq_body = Inr []\<rparr>"


end
