(* ===== verification/Storage.thy ===== *)
theory Storage
  imports Refs
begin

text \<open>
  Repo storage on disk, \<open>src/storage.rs\<close>: creation, fork, deletion, the path check and the byte quota
  with \<open>dir_size\<close> of \<open>src/rest.rs\<close>. The root directory is a tree of nodes; a world is the tree with the
  faults that the file system will have: each operation consumes one, \<open>None\<close> for none, \<open>Some k\<close> for
  a failure after \<open>k\<close> of its elementary steps. What \<open>gix\<close> lists in a repo is a parameter.
\<close>

section \<open>Definitions\<close>

subsection \<open>The file system\<close>

fun fs_put :: "string list \<Rightarrow> fs_node \<Rightarrow> fs_node \<Rightarrow> fs_node option" where
  "fs_put [] new node = Some new"
| "fs_put (c # cs) new (FsDir (Some children)) =
     (case map_of children c of
        None \<Rightarrow> if cs = [] then Some (FsDir (Some (AList.update c new children))) else None
      | Some sub \<Rightarrow> map_option (\<lambda>sub'. FsDir (Some (AList.update c sub' children))) (fs_put cs new sub))"
| "fs_put (c # cs) new _ = None"

fun mkdirs :: "string list \<Rightarrow> fs_node \<Rightarrow> fs_node option" where
  "mkdirs [] (FsDir children) = Some (FsDir children)"
| "mkdirs (c # cs) (FsDir (Some children)) =
     map_option (\<lambda>sub. FsDir (Some (AList.update c sub children)))
       (mkdirs cs (case map_of children c of None \<Rightarrow> FsDir (Some []) | Some sub \<Rightarrow> sub))"
| "mkdirs _ _ = None"

definition write_node :: "string list \<Rightarrow> string option \<Rightarrow> fs_node \<Rightarrow> fs_node option" where
  "write_node path content tree =
     (case fs_lookup tree path of Some (FsDir _) \<Rightarrow> None | _ \<Rightarrow> fs_put path (FsFile content) tree)"

fun remove_child :: "string \<Rightarrow> fs_node \<Rightarrow> fs_node" where
  "remove_child c (FsDir (Some children)) = FsDir (Some (AList.delete c children))"
| "remove_child c node = node"

record io_world =
  io_tree :: fs_node
  io_faults :: "nat option list"

type_synonym 'a io = "io_world \<Rightarrow> (error + 'a) \<times> io_world"

fun next_fault :: "nat option list \<Rightarrow> nat option \<times> nat option list" where
  "next_fault [] = (None, [])"
| "next_fault (f # fs) = (f, fs)"

definition io_bind :: "'a io \<Rightarrow> ('a \<Rightarrow> 'b io) \<Rightarrow> 'b io" where
  "io_bind a f w = (case a w of (Inl e, w') \<Rightarrow> (Inl e, w') | (Inr x, w') \<Rightarrow> f x w')"

definition io_seq :: "unit io \<Rightarrow> 'b io \<Rightarrow> 'b io" where
  "io_seq a b = io_bind a (\<lambda>_. b)"

text \<open>An operation that changes the tree: \<open>act\<close> is its effect, \<open>None\<close> where the operating system refuses it, and
  \<open>partial k\<close> what is left of it when it fails after \<open>k\<close> steps.\<close>

definition io_op :: "string \<Rightarrow> (fs_node \<Rightarrow> fs_node option) \<Rightarrow> (nat \<Rightarrow> fs_node \<Rightarrow> fs_node option) \<Rightarrow> unit io" where
  "io_op what act partial w =
     (case next_fault (io_faults w) of
        (Some k, fs) \<Rightarrow>
          (Inl (Io what), \<lparr>io_tree = (case partial k (io_tree w) of None \<Rightarrow> io_tree w | Some t \<Rightarrow> t), io_faults = fs\<rparr>)
      | (None, fs) \<Rightarrow>
          (case act (io_tree w) of
             None \<Rightarrow> (Inl (Io what), w\<lparr>io_faults := fs\<rparr>)
           | Some t \<Rightarrow> (Inr (), \<lparr>io_tree = t, io_faults = fs\<rparr>)))"

definition create_dir_all :: "string list \<Rightarrow> unit io" where
  "create_dir_all path = io_op ''create_dir_all'' (mkdirs path) (\<lambda>k. mkdirs (take k path))"

text \<open>\<open>std::fs::write\<close>: the file is created (the first step), then its bytes are written.\<close>

definition write_file :: "string list \<Rightarrow> string option \<Rightarrow> unit io" where
  "write_file path content =
     io_op ''write'' (write_node path content)
       (\<lambda>k. if k = 0 then Some else write_node path (map_option (take (k - 1)) content))"

definition read_file :: "string list \<Rightarrow> string option io" where
  "read_file path w =
     (case next_fault (io_faults w) of
        (Some k, fs) \<Rightarrow> (Inl (Io ''read''), w\<lparr>io_faults := fs\<rparr>)
      | (None, fs) \<Rightarrow>
          (case fs_lookup (io_tree w) path of
             Some (FsFile content) \<Rightarrow> (Inr content, w\<lparr>io_faults := fs\<rparr>)
           | _ \<Rightarrow> (Inl (Io ''read''), w\<lparr>io_faults := fs\<rparr>)))"

text \<open>\<open>std::fs::remove_dir_all\<close> of a directory of the root; a failure leaves the entries it had not reached.\<close>

definition remove_dir_all :: "string \<Rightarrow> unit io" where
  "remove_dir_all name =
     io_op ''remove_dir_all''
       (\<lambda>t. case fs_lookup t [name] of Some (FsDir (Some _)) \<Rightarrow> Some (remove_child name t) | _ \<Rightarrow> None)
       (\<lambda>k t. case fs_lookup t [name] of
                Some (FsDir (Some children)) \<Rightarrow> fs_put [name] (FsDir (Some (drop k children))) t
              | _ \<Rightarrow> None)"

subsection \<open>Repos\<close>

definition repo_path :: "repo_id \<Rightarrow> string" where
  "repo_path r = repo_str r @ ''.git''"

definition is_dir :: "fs_node \<Rightarrow> string \<Rightarrow> bool" where
  "is_dir tree name = (case fs_lookup tree [name] of Some (FsDir _) \<Rightarrow> True | _ \<Rightarrow> False)"

definition repo_exists :: "repo_id \<Rightarrow> fs_node \<Rightarrow> bool" where
  "repo_exists r tree = is_dir tree (repo_path r)"

definition HEAD_TEXT :: string where
  "HEAD_TEXT = ''ref: refs/heads/main'' @ [newline]"

definition tab :: char where
  "tab = char_of (9 :: nat)"

definition CONFIG_TEXT :: string where
  "CONFIG_TEXT = ''[core]'' @ [newline] @ [tab] @ ''repositoryformatversion = 0'' @ [newline]
     @ [tab] @ ''bare = true'' @ [newline]
     @ ''[http]'' @ [newline] @ [tab] @ ''receivepack = true'' @ [newline] @ [tab] @ ''uploadpack = true'' @ [newline]"

definition write_bare_repo_layout :: "string \<Rightarrow> unit io" where
  "write_bare_repo_layout path =
     io_seq (create_dir_all [path, ''refs'', ''heads''])
    (io_seq (create_dir_all [path, ''refs'', ''tags''])
    (io_seq (create_dir_all [path, ''objects'', ''info''])
    (io_seq (create_dir_all [path, ''objects'', ''pack''])
    (io_seq (write_file [path, ''HEAD''] (Some HEAD_TEXT))
      (write_file [path, ''config''] (Some CONFIG_TEXT))))))"

definition create_repo :: "repo_id \<Rightarrow> unit io" where
  "create_repo r w =
     (let path = repo_path r in
      if fs_lookup (io_tree w) [path] \<noteq> None then (Inl (RepoExists (repo_str r)), w)
      else (case write_bare_repo_layout path w of
              (Inr _, w') \<Rightarrow> (Inr (), w')
            | (Inl e, w') \<Rightarrow> (Inl e, snd (remove_dir_all path w'))))"

text \<open>A reference as \<open>gix\<close> iterates over it, \<open>None\<close> for one that it cannot read.\<close>

datatype gix_target = TargetObject string | TargetSymbolic string

type_synonym gix_list = "fs_node option \<Rightarrow> error + (string \<times> gix_target) option list"

definition snapshot_entries :: "(string \<times> gix_target) option list \<Rightarrow> (string \<times> string) list" where
  "snapshot_entries refs =
     concat (map (\<lambda>x. case x of Some (name, TargetObject sha) \<Rightarrow> [(sha, name)] | _ \<Rightarrow> []) refs)"

definition packed_text :: "(string \<times> string) list \<Rightarrow> string" where
  "packed_text entries =
     ''# pack-refs with: peeled fully-peeled sorted'' @ [newline]
     @ concat (map (\<lambda>(sha, name). sha @ '' '' @ name @ [newline]) entries)"

definition snapshot_refs_to_packed :: "gix_list \<Rightarrow> string \<Rightarrow> string \<Rightarrow> unit io" where
  "snapshot_refs_to_packed gix src dst w =
     (case gix (fs_lookup (io_tree w) [src]) of
        Inl e \<Rightarrow> (Inl e, w)
      | Inr refs \<Rightarrow>
          let entries = snapshot_entries refs in
          if entries = [] then (Inr (), w)
          else write_file [dst, ''packed-refs''] (Some (packed_text (sort_key snd entries))) w)"

text \<open>The root's own path \<open>base\<close> goes into the alternates file.\<close>

definition fork_steps :: "string \<Rightarrow> gix_list \<Rightarrow> string \<Rightarrow> string \<Rightarrow> unit io" where
  "fork_steps base gix source fork =
     io_seq (create_dir_all [fork, ''objects'', ''info''])
    (io_seq (create_dir_all [fork, ''objects'', ''pack''])
    (io_seq (create_dir_all [fork, ''refs'', ''heads''])
    (io_seq (create_dir_all [fork, ''refs'', ''tags''])
    (io_seq (write_file [fork, ''objects'', ''info'', ''alternates''] (Some (base @ ''/'' @ source @ ''/objects'' @ [newline])))
    (io_bind (read_file [source, ''HEAD'']) (\<lambda>head.
     io_seq (write_file [fork, ''HEAD''] head)
    (io_seq (write_file [fork, ''config''] (Some CONFIG_TEXT))
      (snapshot_refs_to_packed gix source fork))))))))"

definition fork_repo :: "string \<Rightarrow> gix_list \<Rightarrow> repo_id \<Rightarrow> repo_id \<Rightarrow> unit io" where
  "fork_repo base gix source_id fork_id w =
     (if \<not> is_dir (io_tree w) (repo_path source_id) then (Inl (RepoNotFound (repo_str source_id)), w)
      else if fs_lookup (io_tree w) [repo_path fork_id] \<noteq> None then (Inl (RepoExists (repo_str fork_id)), w)
      else fork_steps base gix (repo_path source_id) (repo_path fork_id) w)"

definition delete_repo :: "repo_id \<Rightarrow> unit io" where
  "delete_repo r w =
     (let path = repo_path r in
      if \<not> is_dir (io_tree w) path then (Inl (RepoNotFound (repo_str r)), w)
      else remove_dir_all path w)"

subsection \<open>The path check\<close>

datatype component = RootDir | CurDir | ParentDir | Normal string

text \<open>\<open>Path::components\<close> on Unix.\<close>

definition segment :: "bool \<Rightarrow> string \<Rightarrow> component list" where
  "segment first s =
     (if s = [] then []
      else if s = ''.'' then (if first then [CurDir] else [])
      else if s = ''..'' then [ParentDir]
      else [Normal s])"

definition path_components :: "string \<Rightarrow> component list" where
  "path_components p =
     (case split_char CHR ''/'' p of
        [] \<Rightarrow> []
      | s # ss \<Rightarrow> (if s = [] \<and> p \<noteq> [] then [RootDir] else segment True s) @ concat (map (segment False) ss))"

text \<open>\<open>Path::join\<close>.\<close>

definition path_join :: "string \<Rightarrow> string \<Rightarrow> string" where
  "path_join base p =
     (if starts_with ''/'' p then p
      else if base = [] \<or> ends_with ''/'' base then base @ p
      else base @ ''/'' @ p)"

fun first_bad :: "component list \<Rightarrow> string option" where
  "first_bad [] = None"
| "first_bad (Normal _ # cs) = first_bad cs"
| "first_bad (ParentDir # cs) = Some ''ParentDir component''"
| "first_bad (RootDir # cs) = Some ''RootDir component''"
| "first_bad (CurDir # cs) = Some ''CurDir component''"

fun drop_prefix :: "'a list \<Rightarrow> 'a list \<Rightarrow> 'a list option" where
  "drop_prefix [] ys = Some ys"
| "drop_prefix (x # xs) (y # ys) = (if x = y then drop_prefix xs ys else None)"
| "drop_prefix (x # xs) [] = None"

definition path_is_safe_descendant :: "string \<Rightarrow> string \<Rightarrow> string + unit" where
  "path_is_safe_descendant base joined =
     (case drop_prefix (path_components base) (path_components joined) of
        None \<Rightarrow> Inl ''strip_prefix(root) failed''
      | Some rel \<Rightarrow> (case first_bad rel of None \<Rightarrow> Inr () | Some reason \<Rightarrow> Inl reason))"

subsection \<open>The byte quota\<close>

text \<open>\<open>dir_size\<close> walks with a stack; \<open>len\<close> is the length of a file, of which the tree only has the text.\<close>

function dir_size_loop :: "(string option \<Rightarrow> nat) \<Rightarrow> fs_node list \<Rightarrow> nat \<Rightarrow> nat option" where
  "dir_size_loop len [] acc = Some acc"
| "dir_size_loop len (FsDir (Some children) # stack) acc =
     dir_size_loop len (rev (map snd (sub_dirs [] children)) @ stack)
       (acc + sum_list (map (\<lambda>(_, s). len s) (sub_files [] children)))"
| "dir_size_loop len (FsDir None # stack) acc = None"
| "dir_size_loop len (FsFile _ # stack) acc = None"
  by pat_completeness auto
termination
proof (relation "measure (\<lambda>(_, stack, _). sum_list (map node_size stack))")
  fix len :: "string option \<Rightarrow> nat" and children stack acc
  have "sum_list (map node_size (rev (map snd (sub_dirs [] children)))) \<le> sum_list (map (\<lambda>(_, n). node_size n) children)"
    using sub_dirs_size [of "[]" children] by (simp add: rev_map [symmetric] sum_list_rev case_prod_unfold comp_def)
  then show "((len, rev (map snd (sub_dirs [] children)) @ stack, acc + sum_list (map (\<lambda>(_, s). len s) (sub_files [] children))),
      (len, FsDir (Some children) # stack, acc)) \<in> measure (\<lambda>(_, stack, _). sum_list (map node_size stack))"
    by simp
qed auto

definition dir_size :: "(string option \<Rightarrow> nat) \<Rightarrow> fs_node option \<Rightarrow> nat option" where
  "dir_size len node = (case node of None \<Rightarrow> None | Some n \<Rightarrow> dir_size_loop len [n] 0)"

definition check_repo_byte_quota :: "(string option \<Rightarrow> nat) \<Rightarrow> fs_node \<Rightarrow> string \<Rightarrow> nat \<Rightarrow> error + unit" where
  "check_repo_byte_quota len tree repo limit =
     (if limit = 0 then Inr ()
      else let bytes_used = (case dir_size len (fs_lookup tree [repo @ ''.git'']) of None \<Rightarrow> 0 | Some n \<Rightarrow> n)
        in if bytes_used \<ge> limit then Inl (RepoByteQuotaExceeded repo bytes_used limit) else Inr ())"

section \<open>Runs with faults\<close>

definition nfaults :: "nat option list \<Rightarrow> nat" where
  "nfaults fs = length (filter (\<lambda>f. f \<noteq> None) fs)"

text \<open>The root with nothing, or with a directory \<open>name\<close>, added to \<open>children\<close>.\<close>

definition with_dir :: "string \<Rightarrow> (string \<times> fs_node) list \<Rightarrow> (string \<times> fs_node) list \<Rightarrow> fs_node" where
  "with_dir name children sub = FsDir (Some (AList.update name (FsDir (Some sub)) children))"

definition inside :: "string \<Rightarrow> (string \<times> fs_node) list \<Rightarrow> fs_node \<Rightarrow> bool" where
  "inside name children t = (t = FsDir (Some children) \<or> (\<exists>sub. t = with_dir name children sub))"

text \<open>\<open>prog\<close> takes \<open>t\<close> to \<open>t'\<close>, or fails by consuming a fault and stays inside \<open>name\<close>.\<close>

definition runs_to :: "string \<Rightarrow> (string \<times> fs_node) list \<Rightarrow> unit io \<Rightarrow> fs_node \<Rightarrow> fs_node \<Rightarrow> bool" where
  "runs_to name children prog t t' =
     (\<forall>fs. \<exists>r p fs'. prog \<lparr>io_tree = t, io_faults = fs\<rparr> = (r, \<lparr>io_tree = p, io_faults = fs'\<rparr>)
        \<and> (r = Inr () \<and> p = t' \<and> nfaults fs' \<le> nfaults fs
           \<or> (\<exists>e. r = Inl e) \<and> inside name children p \<and> nfaults fs' < nfaults fs))"

lemma runs_toE:
  assumes "runs_to name children prog t t'"
  obtains (ok) fs' where "prog \<lparr>io_tree = t, io_faults = fs\<rparr> = (Inr (), \<lparr>io_tree = t', io_faults = fs'\<rparr>)" "nfaults fs' \<le> nfaults fs"
    | (err) e p fs' where "prog \<lparr>io_tree = t, io_faults = fs\<rparr> = (Inl e, \<lparr>io_tree = p, io_faults = fs'\<rparr>)"
        "inside name children p" "nfaults fs' < nfaults fs"
  using assms unfolding runs_to_def by metis

lemma nfaults_next: "next_fault fs = (None, fs') \<Longrightarrow> nfaults fs' = nfaults fs" "next_fault fs = (Some k, fs') \<Longrightarrow> nfaults fs' < nfaults fs"
  by (cases fs rule: next_fault.cases; simp add: nfaults_def)+

lemma runs_to_op:
  assumes "act t = Some t'" "\<And>k p. partial k t = Some p \<Longrightarrow> inside name children p" "inside name children t"
  shows "runs_to name children (io_op what act partial) t t'"
  unfolding runs_to_def
proof
  fix fs
  obtain f fs' where n: "next_fault fs = (f, fs')" by (cases "next_fault fs")
  show "\<exists>r p fs'. io_op what act partial \<lparr>io_tree = t, io_faults = fs\<rparr> = (r, \<lparr>io_tree = p, io_faults = fs'\<rparr>)
        \<and> (r = Inr () \<and> p = t' \<and> nfaults fs' \<le> nfaults fs
           \<or> (\<exists>e. r = Inl e) \<and> inside name children p \<and> nfaults fs' < nfaults fs)"
  proof (cases f)
    case None
    then show ?thesis using n assms(1) nfaults_next(1) by (simp add: io_op_def)
  next
    case (Some k)
    then show ?thesis
      using n assms(2,3) nfaults_next(2) [of fs k fs'] by (auto simp: io_op_def split: option.split)
  qed
qed

lemma runs_to_seq:
  assumes "runs_to name children a t t1" "runs_to name children b t1 t2"
  shows "runs_to name children (io_seq a b) t t2"
  unfolding runs_to_def
proof
  fix fs
  show "\<exists>r p fs'. io_seq a b \<lparr>io_tree = t, io_faults = fs\<rparr> = (r, \<lparr>io_tree = p, io_faults = fs'\<rparr>)
        \<and> (r = Inr () \<and> p = t2 \<and> nfaults fs' \<le> nfaults fs
           \<or> (\<exists>e. r = Inl e) \<and> inside name children p \<and> nfaults fs' < nfaults fs)"
  proof (cases rule: runs_toE [OF assms(1), of fs])
    case (1 fs1)
    show ?thesis
      by (cases rule: runs_toE [OF assms(2), of fs1]) (use 1 in \<open>auto simp: io_seq_def io_bind_def\<close>)
  next
    case (2 e p fs1)
    then show ?thesis by (auto simp: io_seq_def io_bind_def)
  qed
qed

lemma runs_to_read:
  assumes "fs_lookup t path = Some (FsFile content)" "inside name children t" "runs_to name children (f content) t t'"
  shows "runs_to name children (io_bind (read_file path) f) t t'"
  unfolding runs_to_def
proof
  fix fs
  obtain k fs' where n: "next_fault fs = (k, fs')" by (cases "next_fault fs")
  show "\<exists>r p fs'. io_bind (read_file path) f \<lparr>io_tree = t, io_faults = fs\<rparr> = (r, \<lparr>io_tree = p, io_faults = fs'\<rparr>)
        \<and> (r = Inr () \<and> p = t' \<and> nfaults fs' \<le> nfaults fs
           \<or> (\<exists>e. r = Inl e) \<and> inside name children p \<and> nfaults fs' < nfaults fs)"
  proof (cases k)
    case None
    then have e: "nfaults fs' = nfaults fs" using n nfaults_next(1) by blast
    show ?thesis
      by (cases rule: runs_toE [OF assms(3), of fs']) (use n None assms(1) e in \<open>auto simp: io_bind_def read_file_def\<close>)
  next
    case (Some j)
    then show ?thesis using n assms(2) nfaults_next(2) [of fs j fs'] by (auto simp: io_bind_def read_file_def)
  qed
qed

lemma mkdirs_dir: "mkdirs p (FsDir (Some s)) = Some t \<Longrightarrow> \<exists>s'. t = FsDir (Some s')"
  by (cases p) auto

lemma fs_put_dir: "p \<noteq> [] \<Longrightarrow> fs_put p x (FsDir (Some s)) = Some t \<Longrightarrow> \<exists>s'. t = FsDir (Some s')"
  by (cases p) (auto split: option.splits if_splits)

lemma with_dir_update [simp]:
  "map_of (AList.update name x children) name = Some x"
  "FsDir (Some (AList.update name (FsDir (Some s')) (AList.update name (FsDir (Some s)) children))) = with_dir name children s'"
  by (simp_all add: update_conv' with_dir_def)

lemma mkdirs_with_dir: "mkdirs (name # p) (with_dir name children sub)
    = map_option (\<lambda>x. FsDir (Some (AList.update name x children))) (mkdirs p (FsDir (Some sub)))"
  by (simp add: with_dir_def)

lemma inside_mkdirs:
  assumes "inside name children t" "map_of children name = None" "mkdirs (take k (name # p)) t = Some t'"
  shows "inside name children t'"
proof (cases k)
  case 0
  then show ?thesis using assms by (auto simp: inside_def with_dir_def)
next
  case (Suc j)
  show ?thesis
    using assms Suc mkdirs_dir
    by (fastforce simp: inside_def with_dir_def)
qed

lemma write_with_dir:
  assumes "p \<noteq> []"
  shows "write_node (name # p) c (with_dir name children sub)
    = map_option (\<lambda>x. FsDir (Some (AList.update name x children))) (write_node p c (FsDir (Some sub)))"
  by (auto simp: write_node_def with_dir_def split: option.splits fs_node.splits)

lemma write_node_dir: "p \<noteq> [] \<Longrightarrow> write_node p c (FsDir (Some s)) = Some t \<Longrightarrow> \<exists>s'. t = FsDir (Some s')"
  by (auto simp: write_node_def dest: fs_put_dir split: option.splits fs_node.splits)

lemma mkdir_first:
  assumes "map_of children name = None" "mkdirs p (FsDir (Some [])) = Some (FsDir (Some sub))"
  shows "runs_to name children (create_dir_all (name # p)) (FsDir (Some children)) (with_dir name children sub)"
  unfolding create_dir_all_def
proof (rule runs_to_op)
  show "mkdirs (name # p) (FsDir (Some children)) = Some (with_dir name children sub)"
    using assms by (simp add: with_dir_def)
  show "inside name children (FsDir (Some children))" by (simp add: inside_def)
  then show "inside name children q" if "mkdirs (take k (name # p)) (FsDir (Some children)) = Some q" for k q
    using inside_mkdirs assms(1) that by blast
qed

lemma mkdir_stage:
  assumes "map_of children name = None" "mkdirs p (FsDir (Some sub)) = Some (FsDir (Some sub'))"
  shows "runs_to name children (create_dir_all (name # p)) (with_dir name children sub) (with_dir name children sub')"
  unfolding create_dir_all_def
proof (rule runs_to_op)
  show "mkdirs (name # p) (with_dir name children sub) = Some (with_dir name children sub')"
    using assms(2) by (simp only: mkdirs_with_dir option.map) (simp add: with_dir_def)
  show "inside name children (with_dir name children sub)" by (auto simp: inside_def)
  then show "inside name children q" if "mkdirs (take k (name # p)) (with_dir name children sub) = Some q" for k q
    using inside_mkdirs assms(1) that by blast
qed

lemma write_stage:
  assumes "p \<noteq> []" "\<And>c. \<exists>sub. write_node p c (FsDir (Some s)) = Some (FsDir (Some sub))"
    and "write_node p content (FsDir (Some s)) = Some (FsDir (Some sub'))"
  shows "runs_to name children (write_file (name # p) content) (with_dir name children s) (with_dir name children sub')"
  unfolding write_file_def
proof (rule runs_to_op)
  show "write_node (name # p) content (with_dir name children s) = Some (with_dir name children sub')"
    by (simp only: write_with_dir [OF assms(1)] assms(3) option.map) (simp add: with_dir_def)
  show i: "inside name children (with_dir name children s)" by (auto simp: inside_def)
  show "inside name children q"
    if "(if k = 0 then Some else write_node (name # p) (map_option (take (k - 1)) content)) (with_dir name children s) = Some q" for k q
  proof (cases "k = 0")
    case True
    then show ?thesis using that i by simp
  next
    case False
    obtain sub where w: "write_node p (map_option (take (k - 1)) content) (FsDir (Some s)) = Some (FsDir (Some sub))"
      using assms(2) by blast
    have "write_node (name # p) (map_option (take (k - 1)) content) (with_dir name children s) = Some q"
      using that False by simp
    then have "q = with_dir name children sub"
      by (simp only: write_with_dir [OF assms(1)] w option.map option.inject) (simp add: with_dir_def)
    then show ?thesis by (auto simp: inside_def)
  qed
qed

definition bare_layout :: "(string \<times> fs_node) list" where
  "bare_layout =
     [(''refs'', FsDir (Some [(''heads'', FsDir (Some [])), (''tags'', FsDir (Some []))])),
      (''objects'', FsDir (Some [(''info'', FsDir (Some [])), (''pack'', FsDir (Some []))])),
      (''HEAD'', FsFile (Some HEAD_TEXT)), (''config'', FsFile (Some CONFIG_TEXT))]"

lemma layout_runs:
  assumes "map_of children name = None"
  shows "runs_to name children (write_bare_repo_layout name) (FsDir (Some children)) (with_dir name children bare_layout)"
  unfolding write_bare_repo_layout_def bare_layout_def
  by (rule runs_to_seq, rule mkdir_first [OF assms], simp,
      rule runs_to_seq, rule mkdir_stage [OF assms], simp,
      rule runs_to_seq, rule mkdir_stage [OF assms], simp,
      rule runs_to_seq, rule mkdir_stage [OF assms], simp,
      rule runs_to_seq, rule write_stage, simp, simp add: write_node_def, simp add: write_node_def,
      rule write_stage, simp, simp add: write_node_def, simp add: write_node_def)

lemma delete_update_fresh: "map_of al k = None \<Longrightarrow> AList.delete k (AList.update k v al) = al"
  by (induction al) (auto split: if_splits)

lemma remove_inside:
  assumes "map_of children name = None" "inside name children t" "nfaults fs = 0"
  shows "io_tree (snd (remove_dir_all name \<lparr>io_tree = t, io_faults = fs\<rparr>)) = FsDir (Some children)"
proof -
  obtain fs' where n: "next_fault fs = (None, fs')"
    using assms(3) by (cases fs rule: next_fault.cases) (auto simp: nfaults_def split: if_splits)
  from assms(2) show ?thesis unfolding inside_def
  proof (elim disjE exE)
    assume "t = FsDir (Some children)"
    then show ?thesis using assms(1) n by (simp add: remove_dir_all_def io_op_def)
  next
    fix sub assume "t = with_dir name children sub"
    then show ?thesis using assms(1) n by (simp add: remove_dir_all_def io_op_def with_dir_def delete_update_fresh)
  qed
qed

lemma bare_head: "head_of_dir (FsDir (Some bare_layout)) = Inr (Unborn default_head)"
proof -
  have t: "trim HEAD_TEXT = ''ref: refs/heads/main''" "trim ''refs/heads/main'' = ''refs/heads/main''"
    unfolding HEAD_TEXT_def by code_simp+
  have v: "ref_name_try_from ''refs/heads/main'' = Inr default_head"
  proof -
    have "valid_ref_name ''refs/heads/main''" by code_simp
    then show ?thesis by (simp add: ref_name_try_from_iff default_head_def)
  qed
  have "read_to_string (FsDir (Some bare_layout)) ''HEAD'' = Some HEAD_TEXT"
    "read_to_string (FsDir (Some bare_layout)) ''refs/heads/main'' = None"
    "read_to_string (FsDir (Some bare_layout)) ''packed-refs'' = None"
    by (simp_all add: read_to_string_def bare_layout_def)
  then show ?thesis by (simp add: head_of_dir_def t v Let_def oid_of_file_def)
qed

lemma bare_refs: "enumerate_refs (FsDir (Some bare_layout)) = []"
  by (simp add: enumerate_refs_def read_to_string_def bare_layout_def loose_files_def sub_dirs_def sub_files_def)

text \<open>C14: Creation is all or nothing. If at most one file operation fails, wherever it does and however far
  it got, \<open>create\<close> either answers ok, and then the root has gained exactly one repo, without refs and
  with an unborn \<open>main\<close> as its head, or it answers an error, and then the root is as it was: no
  half-made repo blocks the id.\<close>

theorem create_all_or_nothing:
  assumes "create_repo r \<lparr>io_tree = FsDir (Some children), io_faults = fs\<rparr> = (res, w)" "nfaults fs \<le> 1"
  shows "res = Inr () \<and> map_of children (repo_path r) = None
      \<and> (\<exists>repo. io_tree w = FsDir (Some (AList.update (repo_path r) repo children))
           \<and> head_of_dir repo = Inr (Unborn default_head) \<and> enumerate_refs repo = [])
    \<or> (\<exists>e. res = Inl e) \<and> io_tree w = FsDir (Some children)"
proof (cases "map_of children (repo_path r)")
  case (Some x)
  then show ?thesis using assms(1) by (auto simp: create_repo_def)
next
  case None
  show ?thesis
  proof (cases rule: runs_toE [OF layout_runs [OF None], of fs])
    case (1 fs')
    then show ?thesis
      using assms(1) None bare_head bare_refs by (auto simp: create_repo_def Let_def with_dir_def)
  next
    case (2 e p fs')
    have "io_tree (snd (remove_dir_all (repo_path r) \<lparr>io_tree = p, io_faults = fs'\<rparr>)) = FsDir (Some children)"
      using remove_inside [OF None 2(2)] 2(3) assms(2) by simp
    then show ?thesis using assms(1) None 2(1) by (auto simp: create_repo_def Let_def)
  qed
qed

theorem create_all_or_nothing_witness:
  "\<exists>e w. create_repo (RepoId ''demo'') \<lparr>io_tree = FsDir (Some []), io_faults = [None, None, Some 1]\<rparr> = (Inl e, w)
     \<and> io_tree w = FsDir (Some [])"
proof -
  obtain res w where r: "create_repo (RepoId ''demo'') \<lparr>io_tree = FsDir (Some []), io_faults = [None, None, Some 1]\<rparr> = (res, w)"
    by (cases "create_repo (RepoId ''demo'') \<lparr>io_tree = FsDir (Some []), io_faults = [None, None, Some 1]\<rparr>")
  have "\<exists>e. res = Inl e"
    using r by (auto simp: create_repo_def Let_def write_bare_repo_layout_def io_seq_def io_bind_def create_dir_all_def io_op_def)
  with create_all_or_nothing [OF r] r show ?thesis by (auto simp: nfaults_def)
qed

section \<open>Fork\<close>

text \<open>What is relied on of \<open>gix\<close>: it lists the refs of the directory, each with its object id.\<close>

definition gix_lists :: "gix_list \<Rightarrow> fs_node \<Rightarrow> bool" where
  "gix_lists gix src =
     (\<exists>refs. gix (Some src) = Inr refs
        \<and> (\<forall>name sha. Some (name, TargetObject sha) \<in> set refs \<longleftrightarrow> dir_refs src name = Some (Oid sha)))"

lemma fold_set_ref_source:
  "fold (set_ref \<circ> f) xs m n = Some x \<Longrightarrow> m n = Some x \<or> (\<exists>y\<in>set xs. f y = Some (n, x))"
  by (induction xs rule: rev_induct) (auto simp: set_ref_def split: option.splits if_splits)

lemma dir_refs_ok: "dir_refs d n = Some x \<Longrightarrow> valid_ref_name n \<and> oid_ok (oid_str x)"
  by (auto simp: dir_refs_def packed_map_def map_add_Some_iff line_ref_def file_ref_def
      dest!: fold_set_ref_source split: option.splits if_splits)

lemma lines_text:
  assumes "\<forall>l\<in>set ls. newline \<notin> set l \<and> CHR 0x0D \<notin> set l"
  shows "str_lines (concat (map (\<lambda>l. l @ [newline]) ls)) = ls"
proof -
  have "lines_of (split_char newline (concat (map (\<lambda>l. l @ [newline]) ls))) = ls"
    using assms
  proof (induction ls)
    case (Cons l ls)
    have "strip_cr l = l"
    proof (cases "l = []")
      case False
      then have "last l \<in> set l" by simp
      moreover have "CHR 0x0D \<notin> set l" using Cons.prems by simp
      ultimately have "last l \<noteq> CHR 0x0D" by metis
      then show ?thesis by (simp add: strip_cr_def)
    qed (simp add: strip_cr_def)
    with Cons show ?case by (cases "split_char newline (concat (map (\<lambda>l. l @ [newline]) ls))") auto
  qed simp
  then show ?thesis by (simp add: str_lines_def)
qed

lemma oid_chars:
  assumes "oid_ok sha"
  shows "sha \<noteq> []" "CHR '' '' \<notin> set sha" "newline \<notin> set sha" "CHR 0x0D \<notin> set sha" "\<not> starts_with ''#'' (sha @ r)" "\<not> starts_with ''^'' (sha @ r)"
proof -
  have g: "33 \<le> (of_char c :: nat)" "is_hexdigit c" if "c \<in> set sha" for c
    using assms that graphic_hex by (auto simp: oid_ok_def list_all_iff)
  show ne: "sha \<noteq> []" using assms by (auto simp: oid_ok_def)
  show "CHR '' '' \<notin> set sha" "newline \<notin> set sha" "CHR 0x0D \<notin> set sha"
    using g(1) by force+
  have "hd sha \<noteq> CHR ''#''" "hd sha \<noteq> CHR ''^''"
    using g(2) [OF hd_in_set [OF ne]] by (auto simp: is_hexdigit_def hex_val_def)
  then show "\<not> starts_with ''#'' (sha @ r)" "\<not> starts_with ''^'' (sha @ r)"
    using ne by (cases sha; auto simp: starts_with_iff)+
qed

lemma ref_name_chars: "valid_ref_name n \<Longrightarrow> newline \<notin> set n \<and> CHR 0x0D \<notin> set n"
proof -
  assume "valid_ref_name n"
  then have "n = ''HEAD'' \<or> \<not> list_ex ref_char_bad n" unfolding valid_ref_name_def by presburger
  moreover have "ref_char_bad newline" "ref_char_bad CHR 0x0D" by (simp_all add: ref_char_bad_def)
  ultimately show ?thesis by (auto simp: list_ex_iff)
qed

lemma fold_set_ref_consistent:
  assumes "\<forall>x\<in>set xs. \<exists>n y. f x = Some (n, y) \<and> m n = Some y"
  shows "fold (set_ref \<circ> f) xs Map.empty n = (if \<exists>x\<in>set xs. \<exists>y. f x = Some (n, y) then m n else None)"
  using assms
proof (induction xs rule: rev_induct)
  case (snoc x xs)
  have "x \<in> set (xs @ [x])" by simp
  then obtain k y where k: "f x = Some (k, y)" "m k = Some y" using snoc.prems by blast
  have "\<forall>x\<in>set xs. \<exists>n y. f x = Some (n, y) \<and> m n = Some y"
    using snoc.prems unfolding set_append ball_Un by (rule conjunct1)
  note ih = snoc.IH [OF this]
  show ?case
  proof (cases "n = k")
    case True
    then show ?thesis using k by (simp add: set_ref_def)
  next
    case False
    then have "(\<exists>z\<in>set (xs @ [x]). \<exists>y. f z = Some (n, y)) \<longleftrightarrow> (\<exists>z\<in>set xs. \<exists>y. f z = Some (n, y))"
      using k(1) by auto
    then show ?thesis using k(1) False ih by (simp add: set_ref_def)
  qed
qed simp

lemma packed_text_refs:
  assumes "\<And>n sha. (sha, n) \<in> set es \<longleftrightarrow> dir_refs d n = Some (Oid sha)"
  shows "packed_map (packed_text es) = dir_refs d"
proof -
  let ?line = "\<lambda>(sha, n). sha @ '' '' @ n"
  have ok: "oid_ok sha" "valid_ref_name n" if "(sha, n) \<in> set es" for sha n
    using dir_refs_ok assms that by fastforce+
  have lr: "line_ref (?line e) = Some (snd e, Oid (fst e))" if "e \<in> set es" for e
    using ok oid_chars that by (cases e) (auto simp: line_ref_def)
  have "packed_text es = concat (map (\<lambda>l. l @ [newline]) (''# pack-refs with: peeled fully-peeled sorted'' # map ?line es))"
    by (simp add: packed_text_def comp_def case_prod_unfold)
  moreover have "\<forall>l\<in>set (''# pack-refs with: peeled fully-peeled sorted'' # map ?line es). newline \<notin> set l \<and> CHR 0x0D \<notin> set l"
    using ok oid_chars ref_name_chars by auto
  ultimately have ls: "str_lines (packed_text es) = ''# pack-refs with: peeled fully-peeled sorted'' # map ?line es"
    using lines_text by presburger
  have h: "line_ref ''# pack-refs with: peeled fully-peeled sorted'' = None"
    by (simp add: line_ref_def starts_with_def)
  have "packed_map (packed_text es) n = dir_refs d n" for n
  proof -
    have "packed_map (packed_text es) n = fold (set_ref \<circ> line_ref) (map ?line es) Map.empty n"
      unfolding packed_map_def ls by (simp add: h set_ref_def)
    also have "\<dots> = (if \<exists>l\<in>set (map ?line es). \<exists>y. line_ref l = Some (n, y) then dir_refs d n else None)"
      using lr assms by (intro fold_set_ref_consistent) fastforce
    also have "\<dots> = dir_refs d n"
    proof (cases "dir_refs d n")
      case (Some x)
      then have "(oid_str x, n) \<in> set es" using assms by simp
      with lr Some show ?thesis by force
    qed simp
    finally show ?thesis .
  qed
  then show ?thesis by blast
qed

text \<open>The repo that a fork makes: its own directories, the alternates file, the copied head and the packed refs.\<close>

definition fork_layout :: "string \<Rightarrow> string \<Rightarrow> string option \<Rightarrow> (string \<times> string) list \<Rightarrow> (string \<times> fs_node) list" where
  "fork_layout base source head entries =
     [(''objects'', FsDir (Some [(''info'', FsDir (Some [(''alternates'', FsFile (Some (base @ ''/'' @ source @ ''/objects'' @ [newline])))])),
                                 (''pack'', FsDir (Some []))])),
      (''refs'', FsDir (Some [(''heads'', FsDir (Some [])), (''tags'', FsDir (Some []))])),
      (''HEAD'', FsFile head), (''config'', FsFile (Some CONFIG_TEXT))]
     @ (if entries = [] then [] else [(''packed-refs'', FsFile (Some (packed_text (sort_key snd entries))))])"

lemma runs_to_pure:
  assumes "\<And>fs. prog \<lparr>io_tree = t, io_faults = fs\<rparr> = prog' \<lparr>io_tree = t, io_faults = fs\<rparr>" "runs_to name children prog' t t'"
  shows "runs_to name children prog t t'"
  using assms unfolding runs_to_def by simp

lemma runs_to_skip: "runs_to name children (\<lambda>w. (Inr (), w)) t t"
  by (simp add: runs_to_def)

lemma fork_runs:
  assumes "map_of children fork = None" "map_of children source = Some src"
    and "fs_lookup src [''HEAD''] = Some (FsFile head)" "gix (Some src) = Inr refs"
  shows "runs_to fork children (fork_steps base gix source fork) (FsDir (Some children))
    (with_dir fork children (fork_layout base source head (snapshot_entries refs)))"
proof -
  have ne: "source \<noteq> fork" using assms(1,2) by auto
  have src: "fs_lookup (with_dir fork children sub) (source # p) = fs_lookup src p" for sub p
    using assms(2) ne by (simp add: with_dir_def update_conv')
  let ?sub = "fork_layout base source head []"
  have snap: "runs_to fork children (snapshot_refs_to_packed gix source fork) (with_dir fork children ?sub)
      (with_dir fork children (fork_layout base source head (snapshot_entries refs)))"
  proof (cases "snapshot_entries refs = []")
    case True
    show ?thesis
      unfolding True
      by (rule runs_to_pure [OF _ runs_to_skip]) (simp add: snapshot_refs_to_packed_def src assms(4) True)
  next
    case False
    show ?thesis
      by (rule runs_to_pure [where prog' = "write_file [fork, ''packed-refs''] (Some (packed_text (sort_key snd (snapshot_entries refs))))"],
          simp add: snapshot_refs_to_packed_def src assms(4) False,
          rule write_stage, simp, simp add: write_node_def fork_layout_def, simp add: write_node_def fork_layout_def False)
  qed
  have steps: "runs_to fork children
      (io_seq (write_file [fork, ''HEAD''] head) (io_seq (write_file [fork, ''config''] (Some CONFIG_TEXT))
        (snapshot_refs_to_packed gix source fork)))
      (with_dir fork children (take 2 ?sub)) (with_dir fork children (fork_layout base source head (snapshot_entries refs)))"
    by (rule runs_to_seq, rule write_stage, simp, simp add: write_node_def fork_layout_def, simp add: write_node_def fork_layout_def,
        rule runs_to_seq, rule write_stage, simp, simp add: write_node_def, simp add: write_node_def,
        use snap in \<open>simp add: fork_layout_def\<close>)
  have head: "runs_to fork children
      (io_bind (read_file [source, ''HEAD'']) (\<lambda>head. io_seq (write_file [fork, ''HEAD''] head)
         (io_seq (write_file [fork, ''config''] (Some CONFIG_TEXT)) (snapshot_refs_to_packed gix source fork))))
      (with_dir fork children (take 2 ?sub)) (with_dir fork children (fork_layout base source head (snapshot_entries refs)))"
  proof (rule runs_to_read [where content = head])
    show "fs_lookup (with_dir fork children (take 2 ?sub)) [source, ''HEAD''] = Some (FsFile head)"
      using assms(3) by (simp only: src)
    show "inside fork children (with_dir fork children (take 2 ?sub))" by (auto simp: inside_def)
    show "runs_to fork children
      (io_seq (write_file [fork, ''HEAD''] head) (io_seq (write_file [fork, ''config''] (Some CONFIG_TEXT))
        (snapshot_refs_to_packed gix source fork)))
      (with_dir fork children (take 2 ?sub)) (with_dir fork children (fork_layout base source head (snapshot_entries refs)))"
      by (rule steps)
  qed
  show ?thesis
    unfolding fork_steps_def
    by (rule runs_to_seq, rule mkdir_first [OF assms(1)], simp,
        rule runs_to_seq, rule mkdir_stage [OF assms(1)], simp,
        rule runs_to_seq, rule mkdir_stage [OF assms(1)], simp,
        rule runs_to_seq, rule mkdir_stage [OF assms(1)], simp,
        rule runs_to_seq, rule write_stage, simp, simp add: write_node_def, simp add: write_node_def,
        use head in \<open>simp add: fork_layout_def\<close>)
qed

lemma fork_layout_reads:
  "read_to_string (FsDir (Some (fork_layout base source head entries))) ''HEAD'' = head"
  "read_to_string (FsDir (Some (fork_layout base source head entries))) ''objects/info/alternates''
     = Some (base @ ''/'' @ source @ ''/objects'' @ [newline])"
  "read_to_string (FsDir (Some (fork_layout base source head entries))) ''packed-refs''
     = (if entries = [] then None else Some (packed_text (sort_key snd entries)))"
  "loose_files (FsDir (Some (fork_layout base source head entries))) = []"
  by (simp_all add: read_to_string_def fork_layout_def loose_files_def sub_dirs_def sub_files_def)

lemma snapshot_entries_mem: "(sha, n) \<in> set (snapshot_entries refs) \<longleftrightarrow> Some (n, TargetObject sha) \<in> set refs"
  by (force simp: snapshot_entries_def split: option.splits gix_target.splits)

lemma fork_layout_refs:
  assumes "\<And>name sha. Some (name, TargetObject sha) \<in> set refs \<longleftrightarrow> dir_refs src name = Some (Oid sha)"
  shows "dir_refs (FsDir (Some (fork_layout base source head (snapshot_entries refs)))) = dir_refs src"
proof (cases "snapshot_entries refs = []")
  case True
  have "dir_refs src n = None" for n
    using True snapshot_entries_mem [of _ n refs] assms [of n] by (cases "dir_refs src n") (auto, metis oid.exhaust)
  then have "dir_refs src = Map.empty" by blast
  then show ?thesis
    unfolding True by (simp add: dir_refs_def [of "FsDir (Some (fork_layout base source head []))"] fork_layout_reads)
next
  case False
  have "packed_map (packed_text (sort_key snd (snapshot_entries refs))) = dir_refs src"
    by (rule packed_text_refs) (simp add: snapshot_entries_mem assms)
  then show ?thesis
    by (simp add: dir_refs_def [of "FsDir (Some (fork_layout base source head (snapshot_entries refs)))"] fork_layout_reads False)
qed

text \<open>C10: A fork has exactly the refs of its source. Where \<open>gix\<close> lists the source's refs and no file
  operation fails, a fork to a free id succeeds; and whenever it succeeds, the root has gained one
  repo, which resolves exactly the refs of the source at that moment, has its head and its object
  directory as alternates, and nothing else has changed.\<close>

theorem fork_shares_refs:
  assumes "fork_repo base gix s f \<lparr>io_tree = FsDir (Some children), io_faults = fs\<rparr> = (res, w)"
    and "map_of children (repo_path s) = Some src" "fs_lookup src [''HEAD''] = Some (FsFile head)"
    and "map_of children (repo_path f) = None" "gix_lists gix src"
  shows "(nfaults fs = 0 \<longrightarrow> res = Inr ()) \<and>
    (res = Inr () \<longrightarrow> (\<exists>repo. io_tree w = FsDir (Some (AList.update (repo_path f) repo children))
      \<and> dir_refs repo = dir_refs src \<and> read_to_string repo ''HEAD'' = head
      \<and> read_to_string repo ''objects/info/alternates'' = Some (base @ ''/'' @ repo_path s @ ''/objects'' @ [newline])))"
proof -
  obtain refs where refs: "gix (Some src) = Inr refs"
    "\<And>name sha. Some (name, TargetObject sha) \<in> set refs \<longleftrightarrow> dir_refs src name = Some (Oid sha)"
    using assms(5) unfolding gix_lists_def by blast
  have "is_dir (FsDir (Some children)) (repo_path s)"
    using assms(2,3) by (cases src) (auto simp: is_dir_def)
  then have st: "fork_steps base gix (repo_path s) (repo_path f) \<lparr>io_tree = FsDir (Some children), io_faults = fs\<rparr> = (res, w)"
    using assms(1,4) by (simp add: fork_repo_def)
  show ?thesis
  proof (cases rule: runs_toE [OF fork_runs [where gix = gix and base = base, OF assms(4,2,3) refs(1)], of fs])
    case (1 fs')
    then show ?thesis
      using st fork_layout_refs [OF refs(2)] fork_layout_reads by (auto simp: with_dir_def)
  next
    case (2 e p fs')
    then show ?thesis using st by auto
  qed
qed

theorem fork_shares_refs_witness:
  "\<exists>w repo. fork_repo ''/srv'' (\<lambda>_. Inr []) (RepoId ''demo'') (RepoId ''copy'')
       \<lparr>io_tree = FsDir (Some [(''demo.git'', FsDir (Some bare_layout))]), io_faults = []\<rparr> = (Inr (), w)
     \<and> io_tree w = FsDir (Some [(''demo.git'', FsDir (Some bare_layout)), (''copy.git'', repo)])
     \<and> dir_refs repo = Map.empty"
proof -
  let ?src = "FsDir (Some bare_layout)"
  obtain res w where r: "fork_repo ''/srv'' (\<lambda>_. Inr []) (RepoId ''demo'') (RepoId ''copy'')
       \<lparr>io_tree = FsDir (Some [(''demo.git'', ?src)]), io_faults = []\<rparr> = (res, w)"
    by (cases "fork_repo ''/srv'' (\<lambda>_. Inr []) (RepoId ''demo'') (RepoId ''copy'')
       \<lparr>io_tree = FsDir (Some [(''demo.git'', ?src)]), io_faults = []\<rparr>")
  have none: "dir_refs ?src = Map.empty"
    by (simp add: dir_refs_def bare_layout_def read_to_string_def loose_files_def sub_dirs_def sub_files_def)
  have paths: "repo_path (RepoId ''demo'') = ''demo.git''" "repo_path (RepoId ''copy'') = ''copy.git''"
    by (simp_all add: repo_path_def)
  have head: "fs_lookup ?src [''HEAD''] = Some (FsFile (Some HEAD_TEXT))" by (simp add: bare_layout_def)
  have "gix_lists (\<lambda>_. Inr []) ?src" by (simp add: gix_lists_def none)
  from fork_shares_refs [OF r _ head _ this] none r show ?thesis
    by (auto simp: paths nfaults_def)
qed

text \<open>Once the fork's directory is there, no step of the fork, failed or not, takes it away.\<close>

definition stays :: "string \<Rightarrow> (string \<times> fs_node) list \<Rightarrow> 'a io \<Rightarrow> bool" where
  "stays name children prog =
     (\<forall>sub fs. \<exists>sub'. io_tree (snd (prog \<lparr>io_tree = with_dir name children sub, io_faults = fs\<rparr>)) = with_dir name children sub')"

lemma stays_op:
  assumes "\<And>sub t. act (with_dir name children sub) = Some t \<Longrightarrow> \<exists>sub'. t = with_dir name children sub'"
    and "\<And>k sub t. partial k (with_dir name children sub) = Some t \<Longrightarrow> \<exists>sub'. t = with_dir name children sub'"
  shows "stays name children (io_op what act partial)"
  using assms by (fastforce simp: stays_def io_op_def split: prod.split option.split)

lemma stays_bind:
  assumes "stays name children a" "\<And>x. stays name children (f x)"
  shows "stays name children (io_bind a f)"
  unfolding stays_def
proof (intro allI)
  fix sub fs
  obtain r w where r: "a \<lparr>io_tree = with_dir name children sub, io_faults = fs\<rparr> = (r, w)" by (meson surj_pair)
  then obtain sub1 where "io_tree w = with_dir name children sub1" using assms(1) unfolding stays_def by (metis snd_conv)
  then have w: "w = \<lparr>io_tree = with_dir name children sub1, io_faults = io_faults w\<rparr>" by simp
  show "\<exists>sub'. io_tree (snd (io_bind a f \<lparr>io_tree = with_dir name children sub, io_faults = fs\<rparr>)) = with_dir name children sub'"
  proof (cases r)
    case Inl
    then show ?thesis using r w by (simp add: io_bind_def) (metis io_world.select_convs(1))
  next
    case (Inr x)
    have "io_bind a f \<lparr>io_tree = with_dir name children sub, io_faults = fs\<rparr> = f x w"
      using r Inr by (simp add: io_bind_def)
    then show ?thesis using assms(2) [of x] w unfolding stays_def by metis
  qed
qed

lemma stays_read: "stays name children (read_file path)"
  by (auto simp: stays_def read_file_def split: prod.split option.split fs_node.split)

lemma mkdirs_stays: "mkdirs (take k (name # p)) (with_dir name children sub) = Some t \<Longrightarrow> \<exists>sub'. t = with_dir name children sub'"
  using mkdirs_dir by (cases k) (fastforce simp: with_dir_def)+

lemma stays_mkdir: "stays name children (create_dir_all (name # p))"
  unfolding create_dir_all_def
proof (rule stays_op)
  show "\<exists>sub'. t = with_dir name children sub'" if "mkdirs (name # p) (with_dir name children sub) = Some t" for sub t
    using mkdirs_stays [of "Suc (length p)" name p children sub t] that by simp
qed (rule mkdirs_stays)

lemma write_stays:
  assumes "p \<noteq> []" "write_node (name # p) c (with_dir name children sub) = Some t"
  shows "\<exists>sub'. t = with_dir name children sub'"
proof -
  obtain x where x: "write_node p c (FsDir (Some sub)) = Some x" "t = FsDir (Some (AList.update name x children))"
    using assms(2) unfolding write_with_dir [OF assms(1)] by auto
  with write_node_dir [OF assms(1) x(1)] show ?thesis by (auto simp: with_dir_def)
qed

lemma stays_write: "p \<noteq> [] \<Longrightarrow> stays name children (write_file (name # p) content)"
  unfolding write_file_def by (intro stays_op) (auto dest: write_stays split: if_splits)

lemma stays_snapshot: "stays name children (snapshot_refs_to_packed gix source name)"
  using stays_write [of "[''packed-refs'']" name children]
  by (auto simp: stays_def snapshot_refs_to_packed_def Let_def split: sum.split)

text \<open>A failed fork keeps its id. Unlike \<open>create\<close>, \<open>fork\<close> does not remove what it made: when it fails after
  its first file operation, be it a file operation, an unreadable head or \<open>gix\<close>, the caller gets an
  error, and from then on neither a second fork nor a creation of that id succeeds, although no such
  repo was ever announced.\<close>

theorem failed_fork_blocks_id:
  assumes "is_dir (FsDir (Some children)) (repo_path s)" "map_of children (repo_path f) = None"
    and "fork_repo base gix s f \<lparr>io_tree = FsDir (Some children), io_faults = None # fs\<rparr> = (Inl e, w)"
  shows "fst (fork_repo base gix s f w) = Inl (RepoExists (repo_str f))
    \<and> fst (create_repo f w) = Inl (RepoExists (repo_str f))"
proof -
  let ?rest = "io_seq (create_dir_all [repo_path f, ''objects'', ''pack''])
    (io_seq (create_dir_all [repo_path f, ''refs'', ''heads''])
    (io_seq (create_dir_all [repo_path f, ''refs'', ''tags''])
    (io_seq (write_file [repo_path f, ''objects'', ''info'', ''alternates''] (Some (base @ ''/'' @ repo_path s @ ''/objects'' @ [newline])))
    (io_bind (read_file [repo_path s, ''HEAD'']) (\<lambda>head.
     io_seq (write_file [repo_path f, ''HEAD''] head)
    (io_seq (write_file [repo_path f, ''config''] (Some CONFIG_TEXT))
      (snapshot_refs_to_packed gix (repo_path s) (repo_path f))))))))"
  have ne: "repo_path s \<noteq> repo_path f" using assms(1,2) by (auto simp: is_dir_def)
  have rest: "stays (repo_path f) children ?rest"
    unfolding io_seq_def by (intro stays_bind stays_mkdir stays_write stays_read stays_snapshot) simp_all
  have first: "create_dir_all [repo_path f, ''objects'', ''info''] \<lparr>io_tree = FsDir (Some children), io_faults = None # fs\<rparr>
      = (Inr (), \<lparr>io_tree = with_dir (repo_path f) children [(''objects'', FsDir (Some [(''info'', FsDir (Some []))]))], io_faults = fs\<rparr>)"
    using assms(2) by (simp add: create_dir_all_def io_op_def with_dir_def)
  have "fork_repo base gix s f \<lparr>io_tree = FsDir (Some children), io_faults = None # fs\<rparr>
      = ?rest \<lparr>io_tree = with_dir (repo_path f) children [(''objects'', FsDir (Some [(''info'', FsDir (Some []))]))], io_faults = fs\<rparr>"
    using assms(1,2) first by (simp add: fork_repo_def fork_steps_def io_seq_def io_bind_def)
  with assms(3) rest obtain sub where "io_tree w = with_dir (repo_path f) children sub"
    unfolding stays_def by (metis snd_conv)
  then show ?thesis
    using assms(1) ne by (simp add: fork_repo_def create_repo_def is_dir_def with_dir_def update_conv')
qed

theorem failed_fork_blocks_id_witness:
  "\<exists>e w. fork_repo ''/srv'' (\<lambda>_. Inr []) (RepoId ''demo'') (RepoId ''copy'')
       \<lparr>io_tree = FsDir (Some [(''demo.git'', FsDir (Some bare_layout))]), io_faults = [None, Some 0]\<rparr> = (Inl e, w)
     \<and> fst (create_repo (RepoId ''copy'') w) = Inl (RepoExists ''copy'')"
proof -
  let ?w0 = "\<lparr>io_tree = FsDir (Some [(''demo.git'', FsDir (Some bare_layout))]), io_faults = [None, Some 0]\<rparr>"
  have paths: "repo_path (RepoId ''demo'') = ''demo.git''" "repo_path (RepoId ''copy'') = ''copy.git''"
    by (simp_all add: repo_path_def)
  obtain e w where r: "fork_repo ''/srv'' (\<lambda>_. Inr []) (RepoId ''demo'') (RepoId ''copy'') ?w0 = (Inl e, w)"
    by (simp add: fork_repo_def paths is_dir_def fork_steps_def io_seq_def io_bind_def create_dir_all_def io_op_def)
  from failed_fork_blocks_id [OF _ _ r] r show ?thesis by (auto simp: paths is_dir_def)
qed

section \<open>The trait\<close>

text \<open>What the callers of \<open>Storage\<close> rely on: \<open>ids s\<close> are the repos that are there. Creation and fork need a
  free id, fork an existing source, deletion an existing repo; they change that repo alone.\<close>

locale repo_storage =
  fixes ex :: "repo_id \<Rightarrow> 's \<Rightarrow> bool"
    and cr :: "repo_id \<Rightarrow> 's \<Rightarrow> (error + unit) \<times> 's"
    and fk :: "repo_id \<Rightarrow> repo_id \<Rightarrow> 's \<Rightarrow> (error + unit) \<times> 's"
    and dl :: "repo_id \<Rightarrow> 's \<Rightarrow> (error + unit) \<times> 's"
    and ids :: "'s \<Rightarrow> repo_id set"
    and ok :: "'s \<Rightarrow> bool"
  assumes ex_law: "ok s \<Longrightarrow> ex r s \<longleftrightarrow> r \<in> ids s"
    and cr_law: "ok s \<Longrightarrow> \<exists>s'. cr r s = (if r \<in> ids s then Inl (RepoExists (repo_str r)) else Inr (), s')
      \<and> ok s' \<and> ids s' = insert r (ids s)"
    and fk_law: "ok s \<Longrightarrow> \<exists>s'. fk src r s
        = (if src \<notin> ids s then Inl (RepoNotFound (repo_str src))
           else if r \<in> ids s then Inl (RepoExists (repo_str r)) else Inr (), s')
      \<and> ok s' \<and> ids s' = (if src \<in> ids s then insert r (ids s) else ids s)"
    and dl_law: "ok s \<Longrightarrow> \<exists>s'. dl r s = (if r \<in> ids s then Inr () else Inl (RepoNotFound (repo_str r)), s')
      \<and> ok s' \<and> ids s' = ids s - {r}"

datatype storage_op = OpCreate repo_id | OpFork repo_id repo_id | OpDelete repo_id

fun storage_spec :: "storage_op \<Rightarrow> repo_id set \<Rightarrow> (error + unit) \<times> repo_id set" where
  "storage_spec (OpCreate r) S = (if r \<in> S then Inl (RepoExists (repo_str r)) else Inr (), insert r S)"
| "storage_spec (OpFork src r) S =
     (if src \<notin> S then (Inl (RepoNotFound (repo_str src)), S)
      else (if r \<in> S then Inl (RepoExists (repo_str r)) else Inr (), insert r S))"
| "storage_spec (OpDelete r) S = (if r \<in> S then Inr () else Inl (RepoNotFound (repo_str r)), S - {r})"

fun run_all :: "('op \<Rightarrow> 's \<Rightarrow> 'r \<times> 's) \<Rightarrow> 'op list \<Rightarrow> 's \<Rightarrow> 'r list \<times> 's" where
  "run_all f [] s = ([], s)"
| "run_all f (x # xs) s = (case f x s of (r, s') \<Rightarrow> (case run_all f xs s' of (rs, s'') \<Rightarrow> (r # rs, s'')))"

fun storage_step ::
  "(repo_id \<Rightarrow> 's \<Rightarrow> (error + unit) \<times> 's) \<Rightarrow> (repo_id \<Rightarrow> repo_id \<Rightarrow> 's \<Rightarrow> (error + unit) \<times> 's)
     \<Rightarrow> (repo_id \<Rightarrow> 's \<Rightarrow> (error + unit) \<times> 's) \<Rightarrow> storage_op \<Rightarrow> 's \<Rightarrow> (error + unit) \<times> 's" where
  "storage_step cr fk dl (OpCreate r) = cr r"
| "storage_step cr fk dl (OpFork src r) = fk src r"
| "storage_step cr fk dl (OpDelete r) = dl r"

context repo_storage begin

lemma step_spec:
  assumes "ok s"
  shows "\<exists>s'. storage_step cr fk dl x s = (fst (storage_spec x (ids s)), s') \<and> ok s' \<and> ids s' = snd (storage_spec x (ids s))"
proof (cases x)
  case (OpCreate r)
  then show ?thesis using cr_law [OF assms, of r] by auto
next
  case (OpFork src r)
  then show ?thesis using fk_law [OF assms, of src r] by auto
next
  case (OpDelete r)
  then show ?thesis using dl_law [OF assms, of r] by auto
qed

lemma run_spec:
  "ok s \<Longrightarrow> \<exists>s'. run_all (storage_step cr fk dl) xs s = (fst (run_all storage_spec xs (ids s)), s')
     \<and> ok s' \<and> (\<forall>r. ex r s' \<longleftrightarrow> r \<in> snd (run_all storage_spec xs (ids s)))"
proof (induction xs arbitrary: s)
  case Nil
  then show ?case by (simp add: ex_law)
next
  case (Cons x xs)
  obtain s1 where s1: "storage_step cr fk dl x s = (fst (storage_spec x (ids s)), s1)" "ok s1" "ids s1 = snd (storage_spec x (ids s))"
    using step_spec [OF Cons.prems] by blast
  with Cons.IH [OF s1(2)] show ?case by (auto simp: case_prod_unfold)
qed

end

text \<open>The file system as such a store: it has no faults, all entries of the root are repos with a readable
  head, and \<open>gix\<close> opens such directories.\<close>

definition repo_shaped :: "fs_node \<Rightarrow> bool" where
  "repo_shaped node = (\<exists>children head. node = FsDir (Some children) \<and> map_of children ''HEAD'' = Some (FsFile head))"

definition storage_ok :: "io_world \<Rightarrow> bool" where
  "storage_ok w = (nfaults (io_faults w) = 0 \<and> (\<exists>children. io_tree w = FsDir (Some children)
     \<and> (\<forall>name node. map_of children name = Some node \<longrightarrow> repo_shaped node)))"

definition repo_ids :: "io_world \<Rightarrow> repo_id set" where
  "repo_ids w = {r. fs_lookup (io_tree w) [repo_path r] \<noteq> None}"

lemma repo_path_inj: "repo_path a = repo_path b \<Longrightarrow> a = b"
  by (cases a; cases b) (simp add: repo_path_def)

lemma storage_okE:
  assumes "storage_ok w"
  obtains children fs where "w = \<lparr>io_tree = FsDir (Some children), io_faults = fs\<rparr>" "nfaults fs = 0"
    "\<And>name node. map_of children name = Some node \<Longrightarrow> repo_shaped node" "\<And>r. r \<in> repo_ids w \<longleftrightarrow> map_of children (repo_path r) \<noteq> None"
  using assms by (cases w) (auto simp: storage_ok_def repo_ids_def split: option.splits)

lemma with_dir_ok:
  assumes "\<And>name node. map_of children name = Some node \<Longrightarrow> repo_shaped node" "repo_shaped (FsDir (Some sub))" "nfaults fs = 0"
    and "w = \<lparr>io_tree = FsDir (Some children), io_faults = fs0\<rparr>"
  shows "storage_ok \<lparr>io_tree = with_dir (repo_path r) children sub, io_faults = fs\<rparr>"
    "repo_ids \<lparr>io_tree = with_dir (repo_path r) children sub, io_faults = fs\<rparr> = insert r (repo_ids w)"
  using assms repo_path_inj
  by (auto simp: storage_ok_def with_dir_def update_conv' repo_ids_def split: option.splits if_splits)

lemma dir_iff: "repo_shaped node \<Longrightarrow> \<exists>children. node = FsDir (Some children)"
  by (auto simp: repo_shaped_def)

lemma create_repo_law:
  assumes "storage_ok w"
  shows "\<exists>w'. create_repo r w = (if r \<in> repo_ids w then Inl (RepoExists (repo_str r)) else Inr (), w')
    \<and> storage_ok w' \<and> repo_ids w' = insert r (repo_ids w)"
proof -
  obtain children fs where w: "w = \<lparr>io_tree = FsDir (Some children), io_faults = fs\<rparr>" "nfaults fs = 0"
    "\<And>name node. map_of children name = Some node \<Longrightarrow> repo_shaped node" "\<And>r. r \<in> repo_ids w \<longleftrightarrow> map_of children (repo_path r) \<noteq> None"
    by (rule storage_okE [OF assms]) blast
  show ?thesis
  proof (cases "map_of children (repo_path r)")
    case None
    show ?thesis
    proof (cases rule: runs_toE [OF layout_runs [OF None], of fs])
      case (1 fs')
      have "repo_shaped (FsDir (Some bare_layout))" by (simp add: repo_shaped_def bare_layout_def)
      from with_dir_ok [where fs = fs' and r = r, OF w(3) this _ w(1)] 1 None w(1,2,4) show ?thesis
        by (auto simp: create_repo_def Let_def)
    qed (use w(2) in simp)
  next
    case (Some node)
    then have r: "r \<in> repo_ids w" using w(4) by simp
    then have "create_repo r w = (Inl (RepoExists (repo_str r)), w)" using Some w(1) by (simp add: create_repo_def)
    then show ?thesis using r assms by auto
  qed
qed

lemma fork_repo_law:
  assumes "storage_ok w" "\<And>node. repo_shaped node \<Longrightarrow> \<exists>refs. gix (Some node) = Inr refs"
  shows "\<exists>w'. fork_repo base gix src r w
      = (if src \<notin> repo_ids w then Inl (RepoNotFound (repo_str src))
         else if r \<in> repo_ids w then Inl (RepoExists (repo_str r)) else Inr (), w')
    \<and> storage_ok w' \<and> repo_ids w' = (if src \<in> repo_ids w then insert r (repo_ids w) else repo_ids w)"
proof -
  obtain children fs where w: "w = \<lparr>io_tree = FsDir (Some children), io_faults = fs\<rparr>" "nfaults fs = 0"
    "\<And>name node. map_of children name = Some node \<Longrightarrow> repo_shaped node" "\<And>r. r \<in> repo_ids w \<longleftrightarrow> map_of children (repo_path r) \<noteq> None"
    by (rule storage_okE [OF assms(1)]) blast
  have dir: "is_dir (FsDir (Some children)) (repo_path x) \<longleftrightarrow> x \<in> repo_ids w" for x
    using w(3) dir_iff by (fastforce simp: is_dir_def w(4) split: option.splits fs_node.splits)
  consider (nosrc) "src \<notin> repo_ids w" | (taken) "src \<in> repo_ids w" "r \<in> repo_ids w"
    | (free) node where "map_of children (repo_path src) = Some node" "map_of children (repo_path r) = None"
    using w(4) by blast
  then show ?thesis
  proof cases
    case nosrc
    then have "fork_repo base gix src r w = (Inl (RepoNotFound (repo_str src)), w)"
      using dir by (simp add: fork_repo_def w(1))
    then show ?thesis using nosrc assms(1) by auto
  next
    case taken
    then have "fork_repo base gix src r w = (Inl (RepoExists (repo_str r)), w)"
      using dir w(4) by (auto simp: fork_repo_def w(1) split: option.splits)
    then show ?thesis using taken assms(1) by auto
  next
    case free
    then have mem: "src \<in> repo_ids w" "r \<notin> repo_ids w" using w(4) by auto
    obtain refs where refs: "gix (Some node) = Inr refs" using assms(2) w(3) [OF free(1)] by blast
    obtain head where head: "fs_lookup node [''HEAD''] = Some (FsFile head)"
      using w(3) [OF free(1)] by (auto simp: repo_shaped_def)
    show ?thesis
    proof (cases rule: runs_toE [OF fork_runs [where gix = gix and base = base, OF free(2,1) head refs], of fs])
      case (1 fs')
      have "repo_shaped (FsDir (Some (fork_layout base (repo_path src) head (snapshot_entries refs))))"
        by (simp add: repo_shaped_def fork_layout_def)
      from with_dir_ok [where fs = fs' and r = r, OF w(3) this _ w(1)] have "storage_ok \<lparr>io_tree = with_dir (repo_path r) children
          (fork_layout base (repo_path src) head (snapshot_entries refs)), io_faults = fs'\<rparr>"
        "repo_ids \<lparr>io_tree = with_dir (repo_path r) children
          (fork_layout base (repo_path src) head (snapshot_entries refs)), io_faults = fs'\<rparr> = insert r (repo_ids w)"
        using 1(2) w(2) by simp_all
      moreover have "fork_repo base gix src r w = (Inr (), \<lparr>io_tree = with_dir (repo_path r) children
          (fork_layout base (repo_path src) head (snapshot_entries refs)), io_faults = fs'\<rparr>)"
        using 1(1) mem dir free(2) by (simp add: fork_repo_def w(1))
      ultimately show ?thesis using mem by simp
    qed (use w(2) in simp)
  qed
qed

lemma delete_repo_law:
  assumes "storage_ok w"
  shows "\<exists>w'. delete_repo r w = (if r \<in> repo_ids w then Inr () else Inl (RepoNotFound (repo_str r)), w')
    \<and> storage_ok w' \<and> repo_ids w' = repo_ids w - {r}"
proof -
  obtain children fs where w: "w = \<lparr>io_tree = FsDir (Some children), io_faults = fs\<rparr>" "nfaults fs = 0"
    "\<And>name node. map_of children name = Some node \<Longrightarrow> repo_shaped node" "\<And>r. r \<in> repo_ids w \<longleftrightarrow> map_of children (repo_path r) \<noteq> None"
    by (rule storage_okE [OF assms]) blast
  show ?thesis
  proof (cases "map_of children (repo_path r)")
    case None
    then have "delete_repo r w = (Inl (RepoNotFound (repo_str r)), w)" using w(1) by (simp add: delete_repo_def is_dir_def)
    then show ?thesis using assms None w(4) by auto
  next
    case (Some node)
    then obtain sub where node: "node = FsDir (Some sub)" using dir_iff w(3) by blast
    obtain fs' where n: "next_fault fs = (None, fs')" "nfaults fs' = 0"
      using w(2) by (cases fs rule: next_fault.cases) (auto simp: nfaults_def split: if_splits)
    have "delete_repo r w = (Inr (), \<lparr>io_tree = FsDir (Some (AList.delete (repo_path r) children)), io_faults = fs'\<rparr>)"
      using Some node n(1) by (simp add: delete_repo_def is_dir_def w(1) remove_dir_all_def io_op_def)
    moreover have "storage_ok \<lparr>io_tree = FsDir (Some (AList.delete (repo_path r) children)), io_faults = fs'\<rparr>"
      using n(2) w(3) by (auto simp: storage_ok_def delete_conv' split: if_splits)
    moreover have "repo_ids \<lparr>io_tree = FsDir (Some (AList.delete (repo_path r) children)), io_faults = fs'\<rparr> = repo_ids w - {r}"
      using repo_path_inj by (auto simp: repo_ids_def w(1) delete_conv' split: option.splits if_splits)
    ultimately show ?thesis using Some w(4) by auto
  qed
qed

lemma repo_exists_law: "storage_ok w \<Longrightarrow> repo_exists r (io_tree w) \<longleftrightarrow> r \<in> repo_ids w"
  by (elim storage_okE) (use dir_iff in \<open>fastforce simp: repo_exists_def is_dir_def split: option.splits fs_node.splits\<close>)

definition gix_opens :: "gix_list \<Rightarrow> bool" where
  "gix_opens gix = (\<forall>node. repo_shaped node \<longrightarrow> (\<exists>refs. gix (Some node) = Inr refs))"

interpretation fs_storage: repo_storage "\<lambda>r w. repo_exists r (io_tree w)" create_repo "fork_repo base gix" delete_repo
  repo_ids "\<lambda>w. storage_ok w \<and> gix_opens gix" for base gix
proof
  fix w :: io_world and r src :: repo_id
  assume ok: "storage_ok w \<and> gix_opens gix"
  then show "repo_exists r (io_tree w) \<longleftrightarrow> r \<in> repo_ids w" by (simp add: repo_exists_law)
  show "\<exists>w'. create_repo r w = (if r \<in> repo_ids w then Inl (RepoExists (repo_str r)) else Inr (), w')
      \<and> (storage_ok w' \<and> gix_opens gix) \<and> repo_ids w' = insert r (repo_ids w)"
    using create_repo_law [of w r] ok by blast
  show "\<exists>w'. fork_repo base gix src r w = (if src \<notin> repo_ids w then Inl (RepoNotFound (repo_str src))
           else if r \<in> repo_ids w then Inl (RepoExists (repo_str r)) else Inr (), w')
      \<and> (storage_ok w' \<and> gix_opens gix) \<and> repo_ids w' = (if src \<in> repo_ids w then insert r (repo_ids w) else repo_ids w)"
    using fork_repo_law [of w gix base src r] ok unfolding gix_opens_def by blast
  show "\<exists>w'. delete_repo r w = (if r \<in> repo_ids w then Inr () else Inl (RepoNotFound (repo_str r)), w')
      \<and> (storage_ok w' \<and> gix_opens gix) \<and> repo_ids w' = repo_ids w - {r}"
    using delete_repo_law [of w r] ok by blast
qed

text \<open>The lifecycle of repos. From a root whose entries are repos, and while no file operation fails, any
  sequence of creations, forks and deletions answers exactly as the same operations on a set of
  ids do, and leaves exactly that set of repos.\<close>

theorem storage_lifecycle:
  assumes "storage_ok w" "gix_opens gix"
  shows "\<exists>w'. run_all (storage_step create_repo (fork_repo base gix) delete_repo) ops w
      = (fst (run_all storage_spec ops (repo_ids w)), w')
    \<and> (\<forall>r. repo_exists r (io_tree w') \<longleftrightarrow> r \<in> snd (run_all storage_spec ops (repo_ids w)))"
  using fs_storage.run_spec [of w gix base ops] assms by blast

theorem storage_lifecycle_witness:
  "\<exists>w'. run_all (storage_step create_repo (fork_repo ''/srv'' (\<lambda>_. Inr [])) delete_repo)
       [OpCreate (RepoId ''demo''), OpFork (RepoId ''demo'') (RepoId ''copy''), OpDelete (RepoId ''demo''), OpDelete (RepoId ''demo'')]
       \<lparr>io_tree = FsDir (Some []), io_faults = []\<rparr>
     = ([Inr (), Inr (), Inr (), Inl (RepoNotFound ''demo'')], w')
     \<and> (\<forall>r. repo_exists r (io_tree w') \<longleftrightarrow> r = RepoId ''copy'')"
proof -
  let ?w = "\<lparr>io_tree = FsDir (Some []), io_faults = []\<rparr>"
  have "storage_ok ?w" "gix_opens (\<lambda>_. Inr [])" "repo_ids ?w = {}"
    by (auto simp: storage_ok_def nfaults_def gix_opens_def repo_ids_def)
  then show ?thesis
    using storage_lifecycle [of ?w "\<lambda>_. Inr []" "''/srv''"
        "[OpCreate (RepoId ''demo''), OpFork (RepoId ''demo'') (RepoId ''copy''), OpDelete (RepoId ''demo''), OpDelete (RepoId ''demo'')]"]
    by auto
qed

section \<open>Paths\<close>

lemma split_char_append_gen: "split_char d (a @ d # b) = split_char d a @ split_char d b"
proof (induction a)
  case (Cons c a)
  then show ?case by (cases "split_char d a") auto
qed simp

lemma drop_prefix_append [simp]: "drop_prefix xs (xs @ ys) = Some ys"
  by (induction xs) auto

lemma path_components_join:
  assumes "x \<noteq> []" "CHR ''/'' \<notin> set x" "x \<noteq> ''.''" "x \<noteq> ''..''"
  shows "path_components (path_join base x) = path_components base @ [Normal x]"
proof -
  have seg: "segment first x = [Normal x]" for first using assms by (simp add: segment_def)
  have x: "\<not> starts_with ''/'' x" using assms(1,2) by (cases x) (auto simp: starts_with_iff)
  show ?thesis
  proof (cases "base = [] \<or> ends_with ''/'' base")
    case False
    obtain s ss where s: "split_char CHR ''/'' base = s # ss" by (cases "split_char CHR ''/'' base") auto
    then have "split_char CHR ''/'' (base @ ''/'' @ x) = s # ss @ [x]"
      using assms(2) by (simp add: split_char_append_gen)
    then show ?thesis using False x s by (simp add: path_components_def path_join_def seg)
  next
    case True
    then consider "base = []" | b where "base = b @ ''/''" by (auto simp: ends_with_iff)
    then show ?thesis
    proof cases
      case 1
      then show ?thesis using x assms by (simp add: path_components_def path_join_def seg segment_def)
    next
      case 2
      obtain s ss where s: "split_char CHR ''/'' b = s # ss" by (cases "split_char CHR ''/'' b") auto
      then have "split_char CHR ''/'' (base @ x) = s # ss @ [x]" "split_char CHR ''/'' base = s # ss @ [[]]"
        using assms(2) by (simp_all add: 2 split_char_append_gen)
      then show ?thesis using True x 2 assms(1,3,4) by (simp add: path_components_def path_join_def seg segment_def)
    qed
  qed
qed

text \<open>A repo id never escapes the root. For every root path and every valid id, the check on the joined
  path passes, and the path is that of the root with one more, normal component.\<close>

theorem repo_path_safe:
  assumes "validate_repo_id (repo_str r) = Inr ()"
  shows "path_is_safe_descendant base (path_join base (repo_path r)) = Inr ()
    \<and> path_components (path_join base (repo_path r)) = path_components base @ [Normal (repo_str r @ ''.git'')]"
proof -
  have ok: "list_all (\<lambda>c. is_lower c \<or> is_digit c \<or> c = CHR ''-'' \<or> c = CHR ''_'') (repo_str r)"
    "4 \<le> length (repo_str r)"
    using assms by (auto simp: validate_repo_id_def split: if_splits)
  then have "CHR ''/'' \<notin> set (repo_path r)"
    by (auto simp: repo_path_def list_all_iff is_lower_def is_digit_def)
  moreover have "repo_path r \<noteq> []" "repo_path r \<noteq> ''.''" "repo_path r \<noteq> ''..''"
    using ok(2) by (auto simp: repo_path_def append_eq_Cons_conv)
  ultimately have c: "path_components (path_join base (repo_path r)) = path_components base @ [Normal (repo_path r)]"
    by (intro path_components_join)
  then show ?thesis by (simp add: path_is_safe_descendant_def repo_path_def)
qed

theorem repo_path_safe_witness:
  "path_is_safe_descendant ''/srv/repos'' (path_join ''/srv/repos'' (repo_path (RepoId ''demo''))) = Inr ()
    \<and> path_is_safe_descendant ''/srv/repos'' (path_join ''/srv/repos'' (repo_path (RepoId ''../../etc''))) \<noteq> Inr ()"
proof -
  have "validate_repo_id (repo_str (RepoId ''demo'')) = Inr ()" by code_simp
  from repo_path_safe [OF this] have "path_is_safe_descendant ''/srv/repos'' (path_join ''/srv/repos'' (repo_path (RepoId ''demo''))) = Inr ()" ..
  moreover have "path_is_safe_descendant ''/srv/repos'' (path_join ''/srv/repos'' (repo_path (RepoId ''../../etc''))) \<noteq> Inr ()"
    by code_simp
  ultimately show ?thesis ..
qed

section \<open>The byte quota\<close>

text \<open>The size of a tree, where all its directories can be read.\<close>

fun readable_dir :: "fs_node \<Rightarrow> bool" where
  "readable_dir (FsFile _) = False"
| "readable_dir (FsDir None) = False"
| "readable_dir (FsDir (Some children)) =
     (\<forall>(c, n)\<in>set children. case n of FsFile _ \<Rightarrow> True | FsDir _ \<Rightarrow> readable_dir n)"

fun tree_bytes :: "(string option \<Rightarrow> nat) \<Rightarrow> fs_node \<Rightarrow> nat" where
  "tree_bytes len (FsFile s) = len s"
| "tree_bytes len (FsDir None) = 0"
| "tree_bytes len (FsDir (Some children)) = sum_list (map (\<lambda>(_, n). tree_bytes len n) children)"

lemma tree_bytes_split:
  "sum_list (map (\<lambda>(_, n). tree_bytes len n) children)
     = sum_list (map (tree_bytes len) (map snd (sub_dirs [] children))) + sum_list (map (\<lambda>(_, s). len s) (sub_files [] children))"
  by (induction children) (auto simp: sub_dirs_def sub_files_def split: fs_node.splits)

lemma readable_split:
  "readable_dir (FsDir (Some children)) \<longleftrightarrow> list_all readable_dir (map snd (sub_dirs [] children))"
  by (induction children) (auto simp: sub_dirs_def split: fs_node.splits)

lemma dir_size_loop_spec:
  "dir_size_loop len stack acc
     = (if list_all readable_dir stack then Some (acc + sum_list (map (tree_bytes len) stack)) else None)"
proof (induction len stack acc rule: dir_size_loop.induct)
  case (2 len children stack acc)
  have r: "list_all readable_dir (rev (map snd (sub_dirs [] children))) \<longleftrightarrow> readable_dir (FsDir (Some children))"
    by (simp only: readable_split list_all_rev)
  have s: "sum_list (map (tree_bytes len) (rev (map snd (sub_dirs [] children)))) = sum_list (map (tree_bytes len) (map snd (sub_dirs [] children)))"
    by (simp only: rev_map [symmetric] sum_list_rev)
  show ?case
    unfolding dir_size_loop.simps(2) "2.IH" list_all_append r list.pred_inject(2) map_append sum_list_append s
    by (simp add: tree_bytes_split del: readable_dir.simps)
qed simp_all

text \<open>The byte quota, exactly. A push is refused iff a limit is set and the repo's directory, where it can
  be walked, holds at least that many bytes; a repo that cannot be walked counts as empty.\<close>

theorem byte_quota_exact:
  "check_repo_byte_quota len tree repo limit =
     (case fs_lookup tree [repo @ ''.git''] of
        Some node \<Rightarrow>
          (if limit \<noteq> 0 \<and> readable_dir node \<and> limit \<le> tree_bytes len node
           then Inl (RepoByteQuotaExceeded repo (tree_bytes len node) limit) else Inr ())
      | None \<Rightarrow> Inr ())"
  by (auto simp: check_repo_byte_quota_def dir_size_def dir_size_loop_spec split: option.split)

end
