(* ===== verification/WebhookUrl.thy ===== *)
theory WebhookUrl
  imports Errors
begin

text \<open>
  The guard on webhook targets, \<open>validate_webhook_url\<close> and \<open>is_blocked_target_ip\<close> of
  \<open>src/webhooks.rs\<close>, with the standard library's parser of IP addresses that it calls.
\<close>

unbundle bit_operations_syntax

section \<open>Definitions\<close>

subsection \<open>IP addresses\<close>

datatype ip_addr = V4 u8 u8 u8 u8 | V6 "u16 list"

definition digit_of :: "nat \<Rightarrow> char \<Rightarrow> nat option" where
  "digit_of radix c = (case hex_val c of Some v \<Rightarrow> if v < radix then Some v else None | None \<Rightarrow> None)"

text \<open>\<open>Parser::read_number\<close>: at most \<open>max_digits\<close> digits, no superfluous leading zero unless allowed, a value of at
  most \<open>bound\<close>.\<close>

definition read_number :: "nat \<Rightarrow> nat \<Rightarrow> bool \<Rightarrow> nat \<Rightarrow> string \<Rightarrow> (nat \<times> string) option" where
  "read_number radix max_digits allow_zero_prefix bound s =
     (let ds = takeWhile (\<lambda>c. digit_of radix c \<noteq> None) s;
          n = foldl (\<lambda>r c. r * radix + the (digit_of radix c)) 0 ds
      in if length ds > max_digits \<or> ds = [] then None
         else if \<not> allow_zero_prefix \<and> hd ds = CHR ''0'' \<and> length ds > 1 then None
         else if n > bound then None
         else Some (n, drop (length ds) s))"

definition read_separator :: "char \<Rightarrow> nat \<Rightarrow> (string \<Rightarrow> ('a \<times> string) option) \<Rightarrow> string \<Rightarrow> ('a \<times> string) option" where
  "read_separator sep i inner s =
     (if i > 0 then (case s of [] \<Rightarrow> None | c # s' \<Rightarrow> if c = sep then inner s' else None)
      else inner s)"

fun read_v4_groups :: "nat \<Rightarrow> nat \<Rightarrow> string \<Rightarrow> (nat list \<times> string) option" where
  "read_v4_groups 0 i s = Some ([], s)"
| "read_v4_groups (Suc k) i s =
     (case read_separator CHR ''.'' i (read_number 10 3 False 255) s of
        None \<Rightarrow> None
      | Some (n, s') \<Rightarrow> map_option (\<lambda>(ns, s''). (n # ns, s'')) (read_v4_groups k (Suc i) s'))"

definition read_ipv4_addr :: "string \<Rightarrow> (nat list \<times> string) option" where
  "read_ipv4_addr s = read_v4_groups 4 0 s"

text \<open>\<open>read_groups\<close> of the parser, with \<open>k\<close> groups left to read and \<open>i\<close> read.\<close>

fun read_groups :: "nat \<Rightarrow> nat \<Rightarrow> string \<Rightarrow> nat list \<times> bool \<times> string" where
  "read_groups 0 i s = ([], False, s)"
| "read_groups (Suc k) i s =
     (case (if 0 < k then read_separator CHR '':'' i read_ipv4_addr s else None) of
        Some (ns, s') \<Rightarrow> ([ns ! 0 * 256 + ns ! 1, ns ! 2 * 256 + ns ! 3], True, s')
      | None \<Rightarrow>
          (case read_separator CHR '':'' i (read_number 16 4 True 65535) s of
             None \<Rightarrow> ([], False, s)
           | Some (g, s') \<Rightarrow> (case read_groups k (Suc i) s' of (gs, v4, s'') \<Rightarrow> (g # gs, v4, s''))))"

definition read_ipv6_addr :: "string \<Rightarrow> (nat list \<times> string) option" where
  "read_ipv6_addr s =
     (case read_groups 8 0 s of (front, front_ipv4, s') \<Rightarrow>
        if length front = 8 then Some (front, s')
        else if front_ipv4 then None
        else (case strip_prefix ''::'' s' of
                None \<Rightarrow> None
              | Some s'' \<Rightarrow>
                  (case read_groups (8 - (length front + 1)) 0 s'' of (back, _, s''') \<Rightarrow>
                     Some (front @ replicate (8 - length front - length back) 0 @ back, s'''))))"

definition parse_ip :: "string \<Rightarrow> ip_addr option" where
  "parse_ip s =
     (case read_ipv4_addr s of
        Some (ns, s') \<Rightarrow>
          if s' = [] then Some (V4 (of_nat (ns ! 0)) (of_nat (ns ! 1)) (of_nat (ns ! 2)) (of_nat (ns ! 3))) else None
      | None \<Rightarrow>
          (case read_ipv6_addr s of
             Some (gs, s') \<Rightarrow> if s' = [] then Some (V6 (map of_nat gs)) else None
           | None \<Rightarrow> None))"

text \<open>The predicates of \<open>Ipv4Addr\<close> that the source calls, then the match on both kinds.\<close>

definition is_blocked_v4 :: "u8 \<Rightarrow> u8 \<Rightarrow> u8 \<Rightarrow> u8 \<Rightarrow> bool" where
  "is_blocked_v4 a b c d =
     (a = 127                                                        \<comment> \<open>\<open>is_loopback\<close>\<close>
      \<or> a = 10 \<or> a = 172 \<and> 16 \<le> b \<and> b \<le> 31 \<or> a = 192 \<and> b = 168    \<comment> \<open>\<open>is_private\<close>\<close>
      \<or> a = 169 \<and> b = 254                                            \<comment> \<open>\<open>is_link_local\<close>\<close>
      \<or> a = 0 \<and> b = 0 \<and> c = 0 \<and> d = 0                              \<comment> \<open>\<open>is_unspecified\<close>\<close>
      \<or> a = 255 \<and> b = 255 \<and> c = 255 \<and> d = 255                      \<comment> \<open>\<open>is_broadcast\<close>\<close>
      \<or> a = 192 \<and> b = 0 \<and> c = 2 \<or> a = 198 \<and> b = 51 \<and> c = 100
      \<or> a = 203 \<and> b = 0 \<and> c = 113                                   \<comment> \<open>\<open>is_documentation\<close>\<close>
      \<or> 224 \<le> a \<and> a \<le> 239                                          \<comment> \<open>\<open>is_multicast\<close>\<close>
      \<or> a = 100 \<and> b AND 0xC0 = 0x40)"

text \<open>\<open>to_ipv4_mapped\<close>.\<close>

definition ipv4_mapped :: "u16 list \<Rightarrow> (u8 \<times> u8 \<times> u8 \<times> u8) option" where
  "ipv4_mapped s =
     (if take 6 s = [0, 0, 0, 0, 0, 0xFFFF]
      then Some (ucast (drop_bit 8 (s ! 6)), ucast (s ! 6), ucast (drop_bit 8 (s ! 7)), ucast (s ! 7))
      else None)"

fun is_blocked_target_ip :: "ip_addr \<Rightarrow> bool" where
  "is_blocked_target_ip (V4 a b c d) = is_blocked_v4 a b c d"
| "is_blocked_target_ip (V6 s) =
     (case ipv4_mapped s of
        Some (a, b, c, d) \<Rightarrow> is_blocked_v4 a b c d
      | None \<Rightarrow>
          s = [0, 0, 0, 0, 0, 0, 0, 1] \<or> s = [0, 0, 0, 0, 0, 0, 0, 0]
          \<or> s ! 0 AND 0xFF00 = 0xFF00 \<or> s ! 0 AND 0xFE00 = 0xFC00 \<or> s ! 0 AND 0xFFC0 = 0xFE80)"

subsection \<open>The URL\<close>

fun split_once_str :: "string \<Rightarrow> string \<Rightarrow> (string \<times> string) option" where
  "split_once_str p [] = (if p = [] then Some ([], []) else None)"
| "split_once_str p (c # s) =
     (case strip_prefix p (c # s) of
        Some r \<Rightarrow> Some ([], r)
      | None \<Rightarrow> map_option (\<lambda>(a, b). (c # a, b)) (split_once_str p s))"

definition rsplit_once :: "char \<Rightarrow> string \<Rightarrow> (string \<times> string) option" where
  "rsplit_once d s = (case split_once d (rev s) of None \<Rightarrow> None | Some (b, a) \<Rightarrow> Some (rev a, rev b))"

definition ascii_lower :: "char \<Rightarrow> char" where
  "ascii_lower c = (if 65 \<le> (of_char c :: nat) \<and> (of_char c :: nat) \<le> 90 then char_of (of_char c + 32 :: nat) else c)"

definition url_error :: "string \<Rightarrow> error" where
  "url_error m = BadRequest (BadOther m)"

text \<open>The host of an authority: without user information, brackets and a numeric port.\<close>

definition url_host :: "string \<Rightarrow> error + string" where
  "url_host authority =
     (let hostport = (case rsplit_once CHR ''@'' authority of None \<Rightarrow> authority | Some (_, hp) \<Rightarrow> hp) in
      case strip_prefix ''['' hostport of
        Some rest \<Rightarrow>
          (case split_once CHR '']'' rest of
             Some (h, _) \<Rightarrow> Inr h
           | None \<Rightarrow> Inl (url_error ''malformed IPv6 host in webhook url''))
      | None \<Rightarrow>
          Inr (case rsplit_once CHR '':'' hostport of
                 None \<Rightarrow> hostport
               | Some (h, p) \<Rightarrow> if p \<noteq> [] \<and> list_all (\<lambda>c. digit_of 10 c \<noteq> None) p then h else hostport))"

definition validate_webhook_url :: "string \<Rightarrow> bool \<Rightarrow> error + unit" where
  "validate_webhook_url url allow_private =
     res_bind (ok_or (url_error ''webhook url must be http(s)://...'') (split_once_str ''://'' url)) (\<lambda>(scheme, rest).
       let scheme = map ascii_lower scheme in
       if scheme \<noteq> ''http'' \<and> scheme \<noteq> ''https'' then Inl (url_error ''webhook url scheme must be http or https'')
       else
         let authority = takeWhile (\<lambda>c. c \<notin> {CHR ''/'', CHR ''?'', CHR ''#''}) rest in
         res_bind (url_host authority) (\<lambda>host.
           if host = [] then Inl (url_error ''webhook url has no host'')
           else if \<not> allow_private
           then (case parse_ip host of
                   Some ip \<Rightarrow>
                     if is_blocked_target_ip ip
                     then Inl (url_error ''webhook url targets a loopback/private/link-local address'')
                     else Inr ()
                 | None \<Rightarrow> Inr ())
           else Inr ()))"

section \<open>Lemmas\<close>

lemma digit_of_hex_digit [simp]: "n < 10 \<Longrightarrow> digit_of 10 (hex_digit n) = Some n"
  by (simp add: digit_of_def)

lemma fmt_dec_digits: "c \<in> set (fmt_dec n) \<Longrightarrow> \<exists>v. digit_of 10 c = Some v"
  using fmt_dec_chars [of c n] by (auto simp: digit_of_def hex_val_def Let_def)

lemma fmt_dec_value: "foldl (\<lambda>r c. r * 10 + the (digit_of 10 c)) 0 (fmt_dec n) = n"
proof (induction n rule: fmt_dec.induct)
  case (1 n)
  then show ?case by (subst fmt_dec.simps) (auto simp: fmt_dec.simps)
qed

lemma fmt_dec_shape:
  "fmt_dec n \<noteq> []" "n < 256 \<Longrightarrow> length (fmt_dec n) \<le> 3" "length (fmt_dec n) > 1 \<Longrightarrow> hd (fmt_dec n) \<noteq> CHR ''0''"
proof -
  show "fmt_dec n \<noteq> []" by (subst fmt_dec.simps) simp
  show "length (fmt_dec n) \<le> 3" if "n < 256"
    using that by (subst fmt_dec.simps, subst fmt_dec.simps, subst fmt_dec.simps) auto
  show "hd (fmt_dec n) \<noteq> CHR ''0''" if "length (fmt_dec n) > 1"
    using that
  proof (induction n rule: fmt_dec.induct)
    case (1 n)
    show ?case
    proof (cases "n < 10")
      case True
      then show ?thesis using "1.prems" by (simp add: fmt_dec.simps)
    next
      case False
      then have e: "fmt_dec n = fmt_dec (n div 10) @ [hex_digit (n mod 10)]" by (subst fmt_dec.simps) simp
      have ne: "fmt_dec (n div 10) \<noteq> []" by (subst fmt_dec.simps) simp
      show ?thesis
      proof (cases "length (fmt_dec (n div 10)) > 1")
        case True
        then show ?thesis using "1.IH" [OF False] ne by (simp add: e)
      next
        case one: False
        then have "n div 10 < 10"
          by (metis One_nat_def append_is_Nil_conv fmt_dec.simps length_append_singleton length_greater_0_conv less_Suc_eq_0_disj linorder_not_less not_less_eq ne)
        then have "fmt_dec (n div 10) = [hex_digit (n div 10)]" by (simp add: fmt_dec.simps)
        moreover have "hex_digit (n div 10) \<noteq> CHR ''0''"
        proof
          assume "hex_digit (n div 10) = CHR ''0''"
          then have "(of_char (hex_digit (n div 10)) :: nat) = 48" by simp
          with \<open>n div 10 < 10\<close> False show False by (simp add: of_char_hex_digit)
        qed
        ultimately show ?thesis by (simp add: e)
      qed
    qed
  qed
qed

lemma read_number_fmt:
  assumes "n \<le> 255" "rest = [] \<or> digit_of 10 (hd rest) = None"
  shows "read_number 10 3 False 255 (fmt_dec n @ rest) = Some (n, rest)"
proof -
  have "takeWhile (\<lambda>c. digit_of 10 c \<noteq> None) (fmt_dec n @ rest) = fmt_dec n"
  proof -
    have "takeWhile (\<lambda>c. digit_of 10 c \<noteq> None) rest = []"
      using assms(2) by (cases rest) auto
    moreover have "\<forall>c\<in>set (fmt_dec n). digit_of 10 c \<noteq> None" using fmt_dec_digits by fastforce
    ultimately show ?thesis by (subst takeWhile_append2) auto
  qed
  then show ?thesis
    using fmt_dec_shape [of n] assms(1) by (auto simp: read_number_def Let_def fmt_dec_value)
qed

definition fmt_ipv4 :: "nat \<Rightarrow> nat \<Rightarrow> nat \<Rightarrow> nat \<Rightarrow> string" where
  "fmt_ipv4 a b c d = fmt_dec a @ ''.'' @ fmt_dec b @ ''.'' @ fmt_dec c @ ''.'' @ fmt_dec d"

lemma not_digit [simp]: "digit_of 10 CHR ''.'' = None" "digit_of 10 CHR '':'' = None"
  by (simp_all add: digit_of_def hex_val_def)

lemma parse_ip_fmt:
  assumes "a \<le> 255" "b \<le> 255" "c \<le> 255" "d \<le> 255"
  shows "parse_ip (fmt_ipv4 a b c d) = Some (V4 (of_nat a) (of_nat b) (of_nat c) (of_nat d))"
proof -
  have four: "(4 :: nat) = Suc (Suc (Suc (Suc 0)))" by simp
  have d: "read_number 10 3 False 255 (fmt_dec d) = Some (d, [])"
    using read_number_fmt [of d "[]"] assms(4) by simp
  have "read_ipv4_addr (fmt_ipv4 a b c d) = Some ([a, b, c, d], [])"
    using assms d unfolding read_ipv4_addr_def four
    by (simp add: fmt_ipv4_def read_separator_def read_number_fmt)
  then show ?thesis by (simp add: parse_ip_def)
qed

lemma fmt_ipv4_chars: "c \<in> set (fmt_ipv4 a b c' d) \<Longrightarrow> c = CHR ''.'' \<or> 48 \<le> (of_char c :: nat) \<and> (of_char c :: nat) \<le> 57"
  using fmt_dec_chars by (auto simp: fmt_ipv4_def)

lemma rsplit_once_append: "d \<notin> set b \<Longrightarrow> rsplit_once d (a @ d # b) = Some (a, b)"
  by (simp add: rsplit_once_def)

lemma rsplit_once_notin: "d \<notin> set a \<Longrightarrow> rsplit_once d a = None"
  by (simp add: rsplit_once_def)

text \<open>The parts of a URL whose host is an address literal: user information up to an at sign, and a port.\<close>

definition user_part :: "string \<Rightarrow> bool" where
  "user_part u = (u = [] \<or> last u = CHR ''@'' \<and> set u \<inter> {CHR ''/'', CHR ''?'', CHR ''#''} = {})"

definition port_part :: "string \<Rightarrow> bool" where
  "port_part p = (p = [] \<or> (\<exists>ds. p = CHR '':'' # ds \<and> ds \<noteq> [] \<and> list_all (\<lambda>c. digit_of 10 c \<noteq> None) ds))"

definition tail_part :: "string \<Rightarrow> bool" where
  "tail_part t = (t = [] \<or> hd t \<in> {CHR ''/'', CHR ''?'', CHR ''#''})"

lemma digit_chars: "digit_of 10 c \<noteq> None \<Longrightarrow> 48 \<le> (of_char c :: nat) \<and> (of_char c :: nat) \<le> 57"
  by (auto simp: digit_of_def hex_val_def Let_def split: if_splits)

lemma port_chars: "port_part p \<Longrightarrow> c \<in> set p \<Longrightarrow> c = CHR '':'' \<or> 48 \<le> (of_char c :: nat) \<and> (of_char c :: nat) \<le> 57"
  using digit_chars by (auto simp: port_part_def list_all_iff)

lemma ip_notin:
  assumes "x \<in> {CHR ''@'', CHR ''/'', CHR ''?'', CHR ''#'', CHR '':'', CHR ''[''}"
  shows "x \<notin> set (fmt_ipv4 a b c d)"
proof
  assume "x \<in> set (fmt_ipv4 a b c d)"
  from fmt_ipv4_chars [OF this] assms show False by auto
qed

lemma port_notin:
  assumes "x \<in> {CHR ''@'', CHR ''/'', CHR ''?'', CHR ''#''}" "port_part p"
  shows "x \<notin> set p"
proof
  assume "x \<in> set p"
  from port_chars [OF assms(2) this] assms(1) show False by auto
qed

lemma url_host_literal:
  assumes "user_part u" "port_part p"
  shows "url_host (u @ fmt_ipv4 a b c d @ p) = Inr (fmt_ipv4 a b c d)"
proof -
  let ?ip = "fmt_ipv4 a b c d"
  have no: "CHR ''@'' \<notin> set (?ip @ p)" "CHR '':'' \<notin> set ?ip"
    using ip_notin port_notin [OF _ assms(2)] by simp_all
  have hp: "(case rsplit_once CHR ''@'' (u @ ?ip @ p) of None \<Rightarrow> u @ ?ip @ p | Some (_, hp) \<Rightarrow> hp) = ?ip @ p"
  proof (cases "u = []")
    case True
    then show ?thesis using rsplit_once_notin [OF no(1)] by simp
  next
    case False
    then have u: "u = butlast u @ [CHR ''@'']"
      using assms(1) append_butlast_last_id [of u] by (metis user_part_def)
    have "u @ ?ip @ p = butlast u @ CHR ''@'' # (?ip @ p)" by (subst u) simp
    then have "rsplit_once CHR ''@'' (u @ ?ip @ p) = Some (butlast u, ?ip @ p)"
      using rsplit_once_append [OF no(1), of "butlast u"] by metis
    then show ?thesis by simp
  qed
  obtain x xs where ip: "?ip = x # xs" by (cases ?ip) (auto simp: fmt_ipv4_def)
  have "x \<noteq> CHR ''[''" using ip_notin [of "CHR ''[''" a b c d] ip by auto
  then have br: "strip_prefix ''['' (?ip @ p) = None" by (simp add: ip)
  have port: "(case rsplit_once CHR '':'' (?ip @ p) of None \<Rightarrow> ?ip @ p
      | Some (h, q) \<Rightarrow> if q \<noteq> [] \<and> list_all (\<lambda>c. digit_of 10 c \<noteq> None) q then h else ?ip @ p) = ?ip"
  proof (cases "p = []")
    case True
    then show ?thesis using rsplit_once_notin [OF no(2)] by simp
  next
    case False
    then obtain ds where ds: "p = CHR '':'' # ds" "ds \<noteq> []" "list_all (\<lambda>c. digit_of 10 c \<noteq> None) ds"
      using assms(2) by (auto simp: port_part_def)
    have "CHR '':'' \<notin> set ds"
    proof
      assume "CHR '':'' \<in> set ds"
      then have "digit_of 10 CHR '':'' \<noteq> None" using ds(3) unfolding list_all_iff by blast
      then show False by simp
    qed
    from rsplit_once_append [OF this, of ?ip] show ?thesis using ds by simp
  qed
  show ?thesis unfolding url_host_def hp Let_def br option.case port ..
qed

lemma split_once_str_append:
  "strip_prefix p (p @ s) = Some s" by simp

lemma scheme_split: "CHR '':'' \<notin> set sch \<Longrightarrow> split_once_str ''://'' (sch @ ''://'' @ r) = Some (sch, r)"
  by (induction sch) auto

text \<open>Direct addresses of internal networks are refused. For every blocked IPv4 address in dotted
  notation, in a URL with either scheme in any case, with any user information, port, path, query or
  fragment, the guard answers a client error unless private targets are allowed.\<close>

theorem blocked_literal_refused:
  assumes "a \<le> 255" "b \<le> 255" "c \<le> 255" "d \<le> 255"
    and "is_blocked_v4 (of_nat a) (of_nat b) (of_nat c) (of_nat d)"
    and "map ascii_lower sch = ''http'' \<or> map ascii_lower sch = ''https''"
    and "user_part u" "port_part p" "tail_part t"
  shows "validate_webhook_url (sch @ ''://'' @ u @ fmt_ipv4 a b c d @ p @ t) False
    = Inl (BadRequest (BadOther ''webhook url targets a loopback/private/link-local address''))"
proof -
  let ?stop = "{CHR ''/'', CHR ''?'', CHR ''#''}"
  have "ascii_lower CHR '':'' = CHR '':''" by (simp add: ascii_lower_def)
  then have "CHR '':'' \<in> set sch \<Longrightarrow> CHR '':'' \<in> set (map ascii_lower sch)" by force
  then have "CHR '':'' \<notin> set sch" using assms(6) by auto
  note sp = scheme_split [OF this]
  have "set (fmt_ipv4 a b c d @ p) \<inter> ?stop = {}"
    using ip_notin port_notin [OF _ assms(8)] by simp
  then have "\<forall>x\<in>set (u @ fmt_ipv4 a b c d @ p). x \<notin> ?stop"
    using assms(7) by (auto simp: user_part_def)
  moreover have "takeWhile (\<lambda>x. x \<notin> ?stop) t = []"
    using assms(9) by (cases t) (auto simp: tail_part_def)
  ultimately have auth: "takeWhile (\<lambda>x. x \<notin> ?stop) (u @ fmt_ipv4 a b c d @ p @ t) = u @ fmt_ipv4 a b c d @ p"
    using takeWhile_append2 [of "u @ fmt_ipv4 a b c d @ p" "\<lambda>x. x \<notin> ?stop" t] by auto
  have ne: "fmt_ipv4 a b c d \<noteq> []" by (simp add: fmt_ipv4_def)
  show ?thesis
    unfolding validate_webhook_url_def sp ok_or_simps res_bind_simps prod.case Let_def auth
      url_host_literal [OF assms(7,8)] parse_ip_fmt [OF assms(1-4)]
    using assms(5,6) ne by (auto simp: url_error_def)
qed

theorem blocked_literal_refused_witness:
  "validate_webhook_url ''HTTP://user@169.254.169.254:80/latest/meta-data'' False \<noteq> Inr ()"
proof -
  have f: "fmt_ipv4 169 254 169 254 = ''169.254.169.254''" by code_simp
  have "validate_webhook_url (''HTTP'' @ ''://'' @ ''user@'' @ fmt_ipv4 169 254 169 254 @ '':80'' @ ''/latest/meta-data'') False
      = Inl (BadRequest (BadOther ''webhook url targets a loopback/private/link-local address''))"
  proof (rule blocked_literal_refused)
    show "is_blocked_v4 (of_nat 169) (of_nat 254) (of_nat 169) (of_nat 254)" by (simp add: is_blocked_v4_def)
    show "map ascii_lower ''HTTP'' = ''http'' \<or> map ascii_lower ''HTTP'' = ''https''" by code_simp
    show "user_part ''user@''" by (simp add: user_part_def)
    show "port_part '':80''" by (simp add: port_part_def digit_of_def hex_val_def)
    show "tail_part ''/latest/meta-data''" by (simp add: tail_part_def)
  qed simp_all
  then show ?thesis by (simp add: f)
qed

lemma read_v4_numeral:
  "read_v4_groups (numeral k) i s =
     (case read_separator CHR ''.'' i (read_number 10 3 False 255) s of
        None \<Rightarrow> None
      | Some (n, s') \<Rightarrow> map_option (\<lambda>(ns, s''). (n # ns, s'')) (read_v4_groups (pred_numeral k) (Suc i) s'))"
  by (simp only: numeral_eq_Suc read_v4_groups.simps)

lemma read_groups_numeral:
  "read_groups (numeral k) i s =
     (case (if 0 < (pred_numeral k) then read_separator CHR '':'' i read_ipv4_addr s else None) of
        Some (ns, s') \<Rightarrow> ([ns ! 0 * 256 + ns ! 1, ns ! 2 * 256 + ns ! 3], True, s')
      | None \<Rightarrow>
          (case read_separator CHR '':'' i (read_number 16 4 True 65535) s of
             None \<Rightarrow> ([], False, s)
           | Some (g, s') \<Rightarrow> (case read_groups (pred_numeral k) (Suc i) s' of (gs, v4, s'') \<Rightarrow> (g # gs, v4, s''))))"
  by (simp only: numeral_eq_Suc read_groups.simps)

lemmas ip_eval = parse_ip_def read_ipv4_addr_def read_ipv6_addr_def read_separator_def read_number_def digit_of_def hex_val_def
  read_v4_numeral read_groups_numeral Let_def

text \<open>A short form, which only a URL library takes for an address, passes the guard.\<close>

lemma short_form_passes: "validate_webhook_url ''http://127.1/'' False = Inr ()"
proof -
  have s: "split_once_str ''://'' ''http://127.1/'' = Some (''http'', ''127.1/'')" by simp
  have l: "map ascii_lower ''http'' = ''http''" by (simp add: ascii_lower_def)
  have a: "takeWhile (\<lambda>c. c \<notin> {CHR ''/'', CHR ''?'', CHR ''#''}) ''127.1/'' = ''127.1''" by simp
  have h: "url_host ''127.1'' = Inr ''127.1''" by (simp add: url_host_def rsplit_once_def)
  have p: "parse_ip ''127.1'' = None" by (simp add: ip_eval)
  show ?thesis
    unfolding validate_webhook_url_def s ok_or_simps res_bind_simps prod.case Let_def l a h p
    by simp
qed

end
