(* ===== verification/Secrets.thy ===== *)
theory Secrets
  imports Storage
begin

text \<open>
  Encryption of secrets at rest, \<open>src/secrets.rs\<close>: the master key, where it comes from, and \<open>seal\<close> and
  \<open>unseal\<close>. The ciphers, the base64 codecs and the random bytes are parameters. The key file lives in
  the tree of the data directory.
\<close>

section \<open>Definitions\<close>

text \<open>What the crates provide: base64 (encoder, and the standard and URL-safe decoders), AES-256-GCM on key,
  nonce and text, and HMAC-SHA256.\<close>

record crypto =
  cr_b64 :: "u8 list \<Rightarrow> string"
  cr_unb64 :: "string \<Rightarrow> u8 list option"
  cr_unb64_url :: "string \<Rightarrow> u8 list option"
  cr_encrypt :: "u8 list \<Rightarrow> u8 list \<Rightarrow> u8 list \<Rightarrow> u8 list option"
  cr_decrypt :: "u8 list \<Rightarrow> u8 list \<Rightarrow> u8 list \<Rightarrow> u8 list option"
  cr_hmac :: "u8 list \<Rightarrow> u8 list \<Rightarrow> u8 list"

datatype master_key = MasterKey (mk_bytes: "u8 list")

definition key_from_base64 :: "crypto \<Rightarrow> string \<Rightarrow> error + master_key" where
  "key_from_base64 c s =
     (let trimmed = trim s in
      res_bind (ok_or (Other ''invalid base64 webhook key'')
          (case cr_unb64 c trimmed of Some raw \<Rightarrow> Some raw | None \<Rightarrow> cr_unb64_url c trimmed)) (\<lambda>raw.
        if length raw \<noteq> 32 then Inl (Other (''webhook key must be 32 bytes (got '' @ fmt_dec (length raw) @ '')''))
        else Inr (MasterKey raw)))"

definition key_to_base64 :: "crypto \<Rightarrow> master_key \<Rightarrow> string" where
  "key_to_base64 c k = cr_b64 c (mk_bytes k)"

definition read_text :: "string list \<Rightarrow> string io" where
  "read_text path = io_bind (read_file path) (\<lambda>content w.
     case content of Some s \<Rightarrow> (Inr s, w) | None \<Rightarrow> (Inl (Io ''read''), w))"

text \<open>\<open>create_new\<close>: the file must not exist.\<close>

definition write_key_file_0600 :: "string list \<Rightarrow> string \<Rightarrow> unit io" where
  "write_key_file_0600 path contents =
     io_op ''write''
       (\<lambda>t. if fs_lookup t path \<noteq> None then None else write_node path (Some contents) t)
       (\<lambda>k t. if k = 0 \<or> fs_lookup t path \<noteq> None then None else write_node path (Some (take (k - 1) contents)) t)"

text \<open>\<open>var\<close> is the environment variable, \<open>random\<close> the fresh bytes.\<close>

definition load_or_generate :: "crypto \<Rightarrow> string option \<Rightarrow> string list \<Rightarrow> u8 list \<Rightarrow> master_key io" where
  "load_or_generate c var key_path random w =
     (case var of
        Some raw \<Rightarrow> (key_from_base64 c raw, w)
      | None \<Rightarrow>
          if fs_lookup (io_tree w) key_path \<noteq> None
          then io_bind (read_text key_path) (\<lambda>raw w. (key_from_base64 c raw, w)) w
          else let key = MasterKey random in
            io_seq (create_dir_all (butlast key_path))
              (io_seq (write_key_file_0600 key_path (key_to_base64 c key)) (\<lambda>w. (Inr key, w))) w)"

text \<open>The fresh nonce is a parameter.\<close>

definition seal :: "crypto \<Rightarrow> master_key \<Rightarrow> u8 list \<Rightarrow> u8 list \<Rightarrow> error + u8 list \<times> u8 list" where
  "seal c key nonce plaintext =
     res_bind (ok_or (Other ''aes-gcm seal failed'') (cr_encrypt c (mk_bytes key) nonce plaintext)) (\<lambda>ct. Inr (ct, nonce))"

definition unseal :: "crypto \<Rightarrow> master_key \<Rightarrow> u8 list \<Rightarrow> u8 list \<Rightarrow> error + u8 list" where
  "unseal c key ciphertext nonce = ok_or (Other ''aes-gcm unseal failed'') (cr_decrypt c (mk_bytes key) nonce ciphertext)"

section \<open>Lemmas\<close>

text \<open>The documented behaviour of the crates: base64 decodes what it encoded, into visible characters, and
  AES-GCM with a key of 32 and a nonce of 12 bytes encrypts, and decrypts what it encrypted.\<close>

definition crypto_ok :: "crypto \<Rightarrow> bool" where
  "crypto_ok c =
     ((\<forall>bs. cr_unb64 c (cr_b64 c bs) = Some bs \<and> list_all is_graphic (cr_b64 c bs))
      \<and> (\<forall>k n p. length k = 32 \<longrightarrow> length n = 12 \<longrightarrow>
            (\<exists>ct. cr_encrypt c k n p = Some ct \<and> cr_decrypt c k n ct = Some p)))"

definition key_ok :: "master_key \<Rightarrow> bool" where
  "key_ok k = (length (mk_bytes k) = 32)"

lemma seal_unseal:
  assumes "crypto_ok c" "key_ok k" "length n = 12"
  obtains ct where "seal c k n p = Inr (ct, n)" "unseal c k ct n = Inr p"
proof -
  obtain ct where "cr_encrypt c (mk_bytes k) n p = Some ct" "cr_decrypt c (mk_bytes k) n ct = Some p"
    using assms unfolding crypto_ok_def key_ok_def by blast
  then show thesis using that [of ct] by (simp add: seal_def unseal_def)
qed

lemma fs_put_lookup: "fs_put p x t = Some t' \<Longrightarrow> fs_lookup t' p = Some x"
proof (induction p x t arbitrary: t' rule: fs_put.induct)
  case (2 c cs new children)
  then show ?case by (auto simp: update_conv' split: option.splits if_splits)
qed auto

lemma write_node_lookup: "write_node p content t = Some t' \<Longrightarrow> fs_lookup t' p = Some (FsFile content)"
  by (auto simp: write_node_def split: option.splits fs_node.splits intro: fs_put_lookup)

lemma read_text_lookup:
  assumes "nfaults (io_faults w) = 0"
  shows "\<exists>w'. read_text path w = ((case fs_lookup (io_tree w) path of Some (FsFile (Some s)) \<Rightarrow> Inr s | _ \<Rightarrow> Inl (Io ''read'')), w')
    \<and> io_tree w' = io_tree w"
proof -
  obtain fs' where "next_fault (io_faults w) = (None, fs')"
    using assms by (cases "io_faults w" rule: next_fault.cases) (auto simp: nfaults_def split: if_splits)
  then show ?thesis
    by (auto simp: read_text_def io_bind_def read_file_def split: option.splits fs_node.splits)
qed

lemma key_base64_roundtrip:
  assumes "crypto_ok c" "length bs = 32"
  shows "key_from_base64 c (cr_b64 c bs) = Inr (MasterKey bs)"
proof -
  have "list_all is_graphic (cr_b64 c bs)" "cr_unb64 c (cr_b64 c bs) = Some bs"
    using assms(1) by (auto simp: crypto_ok_def)
  moreover have "trim (cr_b64 c bs) = cr_b64 c bs"
  proof (cases "cr_b64 c bs = []")
    case True
    moreover have "trim [] = []" by code_simp
    ultimately show ?thesis by simp
  next
    case False
    then have "is_graphic (hd (cr_b64 c bs))" "is_graphic (last (cr_b64 c bs))"
      using \<open>list_all is_graphic (cr_b64 c bs)\<close> by (simp_all add: list_all_iff)
    then show ?thesis using False by (intro trim_graphic) (auto simp: is_graphic_def)
  qed
  ultimately show ?thesis using assms(2) by (simp add: key_from_base64_def Let_def)
qed

text \<open>The master key survives a restart. Where the key came from the key file, or was generated into it, a
  later start without the environment variable and without file-system faults reads the same key,
  whatever bytes its random source would give.\<close>

theorem key_survives_restart:
  assumes "load_or_generate c None path random w = (Inr key, w')" "crypto_ok c" "length random = 32"
    and "nfaults (io_faults w) = 0" "nfaults (io_faults w') = 0" "path \<noteq> []"
  shows "fst (load_or_generate c None path random' w') = Inr key"
proof (cases "fs_lookup (io_tree w) path")
  case (Some node)
  obtain w1 where w1: "read_text path w = ((case fs_lookup (io_tree w) path of Some (FsFile (Some s)) \<Rightarrow> Inr s | _ \<Rightarrow> Inl (Io ''read'')), w1)"
    "io_tree w1 = io_tree w" using read_text_lookup [OF assms(4)] by blast
  obtain s where s: "node = FsFile (Some s)" "w' = w1" "key_from_base64 c s = Inr key"
    using assms(1) Some w1(1) by (auto simp: load_or_generate_def io_bind_def split: fs_node.splits option.splits)
  then show ?thesis
    using read_text_lookup [OF assms(5), of path] w1(2) Some by (auto simp: load_or_generate_def io_bind_def)
next
  case None
  let ?w1 = "snd (create_dir_all (butlast path) w)"
  have key: "key = MasterKey random" and wr: "write_key_file_0600 path (key_to_base64 c key) ?w1 = (Inr (), w')"
    using assms(1) None
    by (auto simp: load_or_generate_def io_seq_def io_bind_def Let_def split: prod.splits sum.splits)
  have "fs_lookup (io_tree w') path = Some (FsFile (Some (cr_b64 c random)))"
    using wr key write_node_lookup
    by (auto simp: write_key_file_0600_def io_op_def key_to_base64_def split: prod.splits option.splits if_splits)
  then show ?thesis
    using read_text_lookup [OF assms(5), of path] key_base64_roundtrip [OF assms(2,3)]
    by (auto simp: load_or_generate_def io_bind_def key)
qed

text \<open>Crates for examples: hexadecimal for base64, and a cipher that puts the key and the nonce in front.\<close>

fun unhex :: "string \<Rightarrow> u8 list option" where
  "unhex [] = Some []"
| "unhex (a # b # s) =
     (case (hex_val a, hex_val b, unhex s) of
        (Some x, Some y, Some bs) \<Rightarrow> Some (of_nat (16 * x + y) # bs)
      | _ \<Rightarrow> None)"
| "unhex [a] = None"

lemma unhex_hex_bytes: "unhex (hex_bytes bs) = Some bs"
proof (induction bs)
  case (Cons b bs)
  have "unat b < 2 ^ LENGTH(8)" by (rule unsigned_less)
  then have "unat b div 16 < 16" by simp
  moreover have "of_nat (16 * (unat b div 16) + unat b mod 16) = b" by simp
  ultimately show ?case using Cons by (simp add: hex_bytes_def hex_byte_def)
qed (simp add: hex_bytes_def)

lemma hex_bytes_graphic: "list_all is_graphic (hex_bytes bs)"
proof (induction bs)
  case (Cons b bs)
  have "unat b < 2 ^ LENGTH(8)" by (rule unsigned_less)
  then have "unat b div 16 < 16" by simp
  moreover have "is_graphic (hex_digit n)" if "n < 16" for n
    using that by (auto simp: is_graphic_def of_char_hex_digit)
  ultimately show ?case using Cons by (simp add: hex_bytes_def hex_byte_def)
qed (simp add: hex_bytes_def)

definition toy_crypto :: crypto where
  "toy_crypto = \<lparr>cr_b64 = hex_bytes, cr_unb64 = unhex, cr_unb64_url = (\<lambda>_. None), cr_encrypt = (\<lambda>k n p. Some (k @ n @ p)),
     cr_decrypt = (\<lambda>k n ct. if take (length k + length n) ct = k @ n then Some (drop (length k + length n) ct) else None),
     cr_hmac = (\<lambda>k b. k @ b)\<rparr>"

lemma toy_crypto_ok: "crypto_ok toy_crypto"
  by (simp add: crypto_ok_def toy_crypto_def unhex_hex_bytes hex_bytes_graphic)

theorem key_survives_restart_witness:
  "\<exists>w'. load_or_generate toy_crypto None [''webhook.key''] (replicate 32 7) \<lparr>io_tree = FsDir (Some []), io_faults = []\<rparr>
       = (Inr (MasterKey (replicate 32 7)), w')
     \<and> fst (load_or_generate toy_crypto None [''webhook.key''] (replicate 32 9) w') = Inr (MasterKey (replicate 32 7))"
proof -
  let ?w = "\<lparr>io_tree = FsDir (Some []), io_faults = []\<rparr>"
  obtain w' where r: "load_or_generate toy_crypto None [''webhook.key''] (replicate 32 7) ?w = (Inr (MasterKey (replicate 32 7)), w')"
    "io_faults w' = []"
    by (simp add: load_or_generate_def io_seq_def io_bind_def create_dir_all_def io_op_def write_key_file_0600_def write_node_def Let_def)
  with key_survives_restart [OF r(1) toy_crypto_ok, of "replicate 32 9"] show ?thesis by (simp add: nfaults_def)
qed

end
