(* ===== verification/Webhooks.thy ===== *)
theory Webhooks
  imports WebhookUrl Secrets Tokens
begin

text \<open>
  Webhooks, \<open>src/webhooks.rs\<close>, with the events of \<open>src/events.rs\<close>: the in-memory and the SQLite registry of
  subscriptions, the durable outbox of deliveries, the worker that drives it and the rotation of the
  master key. The two tables are the lists of their rows in insertion order. The HTTP client's
  answer, the JSON codec, the UUIDs and the nonces are parameters; the clock is in seconds.
\<close>

section \<open>Definitions\<close>

subsection \<open>Events\<close>

datatype event =
    CommitEvent string string string string int
  | ForkEvent string string int
  | StatusEvent string string string int

datatype event_kind = KCommit | KFork | KStatus

fun kind_as_str :: "event_kind \<Rightarrow> string" where
  "kind_as_str KCommit = ''commit''"
| "kind_as_str KFork = ''fork''"
| "kind_as_str KStatus = ''status''"

fun repo_and_kind :: "event \<Rightarrow> string \<times> string" where
  "repo_and_kind (CommitEvent repo commit branch msg t) = (repo, ''commit'')"
| "repo_and_kind (ForkEvent parent child t) = (parent, ''fork'')"
| "repo_and_kind (StatusEvent repo old new t) = (repo, ''status'')"

text \<open>\<open>serde_json\<close> on the types that are stored or sent.\<close>

record json =
  js_kinds :: "event_kind list \<Rightarrow> string"
  js_unkinds :: "string \<Rightarrow> event_kind list option"
  js_event :: "event \<Rightarrow> u8 list option"

subsection \<open>Subscriptions\<close>

record subscription =
  sb_id :: string
  sb_repo :: repo_id
  sb_url :: string
  sb_secret :: "string option"
  sb_events :: "event_kind list"

definition wants_kind :: "string \<Rightarrow> event_kind list \<Rightarrow> bool" where
  "wants_kind kind kinds = (kinds = [] \<or> list_ex (\<lambda>e. kind_as_str e = kind) kinds)"

definition mem_add :: "string \<Rightarrow> subscription \<Rightarrow> subscription list \<Rightarrow> (error + string) \<times> subscription list" where
  "mem_add uuid sub subs =
     (let sub = (if sb_id sub = [] then sub\<lparr>sb_id := uuid\<rparr> else sub) in (Inr (sb_id sub), subs @ [sub]))"

definition mem_hooks :: "repo_id \<Rightarrow> subscription list \<Rightarrow> subscription list" where
  "mem_hooks repo subs = filter (\<lambda>s. sb_repo s = repo) subs"

definition mem_remove :: "repo_id \<Rightarrow> string \<Rightarrow> subscription list \<Rightarrow> bool \<times> subscription list" where
  "mem_remove repo hook subs =
     (let kept = filter (\<lambda>s. \<not> (sb_repo s = repo \<and> sb_id s = hook)) subs in (length subs \<noteq> length kept, kept))"

definition mem_matching :: "repo_id \<Rightarrow> string \<Rightarrow> subscription list \<Rightarrow> subscription list" where
  "mem_matching repo kind subs =
     filter (\<lambda>s. wants_kind kind (sb_events s)) (filter (\<lambda>s. sb_repo s = repo) subs)"

record hook_row =
  hk_id :: string
  hk_repo :: string
  hk_url :: string
  hk_secret :: "string option"
  hk_nonce :: "u8 list option"
  hk_events :: string
  hk_created :: int
  hk_revoked :: "int option"

record delivery =
  dv_id :: nat
  dv_hook :: string
  dv_url :: string
  dv_secret :: "u8 list option"
  dv_nonce :: "u8 list option"
  dv_kind :: string
  dv_payload :: "u8 list"
  dv_attempts :: nat
  dv_status :: "string option"
  dv_next :: int
  dv_created :: int
  dv_finalized :: "int option"
  dv_outcome :: "string option"

text \<open>\<open>rg_seq\<close> is the counter of the AUTOINCREMENT key of the outbox.\<close>

record registry =
  rg_hooks :: "hook_row list"
  rg_outbox :: "delivery list"
  rg_seq :: nat
  rg_key :: master_key

definition hook_add ::
  "crypto \<Rightarrow> json \<Rightarrow> int \<Rightarrow> string \<Rightarrow> u8 list \<Rightarrow> subscription \<Rightarrow> registry \<Rightarrow> (error + string) \<times> registry" where
  "hook_add c j now uuid nonce sub reg =
     (let i = (if sb_id sub = [] then uuid else sb_id sub);
          sealed = (case sb_secret sub of
                      None \<Rightarrow> (None, None)
                    | Some plaintext \<Rightarrow>
                        (case seal c (rg_key reg) nonce (as_bytes plaintext) of
                           Inr (ct, n) \<Rightarrow> (Some (cr_b64 c ct), Some n)
                         | Inl _ \<Rightarrow> (None, None)));
          row = \<lparr>hk_id = i, hk_repo = repo_str (sb_repo sub), hk_url = sb_url sub, hk_secret = fst sealed,
                 hk_nonce = snd sealed, hk_events = js_kinds j (sb_events sub), hk_created = now, hk_revoked = None\<rparr>
      in if i \<in> hk_id ` set (rg_hooks reg) then (Inl (Db (SqliteFailure (OtherCode 19))), reg)
         else (Inr i, reg\<lparr>rg_hooks := rg_hooks reg @ [row]\<rparr>))"

definition row_secret :: "crypto \<Rightarrow> master_key \<Rightarrow> hook_row \<Rightarrow> string option" where
  "row_secret c key row =
     (case (hk_secret row, hk_nonce row) of
        (None, _) \<Rightarrow> None
      | (Some s, None) \<Rightarrow> Some s
      | (Some b64, Some nonce) \<Rightarrow>
          if length nonce \<noteq> 12 then None
          else (case cr_unb64 c b64 of
                  None \<Rightarrow> None
                | Some ct \<Rightarrow> (case unseal c key ct nonce of Inl _ \<Rightarrow> None | Inr pt \<Rightarrow> from_utf8 pt)))"

definition row_kinds :: "json \<Rightarrow> string \<Rightarrow> event_kind list" where
  "row_kinds j s = (case js_unkinds j s of None \<Rightarrow> [] | Some ks \<Rightarrow> ks)"

definition row_to_sub :: "crypto \<Rightarrow> json \<Rightarrow> master_key \<Rightarrow> hook_row \<Rightarrow> subscription option" where
  "row_to_sub c j key row =
     (case repo_id_try_from (hk_repo row) of
        Inl _ \<Rightarrow> None
      | Inr repo \<Rightarrow> Some \<lparr>sb_id = hk_id row, sb_repo = repo, sb_url = hk_url row, sb_secret = row_secret c key row,
                          sb_events = row_kinds j (hk_events row)\<rparr>)"

definition live_rows :: "repo_id \<Rightarrow> registry \<Rightarrow> hook_row list" where
  "live_rows repo reg = filter (\<lambda>row. hk_repo row = repo_str repo \<and> hk_revoked row = None) (rg_hooks reg)"

definition hook_list :: "crypto \<Rightarrow> json \<Rightarrow> repo_id \<Rightarrow> registry \<Rightarrow> subscription list" where
  "hook_list c j repo reg = List.map_filter (row_to_sub c j (rg_key reg)) (live_rows repo reg)"

definition hook_remove :: "int \<Rightarrow> repo_id \<Rightarrow> string \<Rightarrow> registry \<Rightarrow> bool \<times> registry" where
  "hook_remove now repo hook reg =
     (let hit = (\<lambda>row. hk_id row = hook \<and> hk_repo row = repo_str repo \<and> hk_revoked row = None)
      in (list_ex hit (rg_hooks reg),
          reg\<lparr>rg_hooks := map (\<lambda>row. if hit row then row\<lparr>hk_revoked := Some now\<rparr> else row) (rg_hooks reg)\<rparr>))"

definition hook_matching :: "crypto \<Rightarrow> json \<Rightarrow> repo_id \<Rightarrow> string \<Rightarrow> registry \<Rightarrow> subscription list" where
  "hook_matching c j repo kind reg = filter (\<lambda>s. wants_kind kind (sb_events s)) (hook_list c j repo reg)"

definition hook_count_active :: "registry \<Rightarrow> nat" where
  "hook_count_active reg = length (filter (\<lambda>row. hk_revoked row = None) (rg_hooks reg))"

text \<open>The loop of the rotation, over the rows that have a secret and a nonce; the new nonces are consumed in
  order.\<close>

fun rotate_rows ::
  "crypto \<Rightarrow> master_key \<Rightarrow> master_key \<Rightarrow> (nat \<Rightarrow> u8 list) \<Rightarrow> nat \<Rightarrow> hook_row list \<Rightarrow> error + nat \<times> hook_row list" where
  "rotate_rows c old new nonces count [] = Inr (count, [])"
| "rotate_rows c old new nonces count (row # rows) =
     (case (hk_secret row, hk_nonce row) of
        (Some b64, Some nonce) \<Rightarrow>
          if length nonce \<noteq> 12 then Inl (Other ''webhook row: nonce wrong length'')
          else res_bind (ok_or (Other ''webhook row: ciphertext base64 decode'') (cr_unb64 c b64)) (\<lambda>ct.
               res_bind (map_err (\<lambda>_. Other ''webhook row: unseal under old key'') (unseal c old ct nonce)) (\<lambda>pt.
               res_bind (seal c new (nonces count) pt) (\<lambda>(ct', nonce').
               res_bind (rotate_rows c old new nonces (count + 1) rows) (\<lambda>(n, rows').
                 Inr (n, row\<lparr>hk_secret := Some (cr_b64 c ct'), hk_nonce := Some nonce'\<rparr> # rows')))))
      | _ \<Rightarrow> res_bind (rotate_rows c old new nonces count rows) (\<lambda>(n, rows'). Inr (n, row # rows')))"

definition rotate_master_key ::
  "crypto \<Rightarrow> master_key \<Rightarrow> (nat \<Rightarrow> u8 list) \<Rightarrow> registry \<Rightarrow> (error + nat) \<times> registry" where
  "rotate_master_key c new nonces reg =
     (case rotate_rows c (rg_key reg) new nonces 0 (rg_hooks reg) of
        Inl e \<Rightarrow> (Inl e, reg)
      | Inr (count, rows) \<Rightarrow> (Inr count, reg\<lparr>rg_hooks := rows, rg_key := new\<rparr>))"

subsection \<open>The outbox\<close>

definition enqueue_row :: "crypto \<Rightarrow> int \<Rightarrow> string \<Rightarrow> u8 list \<Rightarrow> nat \<Rightarrow> hook_row \<Rightarrow> delivery" where
  "enqueue_row c now kind payload i row =
     \<lparr>dv_id = i, dv_hook = hk_id row, dv_url = hk_url row,
      dv_secret = (case hk_secret row of None \<Rightarrow> None | Some b64 \<Rightarrow> cr_unb64 c b64),
      dv_nonce = hk_nonce row, dv_kind = kind, dv_payload = payload, dv_attempts = 0, dv_status = None,
      dv_next = now, dv_created = now, dv_finalized = None, dv_outcome = None\<rparr>"

fun enqueue_rows ::
  "crypto \<Rightarrow> json \<Rightarrow> int \<Rightarrow> string \<Rightarrow> u8 list \<Rightarrow> hook_row list \<Rightarrow> nat \<Rightarrow> delivery list \<Rightarrow> nat \<times> delivery list" where
  "enqueue_rows c j now kind payload [] seq out = (seq, out)"
| "enqueue_rows c j now kind payload (row # rows) seq out =
     (if \<not> wants_kind kind (row_kinds j (hk_events row)) then enqueue_rows c j now kind payload rows seq out
      else enqueue_rows c j now kind payload rows (seq + 1) (out @ [enqueue_row c now kind payload (seq + 1) row]))"

definition enqueue_delivery ::
  "crypto \<Rightarrow> json \<Rightarrow> int \<Rightarrow> repo_id \<Rightarrow> string \<Rightarrow> u8 list \<Rightarrow> registry \<Rightarrow> nat \<times> registry" where
  "enqueue_delivery c j now repo kind payload reg =
     (case enqueue_rows c j now kind payload (live_rows repo reg) (rg_seq reg) (rg_outbox reg) of
        (seq, out) \<Rightarrow> (seq - rg_seq reg, reg\<lparr>rg_outbox := out, rg_seq := seq\<rparr>))"

record pending =
  pd_id :: nat
  pd_hook :: string
  pd_url :: string
  pd_secret :: "string option"
  pd_kind :: string
  pd_payload :: "u8 list"
  pd_attempts :: nat

definition INFLIGHT_RESCHEDULE_SECS :: int where
  "INFLIGHT_RESCHEDULE_SECS = 60"

definition due :: "int \<Rightarrow> delivery \<Rightarrow> bool" where
  "due now d = (dv_finalized d = None \<and> dv_next d \<le> now)"

text \<open>\<open>ORDER BY id LIMIT\<close>.\<close>

definition claimable :: "int \<Rightarrow> nat \<Rightarrow> delivery list \<Rightarrow> delivery list" where
  "claimable now limit out = take limit (sort_key dv_id (filter (due now) out))"

definition pending_of :: "crypto \<Rightarrow> master_key \<Rightarrow> delivery \<Rightarrow> pending" where
  "pending_of c key d =
     \<lparr>pd_id = dv_id d, pd_hook = dv_hook d, pd_url = dv_url d,
      pd_secret = (case (dv_secret d, dv_nonce d) of
                     (Some ct, Some nonce) \<Rightarrow>
                       if length nonce \<noteq> 12 then None
                       else (case unseal c key ct nonce of Inl _ \<Rightarrow> None | Inr pt \<Rightarrow> from_utf8 pt)
                   | _ \<Rightarrow> None),
      pd_kind = dv_kind d, pd_payload = dv_payload d, pd_attempts = (dv_attempts d + 1) mod 2 ^ 32\<rparr>"

definition claim_pending_deliveries :: "crypto \<Rightarrow> int \<Rightarrow> nat \<Rightarrow> registry \<Rightarrow> pending list \<times> registry" where
  "claim_pending_deliveries c now limit reg =
     (let rows = claimable now limit (rg_outbox reg);
          ids = dv_id ` set rows
      in (map (pending_of c (rg_key reg)) rows,
          reg\<lparr>rg_outbox := map (\<lambda>d. if dv_id d \<in> ids
                then d\<lparr>dv_next := now + INFLIGHT_RESCHEDULE_SECS, dv_attempts := dv_attempts d + 1\<rparr> else d) (rg_outbox reg)\<rparr>))"

definition mark_delivery_retry :: "nat \<Rightarrow> nat \<Rightarrow> int \<Rightarrow> string \<Rightarrow> registry \<Rightarrow> registry" where
  "mark_delivery_retry i attempts next_attempt_at last_status reg =
     reg\<lparr>rg_outbox := map (\<lambda>d. if dv_id d = i
           then d\<lparr>dv_attempts := attempts, dv_next := next_attempt_at, dv_status := Some last_status\<rparr> else d) (rg_outbox reg)\<rparr>"

definition mark_delivery_finalized :: "int \<Rightarrow> nat \<Rightarrow> string \<Rightarrow> string option \<Rightarrow> registry \<Rightarrow> registry" where
  "mark_delivery_finalized now i outcome last_status reg =
     reg\<lparr>rg_outbox := map (\<lambda>d. if dv_id d = i
           then d\<lparr>dv_finalized := Some now, dv_outcome := Some outcome, dv_status := last_status\<rparr> else d) (rg_outbox reg)\<rparr>"

definition prune_finalized :: "int \<Rightarrow> registry \<Rightarrow> nat \<times> registry" where
  "prune_finalized cutoff reg =
     (let old = (\<lambda>d. case dv_finalized d of None \<Rightarrow> False | Some t \<Rightarrow> t < cutoff)
      in (length (filter old (rg_outbox reg)), reg\<lparr>rg_outbox := filter (\<lambda>d. \<not> old d) (rg_outbox reg)\<rparr>))"

subsection \<open>The worker\<close>

definition WORKER_MAX_ATTEMPTS :: nat where "WORKER_MAX_ATTEMPTS = 8"
definition WORKER_BACKOFF_BASE_SECS :: int where "WORKER_BACKOFF_BASE_SECS = 60"
definition WORKER_BACKOFF_MAX_SECS :: int where "WORKER_BACKOFF_MAX_SECS = 3600"
definition WORKER_BATCH_LIMIT :: nat where "WORKER_BATCH_LIMIT = 32"

definition worker_backoff_secs :: "nat \<Rightarrow> int" where
  "worker_backoff_secs attempt =
     (let shift = min (attempt - 1) 20;
          secs = min (2 ^ 63 - 1) (WORKER_BACKOFF_BASE_SECS * 2 ^ shift)
      in min secs WORKER_BACKOFF_MAX_SECS)"

definition sign_body :: "crypto \<Rightarrow> string option \<Rightarrow> u8 list \<Rightarrow> string option" where
  "sign_body c secret body =
     (case secret of None \<Rightarrow> None | Some s \<Rightarrow> Some (''sha256='' @ hex_bytes (cr_hmac c (as_bytes s) body)))"

record hook_request =
  hq_url :: string
  hq_headers :: "(string \<times> string) list"
  hq_body :: "u8 list"

definition delivery_request :: "crypto \<Rightarrow> pending \<Rightarrow> hook_request" where
  "delivery_request c row =
     \<lparr>hq_url = pd_url row,
      hq_headers = [(''Content-Type'', ''application/json''), (''X-Artifacts-Hook-Id'', pd_hook row),
                    (''X-Artifacts-Event'', pd_kind row), (''X-Artifacts-Attempt'', fmt_dec (pd_attempts row)),
                    (''X-Artifacts-Delivery-Id'', fmt_dec (pd_id row))]
        @ (case sign_body c (pd_secret row) (pd_payload row) of None \<Rightarrow> [] | Some s \<Rightarrow> [(''X-Artifacts-Signature'', s)]),
      hq_body = pd_payload row\<rparr>"

text \<open>What \<open>ureq\<close> answers: a response, a status of 400 or more, or a transport error. The stamping of the
  row may fail, which the worker ignores: \<open>db_ok\<close>.\<close>

datatype http_result = HttpOk nat | HttpStatus nat | HttpTransport

definition settle :: "int \<Rightarrow> http_result \<Rightarrow> pending \<Rightarrow> registry \<Rightarrow> registry" where
  "settle now result row reg =
     (case result of
        HttpOk sc \<Rightarrow> mark_delivery_finalized now (pd_id row) ''success'' (Some (fmt_dec sc)) reg
      | failure \<Rightarrow>
          if case failure of HttpStatus sc \<Rightarrow> 400 \<le> sc \<and> sc < 500 | _ \<Rightarrow> False
          then mark_delivery_finalized now (pd_id row) ''client_error''
                 (case failure of HttpStatus sc \<Rightarrow> Some (fmt_dec sc) | _ \<Rightarrow> None) reg
          else let reason = (case failure of HttpStatus sc \<Rightarrow> fmt_dec sc | _ \<Rightarrow> ''network'')
            in if WORKER_MAX_ATTEMPTS \<le> pd_attempts row
               then mark_delivery_finalized now (pd_id row) ''exhausted'' (Some reason) reg
               else mark_delivery_retry (pd_id row) (pd_attempts row) (now + worker_backoff_secs (pd_attempts row)) reason reg)"

definition dispatch_row :: "crypto \<Rightarrow> (hook_request \<Rightarrow> http_result) \<Rightarrow> int \<Rightarrow> bool \<Rightarrow> pending \<Rightarrow> registry \<Rightarrow> registry" where
  "dispatch_row c http now db_ok row reg =
     (let result = http (delivery_request c row) in if db_ok then settle now result row reg else reg)"

text \<open>One tick of the worker: it claims a batch and dispatches its rows, here one after the other.\<close>

definition worker_tick :: "crypto \<Rightarrow> (hook_request \<Rightarrow> http_result) \<Rightarrow> int \<Rightarrow> registry \<Rightarrow> registry" where
  "worker_tick c http now reg =
     (case claim_pending_deliveries c now WORKER_BATCH_LIMIT reg of
        (rows, reg') \<Rightarrow> fold (dispatch_row c http now True) rows reg')"

definition webhook_prune_tick :: "int \<Rightarrow> int \<Rightarrow> registry \<Rightarrow> nat \<times> registry" where
  "webhook_prune_tick now retention reg = prune_finalized (saturating_sub_i64 now retention) reg"

text \<open>\<open>publish_event\<close>: the deliveries are queued, then the event goes to the bus, here the list of the events
  sent.\<close>

definition publish_event ::
  "crypto \<Rightarrow> json \<Rightarrow> int \<Rightarrow> event \<Rightarrow> registry option \<times> event list \<Rightarrow> registry option \<times> event list" where
  "publish_event c j now ev st =
     (case st of (outbox, bus) \<Rightarrow>
       ((case outbox of
           None \<Rightarrow> None
         | Some reg \<Rightarrow>
             (case repo_and_kind ev of (repo_name, kind) \<Rightarrow>
               (case repo_id_try_from repo_name of
                  Inl _ \<Rightarrow> Some reg
                | Inr repo \<Rightarrow>
                    (case js_event j ev of
                       None \<Rightarrow> Some reg
                     | Some body \<Rightarrow> Some (snd (enqueue_delivery c j now repo kind body reg)))))),
        bus @ [ev]))"

text \<open>The single attempt of the in-memory path: the requests that are sent, each with the outcome that is
  counted.\<close>

definition legacy_request :: "crypto \<Rightarrow> string \<Rightarrow> u8 list \<Rightarrow> subscription \<Rightarrow> hook_request" where
  "legacy_request c kind body sub =
     \<lparr>hq_url = sb_url sub,
      hq_headers = [(''Content-Type'', ''application/json''), (''X-Artifacts-Hook-Id'', sb_id sub),
                    (''X-Artifacts-Event'', kind), (''X-Artifacts-Attempt'', ''1'')]
        @ (case sign_body c (sb_secret sub) body of None \<Rightarrow> [] | Some s \<Rightarrow> [(''X-Artifacts-Signature'', s)]),
      hq_body = body\<rparr>"

definition legacy_outcome :: "http_result \<Rightarrow> string" where
  "legacy_outcome r =
     (case r of
        HttpOk _ \<Rightarrow> ''success''
      | HttpStatus sc \<Rightarrow> if 400 \<le> sc \<and> sc < 500 then ''client_error'' else ''exhausted''
      | HttpTransport \<Rightarrow> ''exhausted'')"

definition legacy_direct_dispatch ::
  "crypto \<Rightarrow> (hook_request \<Rightarrow> http_result) \<Rightarrow> (repo_id \<Rightarrow> string \<Rightarrow> subscription list) \<Rightarrow> event \<Rightarrow> u8 list
     \<Rightarrow> (hook_request \<times> string) list" where
  "legacy_direct_dispatch c http matching ev body =
     (case repo_and_kind ev of (repo_name, kind) \<Rightarrow>
       (case repo_id_try_from repo_name of
          Inl _ \<Rightarrow> []
        | Inr repo \<Rightarrow> map (\<lambda>sub. let rq = legacy_request c kind body sub in (rq, legacy_outcome (http rq))) (matching repo kind)))"

section \<open>The registry contract\<close>

text \<open>What the callers of \<open>WebhookRegistry\<close> rely on, for subscriptions \<open>sub_ok\<close> and with an environment \<open>'e\<close>
  for each call (clock and random bytes): a new subscription appears once, at the end of its own repo's
  list; a removal is by repo and id and takes no other repo's subscription; \<open>matching\<close> filters the list.\<close>

locale hook_registry =
  fixes add :: "'e \<Rightarrow> string \<Rightarrow> subscription \<Rightarrow> 's \<Rightarrow> (error + string) \<times> 's"
    and remove :: "'e \<Rightarrow> repo_id \<Rightarrow> string \<Rightarrow> 's \<Rightarrow> bool \<times> 's"
    and hooks :: "repo_id \<Rightarrow> 's \<Rightarrow> subscription list"
    and matching :: "repo_id \<Rightarrow> string \<Rightarrow> 's \<Rightarrow> subscription list"
    and fresh :: "string \<Rightarrow> 's \<Rightarrow> bool"
    and ok :: "'s \<Rightarrow> bool"
    and sub_ok :: "subscription \<Rightarrow> bool"
    and env_ok :: "'e \<Rightarrow> bool"
  assumes add_law: "ok s \<Longrightarrow> env_ok e \<Longrightarrow> sub_ok sub \<Longrightarrow> fresh uuid s \<Longrightarrow>
      \<exists>s'. add e uuid sub s = (Inr uuid, s') \<and> ok s'
        \<and> (\<forall>r. hooks r s' = hooks r s @ (if sb_repo sub = r then [sub\<lparr>sb_id := uuid\<rparr>] else []))
        \<and> (\<forall>u. fresh u s \<and> u \<noteq> uuid \<longrightarrow> fresh u s')"
    and remove_law: "ok s \<Longrightarrow> \<exists>s'. remove e repo i s = (\<exists>x\<in>set (hooks repo s). sb_id x = i, s') \<and> ok s'
        \<and> (\<forall>r. hooks r s' = filter (\<lambda>x. \<not> (r = repo \<and> sb_id x = i)) (hooks r s))
        \<and> (\<forall>u. fresh u s \<longrightarrow> fresh u s')"
    and matching_law: "ok s \<Longrightarrow> matching repo kind s = filter (\<lambda>x. wants_kind kind (sb_events x)) (hooks repo s)"

datatype 'e hook_op = HookAdd 'e string subscription | HookRemove 'e repo_id string

datatype hook_answer = Added "error + string" | Removed bool

fun hook_step ::
  "('e \<Rightarrow> string \<Rightarrow> subscription \<Rightarrow> 's \<Rightarrow> (error + string) \<times> 's) \<Rightarrow> ('e \<Rightarrow> repo_id \<Rightarrow> string \<Rightarrow> 's \<Rightarrow> bool \<times> 's)
     \<Rightarrow> 'e hook_op \<Rightarrow> 's \<Rightarrow> hook_answer \<times> 's" where
  "hook_step add remove (HookAdd e uuid sub) s = map_prod Added id (add e uuid sub s)"
| "hook_step add remove (HookRemove e repo i) s = map_prod Removed id (remove e repo i s)"

fun hook_spec :: "'e hook_op \<Rightarrow> (repo_id \<Rightarrow> subscription list) \<Rightarrow> hook_answer \<times> (repo_id \<Rightarrow> subscription list)" where
  "hook_spec (HookAdd e uuid sub) m =
     (Added (Inr uuid), \<lambda>r. m r @ (if sb_repo sub = r then [sub\<lparr>sb_id := uuid\<rparr>] else []))"
| "hook_spec (HookRemove e repo i) m =
     (Removed (\<exists>x\<in>set (m repo). sb_id x = i), \<lambda>r. filter (\<lambda>x. \<not> (r = repo \<and> sb_id x = i)) (m r))"

fun op_uuid :: "'e hook_op \<Rightarrow> string option" where
  "op_uuid (HookAdd e uuid sub) = Some uuid"
| "op_uuid (HookRemove e repo i) = None"

definition op_uuids :: "'e hook_op list \<Rightarrow> string list" where
  "op_uuids ops = List.map_filter op_uuid ops"

fun hook_op_ok :: "('e \<Rightarrow> bool) \<Rightarrow> (subscription \<Rightarrow> bool) \<Rightarrow> 'e hook_op \<Rightarrow> bool" where
  "hook_op_ok env_ok sub_ok (HookAdd e uuid sub) = (env_ok e \<and> sub_ok sub)"
| "hook_op_ok env_ok sub_ok (HookRemove e repo i) = True"

lemma op_uuids_simps [simp]:
  "op_uuids [] = []"
  "op_uuids (HookAdd e uuid sub # ops) = uuid # op_uuids ops"
  "op_uuids (HookRemove e repo i # ops) = op_uuids ops"
  by (simp_all add: op_uuids_def List.map_filter_def)

context hook_registry begin

lemma run_hooks:
  "ok s \<Longrightarrow> list_all (hook_op_ok env_ok sub_ok) ops \<Longrightarrow> distinct (op_uuids ops) \<Longrightarrow> \<forall>u\<in>set (op_uuids ops). fresh u s \<Longrightarrow>
     \<exists>s'. run_all (hook_step add remove) ops s = (fst (run_all hook_spec ops (\<lambda>r. hooks r s)), s') \<and> ok s'
       \<and> (\<lambda>r. hooks r s') = snd (run_all hook_spec ops (\<lambda>r. hooks r s))
       \<and> (\<forall>r k. matching r k s' = filter (\<lambda>x. wants_kind k (sb_events x)) (snd (run_all hook_spec ops (\<lambda>r. hooks r s)) r))"
proof (induction ops arbitrary: s)
  case Nil
  then show ?case by (simp add: matching_law)
next
  case (Cons op ops)
  have "\<exists>s1. hook_step add remove op s = (fst (hook_spec op (\<lambda>r. hooks r s)), s1) \<and> ok s1
      \<and> (\<lambda>r. hooks r s1) = snd (hook_spec op (\<lambda>r. hooks r s)) \<and> (\<forall>u\<in>set (op_uuids ops). fresh u s1)"
  proof (cases op)
    case (HookAdd e uuid sub)
    then have "env_ok e" "sub_ok sub" "fresh uuid s" "\<forall>u\<in>set (op_uuids ops). fresh u s \<and> u \<noteq> uuid"
      using Cons.prems by auto
    with add_law [OF Cons.prems(1), of e sub uuid] obtain s1 where
      "add e uuid sub s = (Inr uuid, s1)" "ok s1"
      "\<forall>r. hooks r s1 = hooks r s @ (if sb_repo sub = r then [sub\<lparr>sb_id := uuid\<rparr>] else [])"
      "\<forall>u. fresh u s \<and> u \<noteq> uuid \<longrightarrow> fresh u s1" by blast
    moreover from this(3) have "(\<lambda>r. hooks r s1) = snd (hook_spec op (\<lambda>r. hooks r s))" by (auto simp: HookAdd)
    ultimately show ?thesis
      using \<open>\<forall>u\<in>set (op_uuids ops). fresh u s \<and> u \<noteq> uuid\<close> by (simp add: HookAdd)
  next
    case (HookRemove e repo i)
    from remove_law [OF Cons.prems(1), of e repo i] obtain s1 where
      r: "remove e repo i s = (\<exists>x\<in>set (hooks repo s). sb_id x = i, s1)" "ok s1"
      "\<forall>r. hooks r s1 = filter (\<lambda>x. \<not> (r = repo \<and> sb_id x = i)) (hooks r s)"
      "\<forall>u. fresh u s \<longrightarrow> fresh u s1" by blast
    moreover from r(3) have "(\<lambda>r. hooks r s1) = snd (hook_spec op (\<lambda>r. hooks r s))" by (auto simp: HookRemove)
    ultimately show ?thesis using Cons.prems(4) by (simp add: HookRemove)
  qed
  then obtain s1 where s1: "hook_step add remove op s = (fst (hook_spec op (\<lambda>r. hooks r s)), s1)" "ok s1"
    "(\<lambda>r. hooks r s1) = snd (hook_spec op (\<lambda>r. hooks r s))" "\<forall>u\<in>set (op_uuids ops). fresh u s1" by blast
  have d: "distinct (op_uuids ops)" using Cons.prems(3) by (cases op) simp_all
  from Cons.IH [OF s1(2) _ d s1(4)] Cons.prems(2) s1 show ?case
    by (auto simp: case_prod_unfold)
qed

end

text \<open>The in-memory registry.\<close>

interpretation mem_hooks: hook_registry "\<lambda>_ uuid sub. mem_add uuid (sub\<lparr>sb_id := []\<rparr>)" "\<lambda>_. mem_remove" mem_hooks
  mem_matching "\<lambda>_ _. True" "\<lambda>_. True" "\<lambda>_. True" "\<lambda>_. True"
proof
  fix s :: "subscription list" and e :: 'a and sub :: subscription and uuid i kind :: string and repo :: repo_id
  show "\<exists>s'. mem_add uuid (sub\<lparr>sb_id := []\<rparr>) s = (Inr uuid, s') \<and> True
      \<and> (\<forall>r. mem_hooks r s' = mem_hooks r s @ (if sb_repo sub = r then [sub\<lparr>sb_id := uuid\<rparr>] else []))
      \<and> (\<forall>u. True \<and> u \<noteq> uuid \<longrightarrow> True)"
    by (simp add: mem_add_def mem_hooks_def Let_def)
  have len: "length s \<noteq> length (filter P s) \<longleftrightarrow> (\<exists>x\<in>set s. \<not> P x)" for P
    by (metis (no_types, lifting) filter_True length_filter_less nat_neq_iff)
  show "\<exists>s'. mem_remove repo i s = (\<exists>x\<in>set (mem_hooks repo s). sb_id x = i, s') \<and> True
      \<and> (\<forall>r. mem_hooks r s' = filter (\<lambda>x. \<not> (r = repo \<and> sb_id x = i)) (mem_hooks r s)) \<and> (\<forall>u. True \<longrightarrow> True)"
    by (auto simp: mem_remove_def mem_hooks_def Let_def len intro!: filter_cong)
  show "mem_matching repo kind s = filter (\<lambda>x. wants_kind kind (sb_events x)) (mem_hooks repo s)"
    by (simp add: mem_matching_def mem_hooks_def)
qed

text \<open>The SQLite registry, for crates that keep their documented behaviour and secrets that are text; the
  environment is the clock and the nonce.\<close>

definition json_ok :: "json \<Rightarrow> bool" where
  "json_ok j = (\<forall>ks. js_unkinds j (js_kinds j ks) = Some ks)"

definition registry_ok :: "crypto \<Rightarrow> json \<Rightarrow> registry \<Rightarrow> bool" where
  "registry_ok c j reg = (crypto_ok c \<and> json_ok j \<and> key_ok (rg_key reg))"

definition secret_ok :: "subscription \<Rightarrow> bool" where
  "secret_ok sub = (repo_id_ok (repo_str (sb_repo sub)) \<and> (\<forall>s. sb_secret sub = Some s \<longrightarrow> from_utf8 (as_bytes s) = Some s))"

definition hook_fresh :: "string \<Rightarrow> registry \<Rightarrow> bool" where
  "hook_fresh u reg = (u \<noteq> [] \<and> u \<notin> hk_id ` set (rg_hooks reg))"

lemma map_filter_append: "List.map_filter f (xs @ ys) = List.map_filter f xs @ List.map_filter f ys"
  by (simp add: List.map_filter_def)

lemma hook_add_law:
  assumes "registry_ok c j reg" "length nonce = 12" "secret_ok sub" "hook_fresh uuid reg"
  shows "\<exists>reg'. hook_add c j now uuid nonce (sub\<lparr>sb_id := []\<rparr>) reg = (Inr uuid, reg') \<and> registry_ok c j reg'
    \<and> (\<forall>r. hook_list c j r reg' = hook_list c j r reg @ (if sb_repo sub = r then [sub\<lparr>sb_id := uuid\<rparr>] else []))
    \<and> (\<forall>u. hook_fresh u reg \<and> u \<noteq> uuid \<longrightarrow> hook_fresh u reg')"
proof -
  define sealed where "sealed = (case sb_secret sub of None \<Rightarrow> (None, None)
    | Some plaintext \<Rightarrow> (case seal c (rg_key reg) nonce (as_bytes plaintext) of
        Inr (ct, n) \<Rightarrow> (Some (cr_b64 c ct), Some n) | Inl _ \<Rightarrow> (None, None)))"
  define row where "row = \<lparr>hk_id = uuid, hk_repo = repo_str (sb_repo sub), hk_url = sb_url sub, hk_secret = fst sealed,
      hk_nonce = snd sealed, hk_events = js_kinds j (sb_events sub), hk_created = now, hk_revoked = None\<rparr>"
  have add: "hook_add c j now uuid nonce (sub\<lparr>sb_id := []\<rparr>) reg = (Inr uuid, reg\<lparr>rg_hooks := rg_hooks reg @ [row]\<rparr>)"
    using assms(4) by (simp add: hook_add_def hook_fresh_def row_def sealed_def Let_def)
  have sec: "row_secret c (rg_key reg) row = sb_secret sub"
  proof (cases "sb_secret sub")
    case None
    then show ?thesis by (simp add: row_secret_def row_def sealed_def)
  next
    case (Some s)
    obtain ct where ct: "seal c (rg_key reg) nonce (as_bytes s) = Inr (ct, nonce)" "unseal c (rg_key reg) ct nonce = Inr (as_bytes s)"
      using seal_unseal assms(1,2) unfolding registry_ok_def by metis
    have "cr_unb64 c (cr_b64 c ct) = Some ct" using assms(1) by (simp add: registry_ok_def crypto_ok_def)
    then show ?thesis using ct Some assms(2,3) by (simp add: row_secret_def row_def sealed_def secret_ok_def)
  qed
  have "row_to_sub c j (rg_key reg) row = Some (sub\<lparr>sb_id := uuid\<rparr>)"
    using assms(1,3) sec
    by (simp add: row_to_sub_def row_def secret_ok_def repo_id_try_from_iff [THEN iffD2] row_kinds_def registry_ok_def json_ok_def)
  then have "\<forall>r. hook_list c j r (reg\<lparr>rg_hooks := rg_hooks reg @ [row]\<rparr>)
      = hook_list c j r reg @ (if sb_repo sub = r then [sub\<lparr>sb_id := uuid\<rparr>] else [])"
    by (auto simp: hook_list_def live_rows_def map_filter_append List.map_filter_def row_def repo_id.expand)
  then show ?thesis
    using add assms(1) by (auto simp: registry_ok_def hook_fresh_def row_def)
qed

lemma hook_remove_law:
  "\<exists>reg'. hook_remove now repo i reg = (\<exists>x\<in>set (hook_list c j repo reg). sb_id x = i, reg') \<and> registry_ok c j reg' = registry_ok c j reg
    \<and> (\<forall>r. hook_list c j r reg' = filter (\<lambda>x. \<not> (r = repo \<and> sb_id x = i)) (hook_list c j r reg))
    \<and> (\<forall>u. hook_fresh u reg \<longrightarrow> hook_fresh u reg')"
  if "\<forall>row\<in>set (rg_hooks reg). repo_id_ok (hk_repo row)"
proof -
  let ?hit = "\<lambda>row. hk_id row = i \<and> hk_repo row = repo_str repo \<and> hk_revoked row = None"
  let ?upd = "\<lambda>row. if ?hit row then row\<lparr>hk_revoked := Some now\<rparr> else row"
  have sub: "\<exists>x. row_to_sub c j (rg_key reg) row = Some x \<and> sb_id x = hk_id row \<and> repo_str (sb_repo x) = hk_repo row"
    if "row \<in> set (rg_hooks reg)" for row
    using that \<open>\<forall>row\<in>set (rg_hooks reg). repo_id_ok (hk_repo row)\<close>
    by (auto simp: row_to_sub_def repo_id_try_from_iff [THEN iffD2])
  have "list_ex ?hit rows = (\<exists>x\<in>set (List.map_filter (row_to_sub c j (rg_key reg)) (filter (\<lambda>row. hk_repo row = repo_str repo \<and> hk_revoked row = None) rows)). sb_id x = i)"
    if "set rows \<subseteq> set (rg_hooks reg)" for rows
    using that
  proof (induction rows)
    case (Cons row rows)
    with sub [of row] show ?case by (auto simp: List.map_filter_simps)
  qed (simp add: List.map_filter_def)
  then have ex: "list_ex ?hit (rg_hooks reg) = (\<exists>x\<in>set (hook_list c j repo reg). sb_id x = i)"
    by (simp add: hook_list_def live_rows_def)
  have "List.map_filter (row_to_sub c j (rg_key reg)) (filter (\<lambda>row. hk_repo row = repo_str r \<and> hk_revoked row = None) (map ?upd rows))
      = filter (\<lambda>x. \<not> (r = repo \<and> sb_id x = i))
          (List.map_filter (row_to_sub c j (rg_key reg)) (filter (\<lambda>row. hk_repo row = repo_str r \<and> hk_revoked row = None) rows))"
    if "set rows \<subseteq> set (rg_hooks reg)" for rows r
    using that
  proof (induction rows)
    case (Cons row rows)
    with sub [of row] show ?case by (auto simp: List.map_filter_simps repo_id.expand)
  qed (simp add: List.map_filter_def)
  then have ls: "\<forall>r. hook_list c j r (reg\<lparr>rg_hooks := map ?upd (rg_hooks reg)\<rparr>)
      = filter (\<lambda>x. \<not> (r = repo \<and> sb_id x = i)) (hook_list c j r reg)"
    by (simp add: hook_list_def live_rows_def)
  have "hk_id (?upd row) = hk_id row" for row by simp
  then have "hk_id ` set (map ?upd (rg_hooks reg)) = hk_id ` set (rg_hooks reg)"
    unfolding set_map image_image by (intro image_cong) simp_all
  then show ?thesis
    using ex ls by (simp add: hook_remove_def Let_def registry_ok_def hook_fresh_def)
qed

definition hooks_ok :: "crypto \<Rightarrow> json \<Rightarrow> registry \<Rightarrow> bool" where
  "hooks_ok c j reg = (registry_ok c j reg \<and> (\<forall>row\<in>set (rg_hooks reg). repo_id_ok (hk_repo row)))"

lemma hooks_ok_keeps:
  "hooks_ok c j reg \<Longrightarrow> secret_ok sub \<Longrightarrow> hook_add c j now uuid nonce sub reg = (r, reg') \<Longrightarrow> hooks_ok c j reg'"
  "hooks_ok c j reg \<Longrightarrow> hook_remove now repo i reg = (b, reg') \<Longrightarrow> hooks_ok c j reg'"
proof -
  show "hooks_ok c j reg \<Longrightarrow> secret_ok sub \<Longrightarrow> hook_add c j now uuid nonce sub reg = (r, reg') \<Longrightarrow> hooks_ok c j reg'"
    by (auto simp: hooks_ok_def registry_ok_def hook_add_def secret_ok_def Let_def split: if_splits)
  assume ok: "hooks_ok c j reg" and r: "hook_remove now repo i reg = (b, reg')"
  let ?upd = "\<lambda>row. if hk_id row = i \<and> hk_repo row = repo_str repo \<and> hk_revoked row = None then row\<lparr>hk_revoked := Some now\<rparr> else row"
  have "hk_repo (?upd row) = hk_repo row" for row by simp
  then have "hk_repo ` set (map ?upd (rg_hooks reg)) = hk_repo ` set (rg_hooks reg)"
    unfolding set_map image_image by (intro image_cong) simp_all
  moreover have "\<forall>x\<in>hk_repo ` set (rg_hooks reg). repo_id_ok x" using ok by (simp add: hooks_ok_def)
  ultimately have "\<forall>row\<in>set (map ?upd (rg_hooks reg)). repo_id_ok (hk_repo row)"
    by (metis (no_types, lifting) image_eqI)
  then show "hooks_ok c j reg'"
    using ok r by (auto simp add: hooks_ok_def registry_ok_def hook_remove_def Let_def simp del: set_map)
qed

interpretation sqlite_hooks: hook_registry "\<lambda>(now, nonce) uuid sub. hook_add c j now uuid nonce (sub\<lparr>sb_id := []\<rparr>)"
  "\<lambda>(now, nonce). hook_remove now" "hook_list c j" "hook_matching c j" hook_fresh "hooks_ok c j" secret_ok
  "\<lambda>(now, nonce). length nonce = 12" for c j
proof
  fix reg :: registry and e :: "int \<times> u8 list" and sub :: subscription and uuid i kind :: string and repo :: repo_id
  obtain now nonce where e: "e = (now, nonce)" by (cases e)
  assume ok: "hooks_ok c j reg"
  show "\<exists>s'. (case e of (now, nonce) \<Rightarrow> \<lambda>uuid sub. hook_add c j now uuid nonce (sub\<lparr>sb_id := []\<rparr>)) uuid sub reg = (Inr uuid, s')
      \<and> hooks_ok c j s'
      \<and> (\<forall>r. hook_list c j r s' = hook_list c j r reg @ (if sb_repo sub = r then [sub\<lparr>sb_id := uuid\<rparr>] else []))
      \<and> (\<forall>u. hook_fresh u reg \<and> u \<noteq> uuid \<longrightarrow> hook_fresh u s')"
    if env: "case e of (now, nonce) \<Rightarrow> length nonce = 12" and sub: "secret_ok sub" and fresh: "hook_fresh uuid reg"
  proof -
    have "registry_ok c j reg" "length nonce = 12" "secret_ok (sub\<lparr>sb_id := []\<rparr>)"
      using ok env sub by (simp_all add: hooks_ok_def e secret_ok_def)
    with hook_add_law [of c j reg nonce sub uuid now] sub fresh hooks_ok_keeps(1) [OF ok this(3)] show ?thesis
      by (fastforce simp: e)
  qed
  show "\<exists>s'. (case e of (now, nonce) \<Rightarrow> hook_remove now) repo i reg = (\<exists>x\<in>set (hook_list c j repo reg). sb_id x = i, s')
      \<and> hooks_ok c j s' \<and> (\<forall>r. hook_list c j r s' = filter (\<lambda>x. \<not> (r = repo \<and> sb_id x = i)) (hook_list c j r reg))
      \<and> (\<forall>u. hook_fresh u reg \<longrightarrow> hook_fresh u s')"
    using hook_remove_law [of reg now repo i c j] ok hooks_ok_keeps(2) [OF ok] by (fastforce simp: e hooks_ok_def)
  show "hook_matching c j repo kind reg = filter (\<lambda>x. wants_kind kind (sb_events x)) (hook_list c j repo reg)"
    by (simp add: hook_matching_def)
qed

text \<open>Both registries are one. From an empty table, any sequence of additions with distinct fresh ids and of
  removals gets the same answers from the SQLite registry as from the in-memory one, and leaves
  both with the same lists, secrets included, and the same matches for every repo and kind: sealing
  and unsealing are invisible, and no operation reaches another repo's subscriptions.\<close>

theorem sqlite_mem_hooks_equivalent:
  assumes "crypto_ok c" "json_ok j" "key_ok key"
    and "list_all (hook_op_ok (\<lambda>(now, nonce). length nonce = 12) secret_ok) ops"
    and "distinct (op_uuids ops)" "[] \<notin> set (op_uuids ops)"
  shows "\<exists>answers reg subs.
    run_all (hook_step (\<lambda>(now, nonce) uuid sub. hook_add c j now uuid nonce (sub\<lparr>sb_id := []\<rparr>)) (\<lambda>(now, nonce). hook_remove now))
      ops \<lparr>rg_hooks = [], rg_outbox = [], rg_seq = 0, rg_key = key\<rparr> = (answers, reg)
    \<and> run_all (hook_step (\<lambda>_ uuid sub. mem_add uuid (sub\<lparr>sb_id := []\<rparr>)) (\<lambda>_. mem_remove)) ops [] = (answers, subs)
    \<and> (\<forall>r. hook_list c j r reg = mem_hooks r subs)
    \<and> (\<forall>r k. hook_matching c j r k reg = mem_matching r k subs)"
proof -
  let ?reg = "\<lparr>rg_hooks = [], rg_outbox = [], rg_seq = 0, rg_key = key\<rparr>"
  let ?empty = "\<lambda>r :: repo_id. [] :: subscription list"
  have l: "(\<lambda>r. hook_list c j r ?reg) = ?empty" by (simp add: hook_list_def live_rows_def List.map_filter_def)
  have m: "(\<lambda>r. mem_hooks r []) = ?empty" by (simp add: mem_hooks_def)
  have ok: "hooks_ok c j ?reg" using assms(1-3) by (simp add: hooks_ok_def registry_ok_def)
  have fresh: "\<forall>u\<in>set (op_uuids ops). hook_fresh u ?reg" using assms(6) by (auto simp: hook_fresh_def)
  obtain reg where reg: "run_all (hook_step (\<lambda>(now, nonce) uuid sub. hook_add c j now uuid nonce (sub\<lparr>sb_id := []\<rparr>))
      (\<lambda>(now, nonce). hook_remove now)) ops ?reg = (fst (run_all hook_spec ops ?empty), reg)"
    "(\<lambda>r. hook_list c j r reg) = snd (run_all hook_spec ops ?empty)"
    "\<forall>r k. hook_matching c j r k reg = filter (\<lambda>x. wants_kind k (sb_events x)) (snd (run_all hook_spec ops ?empty) r)"
    using sqlite_hooks.run_hooks [OF ok assms(4,5) fresh] unfolding l by blast
  have "list_all (hook_op_ok (\<lambda>_. True) (\<lambda>_. True)) ops" for ops :: "(int \<times> u8 list) hook_op list"
  proof (induction ops)
    case (Cons op ops)
    then show ?case by (cases op) simp_all
  qed simp
  from mem_hooks.run_hooks [OF _ this assms(5), of "[]"] obtain subs where
    "run_all (hook_step (\<lambda>_ uuid sub. mem_add uuid (sub\<lparr>sb_id := []\<rparr>)) (\<lambda>_. mem_remove)) ops [] = (fst (run_all hook_spec ops ?empty), subs)"
    "(\<lambda>r. mem_hooks r subs) = snd (run_all hook_spec ops ?empty)"
    "\<forall>r k. mem_matching r k subs = filter (\<lambda>x. wants_kind k (sb_events x)) (snd (run_all hook_spec ops ?empty) r)"
    unfolding m by blast
  with reg show ?thesis by (metis (mono_tags, lifting))
qed

definition toy_json :: json where
  "toy_json = \<lparr>js_kinds = concat \<circ> map (\<lambda>k. case k of KCommit \<Rightarrow> ''c'' | KFork \<Rightarrow> ''f'' | KStatus \<Rightarrow> ''s''),
     js_unkinds = Some \<circ> map (\<lambda>c. if c = CHR ''c'' then KCommit else if c = CHR ''f'' then KFork else KStatus),
     js_event = (\<lambda>ev. Some (as_bytes (fst (repo_and_kind ev))))\<rparr>"

lemma toy_json_ok: "json_ok toy_json"
proof -
  have "map (\<lambda>c. if c = CHR ''c'' then KCommit else if c = CHR ''f'' then KFork else KStatus)
      (concat (map (\<lambda>k. case k of KCommit \<Rightarrow> ''c'' | KFork \<Rightarrow> ''f'' | KStatus \<Rightarrow> ''s'') ks)) = ks" for ks
    by (induction ks) (auto split: event_kind.splits)
  then show ?thesis by (simp add: json_ok_def toy_json_def)
qed

definition sample_sub :: subscription where
  "sample_sub = \<lparr>sb_id = [], sb_repo = RepoId ''demo'', sb_url = ''https://example.com/hook'', sb_secret = Some ''s3cret'', sb_events = [KCommit]\<rparr>"

lemma sample_sub_ok: "secret_ok sample_sub"
proof -
  have "from_utf8 (as_bytes ''s3cret'') = Some ''s3cret''" by (rule from_utf8_ascii) simp
  then show ?thesis by (simp add: secret_ok_def sample_sub_def repo_id_ok_def is_lower_def del: as_bytes_simps)
qed

theorem sqlite_mem_hooks_equivalent_witness:
  "\<exists>answers reg subs.
    run_all (hook_step (\<lambda>(now, nonce) uuid sub. hook_add toy_crypto toy_json now uuid nonce (sub\<lparr>sb_id := []\<rparr>)) (\<lambda>(now, nonce). hook_remove now))
      [HookAdd (7, replicate 12 1) ''u1'' sample_sub, HookRemove (8, []) (RepoId ''more'') ''u1'']
      \<lparr>rg_hooks = [], rg_outbox = [], rg_seq = 0, rg_key = MasterKey (replicate 32 5)\<rparr> = (answers, reg)
    \<and> hook_list toy_crypto toy_json (RepoId ''demo'') reg = mem_hooks (RepoId ''demo'') subs"
proof -
  have k: "key_ok (MasterKey (replicate 32 5))" by (simp add: key_ok_def)
  from sqlite_mem_hooks_equivalent [OF toy_crypto_ok toy_json_ok this,
      of "[HookAdd (7, replicate 12 1) ''u1'' sample_sub, HookRemove (8, []) (RepoId ''more'') ''u1'']"] sample_sub_ok
  show ?thesis by (auto simp del: run_all.simps)
qed

end
