(* ===== verification/Delivery.thy ===== *)
theory Delivery
  imports Webhooks "HOL-Library.Multiset"
begin

text \<open>
  The outbox of \<open>src/webhooks.rs\<close> over time: what one enqueue inserts, how the worker's ticks drive every
  row to its end, when a row may be claimed, and what a rotation of the master key does to the rows
  of both tables.
\<close>

section \<open>Enqueueing\<close>

lemma enqueue_rows_append:
  "enqueue_rows c j now kind payload rows s out =
     (s + length (filter (\<lambda>row. wants_kind kind (row_kinds j (hk_events row))) rows),
      out @ map2 (enqueue_row c now kind payload) [s + 1..<s + 1 + length (filter (\<lambda>row. wants_kind kind (row_kinds j (hk_events row))) rows)]
        (filter (\<lambda>row. wants_kind kind (row_kinds j (hk_events row))) rows))"
  by (induction rows arbitrary: s out) (simp_all add: upt_conv_Cons del: upt_Suc)

section \<open>The worker\<close>

lemma worker_backoff_bounds: "60 \<le> worker_backoff_secs n \<and> worker_backoff_secs n \<le> 3600"
  by (auto simp: worker_backoff_secs_def WORKER_BACKOFF_BASE_SECS_def WORKER_BACKOFF_MAX_SECS_def Let_def min_def)

text \<open>What a settled attempt does to its own row.\<close>

definition settle_row :: "int \<Rightarrow> http_result \<Rightarrow> pending \<Rightarrow> delivery \<Rightarrow> delivery" where
  "settle_row now result row d =
     (case result of
        HttpOk sc \<Rightarrow> d\<lparr>dv_finalized := Some now, dv_outcome := Some ''success'', dv_status := Some (fmt_dec sc)\<rparr>
      | HttpStatus sc \<Rightarrow>
          if 400 \<le> sc \<and> sc < 500
          then d\<lparr>dv_finalized := Some now, dv_outcome := Some ''client_error'', dv_status := Some (fmt_dec sc)\<rparr>
          else if WORKER_MAX_ATTEMPTS \<le> pd_attempts row
          then d\<lparr>dv_finalized := Some now, dv_outcome := Some ''exhausted'', dv_status := Some (fmt_dec sc)\<rparr>
          else d\<lparr>dv_attempts := pd_attempts row, dv_next := now + worker_backoff_secs (pd_attempts row), dv_status := Some (fmt_dec sc)\<rparr>
      | HttpTransport \<Rightarrow>
          if WORKER_MAX_ATTEMPTS \<le> pd_attempts row
          then d\<lparr>dv_finalized := Some now, dv_outcome := Some ''exhausted'', dv_status := Some ''network''\<rparr>
          else d\<lparr>dv_attempts := pd_attempts row, dv_next := now + worker_backoff_secs (pd_attempts row), dv_status := Some ''network''\<rparr>)"

lemma settle_map:
  "settle now result row reg =
     reg\<lparr>rg_outbox := map (\<lambda>d. if dv_id d = pd_id row then settle_row now result row d else d) (rg_outbox reg)\<rparr>"
  by (cases result)
    (auto simp: settle_def settle_row_def mark_delivery_finalized_def mark_delivery_retry_def Let_def cong: if_cong)

lemma settle_row_id [simp]: "dv_id (settle_row now result row d) = dv_id d"
  by (simp add: settle_row_def split: http_result.splits)

text \<open>A fold over rows with distinct ids updates each row of the table at most once.\<close>

lemma fold_settle:
  "distinct (map pd_id rows) \<Longrightarrow>
     fold (dispatch_row c http now True) rows reg =
       reg\<lparr>rg_outbox := map (\<lambda>d. case find (\<lambda>row. pd_id row = dv_id d) rows of
           None \<Rightarrow> d | Some row \<Rightarrow> settle_row now (http (delivery_request c row)) row d) (rg_outbox reg)\<rparr>"
proof (induction rows arbitrary: reg)
  case (Cons row rows)
  have "find (\<lambda>r. pd_id r = pd_id row) rows = None"
    using Cons.prems by (auto simp: find_None_iff image_iff)
  then show ?case
    using Cons by (auto simp: dispatch_row_def settle_map)
qed simp

text \<open>One tick, row by row.\<close>

definition tick_row :: "crypto \<Rightarrow> (hook_request \<Rightarrow> http_result) \<Rightarrow> int \<Rightarrow> master_key \<Rightarrow> delivery \<Rightarrow> delivery" where
  "tick_row c http now key d =
     settle_row now (http (delivery_request c (pending_of c key d))) (pending_of c key d)
       (d\<lparr>dv_next := now + INFLIGHT_RESCHEDULE_SECS, dv_attempts := dv_attempts d + 1\<rparr>)"

lemma pending_of_id [simp]: "pd_id (pending_of c key d) = dv_id d"
  by (simp add: pending_of_def)

lemma set_claimable: "d \<in> set (claimable now limit out) \<Longrightarrow> d \<in> set out \<and> due now d"
  unfolding claimable_def by (auto dest!: in_set_takeD)

lemma distinct_claimable:
  assumes "distinct (map dv_id out)"
  shows "distinct (map dv_id (claimable now limit out))"
proof -
  have "distinct (map dv_id (filter (due now) out))" using assms by (simp add: distinct_map_filter)
  then have "distinct (map dv_id (sort_key dv_id (filter (due now) out)))"
    by (simp add: distinct_map)
  then show ?thesis by (simp add: claimable_def take_map [symmetric])
qed

lemma worker_tick_map:
  assumes "distinct (map dv_id (rg_outbox reg))"
  shows "worker_tick c http now reg = reg\<lparr>rg_outbox := map (\<lambda>d.
    if d \<in> set (claimable now WORKER_BATCH_LIMIT (rg_outbox reg)) then tick_row c http now (rg_key reg) d else d) (rg_outbox reg)\<rparr>"
proof -
  let ?rows = "claimable now WORKER_BATCH_LIMIT (rg_outbox reg)"
  let ?pend = "map (pending_of c (rg_key reg)) ?rows"
  have dist: "distinct (map pd_id ?pend)"
    using distinct_claimable [OF assms] by (simp add: comp_def)
  have inj: "d = e" if "d \<in> set (rg_outbox reg)" "e \<in> set (rg_outbox reg)" "dv_id d = dv_id e" for d e
    using assms that by (auto simp: distinct_map dest: inj_onD)
  have row: "(case find (\<lambda>row. pd_id row = dv_id d) ?pend of None \<Rightarrow> (if dv_id d \<in> dv_id ` set ?rows then f d else d)
      | Some row \<Rightarrow> settle_row now (http (delivery_request c row)) row (if dv_id d \<in> dv_id ` set ?rows then f d else d))
    = (if d \<in> set ?rows then settle_row now (http (delivery_request c (pending_of c (rg_key reg) d))) (pending_of c (rg_key reg) d) (f d) else d)"
    if d: "d \<in> set (rg_outbox reg)" for d f
  proof (cases "d \<in> set ?rows")
    case True
    have "find (\<lambda>row. pd_id row = dv_id d) ?pend = Some (pending_of c (rg_key reg) d)"
    proof (cases "find (\<lambda>row. pd_id row = dv_id d) ?pend")
      case None
      then show ?thesis using True by (auto simp: find_None_iff)
    next
      case (Some p)
      then obtain e where "e \<in> set ?rows" "p = pending_of c (rg_key reg) e" "dv_id e = dv_id d"
        by (auto simp: find_Some_iff) (metis nth_mem)
      with inj [OF _ d] set_claimable show ?thesis using Some by metis
    qed
    then show ?thesis using True by simp
  next
    case False
    have "dv_id d \<notin> dv_id ` set ?rows" using False inj [OF d] set_claimable by (metis (no_types, lifting) imageE)
    moreover have "find (\<lambda>row. pd_id row = dv_id d) ?pend = None"
      using \<open>dv_id d \<notin> dv_id ` set ?rows\<close> by (auto simp: find_None_iff image_iff)
    ultimately show ?thesis using False by simp
  qed
  let ?bump = "\<lambda>d. d\<lparr>dv_next := now + INFLIGHT_RESCHEDULE_SECS, dv_attempts := dv_attempts d + 1\<rparr>"
  have id_bump: "dv_id (if b then ?bump d else d) = dv_id d" for b d by simp
  have "rg_outbox (snd (claim_pending_deliveries c now WORKER_BATCH_LIMIT reg))
      = map (\<lambda>d. if dv_id d \<in> dv_id ` set ?rows then ?bump d else d) (rg_outbox reg)"
    by (simp add: claim_pending_deliveries_def Let_def)
  have m: "map (\<lambda>d. case find (\<lambda>row. pd_id row = dv_id d) ?pend of
        None \<Rightarrow> d | Some row \<Rightarrow> settle_row now (http (delivery_request c row)) row d)
      (map (\<lambda>d. if dv_id d \<in> dv_id ` set ?rows then ?bump d else d) (rg_outbox reg))
    = map (\<lambda>d. if d \<in> set ?rows then tick_row c http now (rg_key reg) d else d) (rg_outbox reg)"
    unfolding map_map comp_def id_bump tick_row_def by (rule map_cong [OF refl row])
  define out where "out = map (\<lambda>d. if dv_id d \<in> dv_id ` set ?rows then ?bump d else d) (rg_outbox reg)"
  have "worker_tick c http now reg = fold (dispatch_row c http now True) ?pend (reg\<lparr>rg_outbox := out\<rparr>)"
    by (simp only: worker_tick_def claim_pending_deliveries_def Let_def prod.case out_def)
  also have "\<dots> = reg\<lparr>rg_outbox := map (\<lambda>d. case find (\<lambda>row. pd_id row = dv_id d) ?pend of
        None \<Rightarrow> d | Some row \<Rightarrow> settle_row now (http (delivery_request c row)) row d) out\<rparr>"
    unfolding fold_settle [OF dist] by simp
  finally show ?thesis unfolding out_def m .
qed

text \<open>The queue: the rows that are not finalized, and how many of them a claim serves before a given id.\<close>

definition open_row :: "delivery \<Rightarrow> bool" where
  "open_row d = (dv_finalized d = None)"

definition ahead :: "nat \<Rightarrow> delivery list \<Rightarrow> nat" where
  "ahead i out = length (filter (\<lambda>d. open_row d \<and> dv_id d < i) out)"

definition queue :: "delivery list \<Rightarrow> delivery list" where
  "queue out = sort_key dv_id (filter open_row out)"

lemma queue_facts:
  "set (queue out) = {d \<in> set out. open_row d}" "length (queue out) = length (filter open_row out)"
  "sorted (map dv_id (queue out))"
  by (auto simp: queue_def)

lemma length_filter_queue: "length (filter P (queue out)) = length (filter (\<lambda>d. open_row d \<and> P d) out)"
proof -
  have "mset (filter P (queue out)) = filter_mset P (filter_mset open_row (mset out))"
    by (simp add: queue_def)
  then have "size (mset (filter P (queue out))) = size (mset (filter (\<lambda>d. open_row d \<and> P d) out))"
    by (simp add: filter_filter_mset conj_commute)
  then show ?thesis unfolding size_mset .
qed

lemma ahead_queue: "ahead i out = length (filter (\<lambda>d. dv_id d < i) (queue out))"
  by (simp add: ahead_def length_filter_queue)

lemma distinct_queue: "distinct (map dv_id out) \<Longrightarrow> distinct (map dv_id (queue out))"
  by (auto simp: queue_def distinct_map intro: inj_on_subset)

lemma ahead_nth:
  assumes "distinct (map dv_id out)" "k < length (queue out)"
  shows "ahead (dv_id (queue out ! k)) out = k"
proof -
  let ?q = "queue out"
  have lt: "dv_id (?q ! a) < dv_id (?q ! b)" if "a < b" "b < length ?q" for a b
  proof -
    have "sorted_wrt (<) (map dv_id ?q)"
      using queue_facts(3) [of out] distinct_queue [OF assms(1)] by (simp add: strict_sorted_iff)
    from sorted_wrt_nth_less [OF this that(1)] that show ?thesis by simp
  qed
  have ge: "dv_id (?q ! k) \<le> dv_id (?q ! b)" if "k \<le> b" "b < length ?q" for b
    using lt [of k b] that by (cases "k = b") auto
  have "filter (\<lambda>d. dv_id d < dv_id (?q ! k)) (take k ?q) = take k ?q"
    unfolding filter_id_conv using lt assms(2) by (auto simp: in_set_conv_nth)
  moreover have "filter (\<lambda>d. dv_id d < dv_id (?q ! k)) (drop k ?q) = []"
    using ge by (auto simp: filter_empty_conv in_set_conv_nth not_less)
  ultimately have "length (filter (\<lambda>d. dv_id d < dv_id (?q ! k)) (take k ?q @ drop k ?q)) = k"
    using assms(2) by (simp del: append_take_drop_id)
  then show ?thesis by (simp add: ahead_queue)
qed

lemma claimable_ahead:
  assumes "distinct (map dv_id out)" "\<forall>d\<in>set out. open_row d \<longrightarrow> dv_next d \<le> now"
  shows "d \<in> set (claimable now limit out) \<longleftrightarrow> d \<in> set out \<and> open_row d \<and> ahead (dv_id d) out < limit"
proof -
  have "claimable now limit out = take limit (queue out)"
    unfolding claimable_def queue_def
    by (rule arg_cong [where f = "\<lambda>xs. take limit (sort_key dv_id xs)"], rule filter_cong)
       (use assms(2) in \<open>auto simp: due_def open_row_def\<close>)
  moreover have "d \<in> set (take limit (queue out)) \<longleftrightarrow> (\<exists>k < length (queue out). k < limit \<and> d = queue out ! k)"
    by (auto simp: in_set_conv_nth)
  moreover have "d \<in> set out \<and> open_row d \<longleftrightarrow> (\<exists>k < length (queue out). d = queue out ! k)"
    using queue_facts(1) [of out] by (metis (no_types, lifting) in_set_conv_nth mem_Collect_eq)
  ultimately show ?thesis using ahead_nth [OF assms(1)] by metis
qed

lemma open_beyond:
  assumes "distinct (map dv_id out)"
  shows "length (filter (\<lambda>d. open_row d \<and> limit \<le> ahead (dv_id d) out) out) = length (filter open_row out) - limit"
proof -
  let ?q = "queue out" and ?P = "\<lambda>d. limit \<le> ahead (dv_id d) out"
  have "filter ?P (take limit ?q) = []"
    using ahead_nth [OF assms] by (auto simp: filter_empty_conv in_set_conv_nth not_le)
  moreover have "filter ?P (drop limit ?q) = drop limit ?q"
    using ahead_nth [OF assms] by (auto simp: filter_id_conv in_set_conv_nth)
  ultimately have "length (filter ?P (take limit ?q @ drop limit ?q)) = length ?q - limit"
    by (simp del: append_take_drop_id)
  then show ?thesis by (simp add: length_filter_queue queue_facts(2))
qed

lemma filter_length_le:
  "list_all2 (\<lambda>x y. P y \<longrightarrow> Q x) xs ys \<Longrightarrow> length (filter P ys) \<le> length (filter Q xs)"
  by (induction rule: list_all2_induct) auto

text \<open>The rows a tick leaves: a finalized row stays as it is, a claimed one is finalized with its outcome or
  has one attempt more and is due within the hour.\<close>

definition done_row :: "delivery \<Rightarrow> bool" where
  "done_row d = (dv_finalized d \<noteq> None \<and> dv_outcome d \<in> {Some ''success'', Some ''client_error'', Some ''exhausted''})"

lemma tick_row_cases:
  assumes "dv_attempts d < 2 ^ 32 - 8"
  shows "dv_id (tick_row c http now key d) = dv_id d
    \<and> (done_row (tick_row c http now key d)
       \<or> dv_finalized (tick_row c http now key d) = dv_finalized d
         \<and> dv_attempts (tick_row c http now key d) = dv_attempts d + 1 \<and> dv_attempts d < 7
         \<and> now + 60 \<le> dv_next (tick_row c http now key d) \<and> dv_next (tick_row c http now key d) \<le> now + 3600)"
proof -
  have "pd_attempts (pending_of c key d) = dv_attempts d + 1" using assms by (simp add: pending_of_def)
  then show ?thesis
    using worker_backoff_bounds [of "dv_attempts d + 1"]
    by (auto simp: tick_row_def settle_row_def done_row_def WORKER_MAX_ATTEMPTS_def split: http_result.splits)
qed

definition worker_ticks :: "crypto \<Rightarrow> (int \<times> (hook_request \<Rightarrow> http_result)) list \<Rightarrow> registry \<Rightarrow> registry" where
  "worker_ticks c ticks reg = fold (\<lambda>(now, http). worker_tick c http now) ticks reg"

text \<open>Ticks at least an hour apart, the first one with every open row due.\<close>

definition ticks_ok :: "(int \<times> (hook_request \<Rightarrow> http_result)) list \<Rightarrow> delivery list \<Rightarrow> bool" where
  "ticks_ok ticks out =
     (sorted_wrt (\<lambda>x y. fst x + 3600 \<le> fst y) ticks \<and> distinct (map dv_id out)
      \<and> (\<forall>d\<in>set out. open_row d \<longrightarrow> dv_attempts d < 2 ^ 32 - 8 \<and> (\<forall>x\<in>set ticks. dv_next d \<le> fst x)))"

definition remaining :: "delivery \<Rightarrow> nat" where
  "remaining d = max 1 (8 - dv_attempts d)"

definition tick_rel :: "delivery list \<Rightarrow> nat \<Rightarrow> delivery \<Rightarrow> delivery \<Rightarrow> bool" where
  "tick_rel out n d d' =
     (dv_id d' = dv_id d \<and> (\<not> open_row d \<longrightarrow> d' = d) \<and> (open_row d \<longrightarrow> done_row d' \<or> open_row d')
      \<and> (open_row d \<longrightarrow> ahead (dv_id d) out < WORKER_BATCH_LIMIT \<longrightarrow> remaining d \<le> n \<longrightarrow> done_row d'))"

lemma done_not_open [simp]: "done_row d \<Longrightarrow> \<not> open_row d"
  by (simp add: done_row_def open_row_def)

definition tick_at :: "crypto \<Rightarrow> (hook_request \<Rightarrow> http_result) \<Rightarrow> int \<Rightarrow> registry \<Rightarrow> delivery \<Rightarrow> delivery" where
  "tick_at c http now reg d =
     (if d \<in> set (claimable now WORKER_BATCH_LIMIT (rg_outbox reg)) then tick_row c http now (rg_key reg) d else d)"

lemma tick_step:
  fixes c :: crypto
  assumes "ticks_ok ((now, http) # ticks) (rg_outbox reg)"
  defines "f \<equiv> tick_at c http now reg"
  shows "worker_tick c http now reg = reg\<lparr>rg_outbox := map f (rg_outbox reg)\<rparr>"
    and "ticks_ok ticks (map f (rg_outbox reg))"
    and "\<forall>d\<in>set (rg_outbox reg). dv_id (f d) = dv_id d \<and> (\<not> open_row d \<longrightarrow> f d = d)
      \<and> (open_row d \<longrightarrow> done_row (f d) \<or> open_row (f d))
      \<and> (open_row d \<longrightarrow> ahead (dv_id d) (rg_outbox reg) < WORKER_BATCH_LIMIT \<longrightarrow> \<not> done_row (f d) \<longrightarrow> remaining d = remaining (f d) + 1)"
proof -
  let ?out = "rg_outbox reg"
  have dist: "distinct (map dv_id ?out)" and srt: "\<forall>x\<in>set ticks. now + 3600 \<le> fst x"
    and due: "\<forall>d\<in>set ?out. open_row d \<longrightarrow> dv_next d \<le> now" "sorted_wrt (\<lambda>x y. fst x + 3600 \<le> fst y) ticks"
    using assms(1) by (auto simp: ticks_ok_def)
  show "worker_tick c http now reg = reg\<lparr>rg_outbox := map f ?out\<rparr>"
    unfolding f_def tick_at_def by (rule worker_tick_map [OF dist])
  note cl = claimable_ahead [OF dist due(1)]
  have att: "\<forall>d\<in>set ?out. open_row d \<longrightarrow> dv_attempts d < 2 ^ 32 - 8" using assms(1) by (simp add: ticks_ok_def)
  have same: "\<not> open_row d \<Longrightarrow> f d = d" for d by (simp add: f_def tick_at_def cl)
  have row: "f d = d \<and> \<not> ahead (dv_id d) ?out < WORKER_BATCH_LIMIT \<or> done_row (f d)
      \<or> open_row (f d) \<and> dv_attempts (f d) = dv_attempts d + 1 \<and> dv_attempts d < 7 \<and> dv_next (f d) \<le> now + 3600"
    if "d \<in> set ?out" "open_row d" for d
    using that att tick_row_cases [of d c http now "rg_key reg"] by (auto simp: f_def tick_at_def cl open_row_def)
  have ids: "dv_id (f d) = dv_id d" for d
    using tick_row_cases [of d c http now "rg_key reg"] by (simp add: f_def tick_at_def tick_row_def)
  show "\<forall>d\<in>set ?out. dv_id (f d) = dv_id d \<and> (\<not> open_row d \<longrightarrow> f d = d)
      \<and> (open_row d \<longrightarrow> done_row (f d) \<or> open_row (f d))
      \<and> (open_row d \<longrightarrow> ahead (dv_id d) ?out < WORKER_BATCH_LIMIT \<longrightarrow> \<not> done_row (f d) \<longrightarrow> remaining d = remaining (f d) + 1)"
    using row ids same by (fastforce simp: remaining_def max_def)
  have "dv_attempts (f d) < 2 ^ 32 - 8 \<and> (\<forall>x\<in>set ticks. dv_next (f d) \<le> fst x)"
    if "d \<in> set ?out" "open_row (f d)" for d
  proof -
    have "open_row d" using same [of d] that by fastforce
    with row [OF that(1) this] that att due srt show ?thesis by fastforce
  qed
  then show "ticks_ok ticks (map f ?out)"
    using due dist by (auto simp: ticks_ok_def comp_def ids)
qed

lemma ahead_mono:
  assumes "\<forall>d\<in>set out. dv_id (f d) = dv_id d \<and> (open_row (f d) \<longrightarrow> open_row d)"
  shows "ahead i (map f out) \<le> ahead i out"
  unfolding ahead_def using assms
  by (intro filter_length_le) (auto simp: list.rel_map list.rel_refl_strong)

lemma worker_ticks_rel:
  "ticks_ok (ticks @ rest) (rg_outbox reg) \<Longrightarrow>
     \<exists>out'. worker_ticks c ticks reg = reg\<lparr>rg_outbox := out'\<rparr> \<and> ticks_ok rest out' \<and> list_all2 (tick_rel (rg_outbox reg) (length ticks)) (rg_outbox reg) out'"
proof (induction ticks arbitrary: reg)
  case Nil
  have "tick_rel (rg_outbox reg) 0 d d" for d by (auto simp: tick_rel_def remaining_def)
  then show ?case using Nil by (auto simp: worker_ticks_def list.rel_refl intro!: exI [of _ "rg_outbox reg"])
next
  case (Cons tick ticks)
  obtain now http where tick: "tick = (now, http)" by (cases tick)
  define f where "f = tick_at c http now reg"
  note st = tick_step [where c = c, OF Cons.prems [unfolded tick append_Cons], folded f_def]
  obtain out' where out': "worker_ticks c ticks (reg\<lparr>rg_outbox := map f (rg_outbox reg)\<rparr>) = reg\<lparr>rg_outbox := out'\<rparr>" "ticks_ok rest out'"
    "list_all2 (tick_rel (map f (rg_outbox reg)) (length ticks)) (map f (rg_outbox reg)) out'"
    using Cons.IH [of "reg\<lparr>rg_outbox := map f (rg_outbox reg)\<rparr>"] st(2) by auto
  have f: "dv_id (f d) = dv_id d" "\<not> open_row d \<longrightarrow> f d = d" "open_row d \<longrightarrow> done_row (f d) \<or> open_row (f d)"
    "open_row d \<longrightarrow> ahead (dv_id d) (rg_outbox reg) < WORKER_BATCH_LIMIT \<longrightarrow> \<not> done_row (f d) \<longrightarrow> remaining d = remaining (f d) + 1"
    if "d \<in> set (rg_outbox reg)" for d
    using st(3) that by blast+
  have "open_row d" if "d \<in> set (rg_outbox reg)" "open_row (f d)" for d
    using f(2) [OF that(1)] that(2) by (cases "open_row d") simp_all
  then have ahead: "ahead i (map f (rg_outbox reg)) \<le> ahead i (rg_outbox reg)" for i
    using f(1) by (intro ahead_mono) blast
  have "tick_rel (rg_outbox reg) (length (tick # ticks)) d d'"
    if d: "d \<in> set (rg_outbox reg)" and rel: "tick_rel (map f (rg_outbox reg)) (length ticks) (f d) d'" for d d'
  proof -
    note rel = rel [unfolded tick_rel_def f(1) [OF d]]
    have "done_row d'" if "open_row d" "ahead (dv_id d) (rg_outbox reg) < WORKER_BATCH_LIMIT" "remaining d \<le> length (tick # ticks)"
    proof (cases "done_row (f d)")
      case True
      with rel show ?thesis by (metis done_not_open)
    next
      case False
      then have "open_row (f d)" "remaining (f d) \<le> length ticks" using f(3,4) [OF d] that by simp_all
      moreover have "ahead (dv_id d) (map f (rg_outbox reg)) < WORKER_BATCH_LIMIT"
        using that(2) ahead [of "dv_id d"] by simp
      ultimately show ?thesis using rel by blast
    qed
    moreover have "done_row d' \<or> open_row d'" if "open_row d"
      using f(3) [OF d] rel that by (metis done_not_open)
    moreover have "d' = d" if "\<not> open_row d" using f(2) [OF d] rel that by metis
    ultimately show ?thesis using rel unfolding tick_rel_def by blast
  qed
  with out'(3) have "list_all2 (tick_rel (rg_outbox reg) (length (tick # ticks))) (rg_outbox reg) out'"
    by (auto simp: list_all2_conv_all_nth)
  moreover have "worker_ticks c (tick # ticks) reg = reg\<lparr>rg_outbox := out'\<rparr>"
    using out'(1) st(1) by (simp add: worker_ticks_def tick)
  ultimately show ?case using out'(2) by blast
qed


lemma worker_ticks_append: "worker_ticks c (xs @ ys) reg = worker_ticks c ys (worker_ticks c xs reg)"
  by (simp add: worker_ticks_def)

lemma worker_ticks_finalize:
  "ticks_ok ticks (rg_outbox reg) \<Longrightarrow> length (filter open_row (rg_outbox reg)) \<le> WORKER_BATCH_LIMIT * m \<Longrightarrow>
     WORKER_MAX_ATTEMPTS * m \<le> length ticks \<Longrightarrow>
     list_all2 (\<lambda>d d'. dv_id d' = dv_id d \<and> (if open_row d then done_row d' else d' = d))
       (rg_outbox reg) (rg_outbox (worker_ticks c ticks reg))"
proof (induction m arbitrary: reg ticks)
  case 0
  obtain out' where "worker_ticks c ticks reg = reg\<lparr>rg_outbox := out'\<rparr>"
    "list_all2 (tick_rel (rg_outbox reg) (length ticks)) (rg_outbox reg) out'"
    using worker_ticks_rel [of ticks "[]" reg c] 0(1) by auto
  moreover have "\<forall>d\<in>set (rg_outbox reg). \<not> open_row d" using 0(2) by (simp add: filter_empty_conv)
  ultimately show ?case by (auto simp: tick_rel_def list_all2_conv_all_nth)
next
  case (Suc m)
  let ?xs = "take 8 ticks" and ?ys = "drop 8 ticks" and ?out = "rg_outbox reg"
  have len: "length ?xs = 8" "WORKER_MAX_ATTEMPTS * m \<le> length ?ys"
    using Suc.prems(3) by (auto simp: WORKER_MAX_ATTEMPTS_def)
  obtain out1 where out1: "worker_ticks c ?xs reg = reg\<lparr>rg_outbox := out1\<rparr>" "ticks_ok ?ys out1"
    "list_all2 (tick_rel ?out 8) ?out out1"
    using worker_ticks_rel [of ?xs ?ys reg c] Suc.prems(1) unfolding append_take_drop_id len(1) by blast
  have "remaining d \<le> 8" for d by (simp add: remaining_def)
  then have "open_row d' \<longrightarrow> open_row d \<and> WORKER_BATCH_LIMIT \<le> ahead (dv_id d) ?out" if "tick_rel ?out 8 d d'" for d d'
    using that done_not_open [of d'] unfolding tick_rel_def not_less [symmetric] by blast
  then have "list_all2 (\<lambda>d d'. open_row d' \<longrightarrow> open_row d \<and> WORKER_BATCH_LIMIT \<le> ahead (dv_id d) ?out) ?out out1"
    by (rule list_all2_mono [OF out1(3)])
  from filter_length_le [OF this]
  have "length (filter open_row out1) \<le> length (filter open_row ?out) - WORKER_BATCH_LIMIT"
    using open_beyond [of ?out WORKER_BATCH_LIMIT] Suc.prems(1) by (simp add: ticks_ok_def)
  then have "length (filter open_row out1) \<le> WORKER_BATCH_LIMIT * m"
    using Suc.prems(2) by simp
  from Suc.IH [of ?ys "reg\<lparr>rg_outbox := out1\<rparr>"] this out1(2) len(2)
  have rest: "list_all2 (\<lambda>d d'. dv_id d' = dv_id d \<and> (if open_row d then done_row d' else d' = d))
      out1 (rg_outbox (worker_ticks c ticks reg))"
    using worker_ticks_append [of c ?xs ?ys reg] out1(1) by simp
  have comb: "dv_id d'' = dv_id d \<and> (if open_row d then done_row d'' else d'' = d)"
    if r: "tick_rel ?out 8 d d'" and s: "dv_id d'' = dv_id d' \<and> (if open_row d' then done_row d'' else d'' = d')" for d d' d''
  proof (cases "open_row d")
    case True
    with r have "done_row d' \<or> open_row d'" "dv_id d' = dv_id d" by (auto simp: tick_rel_def)
    with s True show ?thesis by (cases "open_row d'") auto
  next
    case False
    with r s show ?thesis by (simp add: tick_rel_def)
  qed
  show ?case by (rule list_all2_trans [OF comb out1(3) rest])
qed

section \<open>The life of a delivery\<close>

text \<open>The registry under every operation that touches it, in any order: the in-flight rows are settled late, never
  (a crash, a failed stamp) or after the same delivery has been claimed again. The log of the claims
  is a ghost.\<close>

record outbox_world =
  ow_reg :: registry
  ow_now :: int
  ow_flight :: "pending list"
  ow_claims :: "(nat \<times> int) list"

inductive outbox_step :: "crypto \<Rightarrow> json \<Rightarrow> outbox_world \<Rightarrow> outbox_world \<Rightarrow> bool" for c j where
  Step_clock: "ow_now w \<le> now \<Longrightarrow> outbox_step c j w (w\<lparr>ow_now := now\<rparr>)"
| Step_add: "outbox_step c j w (w\<lparr>ow_reg := snd (hook_add c j (ow_now w) uuid nonce sub (ow_reg w))\<rparr>)"
| Step_remove: "outbox_step c j w (w\<lparr>ow_reg := snd (hook_remove (ow_now w) repo hook (ow_reg w))\<rparr>)"
| Step_rotate: "outbox_step c j w (w\<lparr>ow_reg := snd (rotate_master_key c new nonces (ow_reg w))\<rparr>)"
| Step_enqueue: "outbox_step c j w (w\<lparr>ow_reg := snd (enqueue_delivery c j (ow_now w) repo kind payload (ow_reg w))\<rparr>)"
| Step_claim: "claim_pending_deliveries c (ow_now w) limit (ow_reg w) = (rows, reg) \<Longrightarrow>
    outbox_step c j w (w\<lparr>ow_reg := reg, ow_flight := ow_flight w @ rows, ow_claims := ow_claims w @ map (\<lambda>row. (pd_id row, ow_now w)) rows\<rparr>)"
| Step_settle: "row \<in> set (ow_flight w) \<Longrightarrow>
    outbox_step c j w (w\<lparr>ow_reg := dispatch_row c http (ow_now w) db_ok row (ow_reg w), ow_flight := remove1 row (ow_flight w)\<rparr>)"
| Step_prune: "outbox_step c j w (w\<lparr>ow_reg := snd (prune_finalized cutoff (ow_reg w))\<rparr>)"
| Step_crash: "outbox_step c j w (w\<lparr>ow_flight := []\<rparr>)"

inductive_cases outbox_stepE: "outbox_step c j w w'"

text \<open>What every step does to the table: rows are added with fresh ids at its end, updated in place, or dropped.\<close>

definition claim_ok :: "outbox_world \<Rightarrow> bool" where
  "claim_ok w =
     (distinct (map dv_id (rg_outbox (ow_reg w))) \<and> (\<forall>d\<in>set (rg_outbox (ow_reg w)). dv_id d \<le> rg_seq (ow_reg w))
      \<and> (\<forall>(i, t)\<in>set (ow_claims w). i \<le> rg_seq (ow_reg w) \<and> t \<le> ow_now w
            \<and> (\<forall>d\<in>set (rg_outbox (ow_reg w)). dv_id d = i \<longrightarrow> open_row d \<longrightarrow> t + 60 \<le> dv_next d))
      \<and> sorted_wrt (\<lambda>(i, t) (i', t'). i = i' \<longrightarrow> t + 60 \<le> t') (ow_claims w))"

lemma outbox_frame [simp]:
  "rg_outbox (snd (hook_add c j now uuid nonce sub reg)) = rg_outbox reg"
  "rg_seq (snd (hook_add c j now uuid nonce sub reg)) = rg_seq reg"
  "rg_outbox (snd (hook_remove now repo hook reg)) = rg_outbox reg"
  "rg_seq (snd (hook_remove now repo hook reg)) = rg_seq reg"
  "rg_outbox (snd (rotate_master_key c new nonces reg)) = rg_outbox reg"
  "rg_seq (snd (rotate_master_key c new nonces reg)) = rg_seq reg"
  by (simp_all add: hook_add_def hook_remove_def rotate_master_key_def Let_def split: sum.split)

lemma enqueue_outbox:
  "\<exists>new. rg_outbox (snd (enqueue_delivery c j now repo kind payload reg)) = rg_outbox reg @ new
     \<and> map dv_id new = [rg_seq reg + 1..<rg_seq reg + 1 + length new]
     \<and> rg_seq (snd (enqueue_delivery c j now repo kind payload reg)) = rg_seq reg + length new"
proof -
  let ?rows = "filter (\<lambda>row. wants_kind kind (row_kinds j (hk_events row))) (live_rows repo reg)"
  let ?ids = "[rg_seq reg + 1..<rg_seq reg + 1 + length ?rows]"
  have "map dv_id (map2 (enqueue_row c now kind payload) ids rows) = ids" if "length ids = length rows" for ids rows
    using that by (induction ids rows rule: list_induct2) (simp_all add: enqueue_row_def)
  then have "map dv_id (map2 (enqueue_row c now kind payload) ?ids ?rows) = ?ids" by (simp del: upt_Suc)
  then show ?thesis
    by (intro exI [of _ "map2 (enqueue_row c now kind payload) ?ids ?rows"])
       (simp add: enqueue_delivery_def enqueue_rows_append del: upt_Suc)
qed

lemma settle_row_open:
  "open_row (settle_row now result row d) \<Longrightarrow> open_row d \<and> now + 60 \<le> dv_next (settle_row now result row d)"
  using worker_backoff_bounds [of "pd_attempts row"]
  by (auto simp: settle_row_def open_row_def split: http_result.splits if_splits)

text \<open>An update in place that keeps the ids and reopens no row, and defers the rows it leaves open.\<close>

lemma claim_ok_update:
  assumes ok: "claim_ok w" and out: "rg_outbox reg = map f (rg_outbox (ow_reg w))" and sq: "rg_seq reg = rg_seq (ow_reg w)"
    and ids: "\<And>d. dv_id (f d) = dv_id d"
    and nxt: "\<And>d. open_row (f d) \<Longrightarrow> open_row d \<and> (dv_next d \<le> dv_next (f d) \<or> ow_now w + 60 \<le> dv_next (f d))"
  shows "claim_ok (w\<lparr>ow_reg := reg, ow_flight := fl\<rparr>)"
proof -
  have "map dv_id (map f (rg_outbox (ow_reg w))) = map dv_id (rg_outbox (ow_reg w))" by (simp add: ids)
  moreover have "t + 60 \<le> dv_next (f d)"
    if "(i, t) \<in> set (ow_claims w)" "d \<in> set (rg_outbox (ow_reg w))" "dv_id d = i" "open_row (f d)" for i t d
  proof -
    have "t \<le> ow_now w" "open_row d \<longrightarrow> t + 60 \<le> dv_next d" using ok that by (auto simp: claim_ok_def)
    with nxt [OF that(4)] show ?thesis by auto
  qed
  ultimately show ?thesis using ok by (auto simp: claim_ok_def out sq ids simp del: map_map)
qed

lemma claim_ok_claim:
  assumes ok: "claim_ok w" and claim: "claim_pending_deliveries c (ow_now w) limit (ow_reg w) = (rows, reg)"
  shows "claim_ok (w\<lparr>ow_reg := reg, ow_flight := fl, ow_claims := ow_claims w @ map (\<lambda>row. (pd_id row, ow_now w)) rows\<rparr>)"
proof -
  let ?out = "rg_outbox (ow_reg w)" and ?cl = "claimable (ow_now w) limit (rg_outbox (ow_reg w))"
  define f where "f = (\<lambda>d :: delivery. if dv_id d \<in> dv_id ` set ?cl then d\<lparr>dv_next := ow_now w + INFLIGHT_RESCHEDULE_SECS, dv_attempts := dv_attempts d + 1\<rparr> else d)"
  have reg: "rg_outbox reg = map f ?out" "rg_seq reg = rg_seq (ow_reg w)" and rows: "rows = map (pending_of c (rg_key (ow_reg w))) ?cl"
    using claim by (auto simp: claim_pending_deliveries_def f_def Let_def)
  have f: "dv_id (f d) = dv_id d" "open_row (f d) \<Longrightarrow> open_row d \<and> (dv_next d \<le> dv_next (f d) \<or> ow_now w + 60 \<le> dv_next (f d))" for d
    by (auto simp: f_def open_row_def INFLIGHT_RESCHEDULE_SECS_def split: if_splits)
  have ok': "claim_ok (w\<lparr>ow_reg := reg, ow_flight := fl\<rparr>)" by (rule claim_ok_update [OF ok reg f])
  have cl: "d \<in> set ?out" "open_row d" "dv_next d \<le> ow_now w" if "d \<in> set ?cl" for d
    using set_claimable [OF that] by (auto simp: due_def open_row_def)
  have "distinct (map dv_id ?cl)" using ok by (intro distinct_claimable) (simp add: claim_ok_def)
  then have new: "sorted_wrt (\<lambda>(i, t) (i', t'). i = i' \<longrightarrow> t + 60 \<le> t') (map (\<lambda>d. (dv_id d, ow_now w)) ?cl)"
    by (auto simp: sorted_wrt_map distinct_conv_nth sorted_wrt_iff_nth_less)
  have "t + 60 \<le> ow_now w" if "(dv_id d, t) \<in> set (ow_claims w)" "d \<in> set ?cl" for d t
    using ok that cl [OF that(2)] unfolding claim_ok_def by fastforce
  moreover have "ow_now w + 60 \<le> dv_next (f e)" if "d \<in> set ?cl" "dv_id e = dv_id d" for d e
    using that by (auto simp: f_def INFLIGHT_RESCHEDULE_SECS_def)
  moreover have "dv_id d \<le> rg_seq (ow_reg w)" if "d \<in> set ?cl" for d
    using ok cl [OF that] by (simp add: claim_ok_def)
  ultimately show ?thesis
    using ok' new by (auto simp: claim_ok_def reg rows f(1) sorted_wrt_append comp_def)
qed

lemma claim_ok_step: "outbox_step c j w w' \<Longrightarrow> claim_ok w \<Longrightarrow> claim_ok w'"
proof (induction rule: outbox_step.induct)
  case (Step_enqueue w repo kind payload)
  obtain new where new: "rg_outbox (snd (enqueue_delivery c j (ow_now w) repo kind payload (ow_reg w))) = rg_outbox (ow_reg w) @ new"
    "map dv_id new = [rg_seq (ow_reg w) + 1..<rg_seq (ow_reg w) + 1 + length new]"
    "rg_seq (snd (enqueue_delivery c j (ow_now w) repo kind payload (ow_reg w))) = rg_seq (ow_reg w) + length new"
    using enqueue_outbox by metis
  have ids: "rg_seq (ow_reg w) < dv_id d \<and> dv_id d \<le> rg_seq (ow_reg w) + length new" if "d \<in> set new" for d
  proof -
    have "dv_id d \<in> set [rg_seq (ow_reg w) + 1..<rg_seq (ow_reg w) + 1 + length new]"
      using that unfolding new(2) [symmetric] by simp
    then show ?thesis by auto
  qed
  have "distinct (map dv_id new)" unfolding new(2) by simp
  with Step_enqueue ids show ?case by (fastforce simp: claim_ok_def new(1,3))
next
  case (Step_claim w limit rows reg)
  then show ?case by (intro claim_ok_claim)
next
  case (Step_settle row w http db_ok)
  define f where "f = (\<lambda>d. if db_ok \<and> dv_id d = pd_id row then settle_row (ow_now w) (http (delivery_request c row)) row d else d)"
  have out: "rg_outbox (dispatch_row c http (ow_now w) db_ok row (ow_reg w)) = map f (rg_outbox (ow_reg w))"
    "rg_seq (dispatch_row c http (ow_now w) db_ok row (ow_reg w)) = rg_seq (ow_reg w)"
    by (simp_all add: dispatch_row_def settle_map f_def Let_def cong: if_cong)
  show ?case
    by (rule claim_ok_update [OF Step_settle(2) out]) (auto simp: f_def dest: settle_row_open split: if_splits)
next
  case (Step_prune w cutoff)
  then show ?case
    by (auto simp: claim_ok_def prune_finalized_def Let_def distinct_map_filter)
qed (fastforce simp: claim_ok_def)+

definition closed_id :: "nat \<Rightarrow> registry \<Rightarrow> bool" where
  "closed_id i reg = (i \<le> rg_seq reg \<and> (\<forall>d\<in>set (rg_outbox reg). dv_id d = i \<longrightarrow> \<not> open_row d))"

definition claims_of :: "nat \<Rightarrow> outbox_world \<Rightarrow> (nat \<times> int) list" where
  "claims_of i w = filter (\<lambda>x. fst x = i) (ow_claims w)"

lemma closed_id_step:
  "outbox_step c j w w' \<Longrightarrow> closed_id i (ow_reg w) \<Longrightarrow> closed_id i (ow_reg w') \<and> claims_of i w' = claims_of i w"
proof (induction rule: outbox_step.induct)
  case (Step_enqueue w repo kind payload)
  obtain new where new: "rg_outbox (snd (enqueue_delivery c j (ow_now w) repo kind payload (ow_reg w))) = rg_outbox (ow_reg w) @ new"
    "map dv_id new = [rg_seq (ow_reg w) + 1..<rg_seq (ow_reg w) + 1 + length new]"
    "rg_seq (snd (enqueue_delivery c j (ow_now w) repo kind payload (ow_reg w))) = rg_seq (ow_reg w) + length new"
    using enqueue_outbox by metis
  have "rg_seq (ow_reg w) < dv_id d" if "d \<in> set new" for d
  proof -
    have "dv_id d \<in> set [rg_seq (ow_reg w) + 1..<rg_seq (ow_reg w) + 1 + length new]"
      using that unfolding new(2) [symmetric] by simp
    then show ?thesis by auto
  qed
  with Step_enqueue show ?case by (fastforce simp: closed_id_def claims_of_def new(1,3))
next
  case (Step_claim w limit rows reg)
  have "d \<notin> set (claimable (ow_now w) limit (rg_outbox (ow_reg w)))" if "dv_id d = i" for d
  proof
    assume "d \<in> set (claimable (ow_now w) limit (rg_outbox (ow_reg w)))"
    from set_claimable [OF this] Step_claim(2) that show False by (auto simp: closed_id_def due_def open_row_def)
  qed
  with Step_claim show ?case
    by (auto simp: closed_id_def claims_of_def claim_pending_deliveries_def open_row_def Let_def filter_empty_conv split: if_splits)
next
  case (Step_settle row w http db_ok)
  then show ?case
    by (auto simp: closed_id_def claims_of_def dispatch_row_def settle_map Let_def dest: settle_row_open split: if_splits)
qed (auto simp: closed_id_def claims_of_def prune_finalized_def Let_def)

lemma outbox_reach:
  "(outbox_step c j)\<^sup>*\<^sup>* w w' \<Longrightarrow> claim_ok w \<Longrightarrow> claim_ok w'"
  "(outbox_step c j)\<^sup>*\<^sup>* w w' \<Longrightarrow> closed_id i (ow_reg w) \<Longrightarrow> closed_id i (ow_reg w') \<and> claims_of i w' = claims_of i w"
proof -
  show "(outbox_step c j)\<^sup>*\<^sup>* w w' \<Longrightarrow> claim_ok w \<Longrightarrow> claim_ok w'"
    by (induction rule: rtranclp_induct) (auto intro: claim_ok_step)
  show "(outbox_step c j)\<^sup>*\<^sup>* w w' \<Longrightarrow> closed_id i (ow_reg w) \<Longrightarrow> closed_id i (ow_reg w') \<and> claims_of i w' = claims_of i w"
    by (induction rule: rtranclp_induct) (auto dest: closed_id_step)
qed

definition outbox_start :: "outbox_world \<Rightarrow> bool" where
  "outbox_start w = (rg_outbox (ow_reg w) = [] \<and> ow_claims w = [] \<and> ow_flight w = [])"

section \<open>Properties\<close>


definition sample_delivery :: delivery where
  "sample_delivery = \<lparr>dv_id = 1, dv_hook = ''h'', dv_url = ''https://example.com/hook'', dv_secret = None, dv_nonce = None,
     dv_kind = ''commit'', dv_payload = [], dv_attempts = 0, dv_status = None, dv_next = 0, dv_created = 0,
     dv_finalized = None, dv_outcome = None\<rparr>"

definition sample_ticks :: "(int \<times> (hook_request \<Rightarrow> http_result)) list" where
  "sample_ticks = map (\<lambda>k. (int k * 3600, \<lambda>_. HttpTransport)) [0..<8]"


text \<open>Claims are spaced and end. However enqueues, claims, late or lost settlements, crashes, prunings,
  rotations and changes of the subscriptions interleave, two claims of one delivery are at least
  60 seconds apart, which is longer than the timeout of an attempt.\<close>

theorem claims_spaced:
  assumes "outbox_start w0" "(outbox_step c j)\<^sup>*\<^sup>* w0 w" "p < q" "q < length (ow_claims w)"
    and "fst (ow_claims w ! p) = fst (ow_claims w ! q)"
  shows "snd (ow_claims w ! p) + 60 \<le> snd (ow_claims w ! q)"
proof -
  have "claim_ok w0" using assms(1) by (simp add: outbox_start_def claim_ok_def)
  then have "sorted_wrt (\<lambda>(i, t) (i', t'). i = i' \<longrightarrow> t + 60 \<le> t') (ow_claims w)"
    using outbox_reach(1) [OF assms(2)] by (simp add: claim_ok_def)
  from sorted_wrt_nth_less [OF this assms(3,4)] show ?thesis using assms(5) by (simp add: case_prod_unfold)
qed

text \<open>A finalized delivery is never claimed again, not even after its row is pruned: its log of claims is the
  same in every later state.\<close>

theorem finalized_never_reclaimed:
  assumes "outbox_start w0" "(outbox_step c j)\<^sup>*\<^sup>* w0 w" "d \<in> set (rg_outbox (ow_reg w))" "\<not> open_row d"
    and "(outbox_step c j)\<^sup>*\<^sup>* w w'"
  shows "claims_of (dv_id d) w' = claims_of (dv_id d) w"
proof -
  have "claim_ok w0" using assms(1) by (simp add: outbox_start_def claim_ok_def)
  then have ok: "claim_ok w" using outbox_reach(1) [OF assms(2)] by simp
  have "e = d" if "e \<in> set (rg_outbox (ow_reg w))" "dv_id e = dv_id d" for e
    using ok assms(3) that by (auto simp: claim_ok_def distinct_map dest: inj_onD)
  then have "closed_id (dv_id d) (ow_reg w)" using ok assms(3,4) by (auto simp: closed_id_def claim_ok_def)
  then show ?thesis using outbox_reach(2) [OF assms(5)] by blast
qed

text \<open>A run: an event, a claim that is lost, the claim a minute later, and its settlement.\<close>

definition sample_start :: outbox_world where
  "sample_start = \<lparr>ow_reg = \<lparr>rg_hooks = [\<lparr>hk_id = ''h'', hk_repo = ''demo'', hk_url = ''https://example.com/hook'', hk_secret = None,
       hk_nonce = None, hk_events = [], hk_created = 0, hk_revoked = None\<rparr>], rg_outbox = [], rg_seq = 0, rg_key = MasterKey []\<rparr>,
     ow_now = 0, ow_flight = [], ow_claims = []\<rparr>"

definition sample_queued :: outbox_world where
  "sample_queued = sample_start\<lparr>ow_reg := snd (enqueue_delivery toy_crypto toy_json (ow_now sample_start) (RepoId ''demo'') ''commit'' [] (ow_reg sample_start))\<rparr>"

definition sample_claim :: "outbox_world \<Rightarrow> outbox_world" where
  "sample_claim w = (case claim_pending_deliveries toy_crypto (ow_now w) 32 (ow_reg w) of (rows, reg) \<Rightarrow>
     w\<lparr>ow_reg := reg, ow_flight := ow_flight w @ rows, ow_claims := ow_claims w @ map (\<lambda>row. (pd_id row, ow_now w)) rows\<rparr>)"

definition sample_claimed :: outbox_world where
  "sample_claimed = sample_claim ((sample_claim sample_queued)\<lparr>ow_now := 60\<rparr>)"

definition sample_settled :: outbox_world where
  "sample_settled = sample_claimed\<lparr>ow_reg := dispatch_row toy_crypto (\<lambda>_. HttpOk 200) (ow_now sample_claimed) True (hd (ow_flight sample_claimed)) (ow_reg sample_claimed),
     ow_flight := remove1 (hd (ow_flight sample_claimed)) (ow_flight sample_claimed)\<rparr>"

lemma sample_queue: "\<exists>d. rg_outbox (ow_reg sample_queued) = [d] \<and> dv_id d = 1 \<and> dv_next d = 0 \<and> open_row d"
  "ow_now sample_queued = 0" "ow_claims sample_queued = []" "ow_flight sample_queued = []"
proof -
  have "row_kinds toy_json [] = []" by (simp add: row_kinds_def toy_json_def)
  then show "\<exists>d. rg_outbox (ow_reg sample_queued) = [d] \<and> dv_id d = 1 \<and> dv_next d = 0 \<and> open_row d"
    by (simp add: sample_queued_def sample_start_def enqueue_delivery_def live_rows_def enqueue_row_def wants_kind_def open_row_def)
qed (simp_all add: sample_queued_def sample_start_def)

lemma sample_claims: "ow_claims sample_claimed = [(1, 0), (1, 60)]" "length (ow_flight sample_claimed) = 2"
    "ow_now (sample_claim sample_queued) = 0"
  and sample_outbox: "\<exists>d. rg_outbox (ow_reg sample_settled) = [d] \<and> dv_id d = 1 \<and> \<not> open_row d"
proof -
  obtain d where d: "rg_outbox (ow_reg sample_queued) = [d]" "dv_id d = 1" "dv_next d = 0" "dv_finalized d = None"
    using sample_queue(1) by (auto simp: open_row_def)
  note ev = sample_claimed_def sample_claim_def claim_pending_deliveries_def claimable_def due_def sample_queue(2-4) d
      INFLIGHT_RESCHEDULE_SECS_def Let_def
  show "ow_claims sample_claimed = [(1, 0), (1, 60)]" "length (ow_flight sample_claimed) = 2" "ow_now (sample_claim sample_queued) = 0"
    by (simp_all add: ev)
  show "\<exists>d. rg_outbox (ow_reg sample_settled) = [d] \<and> dv_id d = 1 \<and> \<not> open_row d"
    by (simp add: sample_settled_def dispatch_row_def settle_map settle_row_def open_row_def ev)
qed

lemma sample_reach:
  "outbox_start sample_start" "(outbox_step toy_crypto toy_json)\<^sup>*\<^sup>* sample_start sample_claimed"
  "(outbox_step toy_crypto toy_json)\<^sup>*\<^sup>* sample_start sample_settled"
proof -
  let ?R = "outbox_step toy_crypto toy_json"
  show "outbox_start sample_start" by (simp add: outbox_start_def sample_start_def)
  have claim: "?R w (sample_claim w)" for w
    by (cases "claim_pending_deliveries toy_crypto (ow_now w) 32 (ow_reg w)") (simp add: sample_claim_def Step_claim)
  have "?R sample_start sample_queued" unfolding sample_queued_def by (rule Step_enqueue)
  moreover have "ow_now (sample_claim sample_queued) \<le> 60" by (simp add: sample_claims(3))
  then have "?R (sample_claim sample_queued) ((sample_claim sample_queued)\<lparr>ow_now := 60\<rparr>)" by (rule Step_clock)
  ultimately show reach: "?R\<^sup>*\<^sup>* sample_start sample_claimed"
    unfolding sample_claimed_def by (meson claim rtranclp.rtrancl_into_rtrancl rtranclp.rtrancl_refl)
  have "ow_flight sample_claimed \<noteq> []" using sample_claims(2) by auto
  then have "?R sample_claimed sample_settled" unfolding sample_settled_def by (intro Step_settle) simp
  with reach show "?R\<^sup>*\<^sup>* sample_start sample_settled" by (rule rtranclp.rtrancl_into_rtrancl)
qed

theorem claims_spaced_witness: "snd (ow_claims sample_claimed ! 0) + 60 \<le> snd (ow_claims sample_claimed ! 1)"
  by (rule claims_spaced [OF sample_reach(1,2)]) (simp_all add: sample_claims(1))

theorem finalized_never_reclaimed_witness: "claims_of 1 (sample_settled\<lparr>ow_flight := []\<rparr>) = claims_of 1 sample_settled"
proof -
  obtain d where d: "rg_outbox (ow_reg sample_settled) = [d]" "dv_id d = 1" "\<not> open_row d"
    using sample_outbox by blast
  have "(outbox_step toy_crypto toy_json)\<^sup>*\<^sup>* sample_settled (sample_settled\<lparr>ow_flight := []\<rparr>)"
    by (rule r_into_rtranclp, rule Step_crash)
  from finalized_never_reclaimed [OF sample_reach(1,3), of d, OF _ d(3) this] d show ?thesis by simp
qed

text \<open>Rows whose secret, when there is one, is sealed under the current key.\<close>

definition row_sealed :: "crypto \<Rightarrow> master_key \<Rightarrow> hook_row \<Rightarrow> bool" where
  "row_sealed c key row =
     (case (hk_secret row, hk_nonce row) of
        (Some b64, Some nonce) \<Rightarrow> length nonce = 12
          \<and> (case cr_unb64 c b64 of None \<Rightarrow> False | Some ct \<Rightarrow> (case unseal c key ct nonce of Inl _ \<Rightarrow> False | Inr _ \<Rightarrow> True))
      | _ \<Rightarrow> True)"

lemma rotate_rows_ok:
  assumes "crypto_ok c" "key_ok new" "\<forall>i. length (nonces i) = 12"
  shows "\<forall>row\<in>set rows. row_sealed c old row \<Longrightarrow>
    \<exists>rows'. rotate_rows c old new nonces cnt rows
        = Inr (cnt + length (filter (\<lambda>row. hk_secret row \<noteq> None \<and> hk_nonce row \<noteq> None) rows), rows')
      \<and> list_all2 (\<lambda>row row'. (\<exists>s n. row' = row\<lparr>hk_secret := s, hk_nonce := n\<rparr>) \<and> row_secret c new row' = row_secret c old row
            \<and> row_sealed c new row') rows rows'"
proof (induction rows arbitrary: cnt)
  case (Cons row rows)
  show ?case
  proof (cases "\<exists>b64 nonce. hk_secret row = Some b64 \<and> hk_nonce row = Some nonce")
    case True
    then obtain b64 nonce where row: "hk_secret row = Some b64" "hk_nonce row = Some nonce" by blast
    then obtain ct pt where old: "length nonce = 12" "cr_unb64 c b64 = Some ct" "unseal c old ct nonce = Inr pt"
      using Cons.prems by (auto simp: row_sealed_def split: option.splits sum.splits)
    obtain ct' where new: "seal c new (nonces cnt) pt = Inr (ct', nonces cnt)" "unseal c new ct' (nonces cnt) = Inr pt"
      using seal_unseal assms by metis
    have b64: "cr_unb64 c (cr_b64 c ct') = Some ct'" using assms(1) by (simp add: crypto_ok_def)
    let ?row = "row\<lparr>hk_secret := Some (cr_b64 c ct'), hk_nonce := Some (nonces cnt)\<rparr>"
    have "row_secret c new ?row = row_secret c old row" "row_sealed c new ?row"
      using row old new b64 assms(3) by (simp_all add: row_secret_def row_sealed_def)
    moreover obtain rows' where "rotate_rows c old new nonces (cnt + 1) rows
        = Inr (cnt + 1 + length (filter (\<lambda>row. hk_secret row \<noteq> None \<and> hk_nonce row \<noteq> None) rows), rows')"
      "list_all2 (\<lambda>row row'. (\<exists>s n. row' = row\<lparr>hk_secret := s, hk_nonce := n\<rparr>) \<and> row_secret c new row' = row_secret c old row
            \<and> row_sealed c new row') rows rows'"
      using Cons.IH [of "cnt + 1"] Cons.prems by auto
    ultimately show ?thesis using row old new by (auto simp: map_err_def ok_or_def)
  next
    case False
    obtain rows' where rows': "rotate_rows c old new nonces cnt rows
        = Inr (cnt + length (filter (\<lambda>row. hk_secret row \<noteq> None \<and> hk_nonce row \<noteq> None) rows), rows')"
      "list_all2 (\<lambda>row row'. (\<exists>s n. row' = row\<lparr>hk_secret := s, hk_nonce := n\<rparr>) \<and> row_secret c new row' = row_secret c old row
            \<and> row_sealed c new row') rows rows'"
      using Cons.IH [of cnt] Cons.prems by auto
    have "rotate_rows c old new nonces cnt (row # rows) = res_bind (rotate_rows c old new nonces cnt rows) (\<lambda>(n, rows'). Inr (n, row # rows'))"
      "row_secret c new row = row_secret c old row" "row_sealed c new row"
      using False by (auto simp: row_secret_def row_sealed_def split: option.splits)
    moreover have "\<exists>s n. row = row\<lparr>hk_secret := s, hk_nonce := n\<rparr>"
      by (intro exI [of _ "hk_secret row"] exI [of _ "hk_nonce row"]) simp
    ultimately show ?thesis using rows' False by auto
  qed
qed simp

lemma hook_list_rotated:
  assumes "list_all2 (\<lambda>row row'. (\<exists>s n. row' = row\<lparr>hk_secret := s, hk_nonce := n\<rparr>) \<and> row_secret c new row' = row_secret c old row
            \<and> row_sealed c new row') rows rows'"
  shows "List.map_filter (row_to_sub c j new) (filter (\<lambda>row. hk_repo row = r \<and> hk_revoked row = None) rows')
    = List.map_filter (row_to_sub c j old) (filter (\<lambda>row. hk_repo row = r \<and> hk_revoked row = None) rows)"
  using assms
proof (induction rule: list_all2_induct)
  case (Cons row rows row' rows')
  have "row_to_sub c j new row' = row_to_sub c j old row \<and> hk_repo row' = hk_repo row \<and> hk_revoked row' = hk_revoked row"
    using Cons(1) by (auto simp: row_to_sub_def split: sum.splits)
  with Cons.IH show ?case by (auto simp: List.map_filter_simps split: option.splits)
qed (simp add: List.map_filter_def)

text \<open>A rotation of the master key loses no secret of a subscription: when every stored secret opens under the old
  key, the rotation succeeds, counts the sealed rows, installs the new key and leaves every repo's
  list as it was, secrets included; the outbox is not touched.\<close>

theorem rotation_keeps_secrets:
  assumes "crypto_ok c" "key_ok new" "\<forall>i. length (nonces i) = 12" "\<forall>row\<in>set (rg_hooks reg). row_sealed c (rg_key reg) row"
  shows "\<exists>reg'. rotate_master_key c new nonces reg
        = (Inr (length (filter (\<lambda>row. hk_secret row \<noteq> None \<and> hk_nonce row \<noteq> None) (rg_hooks reg))), reg')
    \<and> rg_key reg' = new \<and> (\<forall>r. hook_list c j r reg' = hook_list c j r reg)
    \<and> (\<forall>row\<in>set (rg_hooks reg'). row_sealed c new row) \<and> rg_outbox reg' = rg_outbox reg"
proof -
  obtain rows' where rows': "rotate_rows c (rg_key reg) new nonces 0 (rg_hooks reg)
      = Inr (length (filter (\<lambda>row. hk_secret row \<noteq> None \<and> hk_nonce row \<noteq> None) (rg_hooks reg)), rows')"
    "list_all2 (\<lambda>row row'. (\<exists>s n. row' = row\<lparr>hk_secret := s, hk_nonce := n\<rparr>) \<and> row_secret c new row' = row_secret c (rg_key reg) row
            \<and> row_sealed c new row') (rg_hooks reg) rows'"
    using rotate_rows_ok [OF assms(1-3), of "rg_hooks reg" "rg_key reg" 0] assms(4) by auto
  have "\<forall>row\<in>set rows'. row_sealed c new row"
    using rows'(2) by (auto simp: list_all2_conv_all_nth in_set_conv_nth)
  then show ?thesis
    using rows'(1) hook_list_rotated [OF rows'(2)] by (simp add: rotate_master_key_def hook_list_def live_rows_def)
qed

text \<open>A rotation strips the signature of what is queued. A delivery that would be signed under the current key,
  and whose sealed secret does not open under the new one, is sent with no signature after the rotation.\<close>

theorem rotation_unsigns_queue:
  assumes "rotate_master_key c new nonces reg = (Inr n, reg')"
    and "d \<in> set (claimable now limit (rg_outbox reg))" "dv_secret d = Some ct" "dv_nonce d = Some nonce"
    and "pd_secret (pending_of c (rg_key reg) d) = Some s" "cr_decrypt c (mk_bytes new) nonce ct = None"
  shows "''X-Artifacts-Signature'' \<in> fst ` set (hq_headers (delivery_request c (pending_of c (rg_key reg) d)))
    \<and> (\<exists>p\<in>set (fst (claim_pending_deliveries c now limit reg')). pd_id p = dv_id d
        \<and> ''X-Artifacts-Signature'' \<notin> fst ` set (hq_headers (delivery_request c p)))"
proof -
  have reg': "rg_outbox reg' = rg_outbox reg" "rg_key reg' = new"
    using assms(1) by (auto simp: rotate_master_key_def split: sum.splits)
  have "pending_of c new d \<in> set (fst (claim_pending_deliveries c now limit reg'))"
    using assms(2) by (simp add: claim_pending_deliveries_def reg' Let_def)
  moreover have "pd_secret (pending_of c new d) = None"
    using assms(3,4,6) by (simp add: pending_of_def unseal_def ok_or_def)
  ultimately show ?thesis
    using assms(5) by (auto simp: delivery_request_def sign_body_def intro!: bexI [of _ "pending_of c new d"])
qed


text \<open>A secret stored in plain text, a row from before the encryption, is lost on the durable path: the registry
  still lists it, so the direct path signs with it, but the worker sends the delivery with no signature.\<close>

theorem legacy_secret_unsigned:
  assumes "hooks_ok c j reg" "row \<in> set (live_rows repo reg)" "hk_secret row = Some s" "hk_nonce row = None"
    and "wants_kind kind (row_kinds j (hk_events row))"
  shows "(\<exists>sub\<in>set (hook_matching c j repo kind reg). sb_id sub = hk_id row \<and> sb_secret sub = Some s
        \<and> ''X-Artifacts-Signature'' \<in> fst ` set (hq_headers (legacy_request c kind payload sub)))
    \<and> (\<exists>d\<in>set (rg_outbox (snd (enqueue_delivery c j now repo kind payload reg))). dv_hook d = hk_id row
        \<and> (\<forall>key. ''X-Artifacts-Signature'' \<notin> fst ` set (hq_headers (delivery_request c (pending_of c key d)))))"
proof
  have "repo_id_ok (hk_repo row)" using assms(1,2) by (auto simp: hooks_ok_def live_rows_def)
  then obtain sub where sub: "row_to_sub c j (rg_key reg) row = Some sub" "sb_id sub = hk_id row" "sb_secret sub = Some s"
    "sb_events sub = row_kinds j (hk_events row)"
    using assms(3,4) by (auto simp: row_to_sub_def row_secret_def repo_id_try_from_iff [THEN iffD2])
  then have "sub \<in> set (hook_matching c j repo kind reg)"
    using assms(2,5) by (force simp: hook_matching_def hook_list_def List.map_filter_def)
  with sub show "\<exists>sub\<in>set (hook_matching c j repo kind reg). sb_id sub = hk_id row \<and> sb_secret sub = Some s
        \<and> ''X-Artifacts-Signature'' \<in> fst ` set (hq_headers (legacy_request c kind payload sub))"
    by (intro bexI [of _ sub]) (auto simp: legacy_request_def sign_body_def)
  let ?rows = "filter (\<lambda>row. wants_kind kind (row_kinds j (hk_events row))) (live_rows repo reg)"
  have "row \<in> set ?rows" using assms(2,5) by simp
  then obtain k where k: "k < length ?rows" "?rows ! k = row" by (metis in_set_conv_nth)
  define d where "d = enqueue_row c now kind payload (rg_seq reg + 1 + k) row"
  let ?new = "map2 (enqueue_row c now kind payload) [rg_seq reg + 1..<rg_seq reg + 1 + length ?rows] ?rows"
  have "?new ! k = d" "k < length ?new" using k by (simp_all add: d_def del: upt_Suc)
  then have "d \<in> set ?new" by (metis nth_mem)
  then have "d \<in> set (rg_outbox (snd (enqueue_delivery c j now repo kind payload reg)))"
    by (simp add: enqueue_delivery_def enqueue_rows_append del: upt_Suc)
  moreover have "pd_secret (pending_of c key d) = None" for key
    using assms(4) by (simp add: d_def pending_of_def enqueue_row_def split: option.split)
  ultimately show "\<exists>d\<in>set (rg_outbox (snd (enqueue_delivery c j now repo kind payload reg))). dv_hook d = hk_id row
        \<and> (\<forall>key. ''X-Artifacts-Signature'' \<notin> fst ` set (hq_headers (delivery_request c (pending_of c key d))))"
    by (intro bexI [of _ d]) (auto simp: delivery_request_def sign_body_def d_def enqueue_row_def)
qed

text \<open>A registry with one subscription that has a secret.\<close>

definition sample_key :: "8 word \<Rightarrow> master_key" where
  "sample_key b = MasterKey (replicate 32 b)"

definition sample_hook :: hook_row where
  "sample_hook = \<lparr>hk_id = ''u1'', hk_repo = ''demo'', hk_url = ''https://example.com/hook'',
     hk_secret = Some (hex_bytes (replicate 32 5 @ replicate 12 1 @ [115])), hk_nonce = Some (replicate 12 1), hk_events = [], hk_created = 0, hk_revoked = None\<rparr>"

definition sample_hooks :: registry where
  "sample_hooks = \<lparr>rg_hooks = [sample_hook], rg_outbox = [], rg_seq = 0, rg_key = sample_key 5\<rparr>"

lemma sample_hooks_facts:
  "row_sealed toy_crypto (sample_key 5) sample_hook" "hooks_ok toy_crypto toy_json sample_hooks"
  "live_rows (RepoId ''demo'') sample_hooks = [sample_hook]" "row_kinds toy_json (hk_events sample_hook) = []"
proof -
  show "row_sealed toy_crypto (sample_key 5) sample_hook"
    by (simp add: row_sealed_def sample_hook_def toy_crypto_def unhex_hex_bytes unseal_def sample_key_def ok_or_def)
  show "hooks_ok toy_crypto toy_json sample_hooks"
    using toy_crypto_ok toy_json_ok
    by (simp add: hooks_ok_def registry_ok_def sample_hooks_def sample_hook_def key_ok_def sample_key_def repo_id_ok_def is_lower_def)
qed (simp_all add: live_rows_def sample_hooks_def sample_hook_def row_kinds_def toy_json_def)

theorem rotation_keeps_secrets_witness:
  "\<exists>n reg'. rotate_master_key toy_crypto (sample_key 6) (\<lambda>_. replicate 12 2) sample_hooks = (Inr n, reg')
     \<and> (\<forall>r. hook_list toy_crypto toy_json r reg' = hook_list toy_crypto toy_json r sample_hooks)"
proof -
  have "key_ok (sample_key 6)" by (simp add: key_ok_def sample_key_def)
  from rotation_keeps_secrets [OF toy_crypto_ok this, of "\<lambda>_. replicate 12 2" sample_hooks toy_json] sample_hooks_facts(1)
  show ?thesis by (simp add: sample_hooks_def) blast
qed


theorem rotation_unsigns_queue_witness:
  "\<exists>(d :: delivery) n reg'. rotate_master_key toy_crypto (sample_key 6) (\<lambda>_. replicate 12 2)
       (snd (enqueue_delivery toy_crypto toy_json 7 (RepoId ''demo'') ''commit'' [1] sample_hooks)) = (Inr n, reg')
     \<and> (\<exists>p\<in>set (fst (claim_pending_deliveries toy_crypto 7 32 reg')). pd_id p = dv_id d
        \<and> ''X-Artifacts-Signature'' \<notin> fst ` set (hq_headers (delivery_request toy_crypto p)))"
proof -
  let ?reg = "snd (enqueue_delivery toy_crypto toy_json 7 (RepoId ''demo'') ''commit'' [1] sample_hooks)"
  let ?d = "enqueue_row toy_crypto 7 ''commit'' [1] 1 sample_hook" and ?ct = "replicate 32 5 @ replicate 12 1 @ [115 :: 8 word]"
  have reg: "rg_outbox ?reg = [?d]" "rg_hooks ?reg = [sample_hook]" "rg_key ?reg = sample_key 5"
    using sample_hooks_facts(3,4) by (simp_all add: enqueue_delivery_def sample_hooks_def wants_kind_def)
  have "key_ok (sample_key 6)" by (simp add: key_ok_def sample_key_def)
  from rotate_rows_ok [OF toy_crypto_ok this, of "\<lambda>_. replicate 12 2" "[sample_hook]" "sample_key 5" 0] sample_hooks_facts(1)
  obtain n reg' where rot: "rotate_master_key toy_crypto (sample_key 6) (\<lambda>_. replicate 12 2) ?reg = (Inr n, reg')"
    by (auto simp: rotate_master_key_def reg)
  have dec: "cr_decrypt toy_crypto (mk_bytes (sample_key b)) (replicate 12 1) ?ct = (if b = 5 then Some [115] else None)" for b
    by (auto simp: toy_crypto_def sample_key_def append_eq_append_conv replicate_eq_replicate)
  have "byte_of_char CHR ''s'' = 115" by code_simp
  then have utf: "from_utf8 [115] = Some ''s''" using from_utf8_ascii [of "''s''"] by simp
  have d: "?d \<in> set (claimable 7 32 (rg_outbox ?reg))" "dv_nonce ?d = Some (replicate 12 1)"
    unfolding reg by (simp_all add: claimable_def due_def enqueue_row_def sample_hook_def)
  have ct: "dv_secret ?d = Some ?ct"
    by (simp add: enqueue_row_def sample_hook_def) (simp add: toy_crypto_def unhex_hex_bytes)
  have "pd_secret (pending_of toy_crypto (rg_key ?reg) ?d) = Some ''s''"
    using d(2) ct dec [of 5] utf by (simp add: pending_of_def unseal_def ok_or_def reg)
  note rotation_unsigns_queue [OF rot d(1) ct d(2) this]
  moreover have "cr_decrypt toy_crypto (mk_bytes (sample_key 6)) (replicate 12 1) ?ct = None" using dec [of 6] by simp
  ultimately show ?thesis using rot by blast
qed

theorem legacy_secret_unsigned_witness:
  "\<exists>sub. sb_secret sub = Some ''s'' \<and> sub \<in> set (hook_matching toy_crypto toy_json (RepoId ''demo'') ''commit''
     (sample_hooks\<lparr>rg_hooks := [sample_hook\<lparr>hk_secret := Some ''s'', hk_nonce := None\<rparr>]\<rparr>))"
proof -
  let ?row = "sample_hook\<lparr>hk_secret := Some ''s'', hk_nonce := None\<rparr>"
  have "hooks_ok toy_crypto toy_json (sample_hooks\<lparr>rg_hooks := [?row]\<rparr>)"
    using sample_hooks_facts(2) by (simp add: hooks_ok_def registry_ok_def) (simp add: sample_hooks_def sample_hook_def)
  moreover have "?row \<in> set (live_rows (RepoId ''demo'') (sample_hooks\<lparr>rg_hooks := [?row]\<rparr>))"
    by (simp add: live_rows_def sample_hook_def)
  moreover have "wants_kind ''commit'' (row_kinds toy_json (hk_events ?row))"
    using sample_hooks_facts(4) by (simp add: wants_kind_def)
  ultimately show ?thesis using legacy_secret_unsigned by fastforce
qed

end
