(* ===== verification/Forks.thy ===== *)
theory Forks
  imports Storage
begin

text \<open>
  The fork relation: \<open>src/alternates_cache.rs\<close>, \<open>list_forks_of\<close> of \<open>src/reads/mod.rs\<close> and
  \<open>cascade_delete_order\<close> of \<open>src/rest.rs\<close>. A fork names its source in \<open>objects/info/alternates\<close>; the cache
  memoizes what that file resolves to by the file's time stamp. The tree is the directory of the
  repos, without symbolic links.
\<close>

section \<open>Definitions\<close>

subsection \<open>Canonical paths\<close>

text \<open>Where the directory of the repos is mounted, the working directory of the server, and what lies outside of
  the mount: \<open>Some True\<close> a directory, \<open>Some False\<close> a file.\<close>

record mount =
  mo_root :: "string list"
  mo_cwd :: "string list"
  mo_outside :: "string list \<Rightarrow> bool option"

definition node_at :: "mount \<Rightarrow> fs_node \<Rightarrow> string list \<Rightarrow> bool option" where
  "node_at m tree p =
     (case drop_prefix (mo_root m) p of
        Some rel \<Rightarrow> map_option (\<lambda>n. case n of FsDir _ \<Rightarrow> True | FsFile _ \<Rightarrow> False) (fs_lookup tree rel)
      | None \<Rightarrow> if drop_prefix p (mo_root m) \<noteq> None then Some True else mo_outside m p)"

fun canon_walk :: "mount \<Rightarrow> fs_node \<Rightarrow> string list \<Rightarrow> string list \<Rightarrow> string list option" where
  "canon_walk m tree cur [] = Some cur"
| "canon_walk m tree cur (s # ss) =
     (if node_at m tree cur \<noteq> Some True then None
      else if s = [] \<or> s = ''.'' then canon_walk m tree cur ss
      else if s = ''..'' then canon_walk m tree (butlast cur) ss
      else if node_at m tree (cur @ [s]) = None then None
      else canon_walk m tree (cur @ [s]) ss)"

definition canonicalize :: "mount \<Rightarrow> fs_node \<Rightarrow> string \<Rightarrow> string list option" where
  "canonicalize m tree p =
     (if p = [] \<or> CHR 0x00 \<in> set p then None
      else canon_walk m tree (if starts_with ''/'' p then [] else mo_cwd m) (split_char CHR ''/'' p))"

subsection \<open>The cache\<close>

definition strip_suffix :: "string \<Rightarrow> string \<Rightarrow> string option" where
  "strip_suffix p s = map_option rev (strip_prefix (rev p) (rev s))"

definition alternates_path :: "string \<Rightarrow> string list" where
  "alternates_path i = [i @ ''.git'', ''objects'', ''info'', ''alternates'']"

definition resolve_source :: "mount \<Rightarrow> fs_node \<Rightarrow> string \<Rightarrow> string option" where
  "resolve_source m tree i =
     (case fs_lookup tree (alternates_path i) of
        Some (FsFile (Some s)) \<Rightarrow>
          (let target_str = trim s in
           if target_str = [] then None
           else (case canonicalize m tree target_str of
                   None \<Rightarrow> None
                 | Some target \<Rightarrow>
                     (case drop_prefix (mo_root m) target of
                        Some [first, second] \<Rightarrow>
                          if second \<noteq> ''objects'' then None
                          else (case strip_suffix ''.git'' first of
                                  None \<Rightarrow> None
                                | Some source \<Rightarrow> (case validate_repo_id source of Inl _ \<Rightarrow> None | Inr _ \<Rightarrow> Some source))
                      | _ \<Rightarrow> None)))
      | _ \<Rightarrow> None)"

record alt_entry =
  ae_mtime :: "nat option"
  ae_source :: "string option"

type_synonym alt_cache = "(string \<times> alt_entry) list"

text \<open>\<open>mt\<close> gives the time stamps of the alternates files.\<close>

definition alt_mtime :: "(string \<Rightarrow> nat) \<Rightarrow> fs_node \<Rightarrow> string \<Rightarrow> nat option" where
  "alt_mtime mt tree i = (if fs_lookup tree (alternates_path i) = None then None else Some (mt i))"

definition alt_lookup ::
  "mount \<Rightarrow> (string \<Rightarrow> nat) \<Rightarrow> fs_node \<Rightarrow> string \<Rightarrow> alt_cache \<Rightarrow> string option \<times> alt_cache" where
  "alt_lookup m mt tree i cache =
     (let mtime = alt_mtime mt tree i;
          miss = (let resolved = resolve_source m tree i
                  in (resolved, AList.update i \<lparr>ae_mtime = mtime, ae_source = resolved\<rparr> cache))
      in case map_of cache i of
           Some e \<Rightarrow> if ae_mtime e = mtime then (ae_source e, cache) else miss
         | None \<Rightarrow> miss)"

definition alt_invalidate :: "string \<Rightarrow> alt_cache \<Rightarrow> alt_cache" where
  "alt_invalidate i cache = AList.delete i cache"

subsection \<open>The forks of a repo\<close>

fun scan_siblings ::
  "mount \<Rightarrow> (string \<Rightarrow> nat) \<Rightarrow> fs_node \<Rightarrow> string \<Rightarrow> string list \<Rightarrow> alt_cache \<Rightarrow> string list \<times> alt_cache" where
  "scan_siblings m mt tree i [] cache = ([], cache)"
| "scan_siblings m mt tree i (name # names) cache =
     (if \<not> utf8_valid (as_bytes name) then scan_siblings m mt tree i names cache
      else if \<not> ends_with ''.git'' name then scan_siblings m mt tree i names cache
      else let sibling = take (length name - 4) name in
        if sibling = i then scan_siblings m mt tree i names cache
        else (case alt_lookup m mt tree sibling cache of
                (parent, cache') \<Rightarrow>
                  (case scan_siblings m mt tree i names cache' of
                     (out, cache'') \<Rightarrow> (if parent = Some i then sibling # out else out, cache''))))"

definition list_forks_of ::
  "mount \<Rightarrow> (string \<Rightarrow> nat) \<Rightarrow> fs_node \<Rightarrow> string \<Rightarrow> alt_cache \<Rightarrow> (error + string list) \<times> alt_cache" where
  "list_forks_of m mt tree i cache =
     (case tree of
        FsDir (Some children) \<Rightarrow> map_prod Inr id (scan_siblings m mt tree i (map fst children) cache)
      | _ \<Rightarrow> (Inl (Io ''read_dir''), cache))"

text \<open>The directories that \<open>list_forks_of\<close> can return.\<close>

definition siblings :: "fs_node \<Rightarrow> string list" where
  "siblings tree =
     (case tree of
        FsDir (Some children) \<Rightarrow>
          map (\<lambda>name. take (length name - 4) name)
            (filter (\<lambda>name. utf8_valid (as_bytes name) \<and> ends_with ''.git'' name) (map fst children))
      | _ \<Rightarrow> [])"

lemma scan_siblings_subset:
  "set (fst (scan_siblings m mt tree i names cache))
     \<subseteq> set (map (\<lambda>name. take (length name - 4) name) (filter (\<lambda>name. utf8_valid (as_bytes name) \<and> ends_with ''.git'' name) names))"
  by (induction names arbitrary: cache) (auto simp: Let_def split: prod.splits if_splits, (metis (no_types, lifting) fst_conv imageE insertE list.set(2) mem_Collect_eq subsetD)+)

lemma list_forks_of_subset: "list_forks_of m mt tree i cache = (Inr out, cache') \<Longrightarrow> set out \<subseteq> set (siblings tree)"
  by (cases "scan_siblings m mt tree i (map fst (case tree of FsDir (Some children) \<Rightarrow> children | _ \<Rightarrow> [])) cache")
    (use scan_siblings_subset [of m mt tree i "map fst (case tree of FsDir (Some children) \<Rightarrow> children | _ \<Rightarrow> [])" cache] in
      \<open>auto simp: list_forks_of_def siblings_def split: fs_node.splits option.splits\<close>)

subsection \<open>The order of a cascade\<close>

fun add_children :: "string list \<Rightarrow> string list \<Rightarrow> string list \<Rightarrow> string list \<times> string list" where
  "add_children [] seen next_level = (seen, next_level)"
| "add_children (child # cs) seen next_level =
     (if child \<in> set seen then add_children cs seen next_level
      else add_children cs (seen @ [child]) (next_level @ [child]))"

fun scan_level ::
  "mount \<Rightarrow> (string \<Rightarrow> nat) \<Rightarrow> fs_node \<Rightarrow> string list \<Rightarrow> string list \<Rightarrow> string list \<Rightarrow> alt_cache
     \<Rightarrow> (error + string list \<times> string list) \<times> alt_cache" where
  "scan_level m mt tree [] seen next_level cache = (Inr (seen, next_level), cache)"
| "scan_level m mt tree (repo # rs) seen next_level cache =
     (case list_forks_of m mt tree repo cache of
        (Inl e, cache') \<Rightarrow> (Inl e, cache')
      | (Inr children, cache') \<Rightarrow>
          (case add_children children seen next_level of
             (seen', next') \<Rightarrow> scan_level m mt tree rs seen' next' cache'))"

lemma add_children_set:
  "add_children cs seen next_level = (seen', next') \<Longrightarrow>
     \<exists>new. next' = next_level @ new \<and> seen' = seen @ new \<and> distinct new \<and> set new = set cs - set seen"
proof (induction cs arbitrary: seen next_level)
  case (Cons c cs)
  show ?case
  proof (cases "c \<in> set seen")
    case True
    with Cons show ?thesis by auto
  next
    case False
    with Cons.prems Cons.IH [of "seen @ [c]" "next_level @ [c]"] obtain new where
      "next' = next_level @ c # new" "seen' = seen @ c # new" "distinct new" "set new = set cs - set (seen @ [c])" by auto
    with False show ?thesis by (intro exI [of _ "c # new"]) auto
  qed
qed simp

lemma scan_level_new:
  "scan_level m mt tree rs seen next_level cache = (Inr (seen', next'), cache') \<Longrightarrow>
     \<exists>new. next' = next_level @ new \<and> seen' = seen @ new \<and> distinct new \<and> set new \<inter> set seen = {} \<and> set new \<subseteq> set (siblings tree)"
proof (induction rs arbitrary: seen next_level cache)
  case (Cons r rs)
  obtain children c1 where l: "list_forks_of m mt tree r cache = (Inr children, c1)"
    using Cons.prems by (auto split: sum.splits prod.splits)
  obtain s1 n1 where a: "add_children children seen next_level = (s1, n1)" by fastforce
  from add_children_set [OF a] obtain new1 where n1: "n1 = next_level @ new1" "s1 = seen @ new1" "distinct new1"
    "set new1 = set children - set seen" by blast
  from Cons.IH [of s1 n1 c1] Cons.prems l a obtain new2 where
    "next' = n1 @ new2" "seen' = s1 @ new2" "distinct new2" "set new2 \<inter> set s1 = {}" "set new2 \<subseteq> set (siblings tree)"
    by auto
  with n1 list_forks_of_subset [OF l] show ?case by (intro exI [of _ "new1 @ new2"]) auto
qed simp

function cascade_loop ::
  "mount \<Rightarrow> (string \<Rightarrow> nat) \<Rightarrow> fs_node \<Rightarrow> string list list \<Rightarrow> string list \<Rightarrow> alt_cache
     \<Rightarrow> (error + string list) \<times> alt_cache" where
  "cascade_loop m mt tree levels seen cache =
     (case scan_level m mt tree (last levels) seen [] cache of
        (Inl e, cache') \<Rightarrow> (Inl e, cache')
      | (Inr (seen', next_level), cache') \<Rightarrow>
          if next_level = [] then (Inr (concat (rev levels)), cache')
          else cascade_loop m mt tree (levels @ [next_level]) seen' cache')"
  by pat_completeness auto
termination
proof (relation "measure (\<lambda>(m, mt, tree, levels, seen, cache). card (set (siblings tree) - set seen))")
  fix m mt tree levels seen cache r cache' pr seen' next_level
  assume p: "(r, cache') = scan_level m mt tree (last levels) seen [] cache" "r = Inr pr" "(seen', next_level) = pr"
    and ne: "next_level \<noteq> []"
  have "scan_level m mt tree (last levels) seen [] cache = (Inr (seen', next_level), cache')" using p by simp
  from scan_level_new [OF this] ne have "seen' = seen @ next_level" "set next_level \<inter> set seen = {}"
    "set next_level \<subseteq> set (siblings tree)" by auto
  moreover obtain x where "x \<in> set next_level" using ne by (cases next_level) auto
  ultimately have "set (siblings tree) - set seen' \<subset> set (siblings tree) - set seen" by auto
  then show "((m, mt, tree, levels @ [next_level], seen', cache'), m, mt, tree, levels, seen, cache)
      \<in> measure (\<lambda>(m, mt, tree, levels, seen, cache). card (set (siblings tree) - set seen))"
    by (simp add: psubset_card_mono)
qed auto

declare cascade_loop.simps [simp del]

definition cascade_delete_order ::
  "mount \<Rightarrow> (string \<Rightarrow> nat) \<Rightarrow> fs_node \<Rightarrow> string \<Rightarrow> alt_cache \<Rightarrow> (error + string list) \<times> alt_cache" where
  "cascade_delete_order m mt tree i cache = cascade_loop m mt tree [[i]] [i] cache"

section \<open>A coherent cache is invisible\<close>

text \<open>An entry with the present time stamp has the present resolution.\<close>

definition cache_ok :: "mount \<Rightarrow> (string \<Rightarrow> nat) \<Rightarrow> fs_node \<Rightarrow> alt_cache \<Rightarrow> bool" where
  "cache_ok m mt tree cache =
     (\<forall>i e. map_of cache i = Some e \<longrightarrow> ae_mtime e = alt_mtime mt tree i \<longrightarrow> ae_source e = resolve_source m tree i)"

lemma alt_lookup_ok:
  assumes "cache_ok m mt tree cache"
  shows "fst (alt_lookup m mt tree i cache) = resolve_source m tree i" "cache_ok m mt tree (snd (alt_lookup m mt tree i cache))"
  using assms by (auto simp: alt_lookup_def cache_ok_def Let_def update_conv' split: option.splits if_splits)

lemma alt_invalidate_ok: "cache_ok m mt tree cache \<Longrightarrow> cache_ok m mt tree (alt_invalidate i cache)"
  by (auto simp: cache_ok_def alt_invalidate_def delete_conv' restrict_map_def split: if_splits)

definition forks_of :: "mount \<Rightarrow> fs_node \<Rightarrow> string \<Rightarrow> string list" where
  "forks_of m tree i = filter (\<lambda>s. s \<noteq> i \<and> resolve_source m tree s = Some i) (siblings tree)"

lemma scan_siblings_ok:
  assumes "cache_ok m mt tree cache"
  shows "\<exists>cache'. scan_siblings m mt tree i names cache
      = (filter (\<lambda>s. s \<noteq> i \<and> resolve_source m tree s = Some i)
           (map (\<lambda>name. take (length name - 4) name) (filter (\<lambda>name. utf8_valid (as_bytes name) \<and> ends_with ''.git'' name) names)), cache')
    \<and> cache_ok m mt tree cache'"
  using assms
proof (induction names arbitrary: cache)
  case (Cons name names)
  let ?s = "take (length name - 4) name"
  obtain r c1 where l: "alt_lookup m mt tree ?s cache = (r, c1)" by fastforce
  with alt_lookup_ok [OF Cons.prems, of ?s] have "r = resolve_source m tree ?s" "cache_ok m mt tree c1" by simp_all
  with Cons.IH [OF Cons.prems] Cons.IH [of c1] l show ?case by (auto simp: Let_def)
qed simp

lemma list_forks_of_ok:
  assumes "cache_ok m mt (FsDir (Some children)) cache"
  shows "\<exists>cache'. list_forks_of m mt (FsDir (Some children)) i cache = (Inr (forks_of m (FsDir (Some children)) i), cache')
    \<and> cache_ok m mt (FsDir (Some children)) cache'"
  using scan_siblings_ok [OF assms, of i "map fst children"] by (auto simp: list_forks_of_def forks_of_def siblings_def)

lemma set_forks_of: "set (forks_of m tree i) = {s \<in> set (siblings tree). s \<noteq> i \<and> resolve_source m tree s = Some i}"
  by (auto simp: forks_of_def)

lemma scan_level_ok:
  assumes "cache_ok m mt (FsDir (Some children)) cache"
  shows "\<exists>new cache'. scan_level m mt (FsDir (Some children)) rs seen next_level cache = (Inr (seen @ new, next_level @ new), cache')
    \<and> cache_ok m mt (FsDir (Some children)) cache' \<and> distinct new
    \<and> set new = (\<Union>r\<in>set rs. set (forks_of m (FsDir (Some children)) r)) - set seen"
  using assms
proof (induction rs arbitrary: seen next_level cache)
  case (Cons r rs)
  let ?t = "FsDir (Some children)"
  obtain c1 where l: "list_forks_of m mt ?t r cache = (Inr (forks_of m ?t r), c1)" "cache_ok m mt ?t c1"
    using list_forks_of_ok [OF Cons.prems, of r] by blast
  obtain s1 n1 where a: "add_children (forks_of m ?t r) seen next_level = (s1, n1)" by fastforce
  from add_children_set [OF a] obtain new1 where n1: "n1 = next_level @ new1" "s1 = seen @ new1" "distinct new1"
    "set new1 = set (forks_of m ?t r) - set seen" by blast
  from Cons.IH [OF l(2), of s1 n1] obtain new2 c2 where "scan_level m mt ?t rs s1 n1 c1 = (Inr (s1 @ new2, n1 @ new2), c2)"
    "cache_ok m mt ?t c2" "distinct new2" "set new2 = (\<Union>r\<in>set rs. set (forks_of m ?t r)) - set s1" by blast
  with n1 l a show ?case by (intro exI [of _ "new1 @ new2"] exI [of _ c2]) auto
qed simp

section \<open>What the cascade deletes\<close>

definition fork_edge :: "mount \<Rightarrow> fs_node \<Rightarrow> string \<Rightarrow> string \<Rightarrow> bool" where
  "fork_edge m tree x p = (x \<in> set (siblings tree) \<and> x \<noteq> p \<and> resolve_source m tree x = Some p)"

fun sources_later :: "mount \<Rightarrow> fs_node \<Rightarrow> string \<Rightarrow> string list \<Rightarrow> bool" where
  "sources_later m tree i [] = True"
| "sources_later m tree i (x # ys) = ((x \<noteq> i \<longrightarrow> (\<exists>p\<in>set ys. fork_edge m tree x p)) \<and> sources_later m tree i ys)"

lemma sources_later_append:
  "sources_later m tree i ys \<Longrightarrow> \<forall>x\<in>set xs. \<exists>p\<in>set ys. fork_edge m tree x p \<Longrightarrow> sources_later m tree i (xs @ ys)"
  by (induction xs) auto

lemma sources_laterD: "sources_later m tree i (xs @ x # ys) \<Longrightarrow> x \<noteq> i \<Longrightarrow> \<exists>p\<in>set ys. fork_edge m tree x p"
  by (induction xs) auto

lemma forks_edge: "x \<in> set (forks_of m tree p) \<longleftrightarrow> fork_edge m tree x p"
  by (auto simp: fork_edge_def set_forks_of)

lemma distinct_concat_rev: "distinct (concat xs) \<Longrightarrow> distinct (concat (rev xs))"
  by (induction xs) auto

lemma cascade_loop_ok:
  fixes children :: "(string \<times> fs_node) list"
  defines "t \<equiv> FsDir (Some children)"
  assumes "cache_ok m mt t cache" "levels \<noteq> []" "set seen = set (concat levels)" "distinct (concat levels)"
    and "sources_later m t i (concat (rev levels))" "\<forall>x\<in>set (concat levels). (fork_edge m t)\<^sup>*\<^sup>* x i"
    and "\<forall>p\<in>set (concat (butlast levels)). \<forall>x. fork_edge m t x p \<longrightarrow> x \<in> set seen"
    and "i \<in> set (concat levels)"
  shows "\<exists>order cache'. cascade_loop m mt t levels seen cache = (Inr order, cache') \<and> cache_ok m mt t cache'
    \<and> distinct order \<and> set order = {x. (fork_edge m t)\<^sup>*\<^sup>* x i} \<and> sources_later m t i order"
  using assms(2-)
proof (induction "card (set (siblings t) - set seen)" arbitrary: levels seen cache rule: less_induct)
  case less
  obtain new c1 where lv: "scan_level m mt t (last levels) seen [] cache = (Inr (seen @ new, new), c1)" "cache_ok m mt t c1"
    "distinct new" "set new = (\<Union>r\<in>set (last levels). set (forks_of m t r)) - set seen"
    using scan_level_ok [of m mt children cache "last levels" seen "[]"] less.prems(1) unfolding t_def by auto
  have lvls: "levels = butlast levels @ [last levels]" using less.prems(2) by simp
  have lastin: "set (last levels) \<subseteq> set (concat levels)" by (subst lvls) simp
  have closed: "\<forall>p\<in>set (concat levels). \<forall>x. fork_edge m t x p \<longrightarrow> x \<in> set (seen @ new)"
  proof (intro ballI allI impI)
    fix p x assume p: "p \<in> set (concat levels)" and e: "fork_edge m t x p"
    from p have "p \<in> set (concat (butlast levels)) \<or> p \<in> set (last levels)" by (subst (asm) lvls) auto
    then show "x \<in> set (seen @ new)"
    proof
      assume "p \<in> set (concat (butlast levels))"
      then show ?thesis using less.prems(7) e by auto
    next
      assume "p \<in> set (last levels)"
      then have "x \<in> (\<Union>r\<in>set (last levels). set (forks_of m t r))" using e by (auto simp: forks_edge)
      then show ?thesis using lv(4) by auto
    qed
  qed
  show ?case
  proof (cases "new = []")
    case True
    have "x \<in> set (concat levels)" if "(fork_edge m t)\<^sup>*\<^sup>* x i" for x
      using that by (induction rule: converse_rtranclp_induct) (use less.prems(3,8) closed True in auto)
    then have "set (concat levels) = {x. (fork_edge m t)\<^sup>*\<^sup>* x i}" using less.prems(6) by auto
    moreover have "distinct (concat (rev levels))" by (rule distinct_concat_rev [OF less.prems(4)])
    ultimately show ?thesis using True lv less.prems(5) by (subst cascade_loop.simps) simp
  next
    case False
    have new: "set new \<inter> set seen = {}" "\<forall>x\<in>set new. \<exists>p\<in>set (last levels). fork_edge m t x p"
      using lv(4) by (auto simp: forks_edge)
    have sib: "set new \<subseteq> set (siblings t)" using new(2) by (auto simp: fork_edge_def)
    have "\<exists>order cache'. cascade_loop m mt t (levels @ [new]) (seen @ new) c1 = (Inr order, cache') \<and> cache_ok m mt t cache'
      \<and> distinct order \<and> set order = {x. (fork_edge m t)\<^sup>*\<^sup>* x i} \<and> sources_later m t i order"
    proof (rule less.hyps)
      show "card (set (siblings t) - set (seen @ new)) < card (set (siblings t) - set seen)"
        using new(1) sib False by (intro psubset_card_mono) (auto simp: neq_Nil_conv)
      show "sources_later m t i (concat (rev (levels @ [new])))"
      proof -
        have "\<forall>x\<in>set new. \<exists>p\<in>set (concat (rev levels)). fork_edge m t x p" using new(2) lastin by (simp only: set_concat set_rev) blast
        with less.prems(5) show ?thesis by (auto intro!: sources_later_append)
      qed
      show "\<forall>x\<in>set (concat (levels @ [new])). (fork_edge m t)\<^sup>*\<^sup>* x i"
      proof
        fix x assume "x \<in> set (concat (levels @ [new]))"
        then consider "x \<in> set (concat levels)" | "x \<in> set new" by auto
        then show "(fork_edge m t)\<^sup>*\<^sup>* x i"
        proof cases
          case 2
          then obtain p where "p \<in> set (last levels)" "fork_edge m t x p" using new(2) by blast
          with less.prems(6) lastin show ?thesis by (meson converse_rtranclp_into_rtranclp subsetD)
        qed (use less.prems(6) in blast)
      qed
      show "\<forall>p\<in>set (concat (butlast (levels @ [new]))). \<forall>x. fork_edge m t x p \<longrightarrow> x \<in> set (seen @ new)"
        using closed by simp
    qed (use less.prems new lv in auto)
    then show ?thesis using lv False by (subst cascade_loop.simps) simp
  qed
qed

text \<open>C11: A cascade deletes the forks before their sources. With a coherent cache and a readable directory the order
  is computed for every tree, also a cyclic one: it lists exactly the repo and its transitive forks,
  each once, and every repo but the first named comes before the source it depends on.\<close>

theorem cascade_order_exact:
  assumes "cache_ok m mt (FsDir (Some children)) cache"
  shows "\<exists>order cache'. cascade_delete_order m mt (FsDir (Some children)) i cache = (Inr order, cache')
    \<and> cache_ok m mt (FsDir (Some children)) cache' \<and> distinct order
    \<and> set order = {x. (fork_edge m (FsDir (Some children)))\<^sup>*\<^sup>* x i}
    \<and> (\<forall>xs x ys. order = xs @ x # ys \<longrightarrow> x \<noteq> i \<longrightarrow> (\<exists>p\<in>set ys. fork_edge m (FsDir (Some children)) x p))"
proof -
  have "\<exists>order cache'. cascade_delete_order m mt (FsDir (Some children)) i cache = (Inr order, cache')
    \<and> cache_ok m mt (FsDir (Some children)) cache' \<and> distinct order
    \<and> set order = {x. (fork_edge m (FsDir (Some children)))\<^sup>*\<^sup>* x i} \<and> sources_later m (FsDir (Some children)) i order"
    unfolding cascade_delete_order_def by (rule cascade_loop_ok) (use assms in simp_all)
  then show ?thesis using sources_laterD by metis
qed

section \<open>A fork resolves to its source\<close>

definition mount_text :: "mount \<Rightarrow> string" where
  "mount_text m = concat (map (\<lambda>s. ''/'' @ s) (mo_root m))"

definition mount_ok :: "mount \<Rightarrow> bool" where
  "mount_ok m = (mo_root m \<noteq> []
     \<and> (\<forall>s\<in>set (mo_root m). s \<noteq> [] \<and> s \<noteq> ''.'' \<and> s \<noteq> ''..'' \<and> CHR ''/'' \<notin> set s \<and> CHR 0x00 \<notin> set s))"

lemma split_mount: "\<forall>s\<in>set segs. CHR ''/'' \<notin> set s \<Longrightarrow> CHR ''/'' \<notin> set a \<Longrightarrow>
    split_char CHR ''/'' (a @ concat (map (\<lambda>s. ''/'' @ s) segs)) = a # segs"
  by (induction segs arbitrary: a) simp_all

lemma drop_prefix_prefix: "drop_prefix (xs @ ys) xs = (if ys = [] then Some [] else None)" "drop_prefix xs xs = Some []"
proof -
  show "drop_prefix (xs @ ys) xs = (if ys = [] then Some [] else None)" by (induction xs) (cases ys; simp)+
  then show "drop_prefix xs xs = Some []" using drop_prefix_append [of xs "[]"] by simp
qed

lemma node_at_root:
  assumes "mo_root m = pre @ suf"
  shows "node_at m (FsDir c) pre = Some True"
  using assms by (cases "suf = []") (simp_all add: node_at_def drop_prefix_prefix)

lemma canon_root:
  assumes "mount_ok m" "mo_root m = pre @ suf"
  shows "canon_walk m (FsDir c) pre (suf @ ss) = canon_walk m (FsDir c) (pre @ suf) ss"
  using assms(2)
proof (induction suf arbitrary: pre)
  case (Cons s suf)
  have "s \<noteq> []" "s \<noteq> ''.''" "s \<noteq> ''..''" using assms(1) Cons.prems by (auto simp: mount_ok_def)
  moreover have "node_at m (FsDir c) pre = Some True" "node_at m (FsDir c) (pre @ [s]) = Some True"
    using node_at_root [of m pre "s # suf" c] node_at_root [of m "pre @ [s]" suf c] Cons.prems by simp_all
  ultimately show ?case using Cons.IH [of "pre @ [s]"] Cons.prems by simp
qed simp

lemma repo_id_plain: "repo_id_ok s \<Longrightarrow> CHR ''/'' \<notin> set s \<and> CHR 0x00 \<notin> set s \<and> s \<noteq> []"
  by (auto simp: repo_id_ok_def list_all_iff is_lower_def is_digit_def)

lemma resolve_alternates:
  assumes m: "mount_ok m" and src: "repo_id_ok src" and dir: "fs_lookup (FsDir c) [src @ ''.git''] = Some (FsDir (Some sc))"
    and obj: "map_of sc ''objects'' \<noteq> None"
    and alt: "fs_lookup (FsDir c) (alternates_path f) = Some (FsFile (Some (mount_text m @ ''/'' @ src @ ''.git/objects'' @ [newline])))"
  shows "resolve_source m (FsDir c) f = Some src"
proof -
  let ?p = "mount_text m @ ''/'' @ src @ ''.git/objects''"
  have plain: "CHR ''/'' \<notin> set (src @ ''.git'')" "CHR 0x00 \<notin> set (src @ ''.git'')" "src @ ''.git'' \<noteq> []"
    using repo_id_plain [OF src] by auto
  have hd: "hd ?p = CHR ''/''" "?p \<noteq> []" using m by (cases "mo_root m") (simp_all add: mount_text_def mount_ok_def)
  have "trim (?p @ [newline]) = ?p"
    by (rule trim_graphic(2)) (use hd in \<open>simp_all\<close>)
  moreover have "CHR 0x00 \<notin> set ?p"
    using m repo_id_plain [OF src] by (auto simp: mount_text_def mount_ok_def)
  moreover obtain r where "mount_text m = CHR ''/'' # r" using m by (cases "mo_root m") (simp_all add: mount_text_def mount_ok_def)
  then have "starts_with ''/'' ?p" by (simp add: starts_with_def)
  moreover have "split_char CHR ''/'' ?p = [] # mo_root m @ [src @ ''.git'', ''objects'']"
  proof -
    let ?segs = "mo_root m @ [src @ ''.git'', ''objects'']"
    have "\<forall>s\<in>set ?segs. CHR ''/'' \<notin> set s" using m plain(1) by (auto simp: mount_ok_def)
    moreover have "?p = [] @ concat (map (\<lambda>s. ''/'' @ s) ?segs)" by (simp add: mount_text_def)
    ultimately show ?thesis by (metis split_mount list.set(1) empty_iff)
  qed
  moreover have "canon_walk m (FsDir c) [] ([] # mo_root m @ [src @ ''.git'', ''objects'']) = Some (mo_root m @ [src @ ''.git'', ''objects''])"
  proof -
    have n: "node_at m (FsDir c) [] = Some True" "node_at m (FsDir c) (mo_root m) = Some True"
      using node_at_root [of m "[]" "mo_root m" c] node_at_root [of m "mo_root m" "[]" c] by simp_all
    moreover have "node_at m (FsDir c) (mo_root m @ [src @ ''.git'']) = Some True"
      "node_at m (FsDir c) (mo_root m @ [src @ ''.git'', ''objects'']) \<noteq> None"
      using dir obj by (cases c; auto simp: node_at_def split: option.splits)+
    moreover have "src @ ''.git'' \<notin> {[], ''.'', ''..''}" by (cases src) auto
    ultimately show ?thesis using canon_root [OF m, of "[]" "mo_root m" c "[src @ ''.git'', ''objects'']"] by simp
  qed
  ultimately have "canonicalize m (FsDir c) ?p = Some (mo_root m @ [src @ ''.git'', ''objects''])" "trim (?p @ [newline]) = ?p"
    using hd(2) by (simp_all add: canonicalize_def)
  moreover have "strip_suffix ''.git'' (src @ ''.git'') = Some src" by (simp add: strip_suffix_def)
  moreover have "validate_repo_id src = Inr ()" using src by (auto simp: validate_repo_id_def repo_id_ok_def)
  ultimately show ?thesis using hd(2) alt by (simp add: resolve_source_def Let_def)
qed

lemma ascii_repo_id: "repo_id_ok s \<Longrightarrow> ascii s"
  by (auto simp: repo_id_ok_def list_all_iff is_lower_def is_digit_def ascii_def)

lemma sibling_iff: "repo_id_ok s \<Longrightarrow> map_of children (s @ ''.git'') \<noteq> None \<Longrightarrow> s \<in> set (siblings (FsDir (Some children)))"
proof -
  assume s: "repo_id_ok s" "map_of children (s @ ''.git'') \<noteq> None"
  then have "s @ ''.git'' \<in> fst ` set children" by (metis map_of_eq_None_iff)
  moreover have "utf8_valid (as_bytes (s @ ''.git''))" by (rule utf8_valid_ascii) (simp add: ascii_repo_id [OF s(1)])
  ultimately show ?thesis by (force simp: siblings_def ends_with_iff image_iff simp del: as_bytes_simps)
qed

lemma fork_registers:
  assumes m: "mount_ok m" and fork: "fork_repo (mount_text m) gix s f \<lparr>io_tree = FsDir (Some children), io_faults = fs\<rparr> = (Inr (), w)"
    and src: "map_of children (repo_path s) = Some (FsDir (Some sc))" "map_of sc ''objects'' \<noteq> None" "fs_lookup (FsDir (Some sc)) [''HEAD''] = Some (FsFile head)"
    and free: "map_of children (repo_path f) = None" and gix: "gix (Some (FsDir (Some sc))) = Inr refs"
    and ids: "repo_id_ok (repo_str s)" "repo_id_ok (repo_str f)"
  shows "fork_edge m (io_tree w) (repo_str f) (repo_str s)"
proof -
  have "fork_steps (mount_text m) gix (repo_path s) (repo_path f) \<lparr>io_tree = FsDir (Some children), io_faults = fs\<rparr> = (Inr (), w)"
    using fork src free by (simp add: fork_repo_def is_dir_def)
  then have w: "io_tree w = with_dir (repo_path f) children (fork_layout (mount_text m) (repo_path s) head (snapshot_entries refs))"
    by (cases rule: runs_toE [OF fork_runs [where base = "mount_text m" and gix = gix, OF free src(1,3) gix], of fs]) auto
  have ne: "repo_path s \<noteq> repo_path f" using src free by auto
  let ?c = "AList.update (repo_path f) (FsDir (Some (fork_layout (mount_text m) (repo_path s) head (snapshot_entries refs)))) children"
  have t: "io_tree w = FsDir (Some ?c)" by (simp add: w with_dir_def)
  have "resolve_source m (FsDir (Some ?c)) (repo_str f) = Some (repo_str s)"
  proof (rule resolve_alternates [OF m ids(1)])
    show "fs_lookup (FsDir (Some ?c)) [repo_str s @ ''.git''] = Some (FsDir (Some sc))"
      using src(1) ne by (simp add: repo_path_def update_conv')
    show "fs_lookup (FsDir (Some ?c)) (alternates_path (repo_str f)) = Some (FsFile (Some (mount_text m @ ''/'' @ repo_str s @ ''.git/objects'' @ [newline])))"
      by (simp add: alternates_path_def repo_path_def update_conv' fork_layout_def)
  qed (fact src(2))
  moreover have "repo_str f \<in> set (siblings (FsDir (Some ?c)))"
    by (rule sibling_iff [OF ids(2)]) (simp add: repo_path_def update_conv')
  ultimately show ?thesis using ne by (auto simp: fork_edge_def t repo_path_def)
qed

section \<open>A stale cache\<close>

lemma scan_siblings_stale:
  assumes "map_of cache f = Some e" "ae_mtime e = alt_mtime mt tree f" "ae_source e \<noteq> Some p"
  shows "f \<notin> set (fst (scan_siblings m mt tree p names cache))"
  using assms(1)
proof (induction names arbitrary: cache)
  case (Cons name names)
  let ?s = "take (length name - 4) name"
  obtain r c1 where l: "alt_lookup m mt tree ?s cache = (r, c1)" by fastforce
  have "map_of c1 f = Some e" "?s = f \<longrightarrow> r \<noteq> Some p"
    using l Cons.prems assms(2,3) by (auto simp: alt_lookup_def Let_def update_conv' split: option.splits if_splits)
  with Cons.IH [OF Cons.prems] Cons.IH [of c1] l show ?case by (auto simp: Let_def split: prod.splits)
qed simp

text \<open>The cache can hide a fork. When a fork is looked up while its source is gone (the source was deleted by
  force), the cache keeps the answer under the fork's unchanged time stamp; after the source's id is
  created again the fork resolves to it, but \<open>list_forks_of\<close> does not list it.\<close>

theorem stale_cache_hides_fork:
  assumes "fs_lookup t (alternates_path f) \<noteq> None" "resolve_source m t f = None"
    and "fs_lookup (FsDir (Some children)) (alternates_path f) \<noteq> None" "fork_edge m (FsDir (Some children)) f p"
  shows "\<exists>out cache'. list_forks_of m mt (FsDir (Some children)) p (snd (alt_lookup m mt t f [])) = (Inr out, cache')
    \<and> f \<notin> set out \<and> f \<in> set (forks_of m (FsDir (Some children)) p)"
proof -
  have "map_of (snd (alt_lookup m mt t f [])) f = Some \<lparr>ae_mtime = Some (mt f), ae_source = None\<rparr>"
    using assms(1,2) by (simp add: alt_lookup_def alt_mtime_def Let_def)
  from scan_siblings_stale [OF this, of mt "FsDir (Some children)" p m "map fst children"] assms(3,4) show ?thesis
    by (cases "scan_siblings m mt (FsDir (Some children)) p (map fst children) (snd (alt_lookup m mt t f []))")
      (auto simp: list_forks_of_def alt_mtime_def forks_edge)
qed

definition sample_mount :: mount where
  "sample_mount = \<lparr>mo_root = [''srv''], mo_cwd = [], mo_outside = (\<lambda>_. None)\<rparr>"

definition sample_fork :: "string \<times> fs_node" where
  "sample_fork = (''copy.git'', FsDir (Some (fork_layout ''/srv'' ''demo.git'' None [])))"

definition sample_source :: "string \<times> fs_node" where
  "sample_source = (''demo.git'', FsDir (Some bare_layout))"

lemma sample_fork_alt:
  "fs_lookup (FsDir (Some (sample_fork # rest))) (alternates_path ''copy'') = Some (FsFile (Some (''/srv/demo.git/objects'' @ [newline])))"
  by (simp add: alternates_path_def sample_fork_def fork_layout_def)

lemma sample_mount_ok: "mount_ok sample_mount" "mount_text sample_mount = ''/srv''"
  by (simp_all add: mount_ok_def sample_mount_def mount_text_def)

lemma sample_edge: "fork_edge sample_mount (FsDir (Some [sample_fork, sample_source])) ''copy'' ''demo''"
proof -
  have ids: "repo_id_ok ''demo''" "repo_id_ok ''copy''" by (simp_all add: repo_id_ok_def is_lower_def)
  have "resolve_source sample_mount (FsDir (Some [sample_fork, sample_source])) ''copy'' = Some ''demo''"
    by (rule resolve_alternates [OF sample_mount_ok(1) ids(1), where sc = bare_layout])
      (simp_all only: sample_fork_alt sample_mount_ok(2), simp_all add: sample_fork_def sample_source_def bare_layout_def)
  moreover have "''copy'' \<in> set (siblings (FsDir (Some [sample_fork, sample_source])))"
    by (rule sibling_iff [OF ids(2)]) (simp add: sample_fork_def)
  ultimately show ?thesis by (simp add: fork_edge_def)
qed

lemma sample_orphan: "resolve_source sample_mount (FsDir (Some [sample_fork])) ''copy'' = None"
proof -
  have "trim (''/srv/demo.git/objects'' @ [newline]) = ''/srv/demo.git/objects''" by (rule trim_graphic(2)) simp_all
  moreover have "canonicalize sample_mount (FsDir (Some [sample_fork])) ''/srv/demo.git/objects'' = None"
    by (simp add: canonicalize_def sample_mount_def node_at_def starts_with_def sample_fork_def)
  ultimately show ?thesis
    unfolding resolve_source_def sample_fork_alt Let_def by (simp only: option.case fs_node.case) simp
qed

theorem stale_cache_hides_fork_witness:
  "\<exists>out cache'. list_forks_of sample_mount (\<lambda>_. 7) (FsDir (Some [sample_fork, sample_source])) ''demo''
        (snd (alt_lookup sample_mount (\<lambda>_. 7) (FsDir (Some [sample_fork])) ''copy'' [])) = (Inr out, cache')
    \<and> ''copy'' \<notin> set out"
  using stale_cache_hides_fork [OF _ sample_orphan _ sample_edge, of "\<lambda>_. 7"] by (simp add: sample_fork_alt) blast

theorem cascade_order_exact_witness:
  "\<exists>order cache'. cascade_delete_order sample_mount (\<lambda>_. 7) (FsDir (Some [sample_fork, sample_source])) ''demo'' [] = (Inr order, cache')
    \<and> ''copy'' \<in> set order"
proof -
  have ok: "cache_ok sample_mount (\<lambda>_. 7) (FsDir (Some [sample_fork, sample_source])) []" by (simp add: cache_ok_def)
  obtain order cache' where "cascade_delete_order sample_mount (\<lambda>_. 7) (FsDir (Some [sample_fork, sample_source])) ''demo'' [] = (Inr order, cache')"
    "set order = {x. (fork_edge sample_mount (FsDir (Some [sample_fork, sample_source])))\<^sup>*\<^sup>* x ''demo''}"
    using cascade_order_exact [OF ok, of "''demo''"] by blast
  with sample_edge show ?thesis by (intro exI [of _ order] exI [of _ cache']) auto
qed

end
