(* ===== verification/Gc.thy ===== *)
theory Gc
  imports Forks GitCmd Tokens ObjectStore
begin

text \<open>
  Garbage collection, \<open>src/gc.rs\<close>: the network of a repo, its reachable objects, the preview, a pass and
  the sweep over all repos. The object store is given by its operations, the git program is a
  parameter; the two readings of the reachable set in a pass are both made.
\<close>

section \<open>The network of a repo\<close>

text \<open>Whatever resolves is a directory of the tree, so the search is over a finite set.\<close>

lemma drop_prefix_Some: "drop_prefix xs ys = Some zs \<longleftrightarrow> ys = xs @ zs"
  by (induction xs ys rule: drop_prefix.induct) auto

lemma fs_lookup_butlast: "fs_lookup t (p @ q) \<noteq> None \<Longrightarrow> fs_lookup t p \<noteq> None"
  by (induction t p rule: fs_lookup.induct) (auto split: option.splits)

lemma canon_walk_exists:
  "canon_walk m t cur ss = Some p \<Longrightarrow> ss \<noteq> [] \<Longrightarrow> p = mo_root m @ rel \<Longrightarrow> fs_lookup t rel \<noteq> None"
proof (induction m t cur ss rule: canon_walk.induct)
  case (2 m t cur s ss)
  have at: "fs_lookup t r \<noteq> None" if "node_at m t c \<noteq> None" "c = mo_root m @ r" for c r
    using that by (auto simp: node_at_def)
  have dir: "node_at m t cur = Some True" using 2 by (auto split: if_splits)
  consider "s = [] \<or> s = ''.''" | "s = ''..''" | "s \<noteq> []" "s \<noteq> ''.''" "s \<noteq> ''..''" by blast
  then show ?case
  proof cases
    case 1
    then have w: "canon_walk m t cur ss = Some p" using 2(4) dir by auto
    show ?thesis using 2(1) [OF _ 1 w] dir at [of cur] w 2(6) by (cases "ss = []") auto
  next
    case 2
    then have w: "canon_walk m t (butlast cur) ss = Some p" using "2.prems"(1) dir by auto
    have "fs_lookup t rel \<noteq> None" if "butlast cur = mo_root m @ rel"
    proof (cases "cur = []")
      case True
      with that dir at [of cur] show ?thesis by auto
    next
      case False
      then have "cur = mo_root m @ (rel @ [last cur])" using that by (metis append_assoc append_butlast_last_id)
      have "fs_lookup t (rel @ [last cur]) \<noteq> None"
        by (rule at [of cur]) (use dir \<open>cur = mo_root m @ (rel @ [last cur])\<close> in simp_all)
      then show ?thesis by (rule fs_lookup_butlast)
    qed
    with w "2.IH"(2) 2 dir "2.prems"(3) show ?thesis by (cases "ss = []") auto
  next
    case 3
    then have w: "canon_walk m t (cur @ [s]) ss = Some p" "node_at m t (cur @ [s]) \<noteq> None"
      using "2.prems"(1) dir by (auto split: if_splits)
    with "2.IH"(3) 3 dir "2.prems"(3) at [of "cur @ [s]"] show ?thesis by (cases "ss = []") auto
  qed
qed simp

lemma resolve_sibling:
  assumes "resolve_source m t i = Some s"
  shows "s \<in> set (siblings t)"
proof -
  obtain path first where c: "canonicalize m t path = Some (mo_root m @ [first, ''objects''])"
    and s: "strip_suffix ''.git'' first = Some s" "validate_repo_id s = Inr ()"
    using assms by (auto simp: resolve_source_def drop_prefix_Some Let_def
        split: option.splits fs_node.splits list.splits if_splits sum.splits)
  have "fs_lookup t [first, ''objects''] \<noteq> None"
    using c canon_walk_exists [of m t _ "split_char CHR ''/'' path" "mo_root m @ [first, ''objects'']" "[first, ''objects'']"]
    by (auto simp: canonicalize_def split: if_splits)
  then obtain children where t: "t = FsDir (Some children)" "map_of children first \<noteq> None"
    by (cases t; cases "case t of FsDir c \<Rightarrow> c | _ \<Rightarrow> None") (auto split: option.splits)
  have "first = s @ ''.git''" using s(1) by (auto simp: strip_suffix_def strip_prefix_iff)
  moreover have "repo_id_ok s" using s(2) by (auto simp: validate_repo_id_def repo_id_ok_def split: if_splits)
  ultimately show ?thesis using sibling_iff t by simp
qed

definition cached_sources :: "alt_cache \<Rightarrow> string set" where
  "cached_sources cache = {s. \<exists>i e. map_of cache i = Some e \<and> ae_source e = Some s}"

lemma finite_cached_sources: "finite (cached_sources cache)"
proof -
  have "cached_sources cache \<subseteq> (the \<circ> ae_source \<circ> snd) ` set cache"
    by (force simp: cached_sources_def dest: map_of_SomeD)
  then show ?thesis by (rule finite_subset) simp
qed

lemma alt_lookup_sources:
  assumes "alt_lookup m mt t i cache = (r, cache')"
  shows "cached_sources cache' \<subseteq> cached_sources cache \<union> set (siblings t)"
    "r = Some s \<Longrightarrow> s \<in> cached_sources cache \<union> set (siblings t)"
proof -
  have "cached_sources (AList.update i \<lparr>ae_mtime = x, ae_source = resolve_source m t i\<rparr> cache) \<subseteq> cached_sources cache \<union> set (siblings t)" for x
    using resolve_sibling [of m t i] by (auto simp: cached_sources_def update_conv' split: if_splits)
  then show "cached_sources cache' \<subseteq> cached_sources cache \<union> set (siblings t)"
    using assms by (fastforce simp: alt_lookup_def Let_def split: option.splits if_splits)
  show "r = Some s \<Longrightarrow> s \<in> cached_sources cache \<union> set (siblings t)"
    using assms resolve_sibling [of m t i] by (auto simp: alt_lookup_def cached_sources_def Let_def split: option.splits if_splits)
qed

lemma scan_sources: "cached_sources (snd (scan_siblings m mt t i names cache)) \<subseteq> cached_sources cache \<union> set (siblings t)"
proof (induction names arbitrary: cache)
  case (Cons name names)
  obtain r c1 where l: "alt_lookup m mt t (take (length name - 4) name) cache = (r, c1)" by fastforce
  from Cons.IH [of cache] Cons.IH [of c1] alt_lookup_sources(1) [OF l] l show ?case
    by (auto simp: Let_def split: prod.splits)
qed simp

lemma list_forks_sources:
  "list_forks_of m mt t i cache = (r, cache') \<Longrightarrow> cached_sources cache' \<subseteq> cached_sources cache \<union> set (siblings t)"
  by (cases "scan_siblings m mt t i (map fst (case t of FsDir (Some children) \<Rightarrow> children | _ \<Rightarrow> [])) cache")
    (use scan_sources [of m mt t i "map fst (case t of FsDir (Some children) \<Rightarrow> children | _ \<Rightarrow> [])" cache] in
      \<open>auto simp: list_forks_of_def split: fs_node.splits option.splits\<close>)

text \<open>The queue is a stack with its top in front; \<open>visited\<close> is the hash set.\<close>

function network_loop ::
  "mount \<Rightarrow> (string \<Rightarrow> nat) \<Rightarrow> fs_node \<Rightarrow> string list \<Rightarrow> string list \<Rightarrow> alt_cache \<Rightarrow> (error + string list) \<times> alt_cache" where
  "network_loop m mt t [] visited cache = (Inr visited, cache)"
| "network_loop m mt t (i # queue) visited cache =
     (if i \<in> set visited then network_loop m mt t queue visited cache
      else (case alt_lookup m mt t i cache of
        (parent, cache1) \<Rightarrow>
          (case list_forks_of m mt t i cache1 of
             (Inl e, cache2) \<Rightarrow> (Inl e, cache2)
           | (Inr children, cache2) \<Rightarrow>
               let up = (case parent of None \<Rightarrow> [] | Some p \<Rightarrow> if p \<in> set (i # visited) then [] else [p]);
                   down = filter (\<lambda>child. child \<notin> set (i # visited)) children
               in network_loop m mt t (rev down @ up @ queue) (i # visited) cache2)))"
  by pat_completeness auto
termination
proof (relation "measures [\<lambda>(m, mt, t, queue, visited, cache). card ((set queue \<union> set (siblings t) \<union> cached_sources cache) - set visited),
    \<lambda>(m, mt, t, queue, visited, cache). length queue]")
  fix m :: mount and mt :: "string \<Rightarrow> nat" and t i queue and visited :: "string list" and cache
  assume "i \<in> set visited"
  then have "(set queue \<union> set (siblings t) \<union> cached_sources cache) - set visited
    = (set (i # queue) \<union> set (siblings t) \<union> cached_sources cache) - set visited" by auto
  then show "((m, mt, t, queue, visited, cache), m, mt, t, i # queue, visited, cache)
      \<in> measures [\<lambda>(m, mt, t, queue, visited, cache). card ((set queue \<union> set (siblings t) \<union> cached_sources cache) - set visited),
          \<lambda>(m, mt, t, queue, visited, cache). length queue]" by simp
next
  fix m mt t i queue visited cache parent cache1 r children cache2 up down
  assume new: "i \<notin> set visited" and l: "(parent, cache1) = alt_lookup m mt t i cache"
    and f: "(r, cache2) = list_forks_of m mt t i cache1" "r = Inr children"
    and up: "up = (case parent of None \<Rightarrow> [] | Some p \<Rightarrow> if p \<in> set (i # visited) then [] else [p])"
    and down: "down = filter (\<lambda>child. child \<notin> set (i # visited)) children"
  let ?U = "set (i # queue) \<union> set (siblings t) \<union> cached_sources cache"
  have f': "list_forks_of m mt t i cache1 = (Inr children, cache2)" using f by simp
  have "set up \<subseteq> ?U" using up alt_lookup_sources(2) [OF l [symmetric]] by (auto split: option.splits if_splits)
  moreover have "set down \<subseteq> ?U" using down list_forks_of_subset [OF f'] by auto
  moreover have "cached_sources cache2 \<subseteq> ?U" using list_forks_sources [OF f'] alt_lookup_sources(1) [OF l [symmetric]] by auto
  ultimately have "(set (rev down @ up @ queue) \<union> set (siblings t) \<union> cached_sources cache2) - set (i # visited) \<subset> ?U - set visited"
    using new by auto
  then show "((m, mt, t, rev down @ up @ queue, i # visited, cache2), m, mt, t, i # queue, visited, cache)
      \<in> measures [\<lambda>(m, mt, t, queue, visited, cache). card ((set queue \<union> set (siblings t) \<union> cached_sources cache) - set visited),
          \<lambda>(m, mt, t, queue, visited, cache). length queue]"
    by (simp add: psubset_card_mono finite_cached_sources)
qed simp_all

definition network_around :: "mount \<Rightarrow> (string \<Rightarrow> nat) \<Rightarrow> fs_node \<Rightarrow> string \<Rightarrow> alt_cache \<Rightarrow> (error + string list) \<times> alt_cache" where
  "network_around m mt t seed cache = network_loop m mt t [seed] [] cache"

section \<open>The collector\<close>

fun until_ws :: "string \<Rightarrow> string" where
  "until_ws [] = []"
| "until_ws (c # cs) = (if ws_prefix (c # cs) \<noteq> 0 then [] else c # until_ws cs)"

text \<open>\<open>line.split_whitespace().next().unwrap_or("")\<close>.\<close>

definition first_word :: "string \<Rightarrow> string" where
  "first_word s = until_ws (trim_start s)"

definition rev_list_oids :: "string \<Rightarrow> string list" where
  "rev_list_oids out = filter (\<lambda>oid. length oid = 40 \<and> list_all is_hexdigit oid) (map first_word (str_lines out))"

definition rev_list_objects :: "'g git \<Rightarrow> string \<Rightarrow> string \<Rightarrow> 'g \<Rightarrow> (error + string list) \<times> 'g" where
  "rev_list_objects git repos_dir repo g =
     (case git (rev_list_objects_all (path_join repos_dir (repo @ ''.git''))) None g of
        (Inl e, g') \<Rightarrow> (Inl e, g')
      | (Inr (rc, stdout, stderr), g') \<Rightarrow>
          (if rc \<noteq> 0
           then Inl (Other (''git rev-list --objects --all on '' @ repo @ '' failed: '' @ trim (from_utf8_lossy stderr)))
           else res_bind (ok_or (Other ''invalid utf-8 sequence'') (from_utf8 stdout)) (\<lambda>out. Inr (rev_list_oids out)), g'))"

fun reachable_oids :: "'g git \<Rightarrow> string \<Rightarrow> string list \<Rightarrow> 'g \<Rightarrow> (error + string list) \<times> 'g" where
  "reachable_oids git repos_dir [] g = (Inr [], g)"
| "reachable_oids git repos_dir (member # ms) g =
     (case rev_list_objects git repos_dir member g of
        (Inl e, g') \<Rightarrow> (Inl e, g')
      | (Inr oids, g') \<Rightarrow>
          (case reachable_oids git repos_dir ms g' of
             (Inl e, g'') \<Rightarrow> (Inl e, g'')
           | (Inr rest, g'') \<Rightarrow> (Inr (oids @ rest), g'')))"

record gc_preview =
  gp_network :: "string list"
  gp_reachable :: nat
  gp_loose :: nat
  gp_unreachable :: nat
  gp_bytes :: nat
  gp_sample :: "string list"

record gc_result =
  gr_preview :: gc_preview
  gr_deleted :: nat
  gr_bytes :: nat
  gr_young :: nat

definition SAMPLE_CAP :: nat where "SAMPLE_CAP = 32"

text \<open>What a pass works with: the mount and its time stamps, the tree, the git program, and the two operations of
  the object store.\<close>

record ('g, 's) gc_env =
  ge_mount :: mount
  ge_dir :: string
  ge_mtimes :: "string \<Rightarrow> nat"
  ge_tree :: fs_node
  ge_git :: "'g git"
  ge_list :: "'s \<Rightarrow> repo_id \<Rightarrow> error + loose_info list"
  ge_delete :: "repo_id \<Rightarrow> oid \<Rightarrow> 's \<Rightarrow> error + bool \<times> 's"

record 'g gc_state =
  gs_cache :: alt_cache
  gs_git :: 'g

definition preview :: "('g, 's) gc_env \<Rightarrow> string \<Rightarrow> 's \<Rightarrow> 'g gc_state \<Rightarrow> (error + gc_preview) \<times> 'g gc_state" where
  "preview env repo s st =
     (case network_around (ge_mount env) (ge_mtimes env) (ge_tree env) repo (gs_cache st) of
        (Inl e, c) \<Rightarrow> (Inl e, st\<lparr>gs_cache := c\<rparr>)
      | (Inr visited, c) \<Rightarrow>
          let network = remdups_adj (sort visited) in
          (case reachable_oids (ge_git env) (ge_dir env) network (gs_git st) of
             (Inl e, g) \<Rightarrow> (Inl e, \<lparr>gs_cache = c, gs_git = g\<rparr>)
           | (Inr reachable, g) \<Rightarrow>
               (res_bind (repo_id_try_from repo) (\<lambda>r.
                res_bind (ge_list env s r) (\<lambda>loose.
                  let unreachable = filter (\<lambda>i. oid_str (li_oid i) \<notin> set reachable) loose in
                  Inr \<lparr>gp_network = network, gp_reachable = length (remdups reachable), gp_loose = length loose,
                       gp_unreachable = length unreachable, gp_bytes = sum_list (map li_size unreachable),
                       gp_sample = map (oid_str \<circ> li_oid) (take SAMPLE_CAP unreachable)\<rparr>)),
                \<lparr>gs_cache = c, gs_git = g\<rparr>)))"

text \<open>The counters of the deletion loop are deleted, bytes and too young.\<close>

fun gc_delete ::
  "(repo_id \<Rightarrow> oid \<Rightarrow> 's \<Rightarrow> error + bool \<times> 's) \<Rightarrow> repo_id \<Rightarrow> string list \<Rightarrow> int \<Rightarrow> loose_info list \<Rightarrow> nat \<times> nat \<times> nat \<Rightarrow> 's
     \<Rightarrow> (nat \<times> nat \<times> nat) \<times> 's" where
  "gc_delete del r reachable cutoff [] counts s = (counts, s)"
| "gc_delete del r reachable cutoff (i # loose) (deleted, bytes, young) s =
     (if oid_str (li_oid i) \<in> set reachable then gc_delete del r reachable cutoff loose (deleted, bytes, young) s
      else if li_created i > cutoff then gc_delete del r reachable cutoff loose (deleted, bytes, young + 1) s
      else (case del r (li_oid i) s of
              Inr (True, s') \<Rightarrow> gc_delete del r reachable cutoff loose (deleted + 1, bytes + li_size i, young) s'
            | Inr (False, s') \<Rightarrow> gc_delete del r reachable cutoff loose (deleted, bytes, young) s'
            | Inl _ \<Rightarrow> gc_delete del r reachable cutoff loose (deleted, bytes, young) s))"

definition gc_run ::
  "('g, 's) gc_env \<Rightarrow> int \<Rightarrow> nat \<Rightarrow> string \<Rightarrow> 's \<Rightarrow> 'g gc_state \<Rightarrow> (error + gc_result) \<times> 's \<times> 'g gc_state" where
  "gc_run env now min_age repo s st =
     (case preview env repo s st of
        (Inl e, st') \<Rightarrow> (Inl e, s, st')
      | (Inr p, st') \<Rightarrow>
          let cutoff = saturating_sub_i64 now (as_i64 min_age) in
          (case res_bind (repo_id_try_from repo) (\<lambda>r. res_bind (ge_list env s r) (\<lambda>loose. Inr (r, loose))) of
             Inl e \<Rightarrow> (Inl e, s, st')
           | Inr (r, loose) \<Rightarrow>
               (case reachable_oids (ge_git env) (ge_dir env) (gp_network p) (gs_git st') of
                  (Inl e, g) \<Rightarrow> (Inl e, s, st'\<lparr>gs_git := g\<rparr>)
                | (Inr reachable, g) \<Rightarrow>
                    (case gc_delete (ge_delete env) r reachable cutoff loose (0, 0, 0) s of
                       ((deleted, bytes, young), s') \<Rightarrow>
                         (Inr \<lparr>gr_preview = p, gr_deleted = deleted, gr_bytes = bytes, gr_young = young\<rparr>, s', st'\<lparr>gs_git := g\<rparr>)))))"

fun sweep_repos :: "('g, 's) gc_env \<Rightarrow> int \<Rightarrow> nat \<Rightarrow> (string \<times> fs_node) list \<Rightarrow> 's \<Rightarrow> 'g gc_state \<Rightarrow> 's \<times> 'g gc_state" where
  "sweep_repos env now min_age [] s st = (s, st)"
| "sweep_repos env now min_age ((name, node) # entries) s st =
     (if \<not> utf8_valid (as_bytes name) then sweep_repos env now min_age entries s st
      else (case strip_suffix ''.git'' name of
        None \<Rightarrow> sweep_repos env now min_age entries s st
      | Some repo \<Rightarrow>
          (case node of
             FsFile _ \<Rightarrow> sweep_repos env now min_age entries s st
           | FsDir _ \<Rightarrow> (case gc_run env now min_age repo s st of (_, s', st') \<Rightarrow> sweep_repos env now min_age entries s' st'))))"

definition run_sweep :: "('g, 's) gc_env \<Rightarrow> int \<Rightarrow> nat \<Rightarrow> 's \<Rightarrow> 'g gc_state \<Rightarrow> 's \<times> 'g gc_state" where
  "run_sweep env now min_age s st =
     (case ge_tree env of FsDir (Some entries) \<Rightarrow> sweep_repos env now min_age entries s st | _ \<Rightarrow> (s, st))"

declare network_loop.simps [simp del]

section \<open>The network is the connected component\<close>

definition linked :: "mount \<Rightarrow> fs_node \<Rightarrow> string \<Rightarrow> string \<Rightarrow> bool" where
  "linked m t x y = (resolve_source m t x = Some y \<or> fork_edge m t y x)"

lemma network_loop_exact:
  assumes "t = FsDir (Some children)" "cache_ok m mt t cache" "distinct visited" "seed \<in> set visited \<union> set queue"
    and "\<forall>x\<in>set visited \<union> set queue. (linked m t)\<^sup>*\<^sup>* seed x"
    and "\<forall>x\<in>set visited. \<forall>y. linked m t x y \<longrightarrow> y \<in> set visited \<union> set queue"
  shows "\<exists>network cache'. network_loop m mt t queue visited cache = (Inr network, cache') \<and> cache_ok m mt t cache'
    \<and> distinct network \<and> set network = {x. (linked m t)\<^sup>*\<^sup>* seed x}"
  using assms
proof (induction m mt t queue visited cache rule: network_loop.induct)
  case (1 m mt t visited cache)
  have in_visited: "x \<in> set visited" if "(linked m t)\<^sup>*\<^sup>* seed x" for x
    using that
  proof (induction rule: rtranclp_induct)
    case base
    show ?case using "1"(4) by simp
  next
    case (step y z)
    then show ?case using "1"(6) by simp
  qed
  have "set visited = {x. (linked m t)\<^sup>*\<^sup>* seed x}"
  proof (intro set_eqI iffI)
    fix x assume "x \<in> set visited"
    then have "x \<in> set visited \<union> set []" by simp
    with "1"(5) show "x \<in> {x. (linked m t)\<^sup>*\<^sup>* seed x}" by (simp only: mem_Collect_eq)
  qed (rule in_visited, simp only: mem_Collect_eq)
  then have "network_loop m mt t [] visited cache = (Inr visited, cache) \<and> cache_ok m mt t cache \<and> distinct visited
    \<and> set visited = {x. (linked m t)\<^sup>*\<^sup>* seed x}"
    using "1"(2,3) by (simp only: network_loop.simps)
  then show ?case by (intro exI)
next
  case (2 m mt t i queue visited cache)
  show ?case
  proof (cases "i \<in> set visited")
    case True
    have eq: "set visited \<union> set (i # queue) = set visited \<union> set queue" using True by auto
    have "network_loop m mt t (i # queue) visited cache = network_loop m mt t queue visited cache"
      using True by (subst network_loop.simps) simp
    with "2.IH"(1) [OF True "2.prems"(1-3) "2.prems"(4-6) [unfolded eq]] show ?thesis by (simp only:)
  next
    case False
    obtain c1 where l: "alt_lookup m mt t i cache = (resolve_source m t i, c1)" "cache_ok m mt t c1"
      using alt_lookup_ok [OF "2.prems"(2), of i] by (metis prod.collapse)
    obtain c2 where f: "list_forks_of m mt t i c1 = (Inr (forks_of m t i), c2)" "cache_ok m mt t c2"
      using list_forks_of_ok l(2) "2.prems"(1) by blast
    define up where "up = (case resolve_source m t i of None \<Rightarrow> [] | Some p \<Rightarrow> if p \<in> set (i # visited) then [] else [p])"
    define down where "down = filter (\<lambda>child. child \<notin> set (i # visited)) (forks_of m t i)"
    have new: "set (i # visited) \<union> set (rev down @ up @ queue) = insert i (set visited \<union> set queue) \<union> {y. linked m t i y}"
    proof -
      have "set up = {p. resolve_source m t i = Some p} - set (i # visited)"
        unfolding up_def by (cases "resolve_source m t i") auto
      moreover have "set down = {x. fork_edge m t x i} - set (i # visited)"
        by (auto simp only: down_def set_filter forks_edge)
      ultimately show ?thesis by (auto simp only: linked_def set_append set_rev list.set)
    qed
    have "\<exists>network cache'. network_loop m mt t (rev down @ up @ queue) (i # visited) c2 = (Inr network, cache') \<and> cache_ok m mt t cache'
      \<and> distinct network \<and> set network = {x. (linked m t)\<^sup>*\<^sup>* seed x}"
    proof (rule "2.IH"(2) [OF False l(1) [symmetric] f(1) [symmetric] refl up_def down_def "2.prems"(1) f(2)])
      have "(linked m t)\<^sup>*\<^sup>* seed i" using "2.prems"(5) by simp
      then have step: "(linked m t)\<^sup>*\<^sup>* seed y" if "linked m t i y" for y using that by (rule rtranclp.rtrancl_into_rtrancl)
      show "\<forall>x\<in>set (i # visited) \<union> set (rev down @ up @ queue). (linked m t)\<^sup>*\<^sup>* seed x"
        unfolding new using "2.prems"(5) step by auto
      show "\<forall>x\<in>set (i # visited). \<forall>y. linked m t x y \<longrightarrow> y \<in> set (i # visited) \<union> set (rev down @ up @ queue)"
        unfolding new using "2.prems"(6) by auto
      show "seed \<in> set (i # visited) \<union> set (rev down @ up @ queue)" unfolding new using "2.prems"(4) by auto
    qed (use False "2.prems"(3) in simp)
    moreover have "network_loop m mt t (i # queue) visited cache = network_loop m mt t (rev down @ up @ queue) (i # visited) c2"
      by (subst network_loop.simps) (simp only: False l(1) f(1) up_def down_def Let_def prod.case sum.case if_False)
    ultimately show ?thesis by (simp only:)
  qed
qed

lemma network_around_exact:
  assumes "cache_ok m mt (FsDir (Some children)) cache"
  shows "\<exists>network cache'. network_around m mt (FsDir (Some children)) seed cache = (Inr network, cache')
    \<and> cache_ok m mt (FsDir (Some children)) cache'
    \<and> distinct network \<and> set network = {x. (linked m (FsDir (Some children)))\<^sup>*\<^sup>* seed x}"
  unfolding network_around_def by (rule network_loop_exact [OF refl assms]) auto

section \<open>Reading the list of objects\<close>

text \<open>What \<open>git rev-list --objects\<close> prints: one object per line, with its path after a space.\<close>

fun rev_list_line :: "string \<times> string option \<Rightarrow> string" where
  "rev_list_line (oid, None) = oid @ [newline]"
| "rev_list_line (oid, Some path) = oid @ '' '' @ path @ [newline]"

definition listed_ok :: "string \<times> string option \<Rightarrow> bool" where
  "listed_ok e = (oid_ok (fst e) \<and> (\<forall>path. snd e = Some path \<longrightarrow> newline \<notin> set path))"

lemma first_word_oid:
  assumes "oid_ok oid"
  shows "first_word (oid @ rest) = oid @ until_ws rest"
proof -
  have hex: "\<forall>c\<in>set oid. 33 \<le> (of_char c :: nat) \<and> (of_char c :: nat) < 127"
    using assms by (auto simp: oid_ok_def list_all_iff is_hexdigit_def hex_val_def Let_def split: if_splits)
  have ne: "oid \<noteq> []" using assms by (auto simp: oid_ok_def)
  have "trim_start (oid @ rest) = oid @ rest" by (rule trim_start_graphic) (use hex ne in \<open>cases oid; simp\<close>)
  moreover have "until_ws (oid @ rest) = oid @ until_ws rest" using hex
  proof (induction oid)
    case (Cons c oid)
    then have "ws_prefix ((c # oid) @ rest) = 0"
      by (cases "oid @ rest"; cases "tl (oid @ rest)") (auto simp: ws_prefix_def)
    with Cons show ?case by simp
  qed simp
  ultimately show ?thesis by (simp add: first_word_def)
qed


lemma str_lines_cons: "newline \<notin> set p \<Longrightarrow> str_lines (p @ newline # s) = strip_cr p # str_lines s"
  by (cases "split_char newline s") (simp_all add: str_lines_def)

lemma until_ws_blank: "until_ws (CHR '' '' # s) = []"
  by (cases s; cases "tl s") (simp_all add: ws_prefix_def)

lemma oid_ok_chars: "oid_ok s \<Longrightarrow> c \<in> set s \<Longrightarrow> c \<noteq> newline \<and> c \<noteq> CHR 0x0D"
  by (auto simp: oid_ok_def list_all_iff is_hexdigit_def hex_val_def Let_def split: if_splits)

lemma rev_list_oids_listed:
  "list_all listed_ok es \<Longrightarrow> rev_list_oids (concat (map rev_list_line es)) = map fst es"
proof (induction es)
  case (Cons e es)
  obtain oid p where e: "e = (oid, p)" by fastforce
  have ok: "oid_ok oid" "\<And>path. p = Some path \<Longrightarrow> newline \<notin> set path" using Cons.prems by (auto simp: listed_ok_def e)
  obtain body where body: "rev_list_line e = body @ [newline]" "newline \<notin> set body" "first_word (strip_cr body) = oid"
  proof (cases p)
    case None
    have "last oid \<noteq> CHR 0x0D" "oid \<noteq> []"
      using oid_ok_chars [OF ok(1), of "last oid"] ok(1) by (cases oid; simp add: oid_ok_def)+
    then have "strip_cr oid = oid" by (simp add: strip_cr_def)
    with first_word_oid [OF ok(1), of "[]"] None oid_ok_chars [OF ok(1), of newline] show thesis
      by (intro that [of oid]) (auto simp: e)
  next
    case (Some path)
    have "\<exists>path'. strip_cr (oid @ '' '' @ path) = oid @ '' '' @ path'"
      by (cases path rule: rev_cases) (auto simp: strip_cr_def butlast_append)
    with first_word_oid [OF ok(1)] Some oid_ok_chars [OF ok(1), of newline] ok(2) show thesis
      by (intro that [of "oid @ '' '' @ path"]) (auto simp: e until_ws_blank simp del: until_ws.simps)
  qed
  have "length oid = 40 \<and> list_all is_hexdigit oid" using ok(1) by (auto simp: oid_ok_def list_all_iff)
  with Cons body show ?case by (simp add: rev_list_oids_def str_lines_cons e)
qed (simp add: rev_list_oids_def str_lines_def)

section \<open>A deletion loop over any object store\<close>

definition gc_dead :: "string list \<Rightarrow> int \<Rightarrow> loose_info list \<Rightarrow> loose_info list" where
  "gc_dead reachable cutoff loose = filter (\<lambda>i. oid_str (li_oid i) \<notin> set reachable \<and> li_created i \<le> cutoff) loose"

definition gc_young :: "string list \<Rightarrow> int \<Rightarrow> loose_info list \<Rightarrow> loose_info list" where
  "gc_young reachable cutoff loose = filter (\<lambda>i. oid_str (li_oid i) \<notin> set reachable \<and> li_created i > cutoff) loose"

definition without :: "(object_key \<rightharpoonup> u8 list) \<Rightarrow> repo_id \<Rightarrow> oid set \<Rightarrow> object_key \<rightharpoonup> u8 list" where
  "without v r X = (\<lambda>k. if fst k = r \<and> snd k \<in> X then None else v k)"

lemma without_insert: "without (v((r, x) := None)) r X = without v r (insert x X)" "without v r {} = v"
  by (auto simp: without_def fun_eq_iff)

context object_store
begin

lemma gc_delete_exact:
  assumes "invar s" "distinct (map li_oid loose)" "\<forall>i\<in>set loose. oid_wf (li_oid i) \<and> view s (r, li_oid i) \<noteq> None"
  shows "\<exists>s'. gc_delete delete_loose r reachable cutoff loose (d, b, y) s
      = ((d + length (gc_dead reachable cutoff loose), b + sum_list (map li_size (gc_dead reachable cutoff loose)),
          y + length (gc_young reachable cutoff loose)), s')
    \<and> invar s' \<and> view s' = without (view s) r (li_oid ` set (gc_dead reachable cutoff loose))"
  using assms
proof (induction loose arbitrary: d b y s)
  case (Cons i loose)
  consider "oid_str (li_oid i) \<in> set reachable" | "oid_str (li_oid i) \<notin> set reachable" "li_created i > cutoff"
    | "oid_str (li_oid i) \<notin> set reachable" "li_created i \<le> cutoff" by linarith
  then show ?case
  proof cases
    case 2
    with Cons.IH [OF Cons.prems(1), of d b "y + 1"] Cons.prems(2,3) show ?thesis by (simp add: gc_dead_def gc_young_def)
  next
    case 3
    obtain s1 where s1: "delete_loose r (li_oid i) s = Inr (True, s1)" "invar s1" "view s1 = (view s)((r, li_oid i) := None)"
      using delete_ok [of s "li_oid i" r] Cons.prems by auto
    have "\<forall>j\<in>set loose. oid_wf (li_oid j) \<and> view s1 (r, li_oid j) \<noteq> None"
    proof
      fix j assume j: "j \<in> set loose"
      then have "li_oid j \<noteq> li_oid i" using Cons.prems(2) by (metis distinct.simps(2) image_eqI list.map(2) list.set_map)
      with Cons.prems(3) j show "oid_wf (li_oid j) \<and> view s1 (r, li_oid j) \<noteq> None" by (simp add: s1(3))
    qed
    from Cons.IH [OF s1(2) _ this, of "d + 1" "b + li_size i" y] Cons.prems(2) obtain s2 where
      "gc_delete delete_loose r reachable cutoff loose (d + 1, b + li_size i, y) s1
        = ((d + 1 + length (gc_dead reachable cutoff loose), b + li_size i + sum_list (map li_size (gc_dead reachable cutoff loose)),
            y + length (gc_young reachable cutoff loose)), s2)"
      "invar s2" "view s2 = without (view s1) r (li_oid ` set (gc_dead reachable cutoff loose))" by auto
    with 3 s1 show ?thesis by (simp add: gc_dead_def gc_young_def without_insert)
  qed (use Cons.IH [OF Cons.prems(1)] Cons.prems(2,3) in \<open>auto simp: gc_dead_def gc_young_def\<close>)
qed (simp add: gc_dead_def gc_young_def without_insert)

end

section \<open>A pass\<close>

text \<open>What git answers for the members of a network: each prints its objects, in valid UTF-8.\<close>

definition rev_list_text :: "(string \<times> string option) list \<Rightarrow> u8 list" where
  "rev_list_text es = as_bytes (concat (map rev_list_line es))"

definition git_lists :: "'g git \<Rightarrow> string \<Rightarrow> (string \<Rightarrow> (string \<times> string option) list) \<Rightarrow> string set \<Rightarrow> bool" where
  "git_lists git dir objs network =
     (\<forall>n\<in>network. list_all listed_ok (objs n) \<and> utf8_valid (rev_list_text (objs n))
        \<and> (\<forall>g. \<exists>err g'. git (rev_list_objects_all (path_join dir (n @ ''.git''))) None g = (Inr (0, rev_list_text (objs n), err), g')))"

definition live_oids :: "(string \<Rightarrow> (string \<times> string option) list) \<Rightarrow> string set \<Rightarrow> string set" where
  "live_oids objs network = (\<Union>n\<in>network. fst ` set (objs n))"

lemma reachable_oids_exact:
  assumes "git_lists git dir objs network" "set ms \<subseteq> network"
  shows "\<exists>g'. reachable_oids git dir ms g = (Inr (concat (map (\<lambda>a. map fst (objs a)) ms)), g')"
  using assms(2)
proof (induction ms arbitrary: g)
  case (Cons m ms)
  then have m: "list_all listed_ok (objs m)" "utf8_valid (rev_list_text (objs m))"
    and run: "\<exists>err g'. git (rev_list_objects_all (path_join dir (m @ ''.git''))) None g = (Inr (0, rev_list_text (objs m), err), g')"
    using assms(1) unfolding git_lists_def by auto
  from run obtain err g1 where "git (rev_list_objects_all (path_join dir (m @ ''.git''))) None g = (Inr (0, rev_list_text (objs m), err), g1)"
    by blast
  moreover have "from_utf8 (rev_list_text (objs m)) = Some (concat (map rev_list_line (objs m)))"
    using m(2) by (simp add: from_utf8_def rev_list_text_def)
  ultimately have "rev_list_objects git dir m g = (Inr (map fst (objs m)), g1)"
    by (simp add: rev_list_objects_def ok_or_def rev_list_oids_listed [OF m(1)])
  moreover obtain g2 where "reachable_oids git dir ms g1 = (Inr (concat (map (\<lambda>a. map fst (objs a)) ms)), g2)"
    using Cons.IH [of g1] Cons.prems by auto
  ultimately show ?case by simp
qed simp

lemma cutoff_exact: "0 \<le> now \<Longrightarrow> now < 2 ^ 63 \<Longrightarrow> min_age < 2 ^ 63 \<Longrightarrow> saturating_sub_i64 now (as_i64 min_age) = now - int min_age"
  "0 \<le> now \<Longrightarrow> now < 2 ^ 63 \<Longrightarrow> 2 ^ 63 \<le> min_age \<Longrightarrow> min_age < 2 ^ 64 \<Longrightarrow> now \<le> saturating_sub_i64 now (as_i64 min_age)"
  by (simp_all add: saturating_sub_i64_def as_i64_def Let_def)

definition network_of :: "('g, 's) gc_env \<Rightarrow> string \<Rightarrow> string set" where
  "network_of env repo = {x. (linked (ge_mount env) (ge_tree env))\<^sup>*\<^sup>* repo x}"

context object_store
begin

lemma gc_run_exact:
  fixes env :: "('g, 's) gc_env"
  assumes env: "ge_list env = list_loose" "ge_delete env = delete_loose" "ge_tree env = FsDir (Some children)"
    and cache: "cache_ok (ge_mount env) (ge_mtimes env) (ge_tree env) (gs_cache st)"
    and s: "invar s" and r: "repo_id_try_from repo = Inr r"
    and git: "git_lists (ge_git env) (ge_dir env) objs (network_of env repo)"
  shows "\<exists>res s' st' loose. gc_run env now min_age repo s st = (Inr res, s', st') \<and> list_loose s r = Inr loose
    \<and> set (gp_network (gr_preview res)) = network_of env repo
    \<and> gr_deleted res + gr_young res = gp_unreachable (gr_preview res)
    \<and> invar s'
    \<and> view s' = without (view s) r
        (li_oid ` {i \<in> set loose. oid_str (li_oid i) \<notin> live_oids objs (network_of env repo) \<and> li_created i \<le> saturating_sub_i64 now (as_i64 min_age)})"
proof -
  obtain visited c where n: "network_around (ge_mount env) (ge_mtimes env) (ge_tree env) repo (gs_cache st) = (Inr visited, c)"
    "set visited = network_of env repo"
    using network_around_exact [of "ge_mount env" "ge_mtimes env" children "gs_cache st" repo] cache
    unfolding env(3) network_of_def by blast
  define network where "network = remdups_adj (sort visited)"
  have net: "set network = network_of env repo" by (simp add: network_def n(2))
  define reach where "reach = concat (map (\<lambda>a. map fst (objs a)) network)"
  have reach: "set reach = live_oids objs (network_of env repo)"
    unfolding reach_def live_oids_def net [symmetric] by auto
  have oids: "\<exists>g'. reachable_oids (ge_git env) (ge_dir env) network g = (Inr reach, g')" for g
    unfolding reach_def by (rule reachable_oids_exact [OF git]) (simp add: net)
  obtain loose where loose: "list_loose s r = Inr loose" "distinct (map li_oid loose)"
    "\<forall>i\<in>set loose. oid_wf (li_oid i) \<and> map_option length (view s (r, li_oid i)) = Some (li_size i)"
    using list_ok [OF s, of r] by blast
  have present: "\<forall>i\<in>set loose. oid_wf (li_oid i) \<and> view s (r, li_oid i) \<noteq> None"
    using loose(3) by auto
  obtain s' where s': "gc_delete delete_loose r reach (saturating_sub_i64 now (as_i64 min_age)) loose (0, 0, 0) s
      = ((length (gc_dead reach (saturating_sub_i64 now (as_i64 min_age)) loose), sum_list (map li_size (gc_dead reach (saturating_sub_i64 now (as_i64 min_age)) loose)),
          length (gc_young reach (saturating_sub_i64 now (as_i64 min_age)) loose)), s')" "invar s'"
    "view s' = without (view s) r (li_oid ` set (gc_dead reach (saturating_sub_i64 now (as_i64 min_age)) loose))"
    using gc_delete_exact [OF s loose(2) present, of reach "saturating_sub_i64 now (as_i64 min_age)" 0 0 0] by auto
  obtain g1 where g1: "reachable_oids (ge_git env) (ge_dir env) network (gs_git st) = (Inr reach, g1)" using oids by blast
  obtain g2 where g2: "reachable_oids (ge_git env) (ge_dir env) network g1 = (Inr reach, g2)" using oids by blast
  define p where "p = \<lparr>gp_network = network, gp_reachable = length (remdups reach), gp_loose = length loose,
      gp_unreachable = length (filter (\<lambda>i. oid_str (li_oid i) \<notin> set reach) loose),
      gp_bytes = sum_list (map li_size (filter (\<lambda>i. oid_str (li_oid i) \<notin> set reach) loose)),
      gp_sample = map (oid_str \<circ> li_oid) (take SAMPLE_CAP (filter (\<lambda>i. oid_str (li_oid i) \<notin> set reach) loose))\<rparr>"
  have p: "preview env repo s st = (Inr p, \<lparr>gs_cache = c, gs_git = g1\<rparr>)"
    using n(1) g1 r loose(1) by (simp add: preview_def Let_def network_def [symmetric] p_def env(1))
  have run: "gc_run env now min_age repo s st = (Inr \<lparr>gr_preview = p, gr_deleted = length (gc_dead reach (saturating_sub_i64 now (as_i64 min_age)) loose),
      gr_bytes = sum_list (map li_size (gc_dead reach (saturating_sub_i64 now (as_i64 min_age)) loose)),
      gr_young = length (gc_young reach (saturating_sub_i64 now (as_i64 min_age)) loose)\<rparr>, s', \<lparr>gs_cache = c, gs_git = g2\<rparr>)"
    using p g2 r loose(1) s'(1) by (simp add: gc_run_def Let_def env p_def)
  have "length (gc_dead reach k ls) + length (gc_young reach k ls) = length (filter (\<lambda>i. oid_str (li_oid i) \<notin> set reach) ls)" for k ls
    by (induction ls) (auto simp: gc_dead_def gc_young_def)
  moreover have "set (gc_dead reach (saturating_sub_i64 now (as_i64 min_age)) loose)
    = {i \<in> set loose. oid_str (li_oid i) \<notin> live_oids objs (network_of env repo) \<and> li_created i \<le> saturating_sub_i64 now (as_i64 min_age)}"
    by (simp add: gc_dead_def reach)
  ultimately show ?thesis using run loose(1) s'(2,3) by (intro exI conjI) (assumption, simp_all add: p_def net)
qed

end



text \<open>A huge minimum age is no minimum. From 2 to the 63 seconds up the cast to a signed number makes the age
  negative, and a pass also deletes the unreachable objects written in this very second, which the
  guard exists to keep.\<close>

theorem gc_min_age_wraps:
  assumes "ge_list env = fs_list" "ge_delete env = fs_delete" "ge_tree env = FsDir (Some children)"
    and "cache_ok (ge_mount env) (ge_mtimes env) (ge_tree env) (gs_cache st)"
    and "fs_invar s" "repo_id_try_from repo = Inr r"
    and "git_lists (ge_git env) (ge_dir env) objs (network_of env repo)"
    and "0 \<le> now" "now < 2 ^ 63" "2 ^ 63 \<le> min_age" "min_age < 2 ^ 64"
  shows "\<exists>res s' st' loose. gc_run env now min_age repo s st = (Inr res, s', st') \<and> fs_list s r = Inr loose
    \<and> (\<forall>i\<in>set loose. oid_str (li_oid i) \<notin> live_oids objs (network_of env repo) \<longrightarrow> li_created i \<le> now
        \<longrightarrow> fs_view s' (r, li_oid i) = None)"
proof -
  obtain res s' st' loose where run: "gc_run env now min_age repo s st = (Inr res, s', st')" "fs_list s r = Inr loose"
    "fs_view s' = without (fs_view s) r
        (li_oid ` {i \<in> set loose. oid_str (li_oid i) \<notin> live_oids objs (network_of env repo)
           \<and> li_created i \<le> saturating_sub_i64 now (as_i64 min_age)})"
    using fs.gc_run_exact [OF assms(1-7), of now min_age] by blast
  have "fs_view s' (r, li_oid i) = None"
    if "i \<in> set loose" "oid_str (li_oid i) \<notin> live_oids objs (network_of env repo)" "li_created i \<le> now" for i
    using that cutoff_exact(2) [OF assms(8-11)] unfolding run(3) without_def by auto
  with run(1,2) show ?thesis by blast
qed



text \<open>A source with one live object and one that nothing reaches, and its fork.\<close>

definition dead_oid :: oid where
  "dead_oid = Oid ''0000000000000000000000000000000000000001''"

definition sample_objects :: fs_store where
  "sample_objects =
     [((''demo'', take 2 (oid_str sample_oid), drop 2 (oid_str sample_oid)), \<lparr>ff_bytes = [1], ff_mtime = 10\<rparr>),
      ((''demo'', take 2 (oid_str dead_oid), drop 2 (oid_str dead_oid)), \<lparr>ff_bytes = [2, 3], ff_mtime = 10\<rparr>)]"

definition sample_listing :: "(string \<times> string option) list" where
  "sample_listing = [(oid_str sample_oid, Some ''src'')]"

definition sample_gc_env :: "proc_output \<Rightarrow> (unit, fs_store) gc_env" where
  "sample_gc_env out = \<lparr>ge_mount = sample_mount, ge_dir = ''/srv'', ge_mtimes = (\<lambda>_. 7),
     ge_tree = FsDir (Some [sample_fork, sample_source]), ge_git = (\<lambda>cmd inp g. (Inr out, g)),
     ge_list = fs_list, ge_delete = fs_delete\<rparr>"

lemma dead_oid_wf: "oid_wf dead_oid"
  by (simp add: dead_oid_def oid_ok_def is_hexdigit_def is_upper_def hex_val_def Let_def)

lemma sample_listing_ok: "list_all listed_ok sample_listing" "utf8_valid (rev_list_text sample_listing)"
proof -
  show "list_all listed_ok sample_listing" using sample_oid_wf by (simp add: sample_listing_def listed_ok_def)
  have "ascii (concat (map rev_list_line sample_listing))"
    by (simp add: sample_listing_def sample_oid_def ascii_def)
  then show "utf8_valid (rev_list_text sample_listing)" unfolding rev_list_text_def by (rule utf8_valid_ascii)
qed

lemma sample_gc_facts:
  "cache_ok (ge_mount (sample_gc_env out)) (ge_mtimes (sample_gc_env out)) (ge_tree (sample_gc_env out)) []"
  "fs_invar sample_objects" "repo_id_try_from ''demo'' = Inr (RepoId ''demo'')"
  "git_lists (ge_git (sample_gc_env (0, rev_list_text sample_listing, []))) ''/srv'' (\<lambda>_. sample_listing) network"
  "''copy'' \<in> network_of (sample_gc_env out) ''demo''"
proof -
  show "cache_ok (ge_mount (sample_gc_env out)) (ge_mtimes (sample_gc_env out)) (ge_tree (sample_gc_env out)) []"
    by (simp add: cache_ok_def)
  show "fs_invar sample_objects" by (simp add: fs_invar_def sample_objects_def dead_oid_def sample_oid_def)
  show "repo_id_try_from ''demo'' = Inr (RepoId ''demo'')" by code_simp
  show "git_lists (ge_git (sample_gc_env (0, rev_list_text sample_listing, []))) ''/srv'' (\<lambda>_. sample_listing) network"
    by (simp add: git_lists_def sample_gc_env_def sample_listing_ok)
  have "linked sample_mount (FsDir (Some [sample_fork, sample_source])) ''demo'' ''copy''"
    using sample_edge by (simp add: linked_def)
  then show "''copy'' \<in> network_of (sample_gc_env out) ''demo''"
    by (auto simp: network_of_def sample_gc_env_def)
qed

lemma sample_loose: "fs_list sample_objects (RepoId ''demo'')
    = Inr [\<lparr>li_oid = sample_oid, li_size = 1, li_created = 10\<rparr>, \<lparr>li_oid = dead_oid, li_size = 2, li_created = 10\<rparr>]"
  using sample_oid_wf dead_oid_wf by (simp add: fs_list_def fs_list_files_eq sample_objects_def) (simp add: sample_oid_def dead_oid_def)

lemma sample_live: "live_oids (\<lambda>_. sample_listing) (network_of (sample_gc_env out) ''demo'') = {oid_str sample_oid}"
  using sample_gc_facts(5) [of out] by (auto simp: live_oids_def sample_listing_def)

lemma sample_distinct: "dead_oid \<noteq> sample_oid" "oid_str dead_oid \<noteq> oid_str sample_oid"
  by (simp_all add: dead_oid_def sample_oid_def)

lemma sample_view: "fs_view sample_objects (RepoId ''demo'', sample_oid) = Some [1]"
  using sample_oid_wf by (simp add: fs_view_def sample_objects_def)


theorem gc_min_age_wraps_witness:
  "\<exists>res s' st'. gc_run (sample_gc_env (0, rev_list_text sample_listing, [])) 10 (2 ^ 63) ''demo'' sample_objects \<lparr>gs_cache = [], gs_git = ()\<rparr>
       = (Inr res, s', st')
     \<and> fs_view s' (RepoId ''demo'', dead_oid) = None"
proof -
  let ?env = "sample_gc_env (0, rev_list_text sample_listing, [])"
  have "\<exists>res s' st' loose. gc_run ?env 10 (2 ^ 63) ''demo'' sample_objects \<lparr>gs_cache = [], gs_git = ()\<rparr> = (Inr res, s', st')
    \<and> fs_list sample_objects (RepoId ''demo'') = Inr loose
    \<and> (\<forall>i\<in>set loose. oid_str (li_oid i) \<notin> live_oids (\<lambda>_. sample_listing) (network_of ?env ''demo'') \<longrightarrow> li_created i \<le> 10
        \<longrightarrow> fs_view s' (RepoId ''demo'', li_oid i) = None)"
    by (rule gc_min_age_wraps [where children = "[sample_fork, sample_source]"])
      (use sample_gc_facts in \<open>simp_all add: sample_gc_env_def\<close>)
  then show ?thesis
    by (simp add: sample_loose sample_live sample_distinct)
qed


section \<open>A stale cache loses objects\<close>

text \<open>The fork's listing comes only with its own command line.\<close>

definition fork_git :: "unit git" where
  "fork_git cmd inp g =
     (Inr (0, (if cmd = rev_list_objects_all ''/srv/copy.git'' then rev_list_text sample_listing else []), []), g)"

definition stale_gc_env :: "(unit, fs_store) gc_env" where
  "stale_gc_env = (sample_gc_env (0, [], []))\<lparr>ge_git := fork_git\<rparr>"

definition stale_cache :: alt_cache where
  "stale_cache = snd (alt_lookup sample_mount (\<lambda>_. 7) (FsDir (Some [sample_fork])) ''copy'' [])"

lemma stale_cache: "stale_cache = [(''copy'', \<lparr>ae_mtime = Some 7, ae_source = None\<rparr>)]"
  by (simp add: stale_cache_def alt_lookup_def alt_mtime_def Let_def sample_fork_alt sample_orphan)

lemma stale_network:
  "\<exists>c. network_around sample_mount (\<lambda>_. 7) (FsDir (Some [sample_fork, sample_source])) ''demo'' stale_cache = (Inr [''demo''], c)"
proof -
  let ?t = "FsDir (Some [sample_fork, sample_source])"
  have no: "fs_lookup ?t (alternates_path ''demo'') = None"
    by (simp add: alternates_path_def sample_fork_def sample_source_def bare_layout_def)
  have "resolve_source sample_mount ?t ''demo'' = None" by (simp add: resolve_source_def no)
  then obtain c where c: "alt_lookup sample_mount (\<lambda>_. 7) ?t ''demo'' stale_cache = (None, c)"
    "map_of c ''copy'' = Some \<lparr>ae_mtime = Some 7, ae_source = None\<rparr>"
    by (simp add: alt_lookup_def alt_mtime_def no stale_cache Let_def)
  have copy: "alt_lookup sample_mount (\<lambda>_. 7) ?t ''copy'' c = (None, c)"
    by (simp add: alt_lookup_def alt_mtime_def c(2) Let_def sample_fork_alt)
  have "utf8_valid (as_bytes ''copy.git'')" "utf8_valid (as_bytes ''demo.git'')"
    by (rule utf8_valid_ascii, simp add: ascii_def)+
  then have "list_forks_of sample_mount (\<lambda>_. 7) ?t ''demo'' c = (Inr [], c)"
    using copy by (simp add: list_forks_of_def sample_fork_def sample_source_def ends_with_iff Let_def del: as_bytes_simps)
  with c(1) show ?thesis by (simp add: network_around_def network_loop.simps)
qed

text \<open>A stale cache loses the objects of a fork. With the cache as the lookup of the fork left it while its source was
  gone, a pass over the source created again does not ask the fork: an object that the fork's refs
  reach, old enough, is deleted from the store that the fork borrows from.\<close>

theorem gc_stale_cache_loses:
  "\<exists>res s' st'. gc_run stale_gc_env 7210 7200 ''demo'' sample_objects \<lparr>gs_cache = stale_cache, gs_git = ()\<rparr> = (Inr res, s', st')
     \<and> ''copy'' \<in> network_of stale_gc_env ''demo'' \<and> oid_str sample_oid \<in> set (rev_list_oids (concat (map rev_list_line sample_listing)))
     \<and> fs_view sample_objects (RepoId ''demo'', sample_oid) = Some [1] \<and> fs_view s' (RepoId ''demo'', sample_oid) = None"
proof -
  obtain c where n: "network_around sample_mount (\<lambda>_. 7) (FsDir (Some [sample_fork, sample_source])) ''demo'' stale_cache = (Inr [''demo''], c)"
    using stale_network by blast
  have ne: "rev_list_objects_all ''/srv/demo.git'' \<noteq> rev_list_objects_all ''/srv/copy.git''"
    by (simp add: rev_list_objects_all_def git_cmd_def)
  have "path_join ''/srv'' (''demo'' @ ''.git'') = ''/srv/demo.git''" by code_simp
  moreover have "rev_list_oids [] = []" by code_simp
  ultimately have reach: "reachable_oids fork_git ''/srv'' [''demo''] g = (Inr [], g)" for g
    using ne by (simp add: rev_list_objects_def fork_git_def ok_or_def from_utf8_def str_of_bytes_def)
  define s' where "s' = snd (gc_delete fs_delete (RepoId ''demo'') [] 10
      [\<lparr>li_oid = sample_oid, li_size = 1, li_created = 10\<rparr>, \<lparr>li_oid = dead_oid, li_size = 2, li_created = 10\<rparr>] (0, 0, 0) sample_objects)"
  have "\<exists>res st'. gc_run stale_gc_env 7210 7200 ''demo'' sample_objects \<lparr>gs_cache = stale_cache, gs_git = ()\<rparr> = (Inr res, s', st')"
    using n reach cutoff_exact(1) [of 7210 7200]
    by (simp add: gc_run_def preview_def Let_def stale_gc_env_def sample_gc_env_def sample_gc_facts(3) sample_loose s'_def
        split: prod.splits)
  moreover have "fs_view s' (RepoId ''demo'', sample_oid) = None"
  proof -
    let ?loose = "[\<lparr>li_oid = sample_oid, li_size = 1, li_created = 10\<rparr>, \<lparr>li_oid = dead_oid, li_size = 2, li_created = 10\<rparr>]"
    have "\<forall>i\<in>set ?loose. oid_wf (li_oid i) \<and> fs_view sample_objects (RepoId ''demo'', li_oid i) \<noteq> None"
      using sample_oid_wf dead_oid_wf by (auto simp: fs_view_def sample_objects_def)
    moreover have "distinct (map li_oid ?loose)" using sample_distinct by simp
    ultimately have "fs_view s' = without (fs_view sample_objects) (RepoId ''demo'') (li_oid ` set (gc_dead [] 10 ?loose))"
      unfolding s'_def using fs.gc_delete_exact [OF sample_gc_facts(2), of ?loose "RepoId ''demo''" "[]" 10 0 0 0] by auto
    then show ?thesis by (simp add: without_def gc_dead_def)
  qed
  moreover have "''copy'' \<in> network_of stale_gc_env ''demo''"
    using sample_gc_facts(5) [of "(0, [], [])"] by (simp add: network_of_def stale_gc_env_def)
  ultimately show ?thesis
    using rev_list_oids_listed [OF sample_listing_ok(1)] sample_view by (auto simp: sample_listing_def)
qed

end
