(* ===== verification/RestBase.thy ===== *)
theory RestBase
  imports Forks Delivery Auth Ownership RateLimit AuditLog
begin

text \<open>
  What the REST handlers share: the configuration (\<open>src/config.rs\<close>), the state of the server and the
  helpers of \<open>src/rest.rs\<close>. A handler is a function from the state to its answer and the next state; the
  libraries, the clock and the random source are the fields of an environment and of a draw. The
  databases themselves do not fail here.
\<close>

section \<open>Configuration\<close>

record config =
  cf_public_base_url :: string
  cf_admin_token :: string
  cf_jwt_secret :: "string option"
  cf_jwt_aud :: "string option"
  cf_jwt_iss :: "string option"
  cf_max_repos :: nat
  cf_max_commit_blob :: nat
  cf_max_repo_bytes :: nat
  cf_write_check :: bool
  cf_private_targets :: bool

definition config_new ::
  "string \<Rightarrow> string \<Rightarrow> string option \<Rightarrow> string option \<Rightarrow> string option \<Rightarrow> nat \<Rightarrow> nat \<Rightarrow> nat \<Rightarrow> bool \<Rightarrow> config" where
  "config_new base admin secret aud iss max_repos max_blob max_bytes write_check =
     \<lparr>cf_public_base_url = base, cf_admin_token = admin, cf_jwt_secret = secret, cf_jwt_aud = aud, cf_jwt_iss = iss,
      cf_max_repos = max_repos, cf_max_commit_blob = max_blob, cf_max_repo_bytes = max_bytes,
      cf_write_check = write_check, cf_private_targets = False\<rparr>"

definition with_webhook_allow_private_targets :: "bool \<Rightarrow> config \<Rightarrow> config" where
  "with_webhook_allow_private_targets allow cfg = cfg\<lparr>cf_private_targets := allow\<rparr>"

definition rotate_admin_token :: "string \<Rightarrow> config \<Rightarrow> config" where
  "rotate_admin_token new cfg = cfg\<lparr>cf_admin_token := new\<rparr>"

definition rotate_jwt_secret :: "string option \<Rightarrow> config \<Rightarrow> config" where
  "rotate_jwt_secret new cfg = cfg\<lparr>cf_jwt_secret := new\<rparr>"

section \<open>The state\<close>

text \<open>The values of \<open>serde_json\<close> that the handlers build.\<close>

datatype json_value = JNull | JBool bool | JNum nat | JStr string | JArr "json_value list" | JObj "(string \<times> json_value) list"

text \<open>Parameters: the JWT decoder, the digest, the ciphers with base64, the codecs, \<open>gix\<close> and the place of the
  repos. The two key paths are those of the deployment, relative to the data directory.\<close>

record rest_env =
  re_decode :: jwt_decoder
  re_sha256 :: "u8 list \<Rightarrow> u8 list"
  re_crypto :: crypto
  re_json :: json
  re_value :: "json_value \<Rightarrow> string"
  re_b64_url :: "u8 list \<Rightarrow> string"
  re_gix :: gix_list
  re_mount :: mount
  re_budgets :: "limit_class \<Rightarrow> budget"
  re_hook_path :: "string list option"
  re_jwt_path :: "string list option"

text \<open>What one request draws: the wall clock in seconds and in milliseconds, the limiter's clock, the bytes and
  choices of the random source, the UUID of a new row, and the time stamps of the alternates files.\<close>

record draw =
  dw_now :: nat
  dw_ms :: int
  dw_tick :: rat
  dw_token :: "u8 list"
  dw_id :: "nat list"
  dw_uuid :: string
  dw_nonces :: "nat \<Rightarrow> u8 list"
  dw_mtimes :: "string \<Rightarrow> nat"

text \<open>\<open>rs_data\<close> is the data directory with the key files, \<open>rs_io\<close> the directory of the repos, \<open>rs_bus\<close> the events sent.\<close>

record rest_state =
  rs_cfg :: config
  rs_io :: io_world
  rs_data :: io_world
  rs_owners :: "repos_row list"
  rs_cache :: alt_cache
  rs_tokens :: "token_row list"
  rs_limits :: subject_buckets
  rs_audit :: audit_store
  rs_hooks :: registry
  rs_bus :: "event list"
  rs_draining :: bool

type_synonym 'a rest = "rest_state \<Rightarrow> (error + 'a) \<times> rest_state"

definition rest_bind :: "'a rest \<Rightarrow> ('a \<Rightarrow> 'b rest) \<Rightarrow> 'b rest" where
  "rest_bind a f st = (case a st of (Inl e, st') \<Rightarrow> (Inl e, st') | (Inr x, st') \<Rightarrow> f x st')"

definition rest_return :: "'a \<Rightarrow> 'a rest" where
  "rest_return x st = (Inr x, st)"

definition rest_fail :: "error \<Rightarrow> 'a rest" where
  "rest_fail e st = (Inl e, st)"

text \<open>A reading of the state, and an update of it.\<close>

definition rest_get :: "(rest_state \<Rightarrow> error + 'a) \<Rightarrow> 'a rest" where
  "rest_get f st = (f st, st)"

definition rest_put :: "(rest_state \<Rightarrow> rest_state) \<Rightarrow> unit rest" where
  "rest_put f st = (Inr (), f st)"

definition rest_io :: "'a io \<Rightarrow> 'a rest" where
  "rest_io prog st = (case prog (rs_io st) of (r, w) \<Rightarrow> (r, st\<lparr>rs_io := w\<rparr>))"

lemma rest_bind_Inr: "a st = (Inr x, st') \<Longrightarrow> rest_bind a f st = f x st'"
  and rest_bind_Inl: "a st = (Inl e, st') \<Longrightarrow> rest_bind a f st = (Inl e, st')"
  by (simp_all add: rest_bind_def)

lemma rest_bind_InlE:
  assumes "rest_bind a f st = (Inl e, st')"
  obtains (first) "a st = (Inl e, st')" | (second) x st1 where "a st = (Inr x, st1)" "f x st1 = (Inl e, st')"
  using assms by (auto simp: rest_bind_def split: prod.splits sum.splits)

lemma rest_bind_InrE:
  assumes "rest_bind a f st = (Inr y, st')"
  obtains x st1 where "a st = (Inr x, st1)" "f x st1 = (Inr y, st')"
  using assms by (auto simp: rest_bind_def split: prod.splits sum.splits)

section \<open>Helpers of the handlers\<close>

definition authenticate :: "rest_env \<Rightarrow> header \<Rightarrow> principal rest" where
  "authenticate env h = rest_get (\<lambda>st. authorize_rest (re_decode env) h (cf_admin_token (rs_cfg st))
     (cf_jwt_secret (rs_cfg st)) (cf_jwt_aud (rs_cfg st)) (cf_jwt_iss (rs_cfg st)))"

definition require_admin :: "rest_env \<Rightarrow> header \<Rightarrow> unit rest" where
  "require_admin env h = rest_bind (authenticate env h) (\<lambda>p.
     if p \<noteq> Admin then rest_fail (Forbidden ''admin inspection endpoints require admin auth'') else rest_return ())"

definition throttle :: "rest_env \<Rightarrow> draw \<Rightarrow> principal \<Rightarrow> limit_class \<Rightarrow> unit rest" where
  "throttle env d p c st =
     (case limiter_check (re_budgets env) (dw_tick d) p c (rs_limits st) of (r, limits) \<Rightarrow> (r, st\<lparr>rs_limits := limits\<rparr>))"

definition known_repo :: "string \<Rightarrow> repo_id rest" where
  "known_repo i = rest_get (\<lambda>st. res_bind (repo_id_try_from i) (\<lambda>r.
     if repo_exists r (io_tree (rs_io st)) then Inr r else Inl (RepoNotFound i)))"

definition owner_only :: "principal \<Rightarrow> string \<Rightarrow> unit rest" where
  "owner_only p i = rest_get (\<lambda>st. enforce_owner p i (rs_owners st))"

definition typed_subject :: "principal \<Rightarrow> error + subject option" where
  "typed_subject p = (case principal_subject p of None \<Rightarrow> Inr None | Some s \<Rightarrow> map_sum id Some (subject_try_from s))"

definition audit :: "rest_env \<Rightarrow> draw \<Rightarrow> string \<Rightarrow> string \<Rightarrow> repo_id option \<Rightarrow> json_value \<Rightarrow> unit rest" where
  "audit env d event actor repo info =
     rest_put (\<lambda>st. st\<lparr>rs_audit := audit_emit (re_sha256 env) (int (dw_now d)) event actor repo (re_value env info) None (rs_audit st)\<rparr>)"

definition publish :: "rest_env \<Rightarrow> draw \<Rightarrow> event \<Rightarrow> unit rest" where
  "publish env d ev = rest_put (\<lambda>st.
     (case publish_event (re_crypto env) (re_json env) (int (dw_now d)) ev (Some (rs_hooks st), rs_bus st) of
        (Some reg, bus) \<Rightarrow> st\<lparr>rs_hooks := reg, rs_bus := bus\<rparr>
      | (None, bus) \<Rightarrow> st\<lparr>rs_bus := bus\<rparr>))"

definition trim_slashes :: "string \<Rightarrow> string" where
  "trim_slashes s = rev (dropWhile (\<lambda>c. c = CHR ''/'') (rev s))"

definition remote_url :: "config \<Rightarrow> string \<Rightarrow> token \<Rightarrow> string" where
  "remote_url cfg i token =
     (let base = trim_slashes (cf_public_base_url cfg) in
      case strip_prefix ''https://'' base of
        Some rest \<Rightarrow> ''https://x:'' @ token_str token @ ''@'' @ rest @ ''/git/'' @ i @ ''.git''
      | None \<Rightarrow>
          (case strip_prefix ''http://'' base of
             Some rest \<Rightarrow> ''http://x:'' @ token_str token @ ''@'' @ rest @ ''/git/'' @ i @ ''.git''
           | None \<Rightarrow> base @ ''/git/'' @ i @ ''.git''))"

text \<open>\<open>choices\<close> are the draws of \<open>gen_range\<close>, each below 36.\<close>

definition ID_CHARS :: string where
  "ID_CHARS = ''abcdefghijklmnopqrstuvwxyz0123456789''"

definition new_repo_id :: "nat list \<Rightarrow> string" where
  "new_repo_id choices = map (\<lambda>k. ID_CHARS ! k) choices"

definition choices_ok :: "nat list \<Rightarrow> bool" where
  "choices_ok choices = (length choices = 24 \<and> list_all (\<lambda>k. k < length ID_CHARS) choices)"

lemma new_repo_id_valid: "choices_ok choices \<Longrightarrow> repo_id_ok (new_repo_id choices)"
proof -
  assume ok: "choices_ok choices"
  have all: "list_all (\<lambda>c. is_lower c \<or> is_digit c) ID_CHARS" by code_simp
  have "is_lower c \<or> is_digit c" if "c \<in> set (new_repo_id choices)" for c
  proof -
    from that ok have "c \<in> set ID_CHARS" by (auto simp: new_repo_id_def choices_ok_def list_all_iff)
    with all show ?thesis by (auto simp only: list_all_iff)
  qed
  then show ?thesis using ok by (auto simp: repo_id_ok_def list_all_iff new_repo_id_def choices_ok_def)
qed

end
