(* ===== verification/RestRepos.thy ===== *)
theory RestRepos
  imports RestBase
begin

text \<open>
  The handlers of \<open>src/rest/repos.rs\<close>, statement by statement in the code's order: authentication, rate limit,
  checks, the operation, the owner table, the token, the audit row and the event.
\<close>

section \<open>Creation\<close>

record repo_handle =
  rh_id :: string
  rh_remote :: string
  rh_token :: token

text \<open>The body's id was validated when it was decoded; without one an id is drawn.\<close>

definition chosen_id :: "draw \<Rightarrow> repo_id option \<Rightarrow> repo_id rest" where
  "chosen_id d body =
     rest_get (\<lambda>_. case body of Some r \<Rightarrow> Inr r | None \<Rightarrow> repo_id_try_from (new_repo_id (dw_id d)))"

definition quota_check :: "principal \<Rightarrow> unit rest" where
  "quota_check p = rest_get (\<lambda>st. check_repo_quota p (cf_max_repos (rs_cfg st)) (rs_owners st))"

definition take_ownership :: "draw \<Rightarrow> repo_id \<Rightarrow> subject option \<Rightarrow> unit rest" where
  "take_ownership d r owner = rest_put (\<lambda>st. st\<lparr>rs_owners := record_owner (int (dw_now d)) r owner (rs_owners st)\<rparr>)"

definition mint_new :: "rest_env \<Rightarrow> draw \<Rightarrow> repo_id \<Rightarrow> scope \<Rightarrow> nat option \<Rightarrow> subject option \<Rightarrow> token rest" where
  "mint_new env d r scope ttl subject st =
     (case mint (re_sha256 env) (dw_now d) (random_token (re_b64_url env) (dw_token d)) r scope ttl subject (rs_tokens st) of
        Inl e \<Rightarrow> (Inl e, st)
      | Inr (token, rows) \<Rightarrow> (Inr token, st\<lparr>rs_tokens := rows\<rparr>))"

definition handle_of :: "string \<Rightarrow> token \<Rightarrow> repo_handle rest" where
  "handle_of i token = rest_get (\<lambda>st. Inr \<lparr>rh_id = i, rh_remote = remote_url (rs_cfg st) i token, rh_token = token\<rparr>)"

definition rest_create :: "rest_env \<Rightarrow> draw \<Rightarrow> header \<Rightarrow> repo_id option \<Rightarrow> repo_handle rest" where
  "rest_create env d h body =
     rest_bind (authenticate env h) (\<lambda>p.
     rest_bind (throttle env d p CCreate) (\<lambda>_.
     rest_bind (quota_check p) (\<lambda>_.
     rest_bind (chosen_id d body) (\<lambda>r.
     rest_bind (rest_io (create_repo r)) (\<lambda>_.
     rest_bind (rest_get (\<lambda>_. typed_subject p)) (\<lambda>owner.
     rest_bind (take_ownership d r owner) (\<lambda>_.
     rest_bind (mint_new env d r Write None owner) (\<lambda>token.
     rest_bind (audit env d ''repo.create'' (audit_label p) (Some r) (JObj [])) (\<lambda>_.
     rest_bind (publish env d (StatusEvent (repo_str r) ''unknown'' ''idle'' (dw_ms d))) (\<lambda>_.
     handle_of (repo_str r) token))))))))))"

section \<open>Forks\<close>

record fork_body =
  fb_id :: "repo_id option"
  fb_read_only :: bool

definition fork_body_or_default :: "fork_body option \<Rightarrow> repo_id option \<times> bool" where
  "fork_body_or_default body = (case body of None \<Rightarrow> (None, False) | Some b \<Rightarrow> (fb_id b, fb_read_only b))"

definition rest_fork :: "rest_env \<Rightarrow> draw \<Rightarrow> header \<Rightarrow> string \<Rightarrow> fork_body option \<Rightarrow> repo_handle rest" where
  "rest_fork env d h source_id body =
     rest_bind (authenticate env h) (\<lambda>p.
     rest_bind (throttle env d p CCreate) (\<lambda>_.
     rest_bind (known_repo source_id) (\<lambda>source.
     rest_bind (owner_only p source_id) (\<lambda>_.
     rest_bind (quota_check p) (\<lambda>_.
     case fork_body_or_default body of (fork_id, read_only) \<Rightarrow>
     rest_bind (chosen_id d fork_id) (\<lambda>r.
     rest_bind (rest_io (fork_repo (mount_text (re_mount env)) (re_gix env) source r)) (\<lambda>_.
     rest_bind (rest_get (\<lambda>_. typed_subject p)) (\<lambda>owner.
     rest_bind (take_ownership d r owner) (\<lambda>_.
     rest_bind (mint_new env d r (if read_only then Read else Write) None owner) (\<lambda>token.
     rest_bind (audit env d ''repo.fork'' (audit_label p) (Some r)
       (JObj [(''source_id'', JStr source_id), (''read_only'', JBool read_only)])) (\<lambda>_.
     rest_bind (publish env d (ForkEvent source_id (repo_str r) (dw_ms d))) (\<lambda>_.
     handle_of (repo_str r) token))))))))))))"

section \<open>Deletion\<close>

text \<open>The operations that read the tree through the cache.\<close>

definition rest_cached ::
  "(fs_node \<Rightarrow> alt_cache \<Rightarrow> (error + 'a) \<times> alt_cache) \<Rightarrow> 'a rest" where
  "rest_cached f st = (case f (io_tree (rs_io st)) (rs_cache st) of (r, cache) \<Rightarrow> (r, st\<lparr>rs_cache := cache\<rparr>))"

definition delete_one :: "repo_id \<Rightarrow> string \<Rightarrow> unit rest" where
  "delete_one r i =
     rest_bind (rest_io (delete_repo r)) (\<lambda>_.
       rest_put (\<lambda>st. st\<lparr>rs_owners := owner_delete r (rs_owners st), rs_cache := alt_invalidate i (rs_cache st)\<rparr>))"

fun owns_all :: "principal \<Rightarrow> string \<Rightarrow> string list \<Rightarrow> unit rest" where
  "owns_all p i [] = rest_return ()"
| "owns_all p i (dep # deps) =
     rest_bind (if dep \<noteq> i then owner_only p dep else rest_return ()) (\<lambda>_. owns_all p i deps)"

fun delete_chain :: "string list \<Rightarrow> string list rest" where
  "delete_chain [] = rest_return []"
| "delete_chain (dep # deps) =
     rest_bind (rest_get (\<lambda>_. repo_id_try_from dep)) (\<lambda>r.
     rest_bind (delete_one r dep) (\<lambda>_.
     rest_bind (delete_chain deps) (\<lambda>deleted. rest_return (dep # deleted))))"

definition delete_cascade :: "rest_env \<Rightarrow> draw \<Rightarrow> principal \<Rightarrow> string \<Rightarrow> repo_id \<Rightarrow> json_value rest" where
  "delete_cascade env d p i r =
     rest_bind (rest_cached (\<lambda>t. cascade_delete_order (re_mount env) (dw_mtimes d) t i)) (\<lambda>order.
     rest_bind (owns_all p i order) (\<lambda>_.
     rest_bind (delete_chain order) (\<lambda>deleted.
     rest_bind (audit env d ''repo.delete'' (audit_label p) (Some r)
       (JObj [(''mode'', JStr ''cascade''), (''count'', JNum (length deleted)), (''deleted'', JArr (map JStr deleted))])) (\<lambda>_.
     rest_return (JObj [(''ok'', JBool True), (''deleted'', JArr (map JStr deleted))])))))"

definition delete_plain :: "rest_env \<Rightarrow> draw \<Rightarrow> principal \<Rightarrow> string \<Rightarrow> repo_id \<Rightarrow> bool \<Rightarrow> json_value rest" where
  "delete_plain env d p i r force =
     rest_bind (rest_cached (\<lambda>t. list_forks_of (re_mount env) (dw_mtimes d) t i)) (\<lambda>forks.
     rest_bind (if forks \<noteq> [] \<and> \<not> force then rest_fail (ForkDependency i forks) else rest_return ()) (\<lambda>_.
     rest_bind (delete_one r i) (\<lambda>_.
     rest_bind (audit env d ''repo.delete'' (audit_label p) (Some r)
       (JObj [(''mode'', JStr (if force then ''force'' else ''default''))])) (\<lambda>_.
     rest_return (JObj [(''ok'', JBool True)])))))"

definition BOTH_FLAGS :: string where
  "BOTH_FLAGS = ''force and cascade are mutually exclusive '' @ [CHR 0xE2, CHR 0x80, CHR 0x94] @ '' pick one''"

definition rest_delete :: "rest_env \<Rightarrow> draw \<Rightarrow> header \<Rightarrow> string \<Rightarrow> bool option \<Rightarrow> bool option \<Rightarrow> json_value rest" where
  "rest_delete env d h i force_q cascade_q =
     rest_bind (authenticate env h) (\<lambda>p.
     rest_bind (throttle env d p CDefault) (\<lambda>_.
     rest_bind (owner_only p i) (\<lambda>_.
     rest_bind (rest_get (\<lambda>_. repo_id_try_from i)) (\<lambda>r.
     let force = (force_q = Some True); cascade = (cascade_q = Some True) in
     if force \<and> cascade then rest_fail (BadRequest (BadOther BOTH_FLAGS))
     else if cascade then delete_cascade env d p i r
     else delete_plain env d p i r force))))"

section \<open>Lists\<close>

record repo_summary =
  rm_id :: repo_id
  rm_owner :: "subject option"
  rm_created :: int
  rm_source :: "string option"

definition LIST_REPOS_DEFAULT_LIMIT :: nat where "LIST_REPOS_DEFAULT_LIMIT = 1000"
definition LIST_REPOS_MAX_LIMIT :: nat where "LIST_REPOS_MAX_LIMIT = 5000"

definition page_limit :: "nat option \<Rightarrow> nat" where
  "page_limit q = min (case q of None \<Rightarrow> LIST_REPOS_DEFAULT_LIMIT | Some n \<Rightarrow> n) LIST_REPOS_MAX_LIMIT"

definition page_offset :: "nat option \<Rightarrow> nat" where
  "page_offset q = (case q of None \<Rightarrow> 0 | Some n \<Rightarrow> n)"

fun summaries :: "mount \<Rightarrow> (string \<Rightarrow> nat) \<Rightarrow> fs_node \<Rightarrow> repo_row list \<Rightarrow> alt_cache \<Rightarrow> repo_summary list \<times> alt_cache" where
  "summaries m mt t [] cache = ([], cache)"
| "summaries m mt t (row # rows) cache =
     (case alt_lookup m mt t (repo_str (ro_id row)) cache of
        (source, cache') \<Rightarrow>
          (case summaries m mt t rows cache' of
             (out, cache'') \<Rightarrow>
               (\<lparr>rm_id = ro_id row, rm_owner = ro_owner row, rm_created = ro_created row, rm_source = source\<rparr> # out, cache'')))"

text \<open>The answer with its header \<open>x-total-count\<close>.\<close>

definition rest_list :: "rest_env \<Rightarrow> draw \<Rightarrow> header \<Rightarrow> nat option \<Rightarrow> nat option \<Rightarrow> (repo_summary list \<times> string) rest" where
  "rest_list env d h limit_q offset_q =
     rest_bind (authenticate env h) (\<lambda>p.
     rest_bind (throttle env d p CDefault) (\<lambda>_.
     rest_bind (rest_get (\<lambda>st.
       case p of
         Admin \<Rightarrow> Inr (list_paginated (page_limit limit_q) (page_offset offset_q) (rs_owners st), count_all (rs_owners st))
       | User s \<Rightarrow> res_bind (subject_try_from s) (\<lambda>subject.
           Inr (list_paginated_by_owner subject (page_limit limit_q) (page_offset offset_q) (rs_owners st),
                count_by_owner subject (rs_owners st))))) (\<lambda>(rows, n).
     rest_bind (rest_cached (\<lambda>t c. map_prod Inr id (summaries (re_mount env) (dw_mtimes d) t rows c))) (\<lambda>out.
     rest_return (out, fmt_dec n)))))"

end
