(* ===== verification/RestTokens.thy ===== *)
theory RestTokens
  imports RestRepos
begin

text \<open>
  The handlers of \<open>src/rest/tokens.rs\<close> and \<open>src/rest/webhooks.rs\<close>. A handler that reads the state and answers is
  a \<open>rest\<close> function like the others.
\<close>

section \<open>Tokens\<close>

record token_minted =
  tm_token :: token
  tm_remote :: string
  tm_expires :: "nat option"

text \<open>\<open>format!("{:?}", scope)\<close>.\<close>

definition scope_debug :: "scope \<Rightarrow> string" where
  "scope_debug s = (case s of Read \<Rightarrow> ''Read'' | Write \<Rightarrow> ''Write'')"

definition json_option :: "nat option \<Rightarrow> json_value" where
  "json_option x = (case x of None \<Rightarrow> JNull | Some n \<Rightarrow> JNum n)"

definition rest_mint :: "rest_env \<Rightarrow> draw \<Rightarrow> header \<Rightarrow> string \<Rightarrow> scope \<Rightarrow> nat option \<Rightarrow> token_minted rest" where
  "rest_mint env d h i scope ttl =
     rest_bind (authenticate env h) (\<lambda>p.
     rest_bind (throttle env d p CToken) (\<lambda>_.
     rest_bind (known_repo i) (\<lambda>r.
     rest_bind (owner_only p i) (\<lambda>_.
     rest_bind (rest_get (\<lambda>_. typed_subject p)) (\<lambda>subject.
     rest_bind (mint_new env d r scope ttl subject) (\<lambda>token.
     rest_bind (audit env d ''token.mint'' (audit_label p) (Some r)
       (JObj [(''scope'', JStr (scope_debug scope)), (''ttl_seconds'', json_option ttl)])) (\<lambda>_.
     rest_get (\<lambda>st. Inr \<lparr>tm_token = token, tm_remote = remote_url (rs_cfg st) i token,
       tm_expires = map_option (\<lambda>s. (dw_now d + s) mod 2 ^ 64) ttl\<rparr>))))))))"

definition bound_repo :: "rest_env \<Rightarrow> draw \<Rightarrow> token \<Rightarrow> rest_state \<Rightarrow> repo_id option" where
  "bound_repo env d token st =
     (case token_lookup (re_sha256 env) (dw_now d) token (rs_tokens st) of
        Inr (Some record) \<Rightarrow> Some (tk_repo record)
      | _ \<Rightarrow> None)"

definition revoke_one :: "rest_env \<Rightarrow> draw \<Rightarrow> token \<Rightarrow> bool rest" where
  "revoke_one env d token st =
     (case revoke (re_sha256 env) (dw_now d) token (rs_tokens st) of (revoked, rows) \<Rightarrow> (Inr revoked, st\<lparr>rs_tokens := rows\<rparr>))"

definition rest_revoke :: "rest_env \<Rightarrow> draw \<Rightarrow> header \<Rightarrow> token \<Rightarrow> bool rest" where
  "rest_revoke env d h token =
     rest_bind (authenticate env h) (\<lambda>p.
     rest_bind (throttle env d p CToken) (\<lambda>_.
     rest_bind (rest_get (\<lambda>st. Inr (bound_repo env d token st))) (\<lambda>target.
     rest_bind (if p = Admin then rest_return ()
                else rest_bind (rest_get (\<lambda>_. ok_or (Forbidden ''not your token'') target)) (\<lambda>r. owner_only p (repo_str r))) (\<lambda>_.
     rest_bind (revoke_one env d token) (\<lambda>revoked.
     rest_bind (audit env d ''token.revoke'' (audit_label p) target (JObj [(''revoked'', JBool revoked)])) (\<lambda>_.
     rest_return revoked))))))"

definition rest_list_tokens :: "rest_env \<Rightarrow> draw \<Rightarrow> header \<Rightarrow> string \<Rightarrow> token_summary list rest" where
  "rest_list_tokens env d h i =
     rest_bind (authenticate env h) (\<lambda>p.
     rest_bind (known_repo i) (\<lambda>r.
     rest_bind (owner_only p i) (\<lambda>_.
     rest_bind (rest_get (\<lambda>_. typed_subject p)) (\<lambda>subject.
     rest_get (\<lambda>st. list_for_repo (dw_now d) r subject (rs_tokens st))))))"

record rotated =
  rt_revoked :: nat
  rt_token :: token
  rt_remote :: string

definition revoke_all :: "draw \<Rightarrow> repo_id \<Rightarrow> nat rest" where
  "revoke_all d r st =
     (case revoke_all_for_repo (dw_now d) r (rs_tokens st) of (n, rows) \<Rightarrow> (Inr n, st\<lparr>rs_tokens := rows\<rparr>))"

definition rest_rotate :: "rest_env \<Rightarrow> draw \<Rightarrow> header \<Rightarrow> string \<Rightarrow> scope option \<Rightarrow> nat option \<Rightarrow> rotated rest" where
  "rest_rotate env d h i scope_q ttl =
     rest_bind (authenticate env h) (\<lambda>p.
     rest_bind (throttle env d p CToken) (\<lambda>_.
     rest_bind (known_repo i) (\<lambda>r.
     rest_bind (owner_only p i) (\<lambda>_.
     rest_bind (rest_get (\<lambda>_. typed_subject p)) (\<lambda>subject.
     rest_bind (revoke_all d r) (\<lambda>revoked.
     let scope = (case scope_q of None \<Rightarrow> Write | Some s \<Rightarrow> s) in
     rest_bind (mint_new env d r scope ttl subject) (\<lambda>token.
     rest_bind (audit env d ''token.rotate'' (audit_label p) (Some r)
       (JObj [(''revoked'', JNum revoked), (''scope'', JStr (scope_debug scope))])) (\<lambda>_.
     rest_get (\<lambda>st. Inr \<lparr>rt_revoked = revoked, rt_token = token, rt_remote = remote_url (rs_cfg st) i token\<rparr>)))))))))"

section \<open>Webhooks\<close>

record hook_body =
  hb_url :: string
  hb_secret :: "string option"
  hb_events :: "event_kind list"

definition add_hook :: "rest_env \<Rightarrow> draw \<Rightarrow> subscription \<Rightarrow> string rest" where
  "add_hook env d sub st =
     (case hook_add (re_crypto env) (re_json env) (int (dw_now d)) (dw_uuid d) (dw_nonces d 0) sub (rs_hooks st) of
        (r, reg) \<Rightarrow> (r, st\<lparr>rs_hooks := reg\<rparr>))"

definition rest_create_hook :: "rest_env \<Rightarrow> draw \<Rightarrow> header \<Rightarrow> string \<Rightarrow> hook_body \<Rightarrow> string rest" where
  "rest_create_hook env d h i body =
     rest_bind (authenticate env h) (\<lambda>p.
     rest_bind (throttle env d p CToken) (\<lambda>_.
     rest_bind (known_repo i) (\<lambda>r.
     rest_bind (owner_only p i) (\<lambda>_.
     rest_bind (rest_get (\<lambda>st. validate_webhook_url (hb_url body) (cf_private_targets (rs_cfg st)))) (\<lambda>_.
     add_hook env d \<lparr>sb_id = [], sb_repo = r, sb_url = hb_url body, sb_secret = hb_secret body, sb_events = hb_events body\<rparr>)))))"

definition rest_list_hooks :: "rest_env \<Rightarrow> header \<Rightarrow> string \<Rightarrow> subscription list rest" where
  "rest_list_hooks env h i =
     rest_bind (authenticate env h) (\<lambda>p.
     rest_bind (known_repo i) (\<lambda>r.
     rest_bind (owner_only p i) (\<lambda>_.
     rest_get (\<lambda>st. Inr (hook_list (re_crypto env) (re_json env) r (rs_hooks st))))))"

definition remove_hook :: "draw \<Rightarrow> repo_id \<Rightarrow> string \<Rightarrow> bool rest" where
  "remove_hook d r hook st =
     (case hook_remove (int (dw_now d)) r hook (rs_hooks st) of (removed, reg) \<Rightarrow> (Inr removed, st\<lparr>rs_hooks := reg\<rparr>))"

definition rest_delete_hook :: "rest_env \<Rightarrow> draw \<Rightarrow> header \<Rightarrow> string \<Rightarrow> string \<Rightarrow> bool rest" where
  "rest_delete_hook env d h i hook =
     rest_bind (authenticate env h) (\<lambda>p.
     rest_bind (known_repo i) (\<lambda>r.
     rest_bind (owner_only p i) (\<lambda>_.
     remove_hook d r hook)))"

end
