(* ===== verification/RestAdmin.thy ===== *)
theory RestAdmin
  imports RestTokens Gc Refs
begin

text \<open>
  The handlers of \<open>src/rest/admin.rs\<close> and \<open>src/rest/health.rs\<close>, with \<open>list_refs\<close> of \<open>src/rest.rs\<close>. The collector's
  handlers take the object store and the git program of the environment of \<open>Gc\<close>.
\<close>

section \<open>Repos\<close>

definition rest_admin_list :: "rest_env \<Rightarrow> draw \<Rightarrow> header \<Rightarrow> nat option \<Rightarrow> nat option \<Rightarrow> (repo_summary list \<times> string) rest" where
  "rest_admin_list env d h limit_q offset_q =
     rest_bind (require_admin env h) (\<lambda>_.
     rest_bind (throttle env d Admin CDefault) (\<lambda>_.
     rest_bind (rest_get (\<lambda>st. Inr (count_all (rs_owners st)))) (\<lambda>n.
     rest_bind (rest_get (\<lambda>st. Inr (list_paginated (page_limit limit_q) (page_offset offset_q) (rs_owners st)))) (\<lambda>rows.
     rest_bind (rest_cached (\<lambda>t c. map_prod Inr id (summaries (re_mount env) (dw_mtimes d) t rows c))) (\<lambda>out.
     rest_return (out, fmt_dec n))))))"

record ref_entry =
  rf_name :: string
  rf_sha :: string

text \<open>The walk of \<open>refs\<close>: a directory that cannot be read is an error, a file that cannot be read or is blank is
  left out. \<open>to_string_lossy\<close> is the identity on the names that are UTF-8, which all of git's are.\<close>

fun walk_refs :: "string \<Rightarrow> fs_node \<Rightarrow> error + ref_entry list" and walk_entries :: "string \<Rightarrow> (string \<times> fs_node) list \<Rightarrow> error + ref_entry list" where
  "walk_refs prefix (FsFile _) = Inr []"
| "walk_refs prefix (FsDir None) = Inl (Io ''read_dir'')"
| "walk_refs prefix (FsDir (Some children)) = walk_entries prefix children"
| "walk_entries prefix [] = Inr []"
| "walk_entries prefix ((name, FsDir children) # entries) =
     (case walk_refs (prefix @ ''/'' @ name) (FsDir children) of
        Inl e \<Rightarrow> Inl e
      | Inr here \<Rightarrow> map_sum id ((@) here) (walk_entries prefix entries))"
| "walk_entries prefix ((name, FsFile None) # entries) = walk_entries prefix entries"
| "walk_entries prefix ((name, FsFile (Some content)) # entries) =
     (if trim content = [] then walk_entries prefix entries
      else map_sum id ((#) \<lparr>rf_name = prefix @ ''/'' @ name, rf_sha = trim content\<rparr>) (walk_entries prefix entries))"

fun packed_refs :: "string list \<Rightarrow> ref_entry list \<Rightarrow> ref_entry list" where
  "packed_refs [] out = out"
| "packed_refs (line # lines) out =
     (if line = [] \<or> starts_with ''#'' line \<or> starts_with ''^'' line then packed_refs lines out
      else (case split_once CHR '' '' line of
              None \<Rightarrow> packed_refs lines out
            | Some (sha, name) \<Rightarrow>
                packed_refs lines (if list_ex (\<lambda>e. rf_name e = name) out then out else out @ [\<lparr>rf_name = name, rf_sha = sha\<rparr>])))"

definition list_refs :: "fs_node \<Rightarrow> error + ref_entry list" where
  "list_refs repo =
     res_bind (case fs_lookup repo [''refs''] of None \<Rightarrow> Inr [] | Some node \<Rightarrow> walk_refs ''refs'' node) (\<lambda>loose.
     res_bind (case fs_lookup repo [''packed-refs''] of
         None \<Rightarrow> Inr loose
       | Some (FsFile (Some content)) \<Rightarrow> Inr (packed_refs (str_lines content) loose)
       | Some _ \<Rightarrow> Inl (Io ''read_to_string'')) (\<lambda>out. Inr (sort_key rf_name out)))"

record repo_detail =
  rd_summary :: repo_summary
  rd_size :: nat
  rd_refs :: "ref_entry list"

definition unwrap_or :: "'a \<Rightarrow> error + 'a \<Rightarrow> 'a" where
  "unwrap_or a r = (case r of Inl _ \<Rightarrow> a | Inr x \<Rightarrow> x)"

definition detail_of :: "rest_env \<Rightarrow> draw \<Rightarrow> repo_id \<Rightarrow> string \<Rightarrow> repo_row \<Rightarrow> fs_node \<Rightarrow> repo_detail rest" where
  "detail_of env d r i row repo =
     rest_bind (rest_cached (\<lambda>t c. map_prod Inr id (alt_lookup (re_mount env) (dw_mtimes d) t i c))) (\<lambda>source.
     rest_return \<lparr>rd_summary = \<lparr>rm_id = r, rm_owner = ro_owner row, rm_created = ro_created row, rm_source = source\<rparr>,
       rd_size = (case dir_size (\<lambda>s. case s of None \<Rightarrow> 0 | Some t \<Rightarrow> length t) (Some repo) of None \<Rightarrow> 0 | Some n \<Rightarrow> n),
       rd_refs = unwrap_or [] (list_refs repo)\<rparr>)"

definition rest_admin_get :: "rest_env \<Rightarrow> draw \<Rightarrow> header \<Rightarrow> string \<Rightarrow> repo_detail rest" where
  "rest_admin_get env d h i =
     rest_bind (require_admin env h) (\<lambda>_.
     rest_bind (throttle env d Admin CDefault) (\<lambda>_.
     rest_bind (rest_get (\<lambda>_. repo_id_try_from i)) (\<lambda>r.
     rest_bind (rest_get (\<lambda>st. ok_or (RepoNotFound i) (get_row r (rs_owners st)))) (\<lambda>row.
     rest_bind (rest_get (\<lambda>st. if is_dir (io_tree (rs_io st)) (i @ ''.git'') then ok_or (RepoNotFound i) (fs_lookup (io_tree (rs_io st)) [i @ ''.git''])
                               else Inl (RepoNotFound i))) (\<lambda>repo.
     detail_of env d r i row repo)))))"

section \<open>Collection\<close>

text \<open>The pass of \<open>Gc\<close> over the server's tree and cache, with a git program and an object store.\<close>

record ('g, 's) collector =
  gx_git :: "'g git"
  gx_list :: "'s \<Rightarrow> repo_id \<Rightarrow> error + loose_info list"
  gx_delete :: "repo_id \<Rightarrow> oid \<Rightarrow> 's \<Rightarrow> error + bool \<times> 's"
  gx_dir :: string

definition pass_env :: "rest_env \<Rightarrow> draw \<Rightarrow> ('g, 's) collector \<Rightarrow> rest_state \<Rightarrow> ('g, 's) gc_env" where
  "pass_env env d x st = \<lparr>ge_mount = re_mount env, ge_dir = gx_dir x, ge_mtimes = dw_mtimes d, ge_tree = io_tree (rs_io st),
     ge_git = gx_git x, ge_list = gx_list x, ge_delete = gx_delete x\<rparr>"

definition admin_repo :: "rest_env \<Rightarrow> draw \<Rightarrow> header \<Rightarrow> string \<Rightarrow> repo_id rest" where
  "admin_repo env d h i =
     rest_bind (require_admin env h) (\<lambda>_.
     rest_bind (throttle env d Admin CDefault) (\<lambda>_. known_repo i))"

definition rest_gc_preview ::
  "rest_env \<Rightarrow> draw \<Rightarrow> ('g, 's) collector \<Rightarrow> header \<Rightarrow> string \<Rightarrow> rest_state \<times> 's \<times> 'g \<Rightarrow> (error + gc_preview) \<times> rest_state \<times> 's \<times> 'g" where
  "rest_gc_preview env d x h i sw =
     (case sw of (st, s, g) \<Rightarrow>
       (case admin_repo env d h i st of
          (Inl e, st') \<Rightarrow> (Inl e, st', s, g)
        | (Inr _, st') \<Rightarrow>
            (case preview (pass_env env d x st') i s \<lparr>gs_cache = rs_cache st', gs_git = g\<rparr> of
               (r, gs) \<Rightarrow> (r, st'\<lparr>rs_cache := gs_cache gs\<rparr>, s, gs_git gs))))"

definition rest_gc_run ::
  "rest_env \<Rightarrow> draw \<Rightarrow> ('g, 's) collector \<Rightarrow> header \<Rightarrow> string \<Rightarrow> nat option \<Rightarrow> rest_state \<times> 's \<times> 'g \<Rightarrow> (error + gc_result) \<times> rest_state \<times> 's \<times> 'g" where
  "rest_gc_run env d x h i min_age sw =
     (case sw of (st, s, g) \<Rightarrow>
       (case admin_repo env d h i st of
          (Inl e, st') \<Rightarrow> (Inl e, st', s, g)
        | (Inr _, st') \<Rightarrow>
            (case gc_run (pass_env env d x st') (as_i64 (dw_now d)) (case min_age of None \<Rightarrow> 7200 | Some n \<Rightarrow> n) i s \<lparr>gs_cache = rs_cache st', gs_git = g\<rparr> of
               (r, s', gs) \<Rightarrow> (r, st'\<lparr>rs_cache := gs_cache gs\<rparr>, s', gs_git gs))))"

section \<open>Key rotation\<close>

definition rest_rotate_admin :: "rest_env \<Rightarrow> draw \<Rightarrow> header \<Rightarrow> string rest" where
  "rest_rotate_admin env d h =
     rest_bind (require_admin env h) (\<lambda>_.
     let new = re_b64_url env (dw_token d) in
     rest_bind (rest_put (\<lambda>st. st\<lparr>rs_cfg := rotate_admin_token new (rs_cfg st)\<rparr>)) (\<lambda>_.
     rest_bind (audit env d ''admin.token.rotate'' ''admin'' None (JObj [])) (\<lambda>_.
     rest_return new)))"

text \<open>The rewriting of a key file: whether it was written.\<close>

definition write_key :: "string list option \<Rightarrow> string \<Rightarrow> rest_state \<Rightarrow> bool \<times> rest_state" where
  "write_key path key st =
     (case path of
        None \<Rightarrow> (False, st)
      | Some p \<Rightarrow> (case write_file p (Some key) (rs_data st) of (r, w) \<Rightarrow> (r = Inr (), st\<lparr>rs_data := w\<rparr>)))"

definition rest_rotate_jwt :: "rest_env \<Rightarrow> draw \<Rightarrow> header \<Rightarrow> (string \<times> bool) rest" where
  "rest_rotate_jwt env d h =
     rest_bind (require_admin env h) (\<lambda>_.
     let new = re_b64_url env (dw_token d) in
     rest_bind (rest_put (\<lambda>st. st\<lparr>rs_cfg := rotate_jwt_secret (Some new) (rs_cfg st)\<rparr>)) (\<lambda>_.
     rest_bind (\<lambda>st. map_prod Inr id (write_key (re_jwt_path env) new st)) (\<lambda>persisted.
     rest_bind (audit env d ''admin.jwt_key.rotate'' ''admin'' None (JObj [(''persisted'', JBool persisted)])) (\<lambda>_.
     rest_return (new, persisted)))))"

definition rest_rotate_hook_key :: "rest_env \<Rightarrow> draw \<Rightarrow> header \<Rightarrow> (nat \<times> string) rest" where
  "rest_rotate_hook_key env d h =
     rest_bind (require_admin env h) (\<lambda>_.
     let new = MasterKey (dw_token d); b64 = key_to_base64 (re_crypto env) new in
     rest_bind (\<lambda>st. case rotate_master_key (re_crypto env) new (dw_nonces d) (rs_hooks st) of
                       (r, reg) \<Rightarrow> (r, st\<lparr>rs_hooks := reg\<rparr>)) (\<lambda>rotated.
     rest_bind (\<lambda>st. map_prod Inr id (write_key (re_hook_path env) b64 st)) (\<lambda>_.
     rest_bind (audit env d ''admin.webhook_key.rotate'' ''admin'' None (JObj [(''rotated'', JNum rotated)])) (\<lambda>_.
     rest_return (rotated, b64)))))"

section \<open>Audit\<close>

definition rest_audit_stats :: "rest_env \<Rightarrow> header \<Rightarrow> nat rest" where
  "rest_audit_stats env h = rest_bind (require_admin env h) (\<lambda>_. rest_get (\<lambda>st. Inr (audit_count (rs_audit st))))"

definition rest_audit_verify :: "rest_env \<Rightarrow> header \<Rightarrow> nat rest" where
  "rest_audit_verify env h = rest_bind (require_admin env h) (\<lambda>_. rest_get (\<lambda>st. verify_chain (re_sha256 env) (rs_audit st)))"

definition rest_audit_list :: "rest_env \<Rightarrow> header \<Rightarrow> audit_query \<Rightarrow> audit_event list rest" where
  "rest_audit_list env h q = rest_bind (require_admin env h) (\<lambda>_. rest_get (\<lambda>st. Inr (audit_list q (rs_audit st))))"

section \<open>Health\<close>

text \<open>Whether a probe of a store answered in time; the write probes run only when configured.\<close>

record probes =
  pb_tokens_read :: bool
  pb_audit_read :: bool
  pb_owners_read :: bool
  pb_tokens_write :: bool
  pb_audit_write :: bool
  pb_owners_write :: bool

definition ok_text :: "bool \<Rightarrow> json_value" where
  "ok_text b = JStr (if b then ''ok'' else ''fail'')"

definition probe_stores :: "bool \<Rightarrow> probes \<Rightarrow> nat \<times> json_value" where
  "probe_stores write_check pb =
     (let tokens_ok = (pb_tokens_read pb \<and> (write_check \<longrightarrow> pb_tokens_write pb));
          audit_ok = (pb_audit_read pb \<and> (write_check \<longrightarrow> pb_audit_write pb));
          ownership_ok = (pb_owners_read pb \<and> (write_check \<longrightarrow> pb_owners_write pb));
          all_ok = (tokens_ok \<and> audit_ok \<and> ownership_ok)
      in (if all_ok then 200 else 503,
          JObj [(''ok'', JBool all_ok),
                (''components'', JObj [(''tokens'', ok_text tokens_ok), (''audit'', ok_text audit_ok), (''ownership'', ok_text ownership_ok)])]))"

definition drain_response_if_draining :: "bool \<Rightarrow> (nat \<times> json_value) option" where
  "drain_response_if_draining draining =
     (if draining then Some (503, JObj [(''ok'', JBool False), (''draining'', JBool True)]) else None)"

definition health_ready :: "probes \<Rightarrow> rest_state \<Rightarrow> nat \<times> json_value" where
  "health_ready pb st =
     (case drain_response_if_draining (rs_draining st) of
        Some resp \<Rightarrow> resp
      | None \<Rightarrow> probe_stores (cf_write_check (rs_cfg st)) pb)"

definition health :: json_value where
  "health = JObj [(''ok'', JBool True)]"

end
