(* ===== verification/RestGuards.thy ===== *)
theory RestGuards
  imports RestAdmin
begin

text \<open>
  Who may call what. The requests of the REST interface as one datatype, dispatched to the handlers, and
  the rule that each of them enforces before it changes anything but the caller's rate limit.
\<close>

section \<open>Requests\<close>

datatype rest_call =
    CreateRepo "repo_id option"
  | ForkRepo string "fork_body option"
  | DeleteRepo string "bool option" "bool option"
  | ListRepos "nat option" "nat option"
  | MintToken string scope "nat option"
  | RevokeToken token
  | ListTokens string
  | RotateTokens string "scope option" "nat option"
  | CreateHook string hook_body
  | ListHooks string
  | DeleteHook string string
  | AdminList "nat option" "nat option"
  | AdminGet string
  | AdminRotateToken
  | AdminRotateJwt
  | AdminRotateHookKey
  | AdminAuditStats
  | AdminAuditVerify
  | AdminAuditList audit_query

text \<open>Only the outcome and the state matter here, not the body of the answer.\<close>

definition outcome :: "'a rest \<Rightarrow> unit rest" where
  "outcome a st = map_prod (map_sum id (\<lambda>_. ())) id (a st)"

fun run_call :: "rest_env \<Rightarrow> draw \<Rightarrow> header \<Rightarrow> rest_call \<Rightarrow> unit rest" where
  "run_call env d h (CreateRepo body) = outcome (rest_create env d h body)"
| "run_call env d h (ForkRepo i body) = outcome (rest_fork env d h i body)"
| "run_call env d h (DeleteRepo i force cascade) = outcome (rest_delete env d h i force cascade)"
| "run_call env d h (ListRepos limit offset) = outcome (rest_list env d h limit offset)"
| "run_call env d h (MintToken i scope ttl) = outcome (rest_mint env d h i scope ttl)"
| "run_call env d h (RevokeToken t) = outcome (rest_revoke env d h t)"
| "run_call env d h (ListTokens i) = outcome (rest_list_tokens env d h i)"
| "run_call env d h (RotateTokens i scope ttl) = outcome (rest_rotate env d h i scope ttl)"
| "run_call env d h (CreateHook i body) = outcome (rest_create_hook env d h i body)"
| "run_call env d h (ListHooks i) = outcome (rest_list_hooks env h i)"
| "run_call env d h (DeleteHook i hook) = outcome (rest_delete_hook env d h i hook)"
| "run_call env d h (AdminList limit offset) = outcome (rest_admin_list env d h limit offset)"
| "run_call env d h (AdminGet i) = outcome (rest_admin_get env d h i)"
| "run_call env d h AdminRotateToken = outcome (rest_rotate_admin env d h)"
| "run_call env d h AdminRotateJwt = outcome (rest_rotate_jwt env d h)"
| "run_call env d h AdminRotateHookKey = outcome (rest_rotate_hook_key env d h)"
| "run_call env d h AdminAuditStats = outcome (rest_audit_stats env h)"
| "run_call env d h AdminAuditVerify = outcome (rest_audit_verify env h)"
| "run_call env d h (AdminAuditList q) = outcome (rest_audit_list env h q)"

section \<open>Permission\<close>

definition caller :: "rest_env \<Rightarrow> header \<Rightarrow> rest_state \<Rightarrow> error + principal" where
  "caller env h st = authorize_rest (re_decode env) h (cf_admin_token (rs_cfg st)) (cf_jwt_secret (rs_cfg st))
     (cf_jwt_aud (rs_cfg st)) (cf_jwt_iss (rs_cfg st))"

definition owned :: "string \<Rightarrow> string \<Rightarrow> rest_state \<Rightarrow> bool" where
  "owned s i st =
     (case repo_id_try_from i of
        Inl _ \<Rightarrow> False
      | Inr r \<Rightarrow> (case get_owner r (rs_owners st) of Some (Some owner) \<Rightarrow> subject_str owner = s | _ \<Rightarrow> False))"

fun permitted :: "rest_env \<Rightarrow> draw \<Rightarrow> rest_state \<Rightarrow> principal \<Rightarrow> rest_call \<Rightarrow> bool" where
  "permitted env d st Admin call = True"
| "permitted env d st (User s) (CreateRepo body) = True"
| "permitted env d st (User s) (ListRepos limit offset) = True"
| "permitted env d st (User s) (ForkRepo i body) = owned s i st"
| "permitted env d st (User s) (DeleteRepo i force cascade) = owned s i st"
| "permitted env d st (User s) (MintToken i scope ttl) = owned s i st"
| "permitted env d st (User s) (RevokeToken t) =
     (case bound_repo env d t st of None \<Rightarrow> False | Some r \<Rightarrow> owned s (repo_str r) st)"
| "permitted env d st (User s) (ListTokens i) = owned s i st"
| "permitted env d st (User s) (RotateTokens i scope ttl) = owned s i st"
| "permitted env d st (User s) (CreateHook i body) = owned s i st"
| "permitted env d st (User s) (ListHooks i) = owned s i st"
| "permitted env d st (User s) (DeleteHook i hook) = owned s i st"
| "permitted env d st (User s) call = False"

lemma authenticate_caller: "authenticate env h st = (caller env h st, st)"
  by (simp add: authenticate_def rest_get_def caller_def)

lemma owner_only_refused: "\<not> owned s i st \<Longrightarrow> rs_owners st' = rs_owners st \<Longrightarrow> \<exists>e. owner_only (User s) i st' = (Inl e, st')"
  by (auto simp: owned_def owner_only_def rest_get_def enforce_owner_def principal_subject_def ok_or_def split: sum.splits option.splits)

lemma throttle_effect: "\<exists>r limits. throttle env d p c st = (r, st\<lparr>rs_limits := limits\<rparr>)"
  by (auto simp: throttle_def split: prod.splits)

text \<open>A handler in which only authentication, the rate limit and readings come before the ownership check.\<close>

definition stops :: "'a rest \<Rightarrow> rest_state \<Rightarrow> bool" where
  "stops a st = (\<exists>e limits. a st = (Inl e, st\<lparr>rs_limits := limits\<rparr>))"

lemma same_limits: "st\<lparr>rs_limits := rs_limits st\<rparr> = (st :: rest_state)"
  by simp

lemma stops_now: "a st = (Inl e, st) \<Longrightarrow> stops a st"
  unfolding stops_def by (metis same_limits)

lemma stops_get:
  assumes "\<And>x. f st = Inr x \<Longrightarrow> stops (g x) st"
  shows "stops (rest_bind (rest_get f) g) st"
proof (cases "f st")
  case (Inl e)
  then show ?thesis by (intro stops_now) (simp add: rest_bind_def rest_get_def)
next
  case (Inr x)
  with assms [OF Inr] show ?thesis by (simp add: stops_def rest_bind_def rest_get_def)
qed

lemma stops_throttle:
  assumes "\<And>limits. stops f (st\<lparr>rs_limits := limits\<rparr>)"
  shows "stops (rest_bind (throttle env d p c) (\<lambda>_. f)) st"
proof -
  obtain r limits where t: "throttle env d p c st = (r, st\<lparr>rs_limits := limits\<rparr>)" using throttle_effect by blast
  with assms [of limits] show ?thesis by (cases r) (auto simp: stops_def rest_bind_def)
qed

lemma stops_owner:
  assumes "\<not> owned s i st"
  shows "stops (rest_bind (owner_only (User s) i) g) st"
proof -
  obtain e where "owner_only (User s) i st = (Inl e, st)" using owner_only_refused [OF assms, of st] by auto
  then show ?thesis by (intro stops_now) (simp add: rest_bind_def)
qed

lemma owned_limits: "owned s i (st\<lparr>rs_limits := limits\<rparr>) = owned s i st"
  by (auto simp: owned_def split: sum.splits option.splits)

lemma bound_limits: "bound_repo env d t (st\<lparr>rs_limits := limits\<rparr>) = bound_repo env d t st"
  by (simp add: bound_repo_def)

lemma stops_outcome: "stops a st \<Longrightarrow> stops (outcome a) st"
  by (auto simp: stops_def outcome_def)

lemma rest_bind_assoc: "rest_bind (rest_bind a f) g = rest_bind a (\<lambda>x. rest_bind (f x) g)"
  by (auto simp: rest_bind_def fun_eq_iff split: prod.splits sum.splits)

lemma stops_user: "caller env h st = Inr p \<Longrightarrow> stops (f p) st \<Longrightarrow> stops (rest_bind (authenticate env h) f) st"
  by (simp add: stops_def rest_bind_def authenticate_caller)

lemma stops_admin: "caller env h st = Inr (User s) \<Longrightarrow> stops (rest_bind (require_admin env h) f) st"
  by (rule stops_now) (simp add: require_admin_def rest_bind_def authenticate_caller rest_fail_def)

lemmas stops_steps = stops_throttle stops_get stops_owner stops_admin

lemma known_repo_get: "known_repo i = rest_get (\<lambda>st. res_bind (repo_id_try_from i) (\<lambda>r.
     if repo_exists r (io_tree (rs_io st)) then Inr r else Inl (RepoNotFound i)))"
  by (simp add: known_repo_def)

text \<open>C4: A request does nothing before it is allowed. A request without valid credentials is refused with the state
  unchanged; a user's request for a repo that the owner table does not record as the user's own, for
  a token that is not bound to such a repo, or for an administration endpoint is refused, and
  only the caller's rate limit bucket can have changed.\<close>

theorem call_guarded:
  "(case caller env h st of
      Inl e \<Rightarrow> run_call env d h call st = (Inl e, st)
    | Inr p \<Rightarrow> permitted env d st p call \<or> (\<exists>e limits. run_call env d h call st = (Inl e, st\<lparr>rs_limits := limits\<rparr>)))"
proof (cases "caller env h st")
  case (Inl e)
  then show ?thesis
    by (cases call) (simp_all add: outcome_def rest_bind_def authenticate_caller require_admin_def
        rest_create_def rest_fork_def rest_delete_def rest_list_def rest_mint_def rest_revoke_def rest_list_tokens_def rest_rotate_def
        rest_create_hook_def rest_list_hooks_def rest_delete_hook_def rest_admin_list_def rest_admin_get_def rest_rotate_admin_def
        rest_rotate_jwt_def rest_rotate_hook_key_def rest_audit_stats_def rest_audit_verify_def rest_audit_list_def)
next
  case (Inr p)
  have "stops (run_call env d h call) st" if no: "\<not> permitted env d st p call"
  proof (cases p)
    case Admin
    with no show ?thesis by simp
  next
    case (User s)
    note c = Inr [unfolded User] and n = no [unfolded User]
    show ?thesis
    proof (cases call)
      case (RevokeToken t)
      have "stops (rest_bind (rest_get (\<lambda>st. Inr (bound_repo env d t st))) (\<lambda>target.
         rest_bind (rest_get (\<lambda>_. ok_or (Forbidden ''not your token'') target)) (\<lambda>r. rest_bind (owner_only (User s) (repo_str r)) (g target))))
         (st\<lparr>rs_limits := limits\<rparr>)" for g limits
        by (intro stops_get stops_owner) (use n RevokeToken in \<open>auto simp: owned_limits bound_limits ok_or_def split: option.splits\<close>)
      then show ?thesis unfolding RevokeToken run_call.simps rest_revoke_def
        by (intro stops_outcome stops_user [OF c] stops_throttle) (simp only: principal.distinct if_False rest_bind_assoc)
    qed (use n c in \<open>simp_all add: rest_fork_def rest_delete_def rest_mint_def rest_list_tokens_def rest_rotate_def
        rest_create_hook_def rest_list_hooks_def rest_delete_hook_def rest_admin_list_def rest_admin_get_def rest_rotate_admin_def
        rest_rotate_jwt_def rest_rotate_hook_key_def rest_audit_stats_def rest_audit_verify_def rest_audit_list_def known_repo_get\<close>,
      (intro stops_outcome stops_user [OF c] stops_throttle stops_get stops_owner stops_admin; simp add: owned_limits)+)
  qed
  with Inr show ?thesis by (auto simp: stops_def)
qed

end
