(* ===== verification/RestInv.thy ===== *)
theory RestInv
  imports RestGuards
begin

text \<open>
  Invariants of the server's state over any sequence of REST requests, by a small logic of triples over
  the handlers: a precondition, a postcondition for an answer and one for an error.
\<close>

section \<open>Triples\<close>

definition holds :: "(rest_state \<Rightarrow> bool) \<Rightarrow> 'a rest \<Rightarrow> ('a \<Rightarrow> rest_state \<Rightarrow> bool) \<Rightarrow> (rest_state \<Rightarrow> bool) \<Rightarrow> bool" where
  "holds P a Q E = (\<forall>st. P st \<longrightarrow> (case a st of (Inl e, st') \<Rightarrow> E st' | (Inr x, st') \<Rightarrow> Q x st'))"

lemma holds_bind:
  assumes "holds P a Q E" "\<And>x. holds (Q x) (f x) R E"
  shows "holds P (rest_bind a f) R E"
  using assms by (fastforce simp: holds_def rest_bind_def split: prod.splits sum.splits)

lemma holds_get: "(\<And>st x. P st \<Longrightarrow> f st = Inr x \<Longrightarrow> Q x st) \<Longrightarrow> (\<And>st. P st \<Longrightarrow> E st) \<Longrightarrow> holds P (rest_get f) Q E"
  by (auto simp: holds_def rest_get_def split: sum.splits)

lemma holds_put: "(\<And>st. P st \<Longrightarrow> Q () (f st)) \<Longrightarrow> holds P (rest_put f) Q E"
  by (auto simp: holds_def rest_put_def)

lemma holds_return: "(\<And>st. P st \<Longrightarrow> Q x st) \<Longrightarrow> holds P (rest_return x) Q E"
  by (auto simp: holds_def rest_return_def)

lemma holds_fail: "(\<And>st. P st \<Longrightarrow> E st) \<Longrightarrow> holds P (rest_fail e) Q E"
  by (auto simp: holds_def rest_fail_def)

lemma holds_if: "(b \<Longrightarrow> holds P a Q E) \<Longrightarrow> (\<not> b \<Longrightarrow> holds P a' Q E) \<Longrightarrow> holds P (if b then a else a') Q E"
  by simp

lemma holds_outcome: "holds P a (\<lambda>_. Q) Q \<Longrightarrow> P st \<Longrightarrow> Q (snd (outcome a st))"
  by (cases "a st"; cases "fst (a st)") (auto simp: holds_def outcome_def)

lemma holds_weaken: "holds P a Q E \<Longrightarrow> (\<And>st. P' st \<Longrightarrow> P st) \<Longrightarrow> (\<And>x st. Q x st \<Longrightarrow> Q' x st) \<Longrightarrow> holds P' a Q' E"
  unfolding holds_def by (fastforce split: prod.splits sum.splits)

text \<open>An invariant, with a fact about the answer that does not depend on the state.\<close>

abbreviation keeps :: "(rest_state \<Rightarrow> bool) \<Rightarrow> 'a rest \<Rightarrow> ('a \<Rightarrow> bool) \<Rightarrow> bool" where
  "keeps I a G \<equiv> holds I a (\<lambda>x st. I st \<and> G x) I"

lemma keeps_bind:
  assumes "keeps I a G" "\<And>x. G x \<Longrightarrow> keeps I (f x) H"
  shows "keeps I (rest_bind a f) H"
proof (rule holds_bind [OF assms(1)])
  show "holds (\<lambda>st. I st \<and> G x) (f x) (\<lambda>x st. I st \<and> H x) I" for x
    using assms(2) [of x] by (cases "G x") (simp_all add: holds_def)
qed

lemma keeps_top: "keeps I a G \<Longrightarrow> keeps I a (\<lambda>_. True)"
  by (erule holds_weaken) auto

lemma keeps_get: "(\<And>st x. f st = Inr x \<Longrightarrow> G x) \<Longrightarrow> keeps I (rest_get f) G"
  by (rule holds_get) auto

lemma keeps_return: "G x \<Longrightarrow> keeps I (rest_return x) G"
  by (rule holds_return) simp

lemma keeps_fail: "keeps I (rest_fail e) G"
  by (rule holds_fail) simp

section \<open>Well-typed tables\<close>

text \<open>What the columns hold, so that every row that a handler reads back converts to its type.\<close>

definition hooks_typed :: "hook_row list \<Rightarrow> bool" where
  "hooks_typed rows = (distinct (map hk_id rows) \<and> (\<forall>row\<in>set rows. repo_id_ok (hk_repo row)))"

definition rest_typed :: "rest_state \<Rightarrow> bool" where
  "rest_typed st = (repos_inv (rs_owners st) \<and> tokens_inv (rs_tokens st) \<and> hooks_typed (rg_hooks (rs_hooks st)))"

definition id_typed :: "repo_id \<Rightarrow> bool" where
  "id_typed r = repo_id_ok (repo_str r)"

text \<open>The ids in a body are of the type \<open>RepoId\<close>, whose values are valid.\<close>

fun call_typed :: "rest_call \<Rightarrow> bool" where
  "call_typed (CreateRepo body) = pred_option id_typed body"
| "call_typed (ForkRepo i body) = (case body of None \<Rightarrow> True | Some b \<Rightarrow> pred_option id_typed (fb_id b))"
| "call_typed call = True"

lemma typed_frames:
  "rest_typed (st\<lparr>rs_limits := limits\<rparr>) = rest_typed st" "rest_typed (st\<lparr>rs_io := w\<rparr>) = rest_typed st"
  "rest_typed (st\<lparr>rs_cache := c\<rparr>) = rest_typed st" "rest_typed (st\<lparr>rs_audit := a\<rparr>) = rest_typed st"
  "rest_typed (st\<lparr>rs_data := w\<rparr>) = rest_typed st" "rest_typed (st\<lparr>rs_cfg := cfg\<rparr>) = rest_typed st" "rest_typed (st\<lparr>rs_bus := b\<rparr>) = rest_typed st"
  by (simp_all add: rest_typed_def)

lemma repo_id_typed: "repo_id_try_from s = Inr r \<Longrightarrow> id_typed r"
  by (auto simp: id_typed_def repo_id_try_from_iff)

lemma typed_subject_ok: "typed_subject p = Inr owner \<Longrightarrow> pred_option subject_ok owner"
proof (cases "principal_subject p")
  case (Some s)
  assume "typed_subject p = Inr owner"
  then obtain w where "subject_try_from s = Inr w" "owner = Some w"
    using Some by (cases "subject_try_from s") (auto simp: typed_subject_def)
  then show ?thesis by (simp add: subject_ok_def subject_try_from_iff)
qed (simp add: typed_subject_def)

lemma keeps_authenticate: "keeps I (authenticate env h) (\<lambda>_. True)"
  unfolding authenticate_def by (rule keeps_get) simp

lemma keeps_admin: "keeps I (require_admin env h) (\<lambda>_. True)"
  unfolding require_admin_def
  by (rule keeps_bind [OF keeps_authenticate]) (intro holds_if keeps_fail keeps_return TrueI)

lemma keeps_known: "keeps I (known_repo i) id_typed"
  unfolding known_repo_def by (rule keeps_get) (auto simp: res_bind_Inr_iff repo_id_typed split: if_splits)

lemma keeps_owner: "keeps I (owner_only p i) (\<lambda>_. True)"
  unfolding owner_only_def by (rule keeps_get) simp

lemma keeps_throttle: "(\<And>st limits. I (st\<lparr>rs_limits := limits\<rparr>) = I st) \<Longrightarrow> keeps I (throttle env d p c) (\<lambda>_. True)"
  by (auto simp: holds_def throttle_def split: prod.splits sum.splits)

lemma keeps_io: "(\<And>st w. I (st\<lparr>rs_io := w\<rparr>) = I st) \<Longrightarrow> keeps I (rest_io prog) (\<lambda>_. True)"
  by (auto simp: holds_def rest_io_def split: prod.splits sum.splits)

lemma keeps_cached: "(\<And>st c. I (st\<lparr>rs_cache := c\<rparr>) = I st) \<Longrightarrow> keeps I (rest_cached f) (\<lambda>_. True)"
  by (auto simp: holds_def rest_cached_def split: prod.splits sum.splits)

lemma keeps_audit: "(\<And>st a. I (st\<lparr>rs_audit := a\<rparr>) = I st) \<Longrightarrow> keeps I (audit env d event actor repo info) (\<lambda>_. True)"
  by (auto simp: holds_def audit_def rest_put_def)

lemma keeps_write_key: "(\<And>st w. I (st\<lparr>rs_data := w\<rparr>) = I st) \<Longrightarrow> keeps I (\<lambda>st. map_prod Inr id (write_key path key st)) (\<lambda>_. True)"
  by (auto simp: holds_def write_key_def split: prod.splits sum.splits option.splits)


section \<open>The operations keep the tables well-typed\<close>

lemma typed_chosen: "pred_option id_typed body \<Longrightarrow> keeps I (chosen_id d body) id_typed"
  unfolding chosen_id_def by (rule keeps_get) (auto simp: repo_id_typed split: option.splits)

lemma typed_get_subject: "keeps I (rest_get (\<lambda>_. typed_subject p)) (pred_option subject_ok)"
  by (rule keeps_get) (rule typed_subject_ok)

lemma typed_ownership: "id_typed r \<Longrightarrow> pred_option subject_ok owner \<Longrightarrow> keeps rest_typed (take_ownership d r owner) (\<lambda>_. True)"
  by (auto simp: holds_def take_ownership_def rest_put_def rest_typed_def id_typed_def intro: record_owner_inv)

lemma typed_mint: "id_typed r \<Longrightarrow> keeps rest_typed (mint_new env d r scope ttl subject) (\<lambda>_. True)"
  by (auto simp: holds_def mint_new_def rest_typed_def id_typed_def intro: mint_inv split: sum.splits)

lemma publish_event_some:
  "\<exists>reg'. publish_event c j now ev (Some reg, bus) = (Some reg', bus @ [ev]) \<and> rg_hooks reg' = rg_hooks reg \<and> rg_key reg' = rg_key reg"
proof -
  obtain i kind where k: "repo_and_kind ev = (i, kind)" by fastforce
  have "rg_hooks (snd (enqueue_delivery c j now r kind body reg)) = rg_hooks reg \<and> rg_key (snd (enqueue_delivery c j now r kind body reg)) = rg_key reg" for r body
    by (cases "enqueue_rows c j now kind body (live_rows r reg) (rg_seq reg) (rg_outbox reg)") (simp add: enqueue_delivery_def)
  with k show ?thesis
    by (cases "repo_id_try_from i"; cases "js_event j ev") (simp_all add: publish_event_def)
qed

lemma publish_effect:
  "\<exists>reg bus. publish env d ev st = (Inr (), st\<lparr>rs_hooks := reg, rs_bus := bus\<rparr>) \<and> rg_hooks reg = rg_hooks (rs_hooks st)
     \<and> rg_key reg = rg_key (rs_hooks st)"
proof -
  obtain reg where reg: "publish_event (re_crypto env) (re_json env) (int (dw_now d)) ev (Some (rs_hooks st), rs_bus st) = (Some reg, rs_bus st @ [ev])"
    "rg_hooks reg = rg_hooks (rs_hooks st)" "rg_key reg = rg_key (rs_hooks st)"
    using publish_event_some by blast
  then have "publish env d ev st = (Inr (), st\<lparr>rs_hooks := reg, rs_bus := rs_bus st @ [ev]\<rparr>)"
    by (simp add: publish_def rest_put_def)
  with reg(2,3) show ?thesis by blast
qed

lemma typed_publish: "keeps rest_typed (publish env d ev) (\<lambda>_. True)"
  unfolding holds_def
proof (intro allI impI)
  fix st assume st: "rest_typed st"
  obtain reg bus where "publish env d ev st = (Inr (), st\<lparr>rs_hooks := reg, rs_bus := bus\<rparr>)" "rg_hooks reg = rg_hooks (rs_hooks st)"
    using publish_effect by blast
  with st show "case publish env d ev st of (Inl e, st') \<Rightarrow> rest_typed st' | (Inr x, st') \<Rightarrow> rest_typed st' \<and> True"
    by (simp add: rest_typed_def)
qed

lemma typed_handle: "keeps I (handle_of i token) (\<lambda>_. True)"
  unfolding handle_of_def by (rule keeps_get) simp

lemma typed_quota: "keeps I (quota_check p) (\<lambda>_. True)"
  unfolding quota_check_def by (rule keeps_get) simp

lemma typed_delete_one: "keeps rest_typed (delete_one r i) (\<lambda>_. True)"
  unfolding delete_one_def
  by (rule keeps_bind [OF keeps_io [OF typed_frames(2)]])
    (auto simp: holds_def rest_put_def rest_typed_def owner_delete_def intro: repos_inv_filter)

lemma typed_owns_all: "keeps I (owns_all p i deps) (\<lambda>_. True)"
proof (induction deps)
  case (Cons dep deps)
  show ?case unfolding owns_all.simps
    by (rule keeps_bind [where G = "\<lambda>_. True"]) (intro holds_if keeps_owner keeps_return TrueI Cons.IH)+
qed (simp add: holds_def rest_return_def)

lemma typed_delete_chain: "keeps rest_typed (delete_chain deps) (\<lambda>_. True)"
proof (induction deps)
  case (Cons dep deps)
  show ?case unfolding delete_chain.simps
    by (intro keeps_bind [OF keeps_get [where G = "\<lambda>_. True"]] keeps_bind [OF typed_delete_one] keeps_bind [OF Cons.IH] keeps_return TrueI)
qed (simp add: holds_def rest_return_def)

lemma typed_revoke_one: "keeps rest_typed (revoke_one env d t) (\<lambda>_. True)"
  using update_where_inv
  by (auto simp: holds_def revoke_one_def rest_typed_def revoke_def Let_def split: prod.splits) (metis snd_conv)

lemma typed_revoke_all: "keeps rest_typed (revoke_all d r) (\<lambda>_. True)"
  using update_where_inv
  by (auto simp: holds_def revoke_all_def rest_typed_def revoke_all_for_repo_def split: prod.splits) (metis snd_conv)

lemma typed_add_hook: "id_typed (sb_repo sub) \<Longrightarrow> keeps rest_typed (add_hook env d sub) (\<lambda>_. True)"
  by (auto simp: holds_def add_hook_def hook_add_def Let_def rest_typed_def hooks_typed_def id_typed_def split: prod.splits sum.splits if_splits)

lemma hooks_typed_revoked:
  assumes "hooks_typed rows"
  shows "hooks_typed (map (\<lambda>row. if hit row then row\<lparr>hk_revoked := now\<rparr> else row) rows)"
proof -
  have "map hk_id (map (\<lambda>row. if hit row then row\<lparr>hk_revoked := now\<rparr> else row) rows) = map hk_id rows"
    by (induction rows) auto
  with assms show ?thesis unfolding hooks_typed_def by (simp only:) auto
qed

lemma typed_remove_hook: "keeps rest_typed (remove_hook d r hook) (\<lambda>_. True)"
  by (auto simp: holds_def remove_hook_def hook_remove_def Let_def rest_typed_def intro: hooks_typed_revoked)

lemma rotate_rows_ids:
  "rotate_rows c old new nonces n rows = Inr (k, rows') \<Longrightarrow> map hk_id rows' = map hk_id rows \<and> map hk_repo rows' = map hk_repo rows"
proof (induction rows arbitrary: n k rows')
  case (Cons row rows)
  then show ?case
    by (auto simp: res_bind_Inr_iff split: option.splits prod.splits if_splits)
qed simp


lemma typed_rotate_key:
  "keeps rest_typed (\<lambda>st. case rotate_master_key c new nonces (rs_hooks st) of (r, reg) \<Rightarrow> (r, st\<lparr>rs_hooks := reg\<rparr>)) (\<lambda>_. True)"
proof -
  have "hooks_typed (rg_hooks (snd (rotate_master_key c new nonces reg)))" if "hooks_typed (rg_hooks reg)" for reg
  proof (cases "rotate_rows c (rg_key reg) new nonces 0 (rg_hooks reg)")
    case (Inr p)
    then obtain k rows where "rotate_rows c (rg_key reg) new nonces 0 (rg_hooks reg) = Inr (k, rows)" by (cases p) auto
    with rotate_rows_ids [OF this] that show ?thesis
      by (simp add: rotate_master_key_def hooks_typed_def) (metis (mono_tags, opaque_lifting) imageE image_eqI list.set_map)
  qed (use that in \<open>simp add: rotate_master_key_def\<close>)
  then show ?thesis
    by (auto simp: holds_def rest_typed_def split: prod.splits sum.splits) (metis snd_conv)+
qed

lemmas typed_rules = keeps_bind [OF keeps_authenticate] keeps_bind [OF keeps_admin] keeps_bind [OF keeps_known]
  keeps_bind [OF keeps_owner] keeps_bind [OF keeps_throttle [OF typed_frames(1)]] keeps_bind [OF keeps_io [OF typed_frames(2)]]
  keeps_bind [OF keeps_cached [OF typed_frames(3)]] keeps_bind [OF keeps_audit [OF typed_frames(4)]]
  keeps_bind [OF keeps_write_key [OF typed_frames(5)]]
  keeps_bind [OF typed_chosen] keeps_bind [OF typed_get_subject] keeps_bind [OF typed_ownership] keeps_bind [OF typed_mint]
  keeps_bind [OF typed_publish] keeps_bind [OF typed_quota] keeps_bind [OF typed_delete_one] keeps_bind [OF typed_owns_all]
  keeps_bind [OF typed_delete_chain] keeps_bind [OF typed_revoke_one] keeps_bind [OF typed_revoke_all] keeps_bind [OF typed_rotate_key]

lemma typed_stats: "keeps I (rest_get f) (\<lambda>_. True)"
  by (rule keeps_get) simp

lemma keeps_case: "(\<And>a b. keeps I (f a b) G) \<Longrightarrow> keeps I (case x of (a, b) \<Rightarrow> f a b) G"
  by (cases x) simp

lemma keeps_outcome: "keeps I a G \<Longrightarrow> I st \<Longrightarrow> I (snd (outcome a st))"
  by (rule holds_outcome [where P = I]) (auto elim: holds_weaken)

lemma typed_config: "keeps rest_typed (rest_put (\<lambda>st. st\<lparr>rs_cfg := f st\<rparr>)) (\<lambda>_. True)"
  by (rule holds_put) (simp add: typed_frames)

lemmas typed_all = typed_rules typed_handle keeps_return keeps_bind [OF typed_config] typed_stats keeps_bind [OF typed_stats] typed_remove_hook

lemma typed_handlers:
  "keeps rest_typed (rest_list env d h limit offset) (\<lambda>_. True)"
  "keeps rest_typed (rest_mint env d h i scope ttl) (\<lambda>_. True)"
  "keeps rest_typed (rest_list_tokens env d h i) (\<lambda>_. True)"
  "keeps rest_typed (rest_rotate env d h i scope_q ttl) (\<lambda>_. True)"
  "keeps rest_typed (rest_list_hooks env h i) (\<lambda>_. True)"
  "keeps rest_typed (rest_delete_hook env d h i hook) (\<lambda>_. True)"
  "keeps rest_typed (rest_admin_list env d h limit offset) (\<lambda>_. True)"
  "keeps rest_typed (rest_admin_get env d h i) (\<lambda>_. True)"
  "keeps rest_typed (rest_rotate_admin env d h) (\<lambda>_. True)"
  "keeps rest_typed (rest_rotate_jwt env d h) (\<lambda>_. True)"
  "keeps rest_typed (rest_rotate_hook_key env d h) (\<lambda>_. True)"
  "keeps rest_typed (rest_audit_stats env h) (\<lambda>_. True)"
  "keeps rest_typed (rest_audit_verify env h) (\<lambda>_. True)"
  "keeps rest_typed (rest_audit_list env h q) (\<lambda>_. True)"
  unfolding rest_list_def rest_mint_def rest_list_tokens_def rest_rotate_def rest_list_hooks_def rest_delete_hook_def rest_admin_list_def rest_admin_get_def rest_rotate_admin_def rest_rotate_jwt_def rest_rotate_hook_key_def rest_audit_stats_def rest_audit_verify_def rest_audit_list_def detail_of_def Let_def
  by (intro typed_all keeps_case TrueI | assumption)+

lemma call_keeps_types:
  assumes "call_typed call" "rest_typed st"
  shows "rest_typed (snd (run_call env d h call st))"
proof -
  note rules = typed_rules typed_handle keeps_return
  show ?thesis
  proof (cases call)
    case (CreateRepo body)
    have "keeps rest_typed (rest_create env d h body) (\<lambda>_. True)"
      unfolding rest_create_def by (intro rules) (use assms(1) CreateRepo in simp_all)
    with assms(2) show ?thesis by (simp only: CreateRepo run_call.simps) (rule keeps_outcome)
  next
    case (ForkRepo i body)
    obtain fid ro where b: "fork_body_or_default body = (fid, ro)" by fastforce
    have "pred_option id_typed fid"
      using assms(1) ForkRepo b by (auto simp: fork_body_or_default_def split: option.splits)
    then have "keeps rest_typed (rest_fork env d h i body) (\<lambda>_. True)"
      unfolding rest_fork_def b prod.case by (intro rules) simp_all
    with assms(2) show ?thesis by (simp only: ForkRepo run_call.simps) (rule keeps_outcome)
  next
    case (DeleteRepo i force cascade)
    have "keeps rest_typed (rest_delete env d h i force cascade) (\<lambda>_. True)"
      unfolding rest_delete_def delete_cascade_def delete_plain_def Let_def
      by (intro rules holds_if keeps_fail keeps_bind [OF keeps_get [where G = "\<lambda>_. True"]] keeps_bind [where a = "if _ then _ else _" and G = "\<lambda>_. True"]) simp_all
    with assms(2) show ?thesis by (simp only: DeleteRepo run_call.simps) (rule keeps_outcome)
  next
    case (RevokeToken t)
    have "keeps rest_typed (rest_revoke env d h t) (\<lambda>_. True)"
      unfolding rest_revoke_def
      by (intro rules holds_if keeps_owner keeps_bind [OF keeps_get [where G = "\<lambda>_. True"]] keeps_bind [where a = "if _ then _ else _" and G = "\<lambda>_. True"]) simp_all
    with assms(2) show ?thesis by (simp only: RevokeToken run_call.simps) (rule keeps_outcome)
  next
    case (CreateHook i body)
    have "keeps rest_typed (rest_create_hook env d h i body) (\<lambda>_. True)"
      unfolding rest_create_hook_def by (intro rules keeps_bind [OF keeps_get [where G = "\<lambda>_. True"]] typed_add_hook) simp_all
    with assms(2) show ?thesis by (simp only: CreateHook run_call.simps) (rule keeps_outcome)
  qed (simp_all only: run_call.simps, (rule keeps_outcome, rule typed_handlers, rule assms(2))+)
qed


section \<open>Every run keeps the tables well-typed\<close>

text \<open>A run is a sequence of requests, each with its environment, its draws and its authorization header.\<close>

type_synonym request = "rest_env \<times> draw \<times> header \<times> rest_call"

definition run_request :: "request \<Rightarrow> rest_state \<Rightarrow> rest_state" where
  "run_request q st = (case q of (env, d, h, call) \<Rightarrow> snd (run_call env d h call st))"

lemma list_rows_total:
  "\<forall>row\<in>set rows. repo_id_ok (tr_repo row) \<and> (\<exists>s. tr_scope row = scope_str s) \<Longrightarrow> \<exists>out. list_rows rows = Inr out \<and> length out = length rows"
proof (induction rows)
  case (Cons row rows)
  then obtain s out where s: "tr_scope row = scope_str s" "list_rows rows = Inr out" "length out = length rows" by auto
  have "repo_id_try_from (tr_repo row) = Inr (RepoId (tr_repo row))" using Cons.prems by (simp add: repo_id_try_from_iff)
  with s show ?case by simp
qed simp

lemma run_typed:
  "list_all (\<lambda>(env, d, h, call). call_typed call) qs \<Longrightarrow> rest_typed st \<Longrightarrow> rest_typed (fold run_request qs st)"
proof (induction qs arbitrary: st)
  case (Cons q qs)
  obtain env d h call where q: "q = (env, d, h, call)" by (cases q)
  with Cons.prems have "rest_typed (run_request q st)" by (simp add: run_request_def call_keeps_types)
  with Cons q show ?case by simp
qed simp

text \<open>C18: Every run of requests keeps the tables well-typed: ids are valid and unique, owners are valid subjects, scopes
  are what the token store writes, hashes are unique. So a listing of tokens never fails on a stored
  row and drops none, and every row of the owner table converts.\<close>

theorem calls_keep_types:
  assumes "rest_typed st" "list_all (\<lambda>(env, d, h, call). call_typed call) qs" "st' = fold run_request qs st"
  shows "rest_typed st'
    \<and> (\<exists>out. list_for_repo now r owner (rs_tokens st') = Inr out
          \<and> length out = length (filter (\<lambda>row. tr_repo row = repo_str r \<and> row_active (as_i64 now) row
                \<and> (case owner of None \<Rightarrow> True | Some s \<Rightarrow> tr_subject row = Some (subject_str s))) (rs_tokens st')))
    \<and> length (list_all_repos (rs_owners st')) = length (rs_owners st')"
proof -
  have typed: "rest_typed st'" using run_typed assms by simp
  let ?P = "\<lambda>row. tr_repo row = repo_str r \<and> row_active (as_i64 now) row
     \<and> (case owner of None \<Rightarrow> True | Some s \<Rightarrow> tr_subject row = Some (subject_str s))"
  have "\<forall>row\<in>set (sort_key (\<lambda>row. - tr_created row) (filter ?P (rs_tokens st'))). repo_id_ok (tr_repo row) \<and> (\<exists>s. tr_scope row = scope_str s)"
    using typed by (auto simp: rest_typed_def tokens_inv_def)
  from list_rows_total [OF this] have "\<exists>out. list_for_repo now r owner (rs_tokens st') = Inr out \<and> length out = length (filter ?P (rs_tokens st'))"
    by (simp add: list_for_repo_def)
  moreover have "\<forall>row\<in>set (newest_first (rs_owners st')). row_to_repo_row row \<noteq> None"
    using typed row_total by (auto simp: rest_typed_def)
  from map_filter_total [OF this] have "length (list_all_repos (rs_owners st')) = length (rs_owners st')"
    by (simp add: list_all_repos_def newest_first_def)
  ultimately show ?thesis using typed by blast
qed

section \<open>A small server\<close>

text \<open>A server for the witnesses: a decoder that takes a token for its subject, and libraries that do nothing.\<close>

definition toy_env :: rest_env where
  "toy_env = \<lparr>re_decode = (\<lambda>t _ _. Some \<lparr>cl_user_id = None, cl_sub = Some t\<rparr>), re_sha256 = (\<lambda>x. x), re_crypto = toy_crypto,
     re_json = toy_json, re_value = (\<lambda>_. ''{}''), re_b64_url = str_of_bytes, re_gix = (\<lambda>_. Inr []),
     re_mount = sample_mount, re_budgets = default_budgets, re_hook_path = None, re_jwt_path = None\<rparr>"

definition toy_draw :: "string \<Rightarrow> draw" where
  "toy_draw t = \<lparr>dw_now = 5, dw_ms = 5000, dw_tick = 0, dw_token = as_bytes t, dw_id = [], dw_uuid = ''u1'', dw_nonces = (\<lambda>_. []),
     dw_mtimes = (\<lambda>_. 7)\<rparr>"

definition toy_state :: "(string \<times> fs_node) list \<Rightarrow> rest_state" where
  "toy_state children = \<lparr>rs_cfg = config_new ''http://localhost'' ''admin'' (Some ''key'') None None 10 0 0 True,
     rs_io = \<lparr>io_tree = FsDir (Some children), io_faults = []\<rparr>, rs_data = \<lparr>io_tree = FsDir (Some []), io_faults = []\<rparr>,
     rs_owners = [], rs_cache = [], rs_tokens = [], rs_limits = Map.empty, rs_audit = empty_log,
     rs_hooks = \<lparr>rg_hooks = [], rg_outbox = [], rg_seq = 0, rg_key = sample_key 5\<rparr>, rs_bus = [], rs_draining = False\<rparr>"

definition bearer :: "string \<Rightarrow> header" where
  "bearer t = Some (Some (''Bearer '' @ t))"

lemma toy_typed: "rest_typed (toy_state children)"
  by (simp add: rest_typed_def toy_state_def repos_inv_def tokens_inv_def hooks_typed_def)

theorem calls_keep_types_witness:
  "rest_typed (run_request (toy_env, toy_draw ''tok1'', bearer ''alice'', CreateRepo (Some (RepoId ''demo''))) (toy_state []))"
  using calls_keep_types [OF toy_typed, of "[(toy_env, toy_draw ''tok1'', bearer ''alice'', CreateRepo (Some (RepoId ''demo'')))]" _ "[]"]
  by (simp add: id_typed_def repo_id_ok_def is_lower_def)

end
