(* ===== verification/RestProps.thy ===== *)
theory RestProps
  imports RestInv
begin

text \<open>
  What the REST handlers do with each other: deletions and the forks, the tokens and subscriptions that
  outlive a repo, quotas, the audit log and the rotation of the administrator's token.
\<close>

section \<open>What a creation and a deletion do\<close>

lemma bind_get: "rest_bind (rest_get f) g st = (case f st of Inl e \<Rightarrow> (Inl e, st) | Inr x \<Rightarrow> g x st)"
  by (simp add: rest_bind_def rest_get_def)

lemma bind_put: "rest_bind (rest_put f) g st = g () (f st)"
  by (simp add: rest_bind_def rest_put_def)

lemma rest_create_run:
  assumes "caller env h st = Inr p" "limiter_check (re_budgets env) (dw_tick d) p CCreate (rs_limits st) = (Inr (), limits)"
    and "check_repo_quota p (cf_max_repos (rs_cfg st)) (rs_owners st) = Inr ()"
    and "create_repo r (rs_io st) = (Inr (), w)" "typed_subject p = Inr owner"
    and "mint (re_sha256 env) (dw_now d) (random_token (re_b64_url env) (dw_token d)) r Write None owner (rs_tokens st) = Inr (token, rows)"
  shows "\<exists>reg bus. rest_create env d h (Some r) st
      = (Inr \<lparr>rh_id = repo_str r, rh_remote = remote_url (rs_cfg st) (repo_str r) token, rh_token = token\<rparr>,
         st\<lparr>rs_limits := limits, rs_io := w, rs_owners := record_owner (int (dw_now d)) r owner (rs_owners st), rs_tokens := rows,
            rs_audit := audit_emit (re_sha256 env) (int (dw_now d)) ''repo.create'' (audit_label p) (Some r) (re_value env (JObj [])) None (rs_audit st),
            rs_hooks := reg, rs_bus := bus\<rparr>)
    \<and> rg_hooks reg = rg_hooks (rs_hooks st) \<and> rg_key reg = rg_key (rs_hooks st)"
proof -
  define st1 where "st1 = st\<lparr>rs_limits := limits, rs_io := w, rs_owners := record_owner (int (dw_now d)) r owner (rs_owners st), rs_tokens := rows,
            rs_audit := audit_emit (re_sha256 env) (int (dw_now d)) ''repo.create'' (audit_label p) (Some r) (re_value env (JObj [])) None (rs_audit st)\<rparr>"
  obtain reg bus where pub: "publish env d (StatusEvent (repo_str r) ''unknown'' ''idle'' (dw_ms d)) st1 = (Inr (), st1\<lparr>rs_hooks := reg, rs_bus := bus\<rparr>)"
    "rg_hooks reg = rg_hooks (rs_hooks st1)" "rg_key reg = rg_key (rs_hooks st1)"
    using publish_effect by blast
  have "rest_create env d h (Some r) st = rest_bind (publish env d (StatusEvent (repo_str r) ''unknown'' ''idle'' (dw_ms d))) (\<lambda>_. handle_of (repo_str r) token) st1"
    using assms by (simp add: rest_create_def rest_bind_def authenticate_caller throttle_def quota_check_def rest_get_def chosen_id_def rest_io_def
        take_ownership_def rest_put_def mint_new_def audit_def st1_def)
  also have "\<dots> = (Inr \<lparr>rh_id = repo_str r, rh_remote = remote_url (rs_cfg st) (repo_str r) token, rh_token = token\<rparr>, st1\<lparr>rs_hooks := reg, rs_bus := bus\<rparr>)"
    using pub(1) by (simp add: rest_bind_Inr handle_of_def rest_get_def) (simp add: st1_def)
  finally show ?thesis using pub(2,3) unfolding st1_def by (intro exI conjI) (assumption, simp_all)
qed

lemma rest_create_inv:
  assumes "rest_create env d h (Some r) st = (Inr made, st')"
  obtains p limits w owner token rows where "caller env h st = Inr p"
    "limiter_check (re_budgets env) (dw_tick d) p CCreate (rs_limits st) = (Inr (), limits)"
    "check_repo_quota p (cf_max_repos (rs_cfg st)) (rs_owners st) = Inr ()"
    "create_repo r (rs_io st) = (Inr (), w)" "typed_subject p = Inr owner"
    "mint (re_sha256 env) (dw_now d) (random_token (re_b64_url env) (dw_token d)) r Write None owner (rs_tokens st) = Inr (token, rows)"
  using assms unfolding rest_create_def
  by (elim rest_bind_InrE)
    (auto simp: authenticate_caller throttle_def quota_check_def rest_get_def chosen_id_def rest_io_def take_ownership_def rest_put_def
      mint_new_def split: prod.splits sum.splits)

lemma rest_delete_run:
  assumes "caller env h st = Inr p" "limiter_check (re_budgets env) (dw_tick d) p CDefault (rs_limits st) = (Inr (), limits)"
    and "enforce_owner p (repo_str r) (rs_owners st) = Inr ()" "repo_id_try_from (repo_str r) = Inr r"
    and "list_forks_of (re_mount env) (dw_mtimes d) (io_tree (rs_io st)) (repo_str r) (rs_cache st) = (Inr [], cache)"
    and "delete_repo r (rs_io st) = (Inr (), w)"
  shows "rest_delete env d h (repo_str r) None None st
      = (Inr (JObj [(''ok'', JBool True)]),
         st\<lparr>rs_limits := limits, rs_cache := alt_invalidate (repo_str r) cache, rs_io := w, rs_owners := owner_delete r (rs_owners st),
            rs_audit := audit_emit (re_sha256 env) (int (dw_now d)) ''repo.delete'' (audit_label p) (Some r)
              (re_value env (JObj [(''mode'', JStr ''default'')])) None (rs_audit st)\<rparr>)"
  using assms by (simp add: rest_delete_def rest_bind_def authenticate_caller throttle_def owner_only_def rest_get_def delete_plain_def rest_cached_def
      rest_return_def delete_one_def rest_io_def rest_put_def audit_def)

text \<open>A deletion leaves the tokens, the subscriptions and the configuration alone.\<close>

definition same_credentials :: "rest_state \<Rightarrow> rest_state \<Rightarrow> bool" where
  "same_credentials st st' = (rs_tokens st' = rs_tokens st \<and> rs_hooks st' = rs_hooks st \<and> rs_cfg st' = rs_cfg st)"

lemma same_frames:
  "same_credentials s (st\<lparr>rs_limits := limits\<rparr>) = same_credentials s st" "same_credentials s (st\<lparr>rs_io := w\<rparr>) = same_credentials s st"
  "same_credentials s (st\<lparr>rs_cache := c\<rparr>) = same_credentials s st" "same_credentials s (st\<lparr>rs_audit := a\<rparr>) = same_credentials s st"
  by (simp_all add: same_credentials_def)

lemma same_delete_one: "keeps (same_credentials s) (delete_one r i) (\<lambda>_. True)"
  unfolding delete_one_def by (rule keeps_bind [OF keeps_io [OF same_frames(2)]], rule holds_put) (simp add: same_credentials_def)

lemma same_delete_chain: "keeps (same_credentials s) (delete_chain deps) (\<lambda>_. True)"
proof (induction deps)
  case (Cons dep deps)
  show ?case unfolding delete_chain.simps
    by (intro keeps_bind [OF keeps_get [where G = "\<lambda>_. True"]] keeps_bind [OF same_delete_one] keeps_bind [OF Cons.IH] keeps_return TrueI)
qed (simp add: holds_def rest_return_def)

lemma delete_keeps_credentials:
  assumes "rest_delete env d h i force cascade st = (r, st')"
  shows "same_credentials st st'"
proof -
  have "keeps (same_credentials st) (rest_delete env d h i force cascade) (\<lambda>_. True)"
    unfolding rest_delete_def delete_cascade_def delete_plain_def Let_def
    by (intro keeps_bind [OF keeps_authenticate] keeps_bind [OF keeps_throttle [OF same_frames(1)]] keeps_bind [OF keeps_owner]
        keeps_bind [OF keeps_cached [OF same_frames(3)]] keeps_bind [OF keeps_audit [OF same_frames(4)]] keeps_bind [OF same_delete_one]
        keeps_bind [OF same_delete_chain] keeps_bind [OF typed_owns_all] holds_if keeps_fail keeps_return keeps_bind [OF keeps_get [where G = "\<lambda>_. True"]]
        keeps_bind [where a = "if _ then _ else _" and G = "\<lambda>_. True"] TrueI)
  moreover have "same_credentials st st" by (simp add: same_credentials_def)
  ultimately show ?thesis using assms by (cases r) (auto simp: holds_def)
qed


section \<open>Credentials outlive their repo\<close>

text \<open>C28: The credentials of a deleted repo work on its successor. Let a token of a repo be live, let the repo be deleted
  and let another user then create a repo of the same id, which is free to choose. The old token
  still passes the authorization of git requests for the new repo with the scope it had, although the
  owner table names the new user, and the new repo has all the webhook subscriptions of the old.\<close>

theorem credentials_outlive_repo:
  assumes live: "token_lookup sha256 now (Token t) (rs_tokens st) = Inr (Some \<lparr>tk_repo = r, tk_scope = sc\<rparr>)"
    and delete: "rest_delete env1 d1 h1 (repo_str r) force cascade st = (Inr v, st1)"
    and create: "rest_create env2 d2 h2 (Some r) st1 = (Inr made, st2)" "caller env2 h2 st1 = Inr (User s)"
    and header: "unb64 b64 = Some (as_bytes (''x:'' @ t))" "token_try_from t = Inr (Token t)"
  shows "authorize_git unb64 (\<lambda>x. token_lookup sha256 now x (rs_tokens st2)) (Some (Some (''Basic '' @ b64))) (repo_str r) sc
      = Inr \<lparr>tk_repo = r, tk_scope = sc\<rparr>
    \<and> get_owner r (rs_owners st2) = Some (Some (Subject s))
    \<and> (\<forall>c j. hook_list c j r (rs_hooks st2) = hook_list c j r (rs_hooks st))"
proof -
  from delete have same: "rs_tokens st1 = rs_tokens st" "rs_hooks st1 = rs_hooks st"
    using delete_keeps_credentials by (auto simp: same_credentials_def)
  from rest_create_inv [OF create(1)] obtain p limits w owner token rows where c: "caller env2 h2 st1 = Inr p"
    "limiter_check (re_budgets env2) (dw_tick d2) p CCreate (rs_limits st1) = (Inr (), limits)"
    "check_repo_quota p (cf_max_repos (rs_cfg st1)) (rs_owners st1) = Inr ()"
    "create_repo r (rs_io st1) = (Inr (), w)" "typed_subject p = Inr owner"
    "mint (re_sha256 env2) (dw_now d2) (random_token (re_b64_url env2) (dw_token d2)) r Write None owner (rs_tokens st1) = Inr (token, rows)"
    by blast
  have p: "p = User s" using c(1) create(2) by simp
  obtain reg bus where st2: "rs_owners st2 = record_owner (int (dw_now d2)) r owner (rs_owners st1)" "rs_tokens st2 = rows" "rs_hooks st2 = reg"
    "rg_hooks reg = rg_hooks (rs_hooks st1)" "rg_key reg = rg_key (rs_hooks st1)"
    using rest_create_run [OF c] create(1) by auto
  from c(5) p have owner: "owner = Some (Subject s)" "subject_ok (Subject s)"
    by (cases "subject_try_from s"; auto simp: typed_subject_def principal_subject_def subject_try_from_iff subject_ok_def)+
  obtain row where rows: "rows = rs_tokens st @ [row]"
    using c(6) same by (auto simp: mint_def res_bind_Inr_iff Let_def split: if_splits)
  have lookup: "token_lookup sha256 now (Token t) rows = Inr (Some \<lparr>tk_repo = r, tk_scope = sc\<rparr>)"
    using live by (simp add: token_lookup_def rows find_append split: option.splits)
  have ascii: "ascii (''x:'' @ t)" using header(2) by (auto simp: token_try_from_def ascii_def is_graphic_def list_all_iff Let_def split: if_splits)
  have "authorize_git unb64 (\<lambda>x. token_lookup sha256 now x (rs_tokens st2)) (Some (Some (''Basic '' @ b64))) (repo_str r) sc
      = Inr \<lparr>tk_repo = r, tk_scope = sc\<rparr>"
    using header lookup st2(2) from_utf8_ascii [OF ascii]
    by (simp add: authorize_git_def basic_token_def header_text_def ok_or_def)
  moreover have "get_owner r (rs_owners st2) = Some (Some (Subject s))"
    using owners_record [of owner "int (dw_now d2)" r "rs_owners st1"] owner by (simp add: st2(1) owners_def fun_eq_iff)
  moreover have "hook_list c' j' r (rs_hooks st2) = hook_list c' j' r (rs_hooks st)" for c' j'
    using st2(3-5) same by (simp add: hook_list_def live_rows_def)
  ultimately show ?thesis by blast
qed


text \<open>A user's repo with a token, deleted and created again by another user.\<close>

definition alice_state :: rest_state where
  "alice_state = (toy_state [(''demo.git'', FsDir (Some bare_layout))])
     \<lparr>rs_owners := [\<lparr>rr_id = ''demo'', rr_owner = Some ''alice'', rr_created = 3\<rparr>], rs_tokens := sample_rows\<rparr>"

lemma toy_caller: "cf_admin_token (rs_cfg st) = ''admin'' \<Longrightarrow> cf_jwt_secret (rs_cfg st) = Some ''key'' \<Longrightarrow> t \<noteq> ''admin''
    \<Longrightarrow> caller toy_env (bearer t) st = Inr (User t)"
  by (auto simp: caller_def authorize_rest_def bearer_def header_text_def ok_or_def toy_env_def jwt_verify_def claims_subject_def as_bytes_inj simp del: as_bytes_simps)

lemma toy_limit: "buckets (s, c) = None \<Longrightarrow> \<exists>k. limiter_check default_budgets 0 (User s) c buckets = (Inr (), buckets((s, c) \<mapsto> k))"
  by (cases c) (auto simp: limiter_check_def bucket_check_def default_budgets_def per_min_def refilled_def Let_def)

lemma toy_demo: "repo_id_try_from ''demo'' = Inr (RepoId ''demo'')" "repo_path (RepoId ''demo'') = ''demo.git''"
  by code_simp+

lemma toy_siblings: "siblings (FsDir (Some [(''demo.git'', node)])) = [''demo'']"
proof -
  have "utf8_valid (as_bytes ''demo.git'')" by (rule utf8_valid_ascii) (simp add: ascii_def)
  then show ?thesis by (simp add: siblings_def ends_with_iff del: as_bytes_simps)
qed

lemma toy_delete:
  "\<exists>v st'. rest_delete toy_env (toy_draw ''tok2'') (bearer ''alice'') ''demo'' None None alice_state = (Inr v, st')
     \<and> rs_io st' = \<lparr>io_tree = FsDir (Some []), io_faults = []\<rparr> \<and> rs_cfg st' = rs_cfg alice_state \<and> rs_owners st' = [] \<and> rs_tokens st' = sample_rows
     \<and> rs_limits st' (''bob'', CCreate) = None"
proof -
  let ?t = "FsDir (Some [(''demo.git'', FsDir (Some bare_layout))])"
  obtain k where l: "limiter_check (re_budgets toy_env) (dw_tick (toy_draw ''tok2'')) (User ''alice'') CDefault (rs_limits alice_state)
      = (Inr (), (rs_limits alice_state)((''alice'', CDefault) \<mapsto> k))"
    using toy_limit [of "rs_limits alice_state" "''alice''" CDefault] by (auto simp: toy_env_def toy_draw_def alice_state_def toy_state_def)
  have "forks_of sample_mount ?t ''demo'' = []" by (simp add: forks_of_def toy_siblings)
  then obtain c where f: "list_forks_of (re_mount toy_env) (dw_mtimes (toy_draw ''tok2'')) (io_tree (rs_io alice_state)) (repo_str (RepoId ''demo'')) (rs_cache alice_state)
      = (Inr [], c)"
    using list_forks_of_ok [of sample_mount "\<lambda>_. 7" "[(''demo.git'', FsDir (Some bare_layout))]" "[]" "''demo''"]
    by (auto simp: cache_ok_def toy_env_def toy_draw_def alice_state_def toy_state_def)
  have a: "caller toy_env (bearer ''alice'') alice_state = Inr (User ''alice'')"
    by (rule toy_caller) (simp_all add: alice_state_def toy_state_def config_new_def)
  have o: "enforce_owner (User ''alice'') (repo_str (RepoId ''demo'')) (rs_owners alice_state) = Inr ()"
    by (simp add: enforce_owner_def principal_subject_def ok_or_def toy_demo get_owner_def alice_state_def owner_of_column_def subject_try_from_def)
  have w: "delete_repo (RepoId ''demo'') (rs_io alice_state) = (Inr (), \<lparr>io_tree = FsDir (Some []), io_faults = []\<rparr>)"
    by (simp add: delete_repo_def alice_state_def toy_state_def is_dir_def toy_demo remove_dir_all_def io_op_def)
  show ?thesis
    using rest_delete_run [OF a l o _ f w] by (simp add: toy_demo) (simp add: owner_delete_def alice_state_def toy_state_def)
qed

lemma toy_create:
  assumes "rs_io st = \<lparr>io_tree = FsDir (Some []), io_faults = []\<rparr>" "rs_cfg st = rs_cfg alice_state" "rs_owners st = []" "rs_tokens st = sample_rows"
    and "rs_limits st (''bob'', CCreate) = None"
  shows "caller toy_env (bearer ''bob'') st = Inr (User ''bob'')"
    "\<exists>made st'. rest_create toy_env (toy_draw ''tok2'') (bearer ''bob'') (Some (RepoId ''demo'')) st = (Inr made, st')"
proof -
  show a: "caller toy_env (bearer ''bob'') st = Inr (User ''bob'')"
    by (rule toy_caller) (simp_all add: assms(2) alice_state_def toy_state_def config_new_def)
  obtain k where l: "limiter_check (re_budgets toy_env) (dw_tick (toy_draw ''tok2'')) (User ''bob'') CCreate (rs_limits st)
      = (Inr (), (rs_limits st)((''bob'', CCreate) \<mapsto> k))"
    using toy_limit [of "rs_limits st" "''bob''" CCreate] assms(5) by (auto simp: toy_env_def toy_draw_def)
  have "storage_ok (rs_io st)" "RepoId ''demo'' \<notin> repo_ids (rs_io st)"
    by (simp_all add: storage_ok_def assms(1) nfaults_def repo_ids_def)
  then obtain w where w: "create_repo (RepoId ''demo'') (rs_io st) = (Inr (), w)" using create_repo_law by metis
  have q: "check_repo_quota (User ''bob'') (cf_max_repos (rs_cfg st)) (rs_owners st) = Inr ()"
    by (simp add: check_repo_quota_def principal_subject_def ok_or_def subject_try_from_def count_by_owner_def assms(2,3)
        alice_state_def toy_state_def config_new_def)
  have s: "typed_subject (User ''bob'') = Inr (Some (Subject ''bob''))"
    by (simp add: typed_subject_def principal_subject_def subject_try_from_def)
  have "random_token (re_b64_url toy_env) (dw_token (toy_draw ''tok2'')) = ''tok2''"
    by (simp add: random_token_def toy_env_def toy_draw_def del: as_bytes_simps)
  moreover have "token_try_from ''tok2'' = Inr (Token ''tok2'')" by code_simp
  ultimately obtain token rows where m: "mint (re_sha256 toy_env) (dw_now (toy_draw ''tok2'')) (random_token (re_b64_url toy_env) (dw_token (toy_draw ''tok2'')))
      (RepoId ''demo'') Write None (Some (Subject ''bob'')) (rs_tokens st) = Inr (token, rows)"
    using hex_tok by (simp add: mint_def Let_def assms(4) sample_rows_def sha256_hex_def toy_env_def)
  show "\<exists>made st'. rest_create toy_env (toy_draw ''tok2'') (bearer ''bob'') (Some (RepoId ''demo'')) st = (Inr made, st')"
    using rest_create_run [OF a l q w s m] by blast
qed

theorem credentials_outlive_repo_witness:
  "\<exists>st2 :: rest_state. authorize_git (\<lambda>_. Some (as_bytes ''x:tok1'')) (\<lambda>x. token_lookup (\<lambda>x. x) 7 x (rs_tokens st2)) (Some (Some ''Basic eDp0b2sx'')) ''demo'' Write
       = Inr \<lparr>tk_repo = RepoId ''demo'', tk_scope = Write\<rparr>
     \<and> get_owner (RepoId ''demo'') (rs_owners st2) = Some (Some (Subject ''bob''))"
proof -
  obtain v st1 where del: "rest_delete toy_env (toy_draw ''tok2'') (bearer ''alice'') (repo_str (RepoId ''demo'')) None None alice_state = (Inr v, st1)"
    "rs_io st1 = \<lparr>io_tree = FsDir (Some []), io_faults = []\<rparr>" "rs_cfg st1 = rs_cfg alice_state" "rs_owners st1 = []" "rs_tokens st1 = sample_rows"
    "rs_limits st1 (''bob'', CCreate) = None"
    using toy_delete by auto
  from toy_create [OF del(2-6)] obtain made st2 where c: "caller toy_env (bearer ''bob'') st1 = Inr (User ''bob'')"
    "rest_create toy_env (toy_draw ''tok2'') (bearer ''bob'') (Some (RepoId ''demo'')) st1 = (Inr made, st2)" by blast
  have "find (\<lambda>row. tr_hash row = hash_of (\<lambda>x. x) (Token ''tok1'') \<and> row_active (as_i64 7) row) sample_rows = Some (hd sample_rows)"
    by (simp add: sample_rows_def hash_of_def sha256_hex_def row_active_def)
  then have "token_lookup (\<lambda>x. x) 7 (Token ''tok1'') (rs_tokens alice_state) = Inr (Some \<lparr>tk_repo = RepoId ''demo'', tk_scope = Write\<rparr>)"
    using lookup_inv [OF sample_rows_inv, of "\<lambda>x. x" 7 "Token ''tok1''"] by (simp add: alice_state_def row_record_def sample_rows_def)
  moreover have "token_try_from ''tok1'' = Inr (Token ''tok1'')" by code_simp
  ultimately show ?thesis
    using credentials_outlive_repo [OF _ del(1) c(2,1), of "\<lambda>x. x" 7 "''tok1''" Write "\<lambda>_. Some (as_bytes ''x:tok1'')" "''eDp0b2sx''"]
    by (simp del: as_bytes_simps) (elim conjE, intro exI conjI, assumption+)
qed

section \<open>Deletions and forks\<close>

lemma enforce_owned: "enforce_owner (User s) i (rs_owners st) = Inr () \<Longrightarrow> owned s i st"
  by (cases "repo_id_try_from i"; cases "get_owner (projr (repo_id_try_from i)) (rs_owners st)")
    (auto simp: owned_def enforce_owner_def principal_subject_def ok_or_def split: option.splits if_splits)

definition without_repos :: "string list \<Rightarrow> (string \<times> fs_node) list \<Rightarrow> (string \<times> fs_node) list" where
  "without_repos ids children = filter (\<lambda>(name, _). name \<notin> (\<lambda>i. i @ ''.git'') ` set ids) children"

lemma without_repos_cons: "AList.delete (i @ ''.git'') (without_repos ids children) = without_repos (i # ids) children"
  by (auto simp: without_repos_def AList.delete_eq intro!: filter_cong)

lemma without_repos_snoc: "AList.delete (i @ ''.git'') (without_repos ids children) = without_repos (ids @ [i]) children"
  by (auto simp: without_repos_def AList.delete_eq intro!: filter_cong)

lemma delete_repo_inv:
  assumes "delete_repo r w = (Inr x, w')" "io_tree w = FsDir (Some children)"
  shows "io_tree w' = FsDir (Some (AList.delete (repo_path r) children))"
  using assms by (auto simp: delete_repo_def remove_dir_all_def io_op_def Let_def split: if_splits option.splits prod.splits fs_node.splits)

lemma repo_id_str: "repo_id_try_from i = Inr r \<Longrightarrow> repo_str r = i"
  by (auto simp: repo_id_try_from_iff)

lemma delete_one_inv:
  assumes "delete_one r i st = (Inr x, st')" "repo_id_try_from i = Inr r" "io_tree (rs_io st) = FsDir (Some children)"
  shows "io_tree (rs_io st') = FsDir (Some (AList.delete (i @ ''.git'') children))"
  using assms delete_repo_inv [of r "rs_io st" _ _ children] repo_id_str [OF assms(2)]
  by (auto simp: delete_one_def rest_bind_def rest_io_def rest_put_def repo_path_def split: prod.splits sum.splits)

lemma delete_chain_inv:
  assumes "delete_chain deps st = (Inr out, st')" "io_tree (rs_io st) = FsDir (Some (without_repos done children))"
  shows "io_tree (rs_io st') = FsDir (Some (without_repos (done @ deps) children))"
  using assms
proof (induction deps arbitrary: st out "done")
  case Nil
  then show ?case by (simp add: rest_return_def)
next
  case (Cons dep deps)
  from Cons.prems(1) obtain r x st1 out' where r: "repo_id_try_from dep = Inr r" "delete_one r dep st = (Inr x, st1)"
    "delete_chain deps st1 = (Inr out', st')"
    unfolding delete_chain.simps by (elim rest_bind_InrE) (auto simp: rest_get_def rest_return_def)
  have "io_tree (rs_io st1) = FsDir (Some (without_repos (done @ [dep]) children))"
    using delete_one_inv [OF r(2,1) Cons.prems(2)] by (simp add: without_repos_snoc)
  from Cons.IH [OF r(3) this] show ?case by simp
qed

lemma owns_all_inv: "owns_all p i deps st = (Inr x, st') \<Longrightarrow> st' = st \<and> (\<forall>dep\<in>set deps. dep \<noteq> i \<longrightarrow> enforce_owner p dep (rs_owners st) = Inr ())"
proof (induction deps)
  case (Cons dep deps)
  then show ?case
    by (auto simp: rest_bind_def owner_only_def rest_get_def rest_return_def split: sum.splits if_splits)
qed (simp add: rest_return_def)

lemma rest_delete_inv:
  assumes "rest_delete env d h i force cascade st = (Inr v, st')"
  obtains p limits r where "caller env h st = Inr p" "enforce_owner p i (rs_owners st) = Inr ()" "repo_id_try_from i = Inr r"
    "if force = Some True \<and> cascade = Some True then False
     else if cascade = Some True then delete_cascade env d p i r (st\<lparr>rs_limits := limits\<rparr>) = (Inr v, st')
     else delete_plain env d p i r (force = Some True) (st\<lparr>rs_limits := limits\<rparr>) = (Inr v, st')"
proof -
  from assms obtain p where p: "caller env h st = Inr p"
    unfolding rest_delete_def by (elim rest_bind_InrE) (auto simp: authenticate_caller)
  obtain c limits where t: "throttle env d p CDefault st = (c, st\<lparr>rs_limits := limits\<rparr>)" using throttle_effect by blast
  from assms p t have ok: "c = Inr ()" "enforce_owner p i (rs_owners st) = Inr ()"
    unfolding rest_delete_def by (auto simp: rest_bind_def authenticate_caller owner_only_def rest_get_def split: sum.splits)
  from assms p t ok obtain r where r: "repo_id_try_from i = Inr r"
    unfolding rest_delete_def by (auto simp: rest_bind_def authenticate_caller owner_only_def rest_get_def split: sum.splits)
  show thesis
    by (rule that [OF p ok(2) r, of limits])
      (use assms p t ok r in \<open>auto simp: rest_delete_def rest_bind_def authenticate_caller owner_only_def rest_get_def rest_fail_def Let_def split: if_splits\<close>)
qed





section \<open>Quotas\<close>

definition quota_inv :: "rest_state \<Rightarrow> bool" where
  "quota_inv st = (\<forall>s. count_by_owner s (rs_owners st) \<le> cf_max_repos (rs_cfg st))"

text \<open>The caller has room for one more repo.\<close>

definition room :: "principal \<Rightarrow> rest_state \<Rightarrow> bool" where
  "room p st = (quota_inv st \<and> check_repo_quota p (cf_max_repos (rs_cfg st)) (rs_owners st) = Inr ())"

lemma quota_frames:
  "quota_inv (st\<lparr>rs_limits := limits\<rparr>) = quota_inv st" "quota_inv (st\<lparr>rs_io := w\<rparr>) = quota_inv st"
  "quota_inv (st\<lparr>rs_cache := c\<rparr>) = quota_inv st" "quota_inv (st\<lparr>rs_audit := a\<rparr>) = quota_inv st"
  "quota_inv (st\<lparr>rs_data := w\<rparr>) = quota_inv st" "room p (st\<lparr>rs_io := w\<rparr>) = room p st"
  by (simp_all add: quota_inv_def room_def)

lemma room_bind:
  assumes "keeps (room p) a G" "\<And>x. G x \<Longrightarrow> holds (room p) (f x) R quota_inv"
  shows "holds (room p) (rest_bind a f) R quota_inv"
proof (rule holds_bind)
  show "holds (room p) a (\<lambda>x st. room p st \<and> G x) quota_inv"
    unfolding holds_def
  proof (intro allI impI)
    fix st assume "room p st"
    with assms(1) have "case a st of (Inl e, st') \<Rightarrow> room p st' | (Inr x, st') \<Rightarrow> room p st' \<and> G x" unfolding holds_def by simp
    then show "case a st of (Inl e, st') \<Rightarrow> quota_inv st' | (Inr x, st') \<Rightarrow> room p st' \<and> G x"
      by (cases "a st"; cases "fst (a st)") (simp_all add: room_def)
  qed
  show "holds (\<lambda>st. room p st \<and> G x) (f x) R quota_inv" for x
    using assms(2) [of x] by (cases "G x") (simp_all add: holds_def)
qed

lemma quota_ownership:
  assumes "typed_subject p = Inr owner"
  shows "holds (room p) (take_ownership d r owner) (\<lambda>_. quota_inv) quota_inv"
  unfolding take_ownership_def
proof (rule holds_put)
  fix st assume st: "room p st"
  have owner: "owner = map_option Subject (principal_subject p)"
  proof (cases "principal_subject p")
    case (Some s)
    then obtain w where "subject_try_from s = Inr w" "owner = Some w"
      using assms by (cases "subject_try_from s") (auto simp: typed_subject_def)
    with Some show ?thesis by (simp add: subject_try_from_iff)
  qed (use assms in \<open>simp add: typed_subject_def\<close>)
  have "guarded_create (cf_max_repos (rs_cfg st)) (int (dw_now d)) p r (rs_owners st) = record_owner (int (dw_now d)) r owner (rs_owners st)"
    using st by (simp add: guarded_create_def room_def owner)
  with quota_step_bound [of "rs_owners st" "cf_max_repos (rs_cfg st)" _ "Create (int (dw_now d)) p r"] st
  show "quota_inv (st\<lparr>rs_owners := record_owner (int (dw_now d)) r owner (rs_owners st)\<rparr>)"
    by (simp add: quota_inv_def room_def)
qed

lemma keepsI:
  assumes "\<And>st. I st \<Longrightarrow> I (snd (a st))"
  shows "keeps I a (\<lambda>_. True)"
  unfolding holds_def
proof (intro allI impI)
  fix st assume "I st"
  then have "I (snd (a st))" by (rule assms)
  then show "case a st of (Inl e, st') \<Rightarrow> I st' | (Inr x, st') \<Rightarrow> I st' \<and> True"
    by (cases "a st"; cases "fst (a st)") simp_all
qed

lemma quota_same:
  assumes "\<And>st. rs_owners (snd (a st)) = rs_owners st \<and> cf_max_repos (rs_cfg (snd (a st))) = cf_max_repos (rs_cfg st)"
  shows "keeps quota_inv a (\<lambda>_. True)"
  by (rule keepsI) (simp add: quota_inv_def assms)

lemma quota_simple:
  "keeps quota_inv (mint_new env d r scope ttl subject) (\<lambda>_. True)" "keeps quota_inv (publish env d ev) (\<lambda>_. True)"
  "keeps quota_inv (revoke_one env d t) (\<lambda>_. True)" "keeps quota_inv (revoke_all d r) (\<lambda>_. True)"
  "keeps quota_inv (add_hook env d sub) (\<lambda>_. True)" "keeps quota_inv (remove_hook d r hook) (\<lambda>_. True)"
  by (rule quota_same; auto simp: mint_new_def publish_def rest_put_def revoke_one_def revoke_all_def add_hook_def remove_hook_def
      split: prod.splits sum.splits option.splits)+

lemma quota_delete_one: "keeps quota_inv (delete_one r i) (\<lambda>_. True)"
proof -
  have "quota_inv (st\<lparr>rs_owners := owner_delete r (rs_owners st), rs_cache := c\<rparr>)" if "quota_inv st" for st c
  proof -
    have "count_by_owner s (owner_delete r (rs_owners st)) \<le> cf_max_repos (rs_cfg st)" for s
      using that count_filter_le [of s _ "rs_owners st"] le_trans unfolding quota_inv_def owner_delete_def by blast
    then show ?thesis by (simp add: quota_inv_def)
  qed
  then show ?thesis unfolding delete_one_def
    by (intro keeps_bind [OF keeps_io [OF quota_frames(2)]] keepsI) (simp add: rest_put_def)
qed

lemma quota_delete_chain: "keeps quota_inv (delete_chain deps) (\<lambda>_. True)"
proof (induction deps)
  case (Cons dep deps)
  show ?case unfolding delete_chain.simps
    by (intro keeps_bind [OF keeps_get [where G = "\<lambda>_. True"]] keeps_bind [OF quota_delete_one] keeps_bind [OF Cons.IH] keeps_return TrueI)
qed (simp add: holds_def rest_return_def)

lemma quota_config: "(\<And>st. cf_max_repos (f st) = cf_max_repos (rs_cfg st)) \<Longrightarrow> keeps quota_inv (rest_put (\<lambda>st. st\<lparr>rs_cfg := f st\<rparr>)) (\<lambda>_. True)"
  by (rule quota_same) (simp add: rest_put_def)

lemma quota_rotate_key:
  "keeps quota_inv (\<lambda>st. case rotate_master_key c new nonces (rs_hooks st) of (r, reg) \<Rightarrow> (r, st\<lparr>rs_hooks := reg\<rparr>)) (\<lambda>_. True)"
  by (rule quota_same) (simp split: prod.splits)

text \<open>The middle of a creation: the check, the operation on the disk, the recording.\<close>

lemma quota_guarded:
  assumes "\<And>r owner. keeps quota_inv (rest_of r owner) (\<lambda>_. True)"
  shows "holds quota_inv
    (rest_bind (quota_check p) (\<lambda>_.
     rest_bind (chosen_id d body) (\<lambda>r.
     rest_bind (rest_io (prog r)) (\<lambda>_.
     rest_bind (rest_get (\<lambda>_. typed_subject p)) (\<lambda>owner.
     rest_bind (take_ownership d r owner) (\<lambda>_. rest_of r owner)))))) (\<lambda>_ st. quota_inv st \<and> True) quota_inv"
proof (rule holds_bind)
  show "holds quota_inv (quota_check p) (\<lambda>_. room p) quota_inv"
    unfolding quota_check_def by (rule holds_get) (simp_all add: room_def)
next
  fix u :: unit
  have "holds (room p) (rest_bind (take_ownership d r owner) (\<lambda>_. rest_of r owner)) (\<lambda>_ st. quota_inv st \<and> True) quota_inv"
    if "typed_subject p = Inr owner" for r owner
    by (rule holds_bind [OF quota_ownership [OF that]]) (rule assms)
  then show "holds (room p) (rest_bind (chosen_id d body) (\<lambda>r. rest_bind (rest_io (prog r)) (\<lambda>_.
     rest_bind (rest_get (\<lambda>_. typed_subject p)) (\<lambda>owner. rest_bind (take_ownership d r owner) (\<lambda>_. rest_of r owner)))))
     (\<lambda>_ st. quota_inv st \<and> True) quota_inv"
    unfolding chosen_id_def
    by (intro room_bind [OF keeps_get [where G = "\<lambda>_. True"]] room_bind [OF keeps_io [OF quota_frames(6)]]
        room_bind [OF keeps_get [where G = "\<lambda>owner. typed_subject p = Inr owner"]]) simp_all
qed


lemmas quota_rules = keeps_bind [OF keeps_authenticate] keeps_bind [OF keeps_admin] keeps_bind [OF keeps_known]
  keeps_bind [OF keeps_owner] keeps_bind [OF keeps_throttle [OF quota_frames(1)]]
  keeps_bind [OF keeps_cached [OF quota_frames(3)]] keeps_bind [OF keeps_audit [OF quota_frames(4)]]
  keeps_bind [OF keeps_write_key [OF quota_frames(5)]] quota_simple [THEN keeps_bind] quota_simple
  keeps_bind [OF quota_delete_one] keeps_bind [OF typed_owns_all] keeps_bind [OF quota_delete_chain] keeps_bind [OF quota_rotate_key]
  typed_handle keeps_return typed_stats keeps_bind [OF typed_stats] keeps_fail keeps_owner holds_if keeps_case
  keeps_bind [where a = "if _ then _ else _" and G = "\<lambda>_. True"]

lemma quota_handlers:
  "keeps quota_inv (rest_create env d h body) (\<lambda>_. True)"
  "keeps quota_inv (rest_delete env d h i force cascade) (\<lambda>_. True)"
  "keeps quota_inv (rest_list env d h limit offset) (\<lambda>_. True)"
  "keeps quota_inv (rest_mint env d h i scope ttl) (\<lambda>_. True)"
  "keeps quota_inv (rest_revoke env d h t) (\<lambda>_. True)"
  "keeps quota_inv (rest_list_tokens env d h i) (\<lambda>_. True)"
  "keeps quota_inv (rest_rotate env d h i scope_q ttl) (\<lambda>_. True)"
  "keeps quota_inv (rest_create_hook env d h i hbody) (\<lambda>_. True)"
  "keeps quota_inv (rest_list_hooks env h i) (\<lambda>_. True)"
  "keeps quota_inv (rest_delete_hook env d h i hook) (\<lambda>_. True)"
  "keeps quota_inv (rest_admin_list env d h limit offset) (\<lambda>_. True)"
  "keeps quota_inv (rest_admin_get env d h i) (\<lambda>_. True)"
  "keeps quota_inv (rest_rotate_admin env d h) (\<lambda>_. True)"
  "keeps quota_inv (rest_rotate_jwt env d h) (\<lambda>_. True)"
  "keeps quota_inv (rest_rotate_hook_key env d h) (\<lambda>_. True)"
  "keeps quota_inv (rest_audit_stats env h) (\<lambda>_. True)"
  "keeps quota_inv (rest_audit_verify env h) (\<lambda>_. True)"
  "keeps quota_inv (rest_audit_list env h q) (\<lambda>_. True)"
  unfolding rest_create_def rest_delete_def delete_cascade_def delete_plain_def rest_list_def rest_mint_def rest_revoke_def rest_list_tokens_def
    rest_rotate_def rest_create_hook_def rest_list_hooks_def rest_delete_hook_def rest_admin_list_def rest_admin_get_def detail_of_def
    rest_rotate_admin_def rest_rotate_jwt_def rest_rotate_hook_key_def rest_audit_stats_def rest_audit_verify_def rest_audit_list_def Let_def
  by (intro quota_guarded quota_rules keeps_bind [OF quota_config] TrueI | simp add: rotate_admin_token_def rotate_jwt_secret_def)+


lemma quota_fork: "keeps quota_inv (rest_fork env d h i body) (\<lambda>_. True)"
proof -
  obtain fid ro where b: "fork_body_or_default body = (fid, ro)" by fastforce
  show ?thesis unfolding rest_fork_def b prod.case
    by (intro quota_guarded quota_rules TrueI)
qed

lemma call_keeps_quota: "quota_inv st \<Longrightarrow> quota_inv (snd (run_call env d h call st))"
  by (cases call; simp only: run_call.simps; rule keeps_outcome; (rule quota_handlers | rule quota_fork)?)

text \<open>C13: Nobody gets past the repo quota. Over any run of requests by anyone, creations and forks included, no user
  owns more repos than the configured maximum.\<close>

theorem quota_holds:
  assumes "quota_inv st"
  shows "quota_inv (fold run_request qs st)"
  using assms
proof (induction qs arbitrary: st)
  case (Cons q qs)
  then have "quota_inv (run_request q st)" by (cases q) (simp add: run_request_def call_keeps_quota)
  with Cons show ?case by simp
qed simp

theorem quota_holds_witness:
  "quota_inv (run_request (toy_env, toy_draw ''tok1'', bearer ''alice'', CreateRepo (Some (RepoId ''demo''))) (toy_state []))"
proof -
  have "quota_inv (toy_state [])" by (simp add: quota_inv_def toy_state_def count_by_owner_def)
  from quota_holds [OF this, of "[(toy_env, toy_draw ''tok1'', bearer ''alice'', CreateRepo (Some (RepoId ''demo'')))]"] show ?thesis
    by (simp only: fold.simps id_def comp_def)
qed

end
