(* ===== verification/RestAudit.thy ===== *)
theory RestAudit
  imports RestProps
begin

text \<open>
  Rotation of the administrator's token, and what the REST requests leave in the audit log (\<open>audit::record\<close> in the handlers under \<open>src/rest\<close>): the triples of
  RestInv with the log as the invariant, and the row of each request.
\<close>

section \<open>The audit log\<close>

text \<open>The requests that leave a row in the audit log, with its event.\<close>

fun audit_event_of :: "rest_call \<Rightarrow> string option" where
  "audit_event_of (CreateRepo body) = Some ''repo.create''"
| "audit_event_of (ForkRepo i body) = Some ''repo.fork''"
| "audit_event_of (DeleteRepo i force cascade) = Some ''repo.delete''"
| "audit_event_of (MintToken i scope ttl) = Some ''token.mint''"
| "audit_event_of (RevokeToken t) = Some ''token.revoke''"
| "audit_event_of (RotateTokens i scope ttl) = Some ''token.rotate''"
| "audit_event_of AdminRotateToken = Some ''admin.token.rotate''"
| "audit_event_of AdminRotateJwt = Some ''admin.jwt_key.rotate''"
| "audit_event_of AdminRotateHookKey = Some ''admin.webhook_key.rotate''"
| "audit_event_of call = None"

text \<open>One row of that event by that actor was added to the log \<open>A\<close>.\<close>

definition audited :: "rest_env \<Rightarrow> draw \<Rightarrow> string \<Rightarrow> string \<Rightarrow> audit_store \<Rightarrow> rest_state \<Rightarrow> bool" where
  "audited env d event actor A st =
     (\<exists>repo info. rs_audit st = audit_emit (re_sha256 env) (int (dw_now d)) event actor repo info None A)"

definition log_is :: "audit_store \<Rightarrow> rest_state \<Rightarrow> bool" where
  "log_is A st = (rs_audit st = A)"

lemma log_frames:
  "log_is A (st\<lparr>rs_limits := limits\<rparr>) = log_is A st" "log_is A (st\<lparr>rs_io := w\<rparr>) = log_is A st"
  "log_is A (st\<lparr>rs_cache := c\<rparr>) = log_is A st" "log_is A (st\<lparr>rs_data := w\<rparr>) = log_is A st"
  by (simp_all add: log_is_def)

lemma logI: "(\<And>st. rs_audit (snd (a st)) = rs_audit st) \<Longrightarrow> keeps (log_is A) a (\<lambda>_. True)"
  by (rule keepsI) (simp add: log_is_def)

lemma log_simple:
  "keeps (log_is A) (mint_new env d r scope ttl subject) (\<lambda>_. True)" "keeps (log_is A) (publish env d ev) (\<lambda>_. True)"
  "keeps (log_is A) (revoke_one env d t) (\<lambda>_. True)" "keeps (log_is A) (revoke_all d r) (\<lambda>_. True)"
  "keeps (log_is A) (add_hook env d sub) (\<lambda>_. True)" "keeps (log_is A) (remove_hook d r hook) (\<lambda>_. True)"
  "keeps (log_is A) (take_ownership d r owner) (\<lambda>_. True)" "keeps (log_is A) (rest_put (\<lambda>st. st\<lparr>rs_cfg := f st\<rparr>)) (\<lambda>_. True)"
  "keeps (log_is A) (\<lambda>st. case rotate_master_key c new nonces (rs_hooks st) of (r, reg) \<Rightarrow> (r, st\<lparr>rs_hooks := reg\<rparr>)) (\<lambda>_. True)"
  by (rule logI; auto simp: mint_new_def publish_def rest_put_def revoke_one_def revoke_all_def add_hook_def remove_hook_def take_ownership_def
      split: prod.splits sum.splits option.splits)+

lemma log_delete_one: "keeps (log_is A) (delete_one r i) (\<lambda>_. True)"
  unfolding delete_one_def by (intro keeps_bind [OF keeps_io [OF log_frames(2)]] logI) (simp add: rest_put_def)

lemma log_delete_chain: "keeps (log_is A) (delete_chain deps) (\<lambda>_. True)"
proof (induction deps)
  case (Cons dep deps)
  show ?case unfolding delete_chain.simps
    by (intro keeps_bind [OF keeps_get [where G = "\<lambda>_. True"]] keeps_bind [OF log_delete_one] keeps_bind [OF Cons.IH] keeps_return TrueI)
qed (simp add: holds_def rest_return_def)


definition logged :: "rest_env \<Rightarrow> draw \<Rightarrow> header \<Rightarrow> string \<Rightarrow> 'a rest \<Rightarrow> rest_state \<Rightarrow> bool" where
  "logged env d h event a st =
     (case a st of
        (Inl e, st') \<Rightarrow> rs_audit st' = rs_audit st
      | (Inr x, st') \<Rightarrow> \<exists>p. caller env h st = Inr p \<and> audited env d event (audit_label p) (rs_audit st) st')"

lemma logged_auth:
  assumes "\<And>p. holds (log_is (rs_audit st)) (f p) (\<lambda>_. audited env d event (audit_label p) (rs_audit st)) (log_is (rs_audit st))"
  shows "logged env d h event (rest_bind (authenticate env h) f) st"
proof (cases "caller env h st")
  case (Inl e)
  then show ?thesis by (simp add: logged_def rest_bind_def authenticate_caller)
next
  case (Inr p)
  obtain r st' where run: "f p st = (r, st')" by (cases "f p st")
  have all: "rest_bind (authenticate env h) f st = (r, st')" by (simp add: rest_bind_def authenticate_caller Inr run)
  have "log_is (rs_audit st) st" by (simp add: log_is_def)
  note out = assms [of p, unfolded holds_def, rule_format, OF this, unfolded run prod.case]
  show ?thesis
  proof (cases r)
    case (Inl e)
    with out show ?thesis by (simp add: logged_def all log_is_def)
  next
    case R: (Inr x)
    from out have "audited env d event (audit_label p) (rs_audit st) st'" by (simp only: R sum.case)
    then show ?thesis by (simp only: logged_def all R prod.case sum.case Inr) blast
  qed
qed

lemma logged_admin:
  assumes "holds (log_is (rs_audit st)) (f ()) (\<lambda>_. audited env d event ''admin'' (rs_audit st)) (log_is (rs_audit st))"
  shows "logged env d h event (rest_bind (require_admin env h) f) st"
  unfolding require_admin_def rest_bind_assoc
proof (rule logged_auth)
  show "holds (log_is (rs_audit st)) (rest_bind (if p \<noteq> Admin then rest_fail (Forbidden ''admin inspection endpoints require admin auth'') else rest_return ()) f)
      (\<lambda>_. audited env d event (audit_label p) (rs_audit st)) (log_is (rs_audit st))" for p
  proof (cases "p = Admin")
    case True
    have "rest_bind (rest_return ()) f = f ()" by (rule ext) (simp add: rest_bind_def rest_return_def)
    with assms show ?thesis by (simp only: True audit_label_def principal.case simp_thms if_False)
  next
    case False
    have "rest_bind (rest_fail e) f = rest_fail e" for e by (rule ext) (simp add: rest_bind_def rest_fail_def)
    with False show ?thesis by (simp only: simp_thms if_True) (simp add: holds_def rest_fail_def)
  qed
qed

lemma log_bind:
  assumes "keeps (log_is A) a G" "\<And>x. holds (log_is A) (f x) R (log_is A)"
  shows "holds (log_is A) (rest_bind a f) R (log_is A)"
  by (rule holds_bind [OF assms(1)]) (use assms(2) in \<open>simp add: holds_def\<close>)

lemma log_audit:
  assumes "holds (audited env d event actor A) (f ()) R (log_is A)"
  shows "holds (log_is A) (rest_bind (audit env d event actor repo info) f) R (log_is A)"
  unfolding holds_def
proof (intro allI impI)
  fix st assume here: "log_is A st"
  let ?st = "st\<lparr>rs_audit := audit_emit (re_sha256 env) (int (dw_now d)) event actor repo (re_value env info) None (rs_audit st)\<rparr>"
  have "audited env d event actor A ?st" unfolding audited_def using here by (intro exI) (simp add: log_is_def)
  note out = assms [unfolded holds_def, rule_format, OF this]
  have "rest_bind (audit env d event actor repo info) f st = f () ?st" by (simp add: rest_bind_def audit_def rest_put_def)
  with out show "case rest_bind (audit env d event actor repo info) f st of (Inl e, st') \<Rightarrow> log_is A st' | (Inr x, st') \<Rightarrow> R x st'" by simp
qed

lemma audited_quiet:
  assumes "\<And>st. \<exists>x st'. a st = (Inr x, st') \<and> rs_audit st' = rs_audit st"
  shows "holds (audited env d event actor A) a (\<lambda>_. audited env d event actor A) E"
  unfolding holds_def
proof (intro allI impI)
  fix st assume "audited env d event actor A st"
  moreover obtain x st' where "a st = (Inr x, st')" "rs_audit st' = rs_audit st" using assms by blast
  ultimately show "case a st of (Inl e, st') \<Rightarrow> E st' | (Inr x, st') \<Rightarrow> audited env d event actor A st'" by (simp add: audited_def)
qed

lemma quiet_publish: "\<exists>x st'. publish env d ev st = (Inr x, st') \<and> rs_audit st' = rs_audit st"
  using publish_effect [of env d ev st] by auto

lemma quiet_get: "\<exists>x st'. rest_get (\<lambda>st. Inr (f st)) st = (Inr x, st') \<and> rs_audit st' = rs_audit st"
  by (simp add: rest_get_def)

lemma quiet_return: "\<exists>x' st'. rest_return x st = (Inr x', st') \<and> rs_audit st' = rs_audit st"
  by (simp add: rest_return_def)

lemma audited_bind:
  assumes "\<And>st. \<exists>x st'. a st = (Inr x, st') \<and> rs_audit st' = rs_audit st" "\<And>x. holds (audited env d event actor A) (f x) R E"
  shows "holds (audited env d event actor A) (rest_bind a f) R E"
  by (rule holds_bind [OF audited_quiet [OF assms(1)] assms(2)])

lemma log_if: "(b \<Longrightarrow> holds P a Q E) \<Longrightarrow> (\<not> b \<Longrightarrow> holds P a' Q E) \<Longrightarrow> holds P (if b then a else a') Q E"
  by simp

lemmas log_rules = log_bind [OF keeps_authenticate] log_bind [OF keeps_known] log_bind [OF keeps_owner]
  log_bind [OF keeps_throttle [OF log_frames(1)]] log_bind [OF keeps_io [OF log_frames(2)]] log_bind [OF keeps_cached [OF log_frames(3)]]
  log_bind [OF keeps_write_key [OF log_frames(4)]] log_simple [THEN log_bind] log_bind [OF log_delete_one] log_bind [OF log_delete_chain]
  log_bind [OF typed_owns_all] log_bind [OF typed_stats] log_bind [OF typed_quota] log_bind [where a = "if _ then _ else _" and G = "\<lambda>_. True"]
  log_audit audited_bind audited_quiet quiet_publish quiet_get quiet_return holds_if keeps_owner keeps_fail keeps_return keeps_bind [OF typed_stats]
  holds_fail

lemma logged_handlers:
  "logged env d h ''repo.create'' (rest_create env d h body) st"
  "logged env d h ''repo.delete'' (rest_delete env d h i force cascade) st"
  "logged env d h ''token.mint'' (rest_mint env d h i scope ttl) st"
  "logged env d h ''token.revoke'' (rest_revoke env d h t) st"
  "logged env d h ''token.rotate'' (rest_rotate env d h i scope_q ttl) st"
  "logged env d h ''admin.token.rotate'' (rest_rotate_admin env d h) st"
  "logged env d h ''admin.jwt_key.rotate'' (rest_rotate_jwt env d h) st"
  "logged env d h ''admin.webhook_key.rotate'' (rest_rotate_hook_key env d h) st"
  unfolding rest_create_def rest_delete_def delete_cascade_def delete_plain_def rest_mint_def rest_revoke_def rest_rotate_def
    rest_rotate_admin_def rest_rotate_jwt_def rest_rotate_hook_key_def chosen_id_def handle_of_def Let_def
  by (intro logged_auth logged_admin log_rules TrueI | assumption)+

lemma logged_fork: "logged env d h ''repo.fork'' (rest_fork env d h i body) st"
proof -
  obtain fid ro where b: "fork_body_or_default body = (fid, ro)" by fastforce
  show ?thesis unfolding rest_fork_def b prod.case chosen_id_def handle_of_def by (intro logged_auth log_rules TrueI)
qed

text \<open>The requests that leave no row.\<close>

lemmas quiet_rules = keeps_bind [OF keeps_authenticate] keeps_bind [OF keeps_admin] keeps_bind [OF keeps_known] keeps_bind [OF keeps_owner]
  keeps_bind [OF keeps_throttle [OF log_frames(1)]] keeps_bind [OF keeps_cached [OF log_frames(3)]] keeps_bind [OF typed_stats]
  keeps_return typed_stats log_simple

lemma quiet_handlers:
  "keeps (log_is A) (rest_list env d h limit offset) (\<lambda>_. True)"
  "keeps (log_is A) (rest_list_tokens env d h i) (\<lambda>_. True)"
  "keeps (log_is A) (rest_create_hook env d h i hook_b) (\<lambda>_. True)"
  "keeps (log_is A) (rest_list_hooks env h i) (\<lambda>_. True)"
  "keeps (log_is A) (rest_delete_hook env d h i hook) (\<lambda>_. True)"
  "keeps (log_is A) (rest_admin_list env d h limit offset) (\<lambda>_. True)"
  "keeps (log_is A) (rest_admin_get env d h i) (\<lambda>_. True)"
  "keeps (log_is A) (rest_audit_stats env h) (\<lambda>_. True)"
  "keeps (log_is A) (rest_audit_verify env h) (\<lambda>_. True)"
  "keeps (log_is A) (rest_audit_list env h q) (\<lambda>_. True)"
  unfolding rest_list_def rest_list_tokens_def rest_create_hook_def rest_list_hooks_def rest_delete_hook_def rest_admin_list_def rest_admin_get_def
    rest_audit_stats_def rest_audit_verify_def rest_audit_list_def detail_of_def Let_def
  by (intro quiet_rules keeps_case TrueI | assumption)+

lemma logged_outcome:
  assumes "logged env d h event a st"
  shows "case outcome a st of (Inl e, st') \<Rightarrow> rs_audit st' = rs_audit st
    | (Inr _, st') \<Rightarrow> \<exists>p. caller env h st = Inr p \<and> audited env d event (audit_label p) (rs_audit st) st'"
proof -
  obtain r st' where run: "a st = (r, st')" by (cases "a st")
  show ?thesis using assms by (cases r) (simp_all only: logged_def outcome_def run prod.case map_prod_simp id_apply map_sum.simps sum.case)
qed

lemma quiet_outcome:
  assumes "keeps (log_is (rs_audit st)) a (\<lambda>_. True)"
  shows "case outcome a st of (Inl e, st') \<Rightarrow> rs_audit st' = rs_audit st | (Inr _, st') \<Rightarrow> rs_audit st' = rs_audit st"
proof -
  obtain r st' where run: "outcome a st = (r, st')" by (cases "outcome a st")
  have "log_is (rs_audit st) (snd (outcome a st))" by (rule keeps_outcome [OF assms]) (simp add: log_is_def)
  then show ?thesis by (cases r) (simp_all only: run prod.case sum.case snd_conv log_is_def)
qed


section \<open>Rotations\<close>

text \<open>Who a bearer that is not the administrator's token speaks for.\<close>

definition jwt_caller :: "rest_env \<Rightarrow> string \<Rightarrow> config \<Rightarrow> error + principal" where
  "jwt_caller env t cfg =
     (case cf_jwt_secret cfg of
        None \<Rightarrow> Inl Unauthorized
      | Some secret \<Rightarrow>
          (case jwt_verify (re_decode env) secret t (cf_jwt_aud cfg) (cf_jwt_iss cfg) of
             Inl _ \<Rightarrow> Inl Unauthorized
           | Inr c \<Rightarrow> (case claims_subject c of Some s \<Rightarrow> Inr (User s) | None \<Rightarrow> Inl Unauthorized)))"

lemma caller_bearer: "caller env (Some (Some (''Bearer '' @ t))) st = (if t = cf_admin_token (rs_cfg st) then Inr Admin else jwt_caller env t (rs_cfg st))"
proof -
  have "strip_prefix ''Bearer '' (''Bearer '' @ t) = Some t" by (simp only: strip_prefix_iff)
  then show ?thesis by (auto simp: caller_def authorize_rest_def header_text_def ok_or_def as_bytes_inj jwt_caller_def)
qed

lemma caller_other: "\<nexists>t. h = Some (Some (''Bearer '' @ t)) \<Longrightarrow> caller env h st = Inl Unauthorized"
proof (cases "header_text h")
  case (Some v)
  moreover assume "\<nexists>t. h = Some (Some (''Bearer '' @ t))"
  ultimately have "strip_prefix ''Bearer '' v = None"
    by (cases "strip_prefix ''Bearer '' v") (auto simp: header_text_def strip_prefix_iff split: option.splits)
  with Some show ?thesis by (simp add: caller_def authorize_rest_def ok_or_def)
qed (simp add: caller_def authorize_rest_def ok_or_def)

lemma jwt_caller_user: "jwt_caller env t cfg \<noteq> Inr Admin"
  by (auto simp: jwt_caller_def split: option.splits sum.splits)

lemma jwt_caller_frame: "jwt_caller env t (rotate_admin_token new cfg) = jwt_caller env t cfg"
  by (simp add: jwt_caller_def rotate_admin_token_def cong: option.case_cong sum.case_cong)

lemma admin_caller: "caller env h st = Inr Admin \<longleftrightarrow> h = Some (Some (''Bearer '' @ cf_admin_token (rs_cfg st)))"
proof (cases "\<exists>t. h = Some (Some (''Bearer '' @ t))")
  case True
  then obtain t where h: "h = Some (Some (''Bearer '' @ t))" by blast
  have "caller env h st = Inr Admin \<longleftrightarrow> t = cf_admin_token (rs_cfg st)" unfolding h caller_bearer using jwt_caller_user by simp
  then show ?thesis unfolding h by simp
next
  case False
  then show ?thesis using caller_other by fastforce
qed

lemma rest_require_admin: "require_admin env h st = (if caller env h st = Inr Admin then Inr () else
    (case caller env h st of Inl e \<Rightarrow> Inl e | Inr p \<Rightarrow> Inl (Forbidden ''admin inspection endpoints require admin auth'')), st)"
  by (auto simp: require_admin_def rest_bind_def authenticate_caller rest_fail_def rest_return_def split: sum.splits)

lemma rotate_admin_cases:
  "rest_rotate_admin env d h st =
     (if caller env h st = Inr Admin
      then (Inr (re_b64_url env (dw_token d)),
            st\<lparr>rs_cfg := rotate_admin_token (re_b64_url env (dw_token d)) (rs_cfg st),
               rs_audit := audit_emit (re_sha256 env) (int (dw_now d)) ''admin.token.rotate'' ''admin'' None (re_value env (JObj [])) None (rs_audit st)\<rparr>)
      else (case caller env h st of Inl e \<Rightarrow> Inl e | Inr p \<Rightarrow> Inl (Forbidden ''admin inspection endpoints require admin auth''), st))"
  by (cases "caller env h st = Inr Admin")
    (auto simp: rest_rotate_admin_def rest_bind_def rest_require_admin Let_def rest_put_def audit_def rest_return_def split: sum.splits)

text \<open>a rotation of the administrator's token takes effect at once and touches nothing else. When the call
  succeeds it was made with the token of before; from then on the returned token is the only one that
  speaks for the administrator, the old one is judged as a JWT like any other bearer, and every other bearer
  is who it was; the repos, their owners and the tokens stay. When the call fails the state is untouched.\<close>

theorem admin_rotation_takes_over:
  "case rest_rotate_admin env d h st of
     (Inl e, st') \<Rightarrow> st' = st \<and> caller env h st \<noteq> Inr Admin
   | (Inr new, st') \<Rightarrow>
       h = Some (Some (''Bearer '' @ cf_admin_token (rs_cfg st)))
       \<and> (\<forall>h'. caller env h' st' = Inr Admin \<longleftrightarrow> h' = Some (Some (''Bearer '' @ new)))
       \<and> (\<forall>t. caller env (Some (Some (''Bearer '' @ t))) st'
            = (if t = new then Inr Admin
               else if t = cf_admin_token (rs_cfg st) then jwt_caller env t (rs_cfg st)
               else caller env (Some (Some (''Bearer '' @ t))) st))
       \<and> rs_tokens st' = rs_tokens st \<and> rs_owners st' = rs_owners st \<and> rs_io st' = rs_io st"
proof (cases "caller env h st = Inr Admin")
  case False
  then show ?thesis by (auto simp: rotate_admin_cases split: sum.splits)
next
  case True
  have h: "h = Some (Some (''Bearer '' @ cf_admin_token (rs_cfg st)))" using True by (simp only: admin_caller)
  show ?thesis
    using h by (simp only: rotate_admin_cases True if_True prod.case sum.case admin_caller caller_bearer)
      (simp add: jwt_caller_frame, simp add: rotate_admin_token_def)
qed

end
