(* ===== verification/RestGit.thy ===== *)
theory RestGit
  imports RestAdmin
begin

text \<open>
  What the commit, merge and read endpoints share: handlers over the server's state and the world \<open>'g\<close> in
  which git keeps the repos' objects and refs, the environment of their dependencies, the guard
  \<open>authorize_read\<close> of \<open>src/reads/mod.rs\<close> and the validators of \<open>src/commits.rs\<close> and \<open>src/reads/helpers.rs\<close>.
\<close>

section \<open>Handlers over two states\<close>

type_synonym ('g, 'a) served = "rest_state \<times> 'g \<Rightarrow> (error + 'a) \<times> rest_state \<times> 'g"

definition sv_bind :: "('g, 'a) served \<Rightarrow> ('a \<Rightarrow> ('g, 'b) served) \<Rightarrow> ('g, 'b) served" where
  "sv_bind a f sg = (case a sg of (Inl e, sg') \<Rightarrow> (Inl e, sg') | (Inr x, sg') \<Rightarrow> f x sg')"

definition sv_return :: "'a \<Rightarrow> ('g, 'a) served" where
  "sv_return x sg = (Inr x, sg)"

definition sv_lift :: "error + 'a \<Rightarrow> ('g, 'a) served" where
  "sv_lift r sg = (r, sg)"

definition on_rest :: "'a rest \<Rightarrow> ('g, 'a) served" where
  "on_rest a sg = (case a (fst sg) of (r, st) \<Rightarrow> (r, st, snd sg))"

definition on_git :: "('g \<Rightarrow> (error + 'a) \<times> 'g) \<Rightarrow> ('g, 'a) served" where
  "on_git a sg = (case a (snd sg) of (r, g) \<Rightarrow> (r, fst sg, g))"

lemma sv_bind_InrE:
  assumes "sv_bind a f sg = (Inr y, sg')"
  obtains x sg1 where "a sg = (Inr x, sg1)" "f x sg1 = (Inr y, sg')"
  using assms by (auto simp: sv_bind_def split: prod.splits sum.splits)

lemma sv_bind_Inr: "a sg = (Inr x, sg') \<Longrightarrow> sv_bind a f sg = f x sg'"
  and sv_bind_Inl: "a sg = (Inl e, sg') \<Longrightarrow> sv_bind a f sg = (Inl e, sg')"
  by (simp_all add: sv_bind_def)

lemma sv_lift_bind: "sv_bind (sv_lift r) f sg = (case r of Inl e \<Rightarrow> (Inl e, sg) | Inr x \<Rightarrow> f x sg)"
  by (simp add: sv_bind_def sv_lift_def)

section \<open>Dependencies\<close>

text \<open>The \<open>git\<close> program, the object store and the ref store of the server, and the path of its repos.\<close>

record 'g repo_env =
  rw_git :: "'g git"
  rw_exists :: "repo_id \<Rightarrow> oid \<Rightarrow> 'g \<Rightarrow> error + bool"
  rw_read :: "repo_id \<Rightarrow> oid \<Rightarrow> 'g \<Rightarrow> error + (object_kind \<times> u8 list) option"
  rw_update :: "repo_id \<Rightarrow> ref_name \<Rightarrow> oid option \<Rightarrow> oid \<Rightarrow> 'g \<Rightarrow> error + cas_outcome \<times> 'g"
  rw_dir :: string

definition git_dir_of :: "'g repo_env \<Rightarrow> string \<Rightarrow> string" where
  "git_dir_of rw i = rw_dir rw @ ''/'' @ i @ ''.git''"

definition git_run :: "'g repo_env \<Rightarrow> string \<Rightarrow> string list \<Rightarrow> 'g \<Rightarrow> (error + proc_output) \<times> 'g" where
  "git_run rw dir args = run_git (rw_git rw) dir args [] None"

text \<open>\<open>String::from_utf8\<close> with \<open>?\<close>.\<close>

definition utf8 :: "u8 list \<Rightarrow> error + string" where
  "utf8 bs = ok_or (Other ''FromUtf8'') (from_utf8 bs)"

fun split_on :: "'a \<Rightarrow> 'a list \<Rightarrow> 'a list list" where
  "split_on d [] = [[]]"
| "split_on d (x # xs) =
     (if x = d then [] # split_on d xs else (x # hd (split_on d xs)) # tl (split_on d xs))"

lemma split_on_ne [simp]: "split_on d xs \<noteq> []"
  by (cases xs) auto

lemma split_on_notin [simp]: "d \<notin> set xs \<Longrightarrow> split_on d xs = [xs]"
  by (induction xs) auto

lemma split_on_append [simp]: "d \<notin> set xs \<Longrightarrow> split_on d (xs @ d # ys) = xs # split_on d ys"
  by (induction xs) auto

section \<open>The guard of the read endpoints\<close>

definition authorize_read :: "rest_env \<Rightarrow> draw \<Rightarrow> header \<Rightarrow> string \<Rightarrow> repo_id rest" where
  "authorize_read env d h i =
     rest_bind (authenticate env h) (\<lambda>p.
     rest_bind (throttle env d p CDefault) (\<lambda>_.
     rest_bind (known_repo i) (\<lambda>r.
     rest_bind (owner_only p i) (\<lambda>_. rest_return r))))"

section \<open>Validators\<close>

definition valid_branch_name :: "string \<Rightarrow> bool" where
  "valid_branch_name s =
     (if s = [] \<or> s = ''@'' \<or> starts_with ''/'' s \<or> ends_with ''/'' s \<or> ends_with ''.'' s
          \<or> contains_str ''//'' s \<or> contains_str ''..'' s \<or> contains_str [CHR ''@'', CHR 0x7B] s
          \<or> contains_str [CHR 0x5C] s then False
      else if list_ex ref_char_bad s then False
      else list_all (\<lambda>part. \<not> (part = [] \<or> starts_with ''.'' part \<or> ends_with ''.lock'' part)) (split_char CHR ''/'' s))"

definition control_char :: "char \<Rightarrow> bool" where
  "control_char c = ((of_char c :: nat) < 32 \<or> (of_char c :: nat) = 127)"

definition bad_part :: "string \<Rightarrow> bool" where
  "bad_part part = (part = [] \<or> part = ''.'' \<or> part = ''..'' \<or> map ascii_lower part = ''.git'' \<or> list_ex control_char part)"

definition valid_path :: "string \<Rightarrow> bool" where
  "valid_path p =
     (if p = [] \<or> starts_with ''/'' p \<or> ends_with ''/'' p \<or> contains_str ''//'' p then False
      else if CHR 0x00 \<in> set p then False
      else if list_ex bad_part (split_char CHR ''/'' p) then False
      else list_all (\<lambda>c. case c of Normal _ \<Rightarrow> True | _ \<Rightarrow> False) (path_components p))"

definition validate_sha :: "string \<Rightarrow> error + unit" where
  "validate_sha s = (if length s = 40 \<and> list_all is_hexdigit s then Inr () else Inl (BadRequest (InvalidSha s)))"

text \<open>The characters in front of which \<open>validate_ref_or_sha\<close> stops: white space by its bytes, and the reserved ones.\<close>

definition char_at :: "string \<Rightarrow> string" where
  "char_at s = take (max 1 (ws_prefix s)) s"

fun bad_ref_char :: "string \<Rightarrow> string option" where
  "bad_ref_char [] = None"
| "bad_ref_char (c # s) =
     (if ws_prefix (c # s) \<noteq> 0 \<or> c \<in> {CHR 0x00, CHR '':'', CHR ''?'', CHR ''*'', CHR ''['', CHR ''~'', CHR ''^'', CHR 0x5C}
      then Some (char_at (c # s)) else bad_ref_char s)"

definition validate_ref_or_sha :: "string \<Rightarrow> error + unit" where
  "validate_ref_or_sha s =
     (if s = [] \<or> length s > 512 then Inl (BadRequest (BadOther ''ref/sha empty or too long''))
      else if starts_with ''-'' s then Inl (BadRequest (BadOther (''ref/sha may not start with '' @ [CHR 0x27] @ ''-'' @ [CHR 0x27])))
      else (case bad_ref_char s of Some c \<Rightarrow> Inl (BadRequest (InvalidRefChar c)) | None \<Rightarrow> Inr ()))"

definition validate_path :: "string \<Rightarrow> error + unit" where
  "validate_path p =
     (if p = [] \<or> length p > 4096 then Inl (BadRequest (BadOther ''path empty or too long''))
      else if starts_with ''/'' p \<or> contains_str ''..'' p \<or> CHR 0x00 \<in> set p then Inl (BadRequest (InvalidReadPath p))
      else Inr ())"

definition is_valid_notes_ref :: "string \<Rightarrow> bool" where
  "is_valid_notes_ref s =
     (starts_with ''refs/notes/'' s \<and> length s > length ''refs/notes/'' \<and> \<not> contains_str ''//'' s \<and> \<not> ends_with ''/'' s
      \<and> list_all (\<lambda>c. (of_char c :: nat) > 32 \<and> c \<notin> {CHR '':'', CHR ''?'', CHR ''*'', CHR ''~'', CHR ''^'', CHR ''[''}) s)"

lemma starts_with_Cons: "starts_with (x # p) (c # s) \<longleftrightarrow> x = c \<and> starts_with p s" "starts_with [] s" "\<not> starts_with (x # p) []"
  by (auto simp: starts_with_def)

lemma ends_with_append: "b \<noteq> [] \<Longrightarrow> ends_with [c] (a @ b) \<longleftrightarrow> ends_with [c] b"
  by (cases b rule: rev_cases) (auto simp: ends_with_iff)

lemma branch_ref:
  "valid_ref_name (''refs/heads/'' @ b) \<longleftrightarrow>
     (valid_branch_name b \<or> b = ''@'') \<and> list_all (\<lambda>part. \<not> starts_with ''-'' part) (split_char CHR ''/'' b)"
proof (cases "b = [] \<or> b = ''@''")
  case True
  then show ?thesis
    by (auto simp: valid_ref_name_def valid_branch_name_def starts_with_Cons ends_with_iff ref_char_bad_def)
next
  case False
  then have b: "b \<noteq> []" "b \<noteq> ''@''" by auto
  have ew: "ends_with ''/'' (''refs/heads/'' @ b) = ends_with ''/'' b" "ends_with ''.'' (''refs/heads/'' @ b) = ends_with ''.'' b"
    by (rule ends_with_append [OF b(1)])+
  have c: "contains_str ''//'' (''refs/heads/'' @ b) \<longleftrightarrow> starts_with ''/'' b \<or> contains_str ''//'' b"
    "contains_str ''..'' (''refs/heads/'' @ b) = contains_str ''..'' b"
    "contains_str [CHR ''@'', CHR 0x7B] (''refs/heads/'' @ b) = contains_str [CHR ''@'', CHR 0x7B] b"
    "contains_str [CHR 0x5C] (''refs/heads/'' @ b) = contains_str [CHR 0x5C] b"
    by (simp_all add: starts_with_Cons)
  have s: "split_char CHR ''/'' (''refs/heads/'' @ b) = ''refs'' # ''heads'' # split_char CHR ''/'' b" by simp
  have p: "starts_with ''/'' (''refs/heads/'' @ b) = False" "''refs/heads/'' @ b \<noteq> ''HEAD''" by (simp_all add: starts_with_Cons)
  have x: "list_ex ref_char_bad (''refs/heads/'' @ b) = list_ex ref_char_bad b" by (simp add: ref_char_bad_def)
  show ?thesis unfolding valid_ref_name_def valid_branch_name_def ew c s p x using b
    by (auto simp: starts_with_Cons ends_with_iff list_all_iff)
qed


lemma split_char_app: "split_char c (a @ c # t) = split_char c a @ split_char c t"
proof (induction a)
  case (Cons x a)
  then show ?case by (cases "split_char c a") auto
qed simp

lemma split_char_empty_part:
  "ends_with [c] s \<Longrightarrow> [] \<in> set (split_char c s)" "contains_str [c, c] s \<Longrightarrow> [] \<in> set (split_char c s)"
  "starts_with [c] s \<Longrightarrow> [] \<in> set (split_char c s)"
proof -
  have "[] \<in> set (split_char c (a @ c # c # b))" for a b by (subst split_char_app) simp
  then show "contains_str [c, c] s \<Longrightarrow> [] \<in> set (split_char c s)" by (auto simp: contains_str_iff)
  have "[] \<in> set (split_char c (a @ [c]))" for a by (subst split_char_app) simp
  then show "ends_with [c] s \<Longrightarrow> [] \<in> set (split_char c s)" by (auto simp: ends_with_iff)
  show "starts_with [c] s \<Longrightarrow> [] \<in> set (split_char c s)" by (auto simp: starts_with_iff)
qed

lemma set_split_char: "x \<in> set s \<Longrightarrow> x \<noteq> c \<Longrightarrow> \<exists>part\<in>set (split_char c s). x \<in> set part"
proof (induction s)
  case (Cons y s)
  then show ?case by (cases "split_char c s") (auto split: list.splits)
qed simp

lemma segments_normal: "list_all (\<lambda>part. \<not> bad_part part) parts \<Longrightarrow> concat (map (segment first) parts) = map Normal parts"
  by (induction parts) (auto simp: segment_def bad_part_def)

lemma good_parts: "list_all (\<lambda>part. \<not> bad_part part) (split_char CHR ''/'' p) \<Longrightarrow> path_components p = map Normal (split_char CHR ''/'' p)"
proof -
  assume good: "list_all (\<lambda>part. \<not> bad_part part) (split_char CHR ''/'' p)"
  obtain s ss where parts: "split_char CHR ''/'' p = s # ss" by (cases "split_char CHR ''/'' p") simp_all
  then have s: "\<not> bad_part s" "list_all (\<lambda>part. \<not> bad_part part) ss" using good by simp_all
  then show ?thesis
    using segments_normal [OF s(2), of False] by (simp add: path_components_def parts) (auto simp: segment_def bad_part_def)
qed

lemma valid_path_parts: "valid_path p = list_all (\<lambda>part. \<not> bad_part part) (split_char CHR ''/'' p)"
proof
  assume "valid_path p"
  then show "list_all (\<lambda>part. \<not> bad_part part) (split_char CHR ''/'' p)"
    by (auto simp: valid_path_def list_all_iff list_ex_iff split: if_splits)
next
  assume good: "list_all (\<lambda>part. \<not> bad_part part) (split_char CHR ''/'' p)"
  then have "[] \<notin> set (split_char CHR ''/'' p)" by (auto simp: list_all_iff bad_part_def)
  then have "\<not> starts_with ''/'' p" "\<not> ends_with ''/'' p" "\<not> contains_str ''//'' p" "p \<noteq> []"
    using split_char_empty_part by auto
  moreover have "CHR 0x00 \<notin> set p"
  proof
    assume "CHR 0x00 \<in> set p"
    then obtain part where "part \<in> set (split_char CHR ''/'' p)" "CHR 0x00 \<in> set part"
      using set_split_char [of "CHR 0x00" p "CHR ''/''"] by auto
    with good show False by (force simp: list_all_iff bad_part_def list_ex_iff control_char_def)
  qed
  moreover have "\<not> list_ex bad_part (split_char CHR ''/'' p)" using good by (auto simp: list_all_iff list_ex_iff)
  moreover have "list_all (\<lambda>c. case c of Normal _ \<Rightarrow> True | _ \<Rightarrow> False) (path_components p)"
    by (simp add: good_parts [OF good] list_all_iff)
  ultimately show "valid_path p" by (simp add: valid_path_def)
qed

text \<open>C33: the branch names that the endpoints accept are those whose ref the server can set. \<open>refs/heads/\<close> with the
  name is a valid \<open>RefName\<close> iff the name passes \<open>valid_branch_name\<close> (or is the lone at sign, which the
  check refuses although git allows it) and no component of it starts with a dash, which the check does not look at.\<close>

theorem branch_name_is_ref:
  "ref_name_try_from (''refs/heads/'' @ b) =
     (if (valid_branch_name b \<or> b = ''@'') \<and> list_all (\<lambda>part. \<not> starts_with ''-'' part) (split_char CHR ''/'' b)
      then Inr (RefName (''refs/heads/'' @ b)) else Inl (BadRequest (InvalidRefName (''refs/heads/'' @ b))))"
  unfolding ref_name_try_from_def branch_ref by (rule refl)

text \<open>a path of a change is valid iff each of its components is: not empty, not a dot or two, not \<open>.git\<close> in any case,
  and without control characters. The separate checks of slashes and of the NUL byte and the last pass over
  \<open>Path::components\<close> refuse nothing more; a valid path has only normal components, those between its slashes.\<close>

theorem valid_path_exact:
  "valid_path p \<longleftrightarrow>
     list_all (\<lambda>part. \<not> bad_part part) (split_char CHR ''/'' p) \<and> path_components p = map Normal (split_char CHR ''/'' p)"
  using valid_path_parts good_parts by blast

end
