(* ===== verification/Commits.thy ===== *)
theory Commits
  imports RestGit
begin

text \<open>
  The commit endpoint of \<open>src/commits.rs\<close>. The library \<open>gix\<close> is a parameter: its operations on the repo at a
  path, of which a failure is the text of its error.
\<close>

section \<open>The body\<close>

datatype change =
    ChangeWrite string "string option" "string option" string
  | ChangeDelete string

record commit_author =
  au_name :: string
  au_email :: string

record commit_body =
  cb_branch :: string
  cb_parent :: "oid option"
  cb_message :: string
  cb_author :: "commit_author option"
  cb_changes :: "change list"

record commit_result =
  cr_commit :: string
  cr_tree :: string
  cr_branch :: string

section \<open>Checks\<close>

fun check_changes :: "change list \<Rightarrow> error + unit" where
  "check_changes [] = Inr ()"
| "check_changes (change # changes) =
     (let (path, mode) = (case change of ChangeWrite path _ _ mode \<Rightarrow> (path, Some mode) | ChangeDelete path \<Rightarrow> (path, None)) in
      if \<not> valid_path path then Inl (BadRequest (InvalidChangePath path))
      else (case mode of
              None \<Rightarrow> check_changes changes
            | Some m \<Rightarrow> if m \<noteq> ''100644'' \<and> m \<noteq> ''100755'' then Inl (BadRequest (UnsupportedMode m)) else check_changes changes))"

text \<open>The modes of \<open>gix\<close>; a change has one of the two for regular files.\<close>

datatype entry_kind = EntryTree | EntryBlob | EntryBlobExecutable | EntryLink | EntryCommit

datatype prepared = PreparedWrite string "u8 list" entry_kind | PreparedDelete string

text \<open>\<open>b64\<close> is the decoder of \<open>base64\<close>, with the text of its error.\<close>

definition change_bytes :: "(string \<Rightarrow> string + u8 list) \<Rightarrow> string \<Rightarrow> string option \<Rightarrow> string option \<Rightarrow> error + u8 list" where
  "change_bytes b64 path content content_base64 =
     (case (content, content_base64) of
        (Some _, Some _) \<Rightarrow> Inl (BadRequest (BadOther (''change for '' @ path @ '': only one of content/contentBase64'')))
      | (None, None) \<Rightarrow> Inr []
      | (Some s, None) \<Rightarrow> Inr (as_bytes s)
      | (None, Some t) \<Rightarrow> map_err (\<lambda>e. BadRequest (BadOther (''change for '' @ path @ '': bad base64: '' @ e))) (b64 t))"

fun prepare_changes :: "(string \<Rightarrow> string + u8 list) \<Rightarrow> nat \<Rightarrow> change list \<Rightarrow> error + prepared list" where
  "prepare_changes b64 max_blob_bytes [] = Inr []"
| "prepare_changes b64 max_blob_bytes (ChangeWrite path content content_base64 mode # changes) =
     res_bind (change_bytes b64 path content content_base64) (\<lambda>bytes.
       if length bytes > max_blob_bytes
       then Inl (BadRequest (BadOther (''change for '' @ path @ '': blob is '' @ fmt_dec (length bytes) @ '' bytes, over limit of ''
              @ fmt_dec max_blob_bytes @ '' bytes'')))
       else map_sum id ((#) (PreparedWrite path bytes (if mode = ''100644'' then EntryBlob else EntryBlobExecutable)))
              (prepare_changes b64 max_blob_bytes changes))"
| "prepare_changes b64 max_blob_bytes (ChangeDelete path # changes) =
     map_sum id ((#) (PreparedDelete path)) (prepare_changes b64 max_blob_bytes changes)"

section \<open>Building the commit\<close>

text \<open>Author and committer are the same person at the same time, in UTC.\<close>

record commit_object =
  co_tree :: oid
  co_parents :: "oid list"
  co_name :: string
  co_email :: string
  co_seconds :: int
  co_message :: string

record ('g, 'e) gix_repo =
  gx_open :: "string \<Rightarrow> 'g \<Rightarrow> string + unit"
  gx_find_commit :: "string \<Rightarrow> oid \<Rightarrow> 'g \<Rightarrow> string + u8 list"
  gx_tree_id :: "u8 list \<Rightarrow> string + oid"
  gx_edit_tree :: "string \<Rightarrow> oid \<Rightarrow> 'g \<Rightarrow> string + 'e"
  gx_write_blob :: "string \<Rightarrow> u8 list \<Rightarrow> 'g \<Rightarrow> (string + oid) \<times> 'g"
  gx_upsert :: "string \<Rightarrow> entry_kind \<Rightarrow> oid \<Rightarrow> 'e \<Rightarrow> string + 'e"
  gx_remove :: "string \<Rightarrow> 'e \<Rightarrow> string + 'e"
  gx_write_tree :: "string \<Rightarrow> 'e \<Rightarrow> 'g \<Rightarrow> (string + oid) \<times> 'g"
  gx_write_commit :: "string \<Rightarrow> commit_object \<Rightarrow> 'g \<Rightarrow> (string + oid) \<times> 'g"

definition gix_err :: "string \<Rightarrow> string + 'a \<Rightarrow> error + 'a" where
  "gix_err what r = map_err (\<lambda>e. GixError (what @ '': '' @ e)) r"

definition EMPTY_TREE :: oid where
  "EMPTY_TREE = Oid ''4b825dc642cb6eb9a060e54bf8d69288fbee4904''"

text \<open>An \<open>Oid\<close> is 40 hexadecimal digits, so \<open>ObjectId::from_hex\<close> does not fail on one.\<close>

definition base_tree :: "('g, 'e) gix_repo \<Rightarrow> string \<Rightarrow> oid option \<Rightarrow> 'g \<Rightarrow> error + oid" where
  "base_tree gx git_dir parent g =
     (case parent of
        None \<Rightarrow> Inr EMPTY_TREE
      | Some sha \<Rightarrow>
          res_bind (gix_err (''find parent '' @ oid_str sha) (gx_find_commit gx git_dir sha g)) (\<lambda>commit.
          gix_err (''parent '' @ oid_str sha @ '' tree_id'') (gx_tree_id gx commit)))"

fun apply_changes :: "('g, 'e) gix_repo \<Rightarrow> string \<Rightarrow> prepared list \<Rightarrow> 'e \<Rightarrow> 'g \<Rightarrow> (error + 'e) \<times> 'g" where
  "apply_changes gx git_dir [] editor g = (Inr editor, g)"
| "apply_changes gx git_dir (PreparedWrite path bytes kind # changes) editor g =
     (case gx_write_blob gx git_dir bytes g of
        (Inl e, g') \<Rightarrow> (Inl (GixError (''write_blob '' @ path @ '': '' @ e)), g')
      | (Inr blob_id, g') \<Rightarrow>
          (case gx_upsert gx path kind blob_id editor of
             Inl e \<Rightarrow> (Inl (GixError (''tree upsert '' @ path @ '': '' @ e)), g')
           | Inr editor' \<Rightarrow> apply_changes gx git_dir changes editor' g'))"
| "apply_changes gx git_dir (PreparedDelete path # changes) editor g =
     (case gx_remove gx path editor of
        Inl e \<Rightarrow> (Inl (GixError (''tree remove '' @ path @ '': '' @ e)), g)
      | Inr editor' \<Rightarrow> apply_changes gx git_dir changes editor' g)"

record commit_input =
  ci_parent :: "oid option"
  ci_changes :: "prepared list"
  ci_message :: string
  ci_author :: commit_author

definition write_commit_object :: "('g, 'e) gix_repo \<Rightarrow> string \<Rightarrow> int \<Rightarrow> commit_input \<Rightarrow> oid \<Rightarrow> 'g \<Rightarrow> (error + string \<times> string) \<times> 'g" where
  "write_commit_object gx git_dir now_secs input tree_id g =
     (case gx_write_commit gx git_dir
             \<lparr>co_tree = tree_id, co_parents = (case ci_parent input of Some sha \<Rightarrow> [sha] | None \<Rightarrow> []),
              co_name = au_name (ci_author input), co_email = au_email (ci_author input), co_seconds = now_secs,
              co_message = ci_message input\<rparr> g of
        (Inl e, g') \<Rightarrow> (Inl (GixError (''write commit object: '' @ e)), g')
      | (Inr commit_id, g') \<Rightarrow> (Inr (oid_str commit_id, oid_str tree_id), g'))"

definition build_and_write_commit :: "('g, 'e) gix_repo \<Rightarrow> string \<Rightarrow> int \<Rightarrow> commit_input \<Rightarrow> 'g \<Rightarrow> (error + string \<times> string) \<times> 'g" where
  "build_and_write_commit gx git_dir now_secs input g =
     (case res_bind (gix_err (''gix::open '' @ git_dir) (gx_open gx git_dir g)) (\<lambda>_.
           res_bind (base_tree gx git_dir (ci_parent input) g) (\<lambda>base_tree_id.
           gix_err (''edit_tree on '' @ oid_str base_tree_id) (gx_edit_tree gx git_dir base_tree_id g))) of
        Inl e \<Rightarrow> (Inl e, g)
      | Inr editor \<Rightarrow>
          (case apply_changes gx git_dir (ci_changes input) editor g of
             (Inl e, g1) \<Rightarrow> (Inl e, g1)
           | (Inr editor1, g1) \<Rightarrow>
               (case gx_write_tree gx git_dir editor1 g1 of
                  (Inl e, g2) \<Rightarrow> (Inl (GixError (''write tree object: '' @ e)), g2)
                | (Inr tree_id, g2) \<Rightarrow> write_commit_object gx git_dir now_secs input tree_id g2)))"

section \<open>The handler\<close>

definition author_or_default :: "commit_author option \<Rightarrow> commit_author" where
  "author_or_default a = (case a of Some x \<Rightarrow> x | None \<Rightarrow> \<lparr>au_name = ''Artifacts'', au_email = ''artifacts@noreply.local''\<rparr>)"

text \<open>The parent must be an object of the repo, if one is given.\<close>

definition parent_there :: "'g repo_env \<Rightarrow> repo_id \<Rightarrow> oid option \<Rightarrow> 'g \<Rightarrow> error + unit" where
  "parent_there rw r parent g =
     (case parent of
        None \<Rightarrow> Inr ()
      | Some x \<Rightarrow> res_bind (rw_exists rw r x g) (\<lambda>there.
          if there then Inr () else Inl (BadRequest (BadOther (''parent commit not found: '' @ oid_str x)))))"

definition file_len :: "string option \<Rightarrow> nat" where
  "file_len s = (case s of None \<Rightarrow> 0 | Some t \<Rightarrow> length t)"

text \<open>The compare-and-swap of a branch, from strings.\<close>

definition cas_branch :: "'g repo_env \<Rightarrow> repo_id \<Rightarrow> string \<Rightarrow> oid option \<Rightarrow> string \<Rightarrow> 'g \<Rightarrow> (error + unit) \<times> 'g" where
  "cas_branch rw r branch expected new g =
     (case res_bind (ref_name_try_from (''refs/heads/'' @ branch)) (\<lambda>n. map_sum id (Pair n) (oid_try_from new)) of
        Inl e \<Rightarrow> (Inl e, g)
      | Inr (n, x) \<Rightarrow>
          (case rw_update rw r n expected x g of
             Inl e \<Rightarrow> (Inl e, g)
           | Inr (Updated, g') \<Rightarrow> (Inr (), g')
           | Inr (Conflict current, g') \<Rightarrow> (Inl (RefConflict branch (map_option oid_str expected) (map_option oid_str current)), g')))"

definition create_commit ::
  "rest_env \<Rightarrow> draw \<Rightarrow> 'g repo_env \<Rightarrow> ('g, 'e) gix_repo \<Rightarrow> (string \<Rightarrow> string + u8 list) \<Rightarrow> header \<Rightarrow> string \<Rightarrow> commit_body
    \<Rightarrow> ('g, commit_result) served" where
  "create_commit env d rw gx b64 h i body =
     sv_bind (on_rest (authenticate env h)) (\<lambda>p.
     sv_bind (on_rest (throttle env d p CCommit)) (\<lambda>_.
     sv_bind (on_rest (known_repo i)) (\<lambda>r.
     sv_bind (on_rest (owner_only p i)) (\<lambda>_.
     sv_bind (on_rest (rest_get (\<lambda>st. check_repo_byte_quota file_len (io_tree (rs_io st)) i (cf_max_repo_bytes (rs_cfg st))))) (\<lambda>_.
     sv_bind (sv_lift (if \<not> valid_branch_name (cb_branch body) then Inl (BadRequest (InvalidBranch (cb_branch body))) else Inr ())) (\<lambda>_.
     sv_bind (sv_lift (check_changes (cb_changes body))) (\<lambda>_.
     sv_bind (on_git (\<lambda>g. (parent_there rw r (cb_parent body) g, g))) (\<lambda>_.
     sv_bind (on_rest (rest_get (\<lambda>st. prepare_changes b64 (cf_max_commit_blob (rs_cfg st)) (cb_changes body)))) (\<lambda>changes.
     sv_bind (on_git (build_and_write_commit gx (git_dir_of rw i) (as_i64 (dw_now d))
       \<lparr>ci_parent = cb_parent body, ci_changes = changes, ci_message = cb_message body, ci_author = author_or_default (cb_author body)\<rparr>))
       (\<lambda>(commit_sha, tree_sha).
     sv_bind (on_git (cas_branch rw r (cb_branch body) (cb_parent body) commit_sha)) (\<lambda>_.
     sv_bind (on_rest (publish env d (CommitEvent i commit_sha (cb_branch body) (hd (split_char newline (cb_message body))) (dw_ms d)))) (\<lambda>_.
     sv_return \<lparr>cr_commit = commit_sha, cr_tree = tree_sha, cr_branch = cb_branch body\<rparr>))))))))))))"

end
