(* ===== verification/Merge.thy ===== *)
theory Merge
  imports Commits
begin

text \<open>
  The merge endpoint of \<open>src/merge.rs\<close>: the helpers around \<open>git show-ref\<close>, \<open>merge-base\<close>, \<open>rev-parse\<close>,
  \<open>merge-tree\<close> and \<open>commit-tree\<close>, and the handler with its three strategies.
\<close>

section \<open>The body\<close>

datatype strategy = Auto | FfOnly | ForceMerge

record merge_body =
  mb_source :: string
  mb_target :: string
  mb_strategy :: strategy
  mb_message :: "string option"
  mb_author :: "commit_author option"

record merge_result =
  mr_commit :: string
  mr_tree :: string
  mr_fast_forward :: bool
  mr_source :: string
  mr_target :: string

section \<open>Helpers\<close>

definition resolve_ref :: "'g repo_env \<Rightarrow> string \<Rightarrow> string \<Rightarrow> 'g \<Rightarrow> (error + string option) \<times> 'g" where
  "resolve_ref rw git_dir ref_name g =
     (case git_run rw git_dir [''show-ref'', ''--verify'', ''--hash'', ref_name] g of
        (Inl e, g') \<Rightarrow> (Inl e, g')
      | (Inr (rc, stdout, stderr), g') \<Rightarrow>
          (if rc = 0 then map_sum id (\<lambda>s. Some (trim s)) (utf8 stdout)
           else if rc = 1 then Inr None
           else Inl (Other (''show-ref failed: rc='' @ fmt_int rc @ '' stderr='' @ from_utf8_lossy stderr)), g'))"

definition is_ancestor :: "'g repo_env \<Rightarrow> string \<Rightarrow> string \<Rightarrow> string \<Rightarrow> 'g \<Rightarrow> (error + bool) \<times> 'g" where
  "is_ancestor rw git_dir ancestor descendant g =
     (case git_run rw git_dir [''merge-base'', ''--is-ancestor'', ancestor, descendant] g of
        (Inl e, g') \<Rightarrow> (Inl e, g')
      | (Inr (rc, _, stderr), g') \<Rightarrow>
          (if rc = 0 then Inr True else if rc = 1 then Inr False
           else Inl (Other (''merge-base --is-ancestor failed: '' @ from_utf8_lossy stderr)), g'))"

definition tree_of :: "'g repo_env \<Rightarrow> string \<Rightarrow> string \<Rightarrow> 'g \<Rightarrow> (error + string) \<times> 'g" where
  "tree_of rw git_dir commit g =
     (case git_run rw git_dir [''rev-parse'', commit @ ''^'' @ [CHR 0x7B] @ ''tree'' @ [CHR 0x7D]] g of
        (Inl e, g') \<Rightarrow> (Inl e, g')
      | (Inr (rc, stdout, stderr), g') \<Rightarrow>
          (if rc \<noteq> 0 then Inl (Other (''rev-parse tree failed: '' @ from_utf8_lossy stderr))
           else map_sum id trim (utf8 stdout), g'))"

datatype merge_outcome = Clean string | MergeConflicts "string list"

definition TAB :: u8 where "TAB = 9"

text \<open>The records of the conflict report: the text after the first tab of each that has one, without repeats.\<close>

fun conflict_paths :: "u8 list list \<Rightarrow> string list \<Rightarrow> error + string list" where
  "conflict_paths [] paths = Inr paths"
| "conflict_paths (record # records) paths =
     (if record = [] \<or> TAB \<notin> set record then conflict_paths records paths
      else res_bind (utf8 (tl (dropWhile (\<lambda>b. b \<noteq> TAB) record))) (\<lambda>path.
        conflict_paths records (if path \<in> set paths then paths else paths @ [path])))"

definition parse_merge_tree :: "int \<Rightarrow> u8 list \<Rightarrow> error + merge_outcome" where
  "parse_merge_tree rc stdout =
     (if 0 \<notin> set stdout then Inl (Other ''merge-tree produced no NUL-terminated tree sha'')
      else res_bind (utf8 (takeWhile (\<lambda>b. b \<noteq> 0) stdout)) (\<lambda>text.
        if rc = 0 then Inr (Clean (trim text))
        else res_bind (conflict_paths (split_on 0 (tl (dropWhile (\<lambda>b. b \<noteq> 0) stdout))) []) (\<lambda>paths.
          if paths = [] then Inl (Other ''merge-tree reported conflict but emitted no parseable paths'')
          else Inr (MergeConflicts paths))))"

definition run_merge_tree :: "'g repo_env \<Rightarrow> string \<Rightarrow> string \<Rightarrow> string \<Rightarrow> 'g \<Rightarrow> (error + merge_outcome) \<times> 'g" where
  "run_merge_tree rw git_dir target source g =
     (case git_run rw git_dir [''merge-tree'', ''--write-tree'', ''-z'', target, source] g of
        (Inl e, g') \<Rightarrow> (Inl e, g')
      | (Inr (rc, stdout, stderr), g') \<Rightarrow>
          (if rc \<noteq> 0 \<and> rc \<noteq> 1 then Inl (Other (''merge-tree failed: rc='' @ fmt_int rc @ '' stderr='' @ from_utf8_lossy stderr))
           else parse_merge_tree rc stdout, g'))"

text \<open>The merge commit, with the target as its first parent and the source as its second.\<close>

definition commit_tree ::
  "'g repo_env \<Rightarrow> string \<Rightarrow> string \<Rightarrow> string \<Rightarrow> string \<Rightarrow> string \<Rightarrow> commit_author \<Rightarrow> 'g \<Rightarrow> (error + string) \<times> 'g" where
  "commit_tree rw git_dir merged_tree target_sha source_sha msg author g =
     (case run_git (rw_git rw) git_dir [''commit-tree'', merged_tree, ''-p'', target_sha, ''-p'', source_sha, ''-m'', msg]
             [(''GIT_AUTHOR_NAME'', au_name author), (''GIT_AUTHOR_EMAIL'', au_email author),
              (''GIT_COMMITTER_NAME'', au_name author), (''GIT_COMMITTER_EMAIL'', au_email author)] None g of
        (Inl e, g') \<Rightarrow> (Inl e, g')
      | (Inr (rc, stdout, stderr), g') \<Rightarrow>
          (if rc \<noteq> 0 then Inl (Other (''commit-tree failed: '' @ from_utf8_lossy stderr))
           else map_sum id trim (utf8 stdout), g'))"

section \<open>The handler\<close>

text \<open>The checks of the body.\<close>

definition check_merge_body :: "merge_body \<Rightarrow> error + unit" where
  "check_merge_body body =
     (if \<not> valid_branch_name (mb_source body) then Inl (BadRequest (InvalidSourceBranch (mb_source body)))
      else if \<not> valid_branch_name (mb_target body) then Inl (BadRequest (InvalidTargetBranch (mb_target body)))
      else if mb_source body = mb_target body then Inl (BadRequest (BadOther ''source and target branches must differ''))
      else Inr ())"

definition resolve_source_branch :: "'g repo_env \<Rightarrow> string \<Rightarrow> string \<Rightarrow> 'g \<Rightarrow> (error + string) \<times> 'g" where
  "resolve_source_branch rw git_dir branch g =
     (case resolve_ref rw git_dir (''refs/heads/'' @ branch) g of
        (Inl e, g') \<Rightarrow> (Inl e, g')
      | (Inr None, g') \<Rightarrow> (Inl (BadRequest (BadOther (''source branch does not exist: '' @ branch))), g')
      | (Inr (Some sha), g') \<Rightarrow> (res_bind (validate_sha sha) (\<lambda>_. Inr sha), g'))"

definition resolve_target_branch :: "'g repo_env \<Rightarrow> string \<Rightarrow> string \<Rightarrow> 'g \<Rightarrow> (error + string option) \<times> 'g" where
  "resolve_target_branch rw git_dir branch g =
     (case resolve_ref rw git_dir (''refs/heads/'' @ branch) g of
        (Inl e, g') \<Rightarrow> (Inl e, g')
      | (Inr None, g') \<Rightarrow> (Inr None, g')
      | (Inr (Some sha), g') \<Rightarrow> (res_bind (validate_sha sha) (\<lambda>_. Inr (Some sha)), g'))"

text \<open>Whether the target can be moved to the source; a missing target can.\<close>

definition ff_possible :: "'g repo_env \<Rightarrow> string \<Rightarrow> string \<Rightarrow> string option \<Rightarrow> 'g \<Rightarrow> (error + bool) \<times> 'g" where
  "ff_possible rw git_dir source_sha target g =
     (case target of None \<Rightarrow> (Inr True, g) | Some t \<Rightarrow> is_ancestor rw git_dir t source_sha g)"

definition typed_target :: "string option \<Rightarrow> error + oid option" where
  "typed_target target = (case target of None \<Rightarrow> Inr None | Some s \<Rightarrow> map_sum id Some (oid_try_from s))"

definition commit_event :: "draw \<Rightarrow> string \<Rightarrow> string \<Rightarrow> string \<Rightarrow> string \<Rightarrow> event" where
  "commit_event d i sha branch msg = CommitEvent i sha branch msg (dw_ms d)"

definition fast_forward ::
  "rest_env \<Rightarrow> draw \<Rightarrow> 'g repo_env \<Rightarrow> repo_id \<Rightarrow> string \<Rightarrow> merge_body \<Rightarrow> string \<Rightarrow> string option \<Rightarrow> ('g, merge_result) served" where
  "fast_forward env d rw r i body source_sha target =
     sv_bind (sv_lift (res_bind (ref_name_try_from (''refs/heads/'' @ mb_target body)) (\<lambda>_.
       res_bind (oid_try_from source_sha) (\<lambda>_. typed_target target)))) (\<lambda>expected.
     sv_bind (on_git (cas_branch rw r (mb_target body) expected source_sha)) (\<lambda>_.
     sv_bind (on_git (tree_of rw (git_dir_of rw i) source_sha)) (\<lambda>tree.
     sv_bind (on_rest (publish env d (commit_event d i source_sha (mb_target body) (''merge '' @ mb_source body @ '' (fast-forward)'')))) (\<lambda>_.
     sv_return \<lparr>mr_commit = source_sha, mr_tree = tree, mr_fast_forward = True, mr_source = source_sha, mr_target = mb_target body\<rparr>))))"

definition three_way ::
  "rest_env \<Rightarrow> draw \<Rightarrow> 'g repo_env \<Rightarrow> repo_id \<Rightarrow> string \<Rightarrow> merge_body \<Rightarrow> string \<Rightarrow> string \<Rightarrow> ('g, merge_result) served" where
  "three_way env d rw r i body source_sha target_sha =
     sv_bind (on_git (run_merge_tree rw (git_dir_of rw i) target_sha source_sha)) (\<lambda>outcome.
     sv_bind (sv_lift (case outcome of
         Clean tree \<Rightarrow> Inr tree
       | MergeConflicts paths \<Rightarrow> Inl (MergeConflict (mb_target body) (mb_source body) paths))) (\<lambda>merged_tree.
     sv_bind (on_git (commit_tree rw (git_dir_of rw i) merged_tree target_sha source_sha
       (case mb_message body of Some m \<Rightarrow> m | None \<Rightarrow> ''Merge '' @ mb_source body @ '' into '' @ mb_target body)
       (author_or_default (mb_author body)))) (\<lambda>commit_sha.
     sv_bind (sv_lift (res_bind (ref_name_try_from (''refs/heads/'' @ mb_target body)) (\<lambda>_. oid_try_from target_sha))) (\<lambda>expected.
     sv_bind (on_git (cas_branch rw r (mb_target body) (Some expected) commit_sha)) (\<lambda>_.
     sv_bind (on_rest (publish env d (commit_event d i commit_sha (mb_target body) (''merge '' @ mb_source body @ '' into '' @ mb_target body)))) (\<lambda>_.
     sv_return \<lparr>mr_commit = commit_sha, mr_tree = merged_tree, mr_fast_forward = False, mr_source = source_sha, mr_target = mb_target body\<rparr>))))))"

definition BROKEN_FLOW :: string where
  "BROKEN_FLOW = ''merge reached three-way path with no target sha '' @ [CHR 0xE2, CHR 0x80, CHR 0x94] @ '' control flow invariant broken''"

text \<open>Once the source is not in the target: a fast-forward, a refusal or a merge commit.\<close>

definition merge_diverged ::
  "rest_env \<Rightarrow> draw \<Rightarrow> 'g repo_env \<Rightarrow> repo_id \<Rightarrow> string \<Rightarrow> merge_body \<Rightarrow> string \<Rightarrow> string option \<Rightarrow> ('g, merge_result) served" where
  "merge_diverged env d rw r i body source_sha target =
     sv_bind (on_git (ff_possible rw (git_dir_of rw i) source_sha target)) (\<lambda>ff.
     if ff \<and> mb_strategy body \<noteq> ForceMerge then fast_forward env d rw r i body source_sha target
     else if mb_strategy body = FfOnly
       then sv_lift (Inl (BadRequest (BadOther ''not a fast-forward: target has diverged from source'')))
     else (case target of
             None \<Rightarrow> sv_lift (Inl (Other BROKEN_FLOW))
           | Some target_sha \<Rightarrow> three_way env d rw r i body source_sha target_sha))"

definition merge_resolved ::
  "rest_env \<Rightarrow> draw \<Rightarrow> 'g repo_env \<Rightarrow> repo_id \<Rightarrow> string \<Rightarrow> merge_body \<Rightarrow> string \<Rightarrow> string option \<Rightarrow> ('g, merge_result) served" where
  "merge_resolved env d rw r i body source_sha target =
     (case target of
        None \<Rightarrow> merge_diverged env d rw r i body source_sha target
      | Some t \<Rightarrow>
          sv_bind (on_git (is_ancestor rw (git_dir_of rw i) source_sha t)) (\<lambda>contained.
          if contained then
            sv_bind (on_git (tree_of rw (git_dir_of rw i) t)) (\<lambda>tree.
            sv_return \<lparr>mr_commit = t, mr_tree = tree, mr_fast_forward = False, mr_source = source_sha, mr_target = mb_target body\<rparr>)
          else merge_diverged env d rw r i body source_sha target))"

definition merge_branches ::
  "rest_env \<Rightarrow> draw \<Rightarrow> 'g repo_env \<Rightarrow> header \<Rightarrow> string \<Rightarrow> merge_body \<Rightarrow> ('g, merge_result) served" where
  "merge_branches env d rw h i body =
     sv_bind (on_rest (authenticate env h)) (\<lambda>p.
     sv_bind (on_rest (throttle env d p CCommit)) (\<lambda>_.
     sv_bind (on_rest (known_repo i)) (\<lambda>r.
     sv_bind (on_rest (owner_only p i)) (\<lambda>_.
     sv_bind (sv_lift (check_merge_body body)) (\<lambda>_.
     sv_bind (on_git (resolve_source_branch rw (git_dir_of rw i) (mb_source body))) (\<lambda>source_sha.
     sv_bind (on_git (resolve_target_branch rw (git_dir_of rw i) (mb_target body))) (\<lambda>target.
     merge_resolved env d rw r i body source_sha target)))))))"

end
