(* ===== verification/ServedInv.thy ===== *)
theory ServedInv
  imports RestGit RestProps
begin

text \<open>
  Triples over the handlers that run on the server's state and on the world of git, and what the checks at the
  front of such a handler establish.
\<close>

section \<open>Triples over two states\<close>

definition sv_holds :: "(rest_state \<times> 'g \<Rightarrow> bool) \<Rightarrow> ('g, 'a) served \<Rightarrow> ('a \<Rightarrow> rest_state \<times> 'g \<Rightarrow> bool) \<Rightarrow> (rest_state \<times> 'g \<Rightarrow> bool) \<Rightarrow> bool" where
  "sv_holds P a Q E = (\<forall>sg. P sg \<longrightarrow> (case a sg of (Inl e, sg') \<Rightarrow> E sg' | (Inr x, sg') \<Rightarrow> Q x sg'))"

lemma sv_holds_bind:
  assumes "sv_holds P a Q E" "\<And>x. sv_holds (Q x) (f x) R E"
  shows "sv_holds P (sv_bind a f) R E"
  unfolding sv_holds_def
proof (intro allI impI)
  fix sg assume "P sg"
  obtain r sg1 where run: "a sg = (r, sg1)" by (cases "a sg")
  note first = assms(1) [unfolded sv_holds_def, rule_format, OF \<open>P sg\<close>, unfolded run prod.case]
  show "case sv_bind a f sg of (Inl e, sg') \<Rightarrow> E sg' | (Inr x, sg') \<Rightarrow> R x sg'"
  proof (cases r)
    case (Inl e)
    with first show ?thesis by (simp add: sv_bind_def run)
  next
    case (Inr x)
    with first have "Q x sg1" by simp
    note second = assms(2) [of x, unfolded sv_holds_def, rule_format, OF this]
    with Inr show ?thesis by (simp add: sv_bind_def run)
  qed
qed

lemma sv_holds_lift: "(\<And>sg x. P sg \<Longrightarrow> r = Inr x \<Longrightarrow> Q x sg) \<Longrightarrow> (\<And>sg. P sg \<Longrightarrow> E sg) \<Longrightarrow> sv_holds P (sv_lift r) Q E"
  by (cases r) (auto simp: sv_holds_def sv_lift_def)

lemma sv_holds_return: "(\<And>sg. P sg \<Longrightarrow> Q x sg) \<Longrightarrow> sv_holds P (sv_return x) Q E"
  by (auto simp: sv_holds_def sv_return_def)

text \<open>A step on the server's state, and one on the world.\<close>

lemma sv_holds_rest:
  assumes "keeps I a G" "\<And>sg. I (fst sg) \<Longrightarrow> R (snd sg) \<Longrightarrow> E sg"
  shows "sv_holds (\<lambda>sg. I (fst sg) \<and> R (snd sg)) (on_rest a) (\<lambda>x sg. (I (fst sg) \<and> R (snd sg)) \<and> G x) E"
  unfolding sv_holds_def
proof (intro allI impI)
  fix sg assume P: "I (fst sg) \<and> R (snd sg)"
  obtain r st where run: "a (fst sg) = (r, st)" by (cases "a (fst sg)")
  have "I (fst sg)" using P by blast
  note out = assms(1) [unfolded holds_def, rule_format, OF this, unfolded run prod.case]
  show "case on_rest a sg of (Inl e, sg') \<Rightarrow> E sg' | (Inr x, sg') \<Rightarrow> (I (fst sg') \<and> R (snd sg')) \<and> G x"
    using out P assms(2) [of "(st, snd sg)"] by (cases r) (simp_all add: on_rest_def run)
qed

lemma sv_holds_git:
  assumes "\<And>g r g'. R g \<Longrightarrow> a g = (r, g') \<Longrightarrow> case r of Inl e \<Rightarrow> E' g' | Inr x \<Rightarrow> R' x g'" "\<And>sg. E' (snd sg) \<Longrightarrow> E sg"
  shows "sv_holds (\<lambda>sg. I (fst sg) \<and> R (snd sg)) (on_git a) (\<lambda>x sg. I (fst sg) \<and> R' x (snd sg)) E"
  unfolding sv_holds_def
proof (intro allI impI)
  fix sg assume P: "I (fst sg) \<and> R (snd sg)"
  obtain r g' where run: "a (snd sg) = (r, g')" by (cases "a (snd sg)")
  have "R (snd sg)" using P by blast
  note out = assms(1) [OF this run]
  show "case on_git a sg of (Inl e, sg') \<Rightarrow> E sg' | (Inr x, sg') \<Rightarrow> I (fst sg') \<and> R' x (snd sg')"
    using out P assms(2) [of "(fst sg, g')"] by (cases r) (simp_all add: on_git_def run)
qed

lemma sv_fact: "(F \<Longrightarrow> sv_holds P a Q E) \<Longrightarrow> sv_holds (\<lambda>sg. P sg \<and> F) a Q E"
  by (cases F) (simp_all add: sv_holds_def)

lemma sv_rest_bind:
  assumes "keeps I a G" "\<And>sg. I (fst sg) \<Longrightarrow> R (snd sg) \<Longrightarrow> E sg"
    and "\<And>x. G x \<Longrightarrow> sv_holds (\<lambda>sg. I (fst sg) \<and> R (snd sg)) (f x) Q E"
  shows "sv_holds (\<lambda>sg. I (fst sg) \<and> R (snd sg)) (sv_bind (on_rest a) f) Q E"
  by (rule sv_holds_bind [OF sv_holds_rest [OF assms(1,2)] sv_fact [OF assms(3)]])

lemma sv_lift_bindI:
  assumes "\<And>sg. P sg \<Longrightarrow> E sg" "\<And>x. r = Inr x \<Longrightarrow> sv_holds P (f x) Q E"
  shows "sv_holds P (sv_bind (sv_lift r) f) Q E"
proof (rule sv_holds_bind)
  show "sv_holds P (sv_lift r) (\<lambda>x sg. P sg \<and> r = Inr x) E" by (rule sv_holds_lift) (use assms(1) in auto)
  show "sv_holds (\<lambda>sg. P sg \<and> r = Inr x) (f x) Q E" for x by (rule sv_fact [OF assms(2)])
qed

text \<open>The checks at the front of a handler change nothing but the limiter.\<close>

definition only_limits :: "rest_state \<Rightarrow> rest_state \<Rightarrow> bool" where
  "only_limits st st' = (\<exists>limits. st' = st\<lparr>rs_limits := limits\<rparr>)"

lemma only_limitsE: "only_limits st st' \<Longrightarrow> (\<And>limits. st' = st\<lparr>rs_limits := limits\<rparr> \<Longrightarrow> thesis) \<Longrightarrow> thesis"
  by (auto simp: only_limits_def)

lemma limits_get: "(\<And>limits x. f (st\<lparr>rs_limits := limits\<rparr>) = Inr x \<Longrightarrow> G x) \<Longrightarrow> keeps (only_limits st) (rest_get f) G"
  by (rule holds_get) (auto simp: only_limits_def)

lemma limits_checks:
  "keeps (only_limits st) (authenticate env h) (\<lambda>p. caller env h st = Inr p)"
  "keeps (only_limits st) (known_repo i) (\<lambda>r. r = RepoId i)"
  "keeps (only_limits st) (owner_only p i) (\<lambda>_. enforce_owner p i (rs_owners st) = Inr ())"
  unfolding authenticate_def known_repo_def owner_only_def
  by (rule limits_get; simp add: caller_def res_bind_Inr_iff repo_id_try_from_def split: if_splits)+

lemma limits_throttle: "keeps (only_limits st) (throttle env d p c) (\<lambda>_. True)"
  unfolding holds_def
proof (intro allI impI)
  fix s assume "only_limits st s"
  moreover obtain r limits where "throttle env d p c s = (r, s\<lparr>rs_limits := limits\<rparr>)" using throttle_effect by blast
  ultimately show "case throttle env d p c s of (Inl e, st') \<Rightarrow> only_limits st st' | (Inr x, st') \<Rightarrow> only_limits st st' \<and> True"
    by (auto simp: only_limits_def split: sum.split)
qed

lemma sv_publish:
  assumes "\<And>sg. P sg \<Longrightarrow> R (snd sg)"
  shows "sv_holds P (sv_bind (on_rest (publish env d ev)) (\<lambda>_. sv_return x)) (\<lambda>x' sg. x' = x \<and> R (snd sg)) E"
  unfolding sv_holds_def
proof (intro allI impI)
  fix sg assume "P sg"
  with assms have R: "R (snd sg)" by blast
  obtain st' where "publish env d ev (fst sg) = (Inr (), st')" using publish_effect [of env d ev "fst sg"] by auto
  then show "case sv_bind (on_rest (publish env d ev)) (\<lambda>_. sv_return x) sg of (Inl e, sg') \<Rightarrow> E sg' | (Inr x', sg') \<Rightarrow> x' = x \<and> R (snd sg')"
    using R by (simp add: sv_bind_def on_rest_def sv_return_def)
qed

lemma sv_git_check:
  assumes "\<And>sg. P sg \<Longrightarrow> E sg" "\<And>x. sv_holds P (f x) Q E"
  shows "sv_holds P (sv_bind (on_git (\<lambda>g. (c g, g))) f) Q E"
proof (rule sv_holds_bind)
  show "sv_holds P (on_git (\<lambda>g. (c g, g))) (\<lambda>_. P) E"
    using assms(1) by (auto simp: sv_holds_def on_git_def split: sum.splits)
qed (rule assms(2))

lemma sv_weaken: "sv_holds P a Q E \<Longrightarrow> (\<And>sg. P' sg \<Longrightarrow> P sg) \<Longrightarrow> (\<And>x sg. Q x sg \<Longrightarrow> Q' x sg) \<Longrightarrow> sv_holds P' a Q' E"
  unfolding sv_holds_def by (fastforce split: prod.splits sum.splits)

text \<open>The checks pass for the owner of the small server.\<close>

lemma toy_guards:
  "caller toy_env (bearer ''alice'') alice_state = Inr (User ''alice'')"
  "enforce_owner (User ''alice'') ''demo'' (rs_owners alice_state) = Inr ()"
  "repo_exists (RepoId ''demo'') (io_tree (rs_io alice_state))"
proof -
  show "caller toy_env (bearer ''alice'') alice_state = Inr (User ''alice'')"
    by (rule toy_caller) (simp_all add: alice_state_def toy_state_def config_new_def)
  show "enforce_owner (User ''alice'') ''demo'' (rs_owners alice_state) = Inr ()"
    by (simp add: enforce_owner_def principal_subject_def ok_or_def toy_demo get_owner_def alice_state_def owner_of_column_def subject_try_from_def)
  show "repo_exists (RepoId ''demo'') (io_tree (rs_io alice_state))"
    by (simp add: repo_exists_def alice_state_def toy_state_def is_dir_def toy_demo)
qed

end
