(* ===== verification/CommitProps.thy ===== *)
theory CommitProps
  imports Commits ServedInv
begin

text \<open>
  What a commit through \<open>src/commits.rs\<close> does to the repo, for a library \<open>gix\<close> that keeps its promises and a ref
  store with compare-and-swap; a small object database shows that both can hold.
\<close>

section \<open>What \<open>gix\<close> promises\<close>

text \<open>What a world stands for: the blobs, the trees with the mode and blob of every path, and the commits of one repo,
  and the files of an open tree editor.\<close>

type_synonym files = "string \<rightharpoonup> entry_kind \<times> oid"

record ('g, 'e) objects =
  ob_blob :: "'g \<Rightarrow> oid \<rightharpoonup> u8 list"
  ob_tree :: "'g \<Rightarrow> oid \<rightharpoonup> files"
  ob_commit :: "'g \<Rightarrow> oid \<rightharpoonup> commit_object"
  ob_edit :: "'e \<Rightarrow> files"
  ob_refs :: "'g \<Rightarrow> ref_key \<rightharpoonup> oid"

definition grows :: "('g, 'e) objects \<Rightarrow> 'g \<Rightarrow> 'g \<Rightarrow> bool" where
  "grows ob g g' = (ob_blob ob g \<subseteq>\<^sub>m ob_blob ob g' \<and> ob_tree ob g \<subseteq>\<^sub>m ob_tree ob g' \<and> ob_commit ob g \<subseteq>\<^sub>m ob_commit ob g')"

text \<open>A file cannot lie under another: these paths cannot both be in one tree.\<close>

definition clash :: "string \<Rightarrow> string \<Rightarrow> bool" where
  "clash p q = (starts_with (p @ ''/'') q \<or> starts_with (q @ ''/'') p)"

definition writes_only :: "('g, 'e) objects \<Rightarrow> 'g \<Rightarrow> 'g \<Rightarrow> bool" where
  "writes_only ob g g' = (grows ob g g' \<and> ob_refs ob g' = ob_refs ob g)"

definition gix_ok :: "('g, 'e) gix_repo \<Rightarrow> string \<Rightarrow> ('g, 'e) objects \<Rightarrow> bool" where
  "gix_ok gx dir ob =
     ((\<forall>g. ob_tree ob g EMPTY_TREE = Some Map.empty)
      \<and> (\<forall>x data t g. gx_find_commit gx dir x g = Inr data \<longrightarrow> gx_tree_id gx data = Inr t \<longrightarrow>
           (\<exists>co. ob_commit ob g x = Some co \<and> co_tree co = t))
      \<and> (\<forall>t g ed. gx_edit_tree gx dir t g = Inr ed \<longrightarrow> ob_tree ob g t = Some (ob_edit ob ed))
      \<and> (\<forall>bs g r g'. gx_write_blob gx dir bs g = (r, g') \<longrightarrow>
           writes_only ob g g' \<and> (\<forall>b. r = Inr b \<longrightarrow> ob_blob ob g' b = Some bs))
      \<and> (\<forall>p k b ed ed'. gx_upsert gx p k b ed = Inr ed' \<longrightarrow>
           ob_edit ob ed' p = Some (k, b) \<and> (\<forall>q. q \<noteq> p \<longrightarrow> \<not> clash p q \<longrightarrow> ob_edit ob ed' q = ob_edit ob ed q))
      \<and> (\<forall>p ed ed'. gx_remove gx p ed = Inr ed' \<longrightarrow>
           ob_edit ob ed' p = None \<and> (\<forall>q. q \<noteq> p \<longrightarrow> \<not> clash p q \<longrightarrow> ob_edit ob ed' q = ob_edit ob ed q))
      \<and> (\<forall>ed g r g'. gx_write_tree gx dir ed g = (r, g') \<longrightarrow>
           writes_only ob g g' \<and> (\<forall>t. r = Inr t \<longrightarrow> ob_tree ob g' t = Some (ob_edit ob ed)))
      \<and> (\<forall>co g r g'. gx_write_commit gx dir co g = (r, g') \<longrightarrow>
           writes_only ob g g' \<and> (\<forall>c. r = Inr c \<longrightarrow> ob_commit ob g' c = Some co)))"

text \<open>The refs of the world under the server's compare-and-swap.\<close>

definition cas_ok :: "'g repo_env \<Rightarrow> ('g, 'e) objects \<Rightarrow> bool" where
  "cas_ok rw ob = (\<forall>r n expected new g outcome g'. rw_update rw r n expected new g = Inr (outcome, g') \<longrightarrow>
     grows ob g g' \<and>
     (case outcome of
        Updated \<Rightarrow> ob_refs ob g (r, n) = expected \<and> ob_refs ob g' = (ob_refs ob g)((r, n) \<mapsto> new)
      | Conflict current \<Rightarrow> ob_refs ob g' = ob_refs ob g))"

section \<open>What becomes of a path\<close>

text \<open>Later changes win; a file in whose way a later change put another, or below which it did, is not tracked.\<close>

datatype fate = Untouched | Written entry_kind "u8 list" | Removed | Displaced

fun fate_of :: "string \<Rightarrow> prepared list \<Rightarrow> fate \<Rightarrow> fate" where
  "fate_of q [] f = f"
| "fate_of q (PreparedWrite p bytes kind # changes) f =
     fate_of q changes (if q = p then Written kind bytes else if clash p q then Displaced else f)"
| "fate_of q (PreparedDelete p # changes) f = fate_of q changes (if q = p then Removed else if clash p q then Displaced else f)"

text \<open>What the fate of a path says about the files after the changes.\<close>

definition lands :: "(oid \<rightharpoonup> u8 list) \<Rightarrow> files \<Rightarrow> files \<Rightarrow> string \<Rightarrow> fate \<Rightarrow> bool" where
  "lands blobs base final q f =
     (case f of
        Untouched \<Rightarrow> final q = base q
      | Written kind bytes \<Rightarrow> (\<exists>b. final q = Some (kind, b) \<and> blobs b = Some bytes)
      | Removed \<Rightarrow> final q = None
      | Displaced \<Rightarrow> True)"

lemma writes_only_trans: "writes_only ob g g' \<Longrightarrow> writes_only ob g' g'' \<Longrightarrow> writes_only ob g g''"
  unfolding writes_only_def grows_def by (elim conjE, intro conjI, (rule map_le_trans, assumption, assumption)+, simp)

lemma writes_only_refl: "writes_only ob g g"
  by (simp add: writes_only_def grows_def)

lemma lands_grow: "lands blobs base final q f \<Longrightarrow> blobs \<subseteq>\<^sub>m blobs' \<Longrightarrow> lands blobs' base final q f"
  by (auto simp: lands_def map_le_def dom_def split: fate.splits)

lemma gix_okD:
  assumes "gix_ok gx dir ob"
  shows "ob_tree ob g EMPTY_TREE = Some Map.empty"
    "gx_find_commit gx dir x g = Inr data \<Longrightarrow> gx_tree_id gx data = Inr t \<Longrightarrow> \<exists>co. ob_commit ob g x = Some co \<and> co_tree co = t"
    "gx_edit_tree gx dir t g = Inr ed \<Longrightarrow> ob_tree ob g t = Some (ob_edit ob ed)"
    "gx_write_blob gx dir bs g = (r, g') \<Longrightarrow> writes_only ob g g' \<and> (\<forall>b. r = Inr b \<longrightarrow> ob_blob ob g' b = Some bs)"
    "gx_upsert gx p k b ed = Inr ed' \<Longrightarrow> ob_edit ob ed' p = Some (k, b) \<and> (\<forall>q. q \<noteq> p \<longrightarrow> \<not> clash p q \<longrightarrow> ob_edit ob ed' q = ob_edit ob ed q)"
    "gx_remove gx p ed = Inr ed' \<Longrightarrow> ob_edit ob ed' p = None \<and> (\<forall>q. q \<noteq> p \<longrightarrow> \<not> clash p q \<longrightarrow> ob_edit ob ed' q = ob_edit ob ed q)"
    "gx_write_tree gx dir ed g = (r, g') \<Longrightarrow> writes_only ob g g' \<and> (\<forall>t. r = Inr t \<longrightarrow> ob_tree ob g' t = Some (ob_edit ob ed))"
    "gx_write_commit gx dir co g = (r, g') \<Longrightarrow> writes_only ob g g' \<and> (\<forall>c. r = Inr c \<longrightarrow> ob_commit ob g' c = Some co)"
  using assms by (simp_all add: gix_ok_def, blast?)

lemma lands_upsert:
  assumes "lands blobs base files q f" "files' p = Some (kind, b)" "blobs b = Some bytes"
    and "\<forall>q. q \<noteq> p \<longrightarrow> \<not> clash p q \<longrightarrow> files' q = files q"
  shows "lands blobs base files' q (if q = p then Written kind bytes else if clash p q then Displaced else f)"
  using assms by (cases f) (auto simp: lands_def)

lemma lands_remove:
  assumes "lands blobs base files q f" "files' p = None" "\<forall>q. q \<noteq> p \<longrightarrow> \<not> clash p q \<longrightarrow> files' q = files q"
  shows "lands blobs base files' q (if q = p then Removed else if clash p q then Displaced else f)"
  using assms by (cases f) (auto simp: lands_def)

lemma apply_changes_lands:
  assumes ok: "gix_ok gx dir ob"
  shows "apply_changes gx dir changes ed g = (r, g') \<Longrightarrow> (\<And>q. lands (ob_blob ob g) base (ob_edit ob ed) q (f q)) \<Longrightarrow>
    writes_only ob g g' \<and> (\<forall>ed'. r = Inr ed' \<longrightarrow> (\<forall>q. lands (ob_blob ob g') base (ob_edit ob ed') q (fate_of q changes (f q))))"
proof (induction changes arbitrary: ed g f)
  case Nil
  then show ?case by (auto simp: writes_only_refl)
next
  case (Cons change changes)
  show ?case
  proof (cases change)
    case (PreparedWrite p bytes kind)
    obtain rb g1 where blob: "gx_write_blob gx dir bytes g = (rb, g1)" by (cases "gx_write_blob gx dir bytes g")
    note w = gix_okD(4) [OF ok blob]
    show ?thesis
    proof (cases rb)
      case (Inl e)
      then show ?thesis using Cons.prems(1) w by (auto simp: PreparedWrite blob simp del: fate_of.simps)
    next
      case (Inr b)
      show ?thesis
      proof (cases "gx_upsert gx p kind b ed")
        case (Inl e)
        then show ?thesis using Cons.prems(1) w \<open>rb = Inr b\<close> by (auto simp: PreparedWrite blob simp del: fate_of.simps)
      next
        case R: (Inr ed1)
        note u = gix_okD(5) [OF ok R]
        have "lands (ob_blob ob g1) base (ob_edit ob ed1) q (if q = p then Written kind bytes else if clash p q then Displaced else f q)" for q
        proof (rule lands_upsert)
          show "lands (ob_blob ob g1) base (ob_edit ob ed) q (f q)"
            using lands_grow [OF Cons.prems(2)] w by (simp add: writes_only_def grows_def)
        qed (use u w Inr in auto)
        moreover have "apply_changes gx dir changes ed1 g1 = (r, g')" using Cons.prems(1) Inr R by (simp add: PreparedWrite blob)
        ultimately have "writes_only ob g1 g' \<and> (\<forall>ed'. r = Inr ed' \<longrightarrow> (\<forall>q. lands (ob_blob ob g') base (ob_edit ob ed') q
            (fate_of q changes (if q = p then Written kind bytes else if clash p q then Displaced else f q))))"
          by (intro Cons.IH [where f = "\<lambda>q. if q = p then Written kind bytes else if clash p q then Displaced else f q"])
        with w show ?thesis by (auto simp: PreparedWrite intro: writes_only_trans)
      qed
    qed
  next
    case (PreparedDelete p)
    show ?thesis
    proof (cases "gx_remove gx p ed")
      case (Inl e)
      then show ?thesis using Cons.prems(1) by (auto simp: PreparedDelete writes_only_refl)
    next
      case R: (Inr ed1)
      note u = gix_okD(6) [OF ok R]
      have "lands (ob_blob ob g) base (ob_edit ob ed1) q (if q = p then Removed else if clash p q then Displaced else f q)" for q
        by (rule lands_remove [OF Cons.prems(2)]) (use u in auto)
      moreover have "apply_changes gx dir changes ed1 g = (r, g')" using Cons.prems(1) R by (simp add: PreparedDelete)
      ultimately have "writes_only ob g g' \<and> (\<forall>ed'. r = Inr ed' \<longrightarrow> (\<forall>q. lands (ob_blob ob g') base (ob_edit ob ed') q
          (fate_of q changes (if q = p then Removed else if clash p q then Displaced else f q))))"
        by (intro Cons.IH [where f = "\<lambda>q. if q = p then Removed else if clash p q then Displaced else f q"])
      then show ?thesis by (simp add: PreparedDelete)
    qed
  qed
qed

text \<open>The files a commit starts from.\<close>

definition base_files :: "('g, 'e) objects \<Rightarrow> 'g \<Rightarrow> oid option \<Rightarrow> files option" where
  "base_files ob g parent =
     (case parent of
        None \<Rightarrow> Some Map.empty
      | Some x \<Rightarrow> (case ob_commit ob g x of None \<Rightarrow> None | Some co \<Rightarrow> ob_tree ob g (co_tree co)))"

lemma base_editor:
  assumes ok: "gix_ok gx dir ob"
    and "res_bind (gix_err w (gx_open gx dir g)) (\<lambda>_. res_bind (base_tree gx dir parent g) (\<lambda>t. gix_err (w' t) (gx_edit_tree gx dir t g))) = Inr ed"
  shows "base_files ob g parent = Some (ob_edit ob ed)"
proof -
  obtain t where t: "base_tree gx dir parent g = Inr t" "gx_edit_tree gx dir t g = Inr ed"
    using assms(2) by (auto simp: res_bind_Inr_iff gix_err_def map_err_Inr_iff)
  note e = gix_okD(3) [OF ok t(2)]
  show ?thesis
  proof (cases parent)
    case None
    with t(1) have "t = EMPTY_TREE" by (simp add: base_tree_def)
    with e gix_okD(1) [OF ok] None show ?thesis by (simp add: base_files_def)
  next
    case (Some x)
    with t(1) obtain data where "gx_find_commit gx dir x g = Inr data" "gx_tree_id gx data = Inr t"
      by (auto simp: base_tree_def res_bind_Inr_iff gix_err_def map_err_Inr_iff)
    then obtain co where "ob_commit ob g x = Some co" "co_tree co = t" using gix_okD(2) [OF ok] by blast
    with e Some show ?thesis by (simp add: base_files_def)
  qed
qed

text \<open>The commit that was built: on the parent, with the message and the author, and with a tree in which each path has its fate.\<close>

definition built :: "('g, 'e) objects \<Rightarrow> 'g \<Rightarrow> int \<Rightarrow> commit_input \<Rightarrow> 'g \<Rightarrow> string \<times> string \<Rightarrow> bool" where
  "built ob g now input g' shas =
     (\<exists>c t base final. shas = (oid_str c, oid_str t) \<and> base_files ob g (ci_parent input) = Some base
        \<and> ob_commit ob g' c = Some \<lparr>co_tree = t, co_parents = (case ci_parent input of Some x \<Rightarrow> [x] | None \<Rightarrow> []),
             co_name = au_name (ci_author input), co_email = au_email (ci_author input), co_seconds = now, co_message = ci_message input\<rparr>
        \<and> ob_tree ob g' t = Some final
        \<and> (\<forall>q. lands (ob_blob ob g') base final q (fate_of q (ci_changes input) Untouched)))"

lemma build_builds:
  assumes ok: "gix_ok gx dir ob" and run: "build_and_write_commit gx dir now input g = (r, g')"
  shows "writes_only ob g g' \<and> (\<forall>shas. r = Inr shas \<longrightarrow> built ob g now input g' shas)"
proof -
  let ?edit = "res_bind (gix_err (''gix::open '' @ dir) (gx_open gx dir g)) (\<lambda>_. res_bind (base_tree gx dir (ci_parent input) g) (\<lambda>t.
      gix_err (''edit_tree on '' @ oid_str t) (gx_edit_tree gx dir t g)))"
  show ?thesis
  proof (cases ?edit)
    case (Inl e)
    then show ?thesis using run by (auto simp: build_and_write_commit_def writes_only_refl)
  next
    case (Inr ed)
    have base: "base_files ob g (ci_parent input) = Some (ob_edit ob ed)" by (rule base_editor [OF ok Inr])
    obtain r1 g1 where a: "apply_changes gx dir (ci_changes input) ed g = (r1, g1)" by (cases "apply_changes gx dir (ci_changes input) ed g")
    have l: "lands (ob_blob ob g) (ob_edit ob ed) (ob_edit ob ed) q Untouched" for q by (simp add: lands_def)
    note w1 = apply_changes_lands [OF ok a, of "ob_edit ob ed" "\<lambda>_. Untouched", OF l]
    show ?thesis
    proof (cases r1)
      case E: (Inl e)
      then show ?thesis using run w1 Inr a by (auto simp: build_and_write_commit_def)
    next
      case R1: (Inr ed1)
      obtain r2 g2 where t: "gx_write_tree gx dir ed1 g1 = (r2, g2)" by (cases "gx_write_tree gx dir ed1 g1")
      note w2 = gix_okD(7) [OF ok t]
      show ?thesis
      proof (cases r2)
        case E: (Inl e)
        then show ?thesis using run w1 w2 Inr a R1 t by (auto simp: build_and_write_commit_def intro: writes_only_trans)
      next
        case R2: (Inr tree)
        let ?co = "\<lparr>co_tree = tree, co_parents = (case ci_parent input of Some x \<Rightarrow> [x] | None \<Rightarrow> []), co_name = au_name (ci_author input),
            co_email = au_email (ci_author input), co_seconds = now, co_message = ci_message input\<rparr>"
        obtain r3 g3 where c: "gx_write_commit gx dir ?co g2 = (r3, g3)" by (cases "gx_write_commit gx dir ?co g2")
        note w3 = gix_okD(8) [OF ok c]
        have run': "write_commit_object gx dir now input tree g2 = (r, g')" using run Inr a R1 t R2 by (simp add: build_and_write_commit_def)
        have g3: "g' = g3" using run' c by (cases r3) (auto simp: write_commit_object_def)
        have all: "writes_only ob g g'" using w1 w2 w3 g3 by (blast intro: writes_only_trans)
        have "built ob g now input g' shas" if R: "r = Inr shas" for shas
        proof -
          obtain cid where r3: "r3 = Inr cid" "shas = (oid_str cid, oid_str tree)"
            using run' c R by (cases r3) (auto simp: write_commit_object_def)
          have grow: "ob_blob ob g1 \<subseteq>\<^sub>m ob_blob ob g'" "ob_tree ob g2 \<subseteq>\<^sub>m ob_tree ob g'"
            using w2 w3 g3 by (auto simp: writes_only_def grows_def intro: map_le_trans)
          have "ob_tree ob g' tree = Some (ob_edit ob ed1)" using w2 R2 grow(2) by (auto simp: map_le_def dom_def)
          moreover have "lands (ob_blob ob g') (ob_edit ob ed) (ob_edit ob ed1) q (fate_of q (ci_changes input) Untouched)" for q
            using w1 R1 lands_grow [OF _ grow(1)] by blast
          ultimately show ?thesis using w3 g3 r3 base unfolding built_def by blast
        qed
        with all show ?thesis by blast
      qed
    qed
  qed
qed


section \<open>A commit lands\<close>

lemma built_grows:
  assumes "built ob g now input g1 shas" "grows ob g1 g'"
  shows "built ob g now input g' shas"
proof -
  obtain c t base final where b: "shas = (oid_str c, oid_str t)" "base_files ob g (ci_parent input) = Some base"
    "ob_commit ob g1 c = Some \<lparr>co_tree = t, co_parents = (case ci_parent input of Some x \<Rightarrow> [x] | None \<Rightarrow> []),
             co_name = au_name (ci_author input), co_email = au_email (ci_author input), co_seconds = now, co_message = ci_message input\<rparr>"
    "ob_tree ob g1 t = Some final" "\<And>q. lands (ob_blob ob g1) base final q (fate_of q (ci_changes input) Untouched)"
    using assms(1) unfolding built_def by blast
  have grow: "ob_blob ob g1 \<subseteq>\<^sub>m ob_blob ob g'" "ob_tree ob g1 \<subseteq>\<^sub>m ob_tree ob g'" "ob_commit ob g1 \<subseteq>\<^sub>m ob_commit ob g'"
    using assms(2) by (simp_all add: grows_def)
  show ?thesis
    unfolding built_def
  proof (intro exI conjI allI)
    show "ob_commit ob g' c = Some \<lparr>co_tree = t, co_parents = (case ci_parent input of Some x \<Rightarrow> [x] | None \<Rightarrow> []),
             co_name = au_name (ci_author input), co_email = au_email (ci_author input), co_seconds = now, co_message = ci_message input\<rparr>"
      using b(3) grow(3) by (auto simp: map_le_def dom_def)
    show "ob_tree ob g' t = Some final" using b(4) grow(2) by (auto simp: map_le_def dom_def)
  qed (use b lands_grow [OF b(5) grow(1)] in auto)
qed

lemma cas_branch_cases:
  assumes ok: "cas_ok rw ob" and run: "cas_branch rw r branch expected new g = (res, g')"
  shows "case res of
      Inl e \<Rightarrow> ob_refs ob g' = ob_refs ob g
    | Inr _ \<Rightarrow> grows ob g g' \<and> ob_refs ob g (r, RefName (''refs/heads/'' @ branch)) = expected
        \<and> ob_refs ob g' = (ob_refs ob g)((r, RefName (''refs/heads/'' @ branch)) \<mapsto> Oid new)"
proof (cases "res_bind (ref_name_try_from (''refs/heads/'' @ branch)) (\<lambda>n. map_sum id (Pair n) (oid_try_from new))")
  case (Inl e)
  then show ?thesis using run by (auto simp: cas_branch_def)
next
  case (Inr nx)
  then obtain n x where nx: "nx = (n, x)" "n = RefName (''refs/heads/'' @ branch)" "x = Oid new"
    by (cases "oid_try_from new") (auto simp: res_bind_Inr_iff ref_name_try_from_iff oid_try_from_def simp del: append_Cons split: if_splits)
  show ?thesis
  proof (cases "rw_update rw r n expected x g")
    case (Inl e)
    then show ?thesis using run Inr nx by (auto simp: cas_branch_def)
  next
    case U: (Inr og)
    obtain outcome g1 where og: "og = (outcome, g1)" by (cases og)
    note law = ok [unfolded cas_ok_def, rule_format, OF U [unfolded og]]
    show ?thesis using run Inr nx U og law by (cases outcome) (auto simp: cas_branch_def simp del: append_Cons)
  qed
qed

text \<open>The state in which the handler leaves the world when it succeeds.\<close>

definition committed ::
  "rest_env \<Rightarrow> draw \<Rightarrow> ('g, 'e) objects \<Rightarrow> (string \<Rightarrow> string + u8 list) \<Rightarrow> header \<Rightarrow> string \<Rightarrow> commit_body \<Rightarrow> rest_state \<Rightarrow> 'g \<Rightarrow> commit_result \<Rightarrow> 'g \<Rightarrow> bool" where
  "committed env d ob b64 h i body st g res g' =
     (\<exists>p changes. caller env h st = Inr p \<and> enforce_owner p i (rs_owners st) = Inr ()
        \<and> prepare_changes b64 (cf_max_commit_blob (rs_cfg st)) (cb_changes body) = Inr changes
        \<and> built ob g (as_i64 (dw_now d))
            \<lparr>ci_parent = cb_parent body, ci_changes = changes, ci_message = cb_message body, ci_author = author_or_default (cb_author body)\<rparr>
            g' (cr_commit res, cr_tree res)
        \<and> cr_branch res = cb_branch body
        \<and> ob_refs ob g (RepoId i, RefName (''refs/heads/'' @ cb_branch body)) = cb_parent body
        \<and> ob_refs ob g' = (ob_refs ob g)((RepoId i, RefName (''refs/heads/'' @ cb_branch body)) \<mapsto> Oid (cr_commit res)))"

lemma commit_tail:
  assumes gx: "gix_ok gx (git_dir_of rw i) ob" and cas: "cas_ok rw ob"
    and facts: "caller env h st = Inr p" "enforce_owner p i (rs_owners st) = Inr ()"
      "prepare_changes b64 (cf_max_commit_blob (rs_cfg st)) (cb_changes body) = Inr changes"
  defines "input \<equiv> \<lparr>ci_parent = cb_parent body, ci_changes = changes, ci_message = cb_message body, ci_author = author_or_default (cb_author body)\<rparr>"
  shows "sv_holds (\<lambda>sg. only_limits st (fst sg) \<and> snd sg = g)
     (sv_bind (on_git (build_and_write_commit gx (git_dir_of rw i) (as_i64 (dw_now d)) input))
       (\<lambda>(commit_sha, tree_sha).
     sv_bind (on_git (cas_branch rw (RepoId i) (cb_branch body) (cb_parent body) commit_sha)) (\<lambda>_.
     sv_bind (on_rest (publish env d (CommitEvent i commit_sha (cb_branch body) (hd (split_char newline (cb_message body))) (dw_ms d)))) (\<lambda>_.
     sv_return \<lparr>cr_commit = commit_sha, cr_tree = tree_sha, cr_branch = cb_branch body\<rparr>))))
     (\<lambda>res sg. committed env d ob b64 h i body st g res (snd sg)) (\<lambda>sg. ob_refs ob (snd sg) = ob_refs ob g)"
proof (rule sv_holds_bind [OF sv_holds_git])
  fix g0 r g' assume g0: "g0 = g" and run: "build_and_write_commit gx (git_dir_of rw i) (as_i64 (dw_now d)) input g0 = (r, g')"
  show "case r of Inl e \<Rightarrow> ob_refs ob g' = ob_refs ob g
      | Inr shas \<Rightarrow> writes_only ob g g' \<and> built ob g (as_i64 (dw_now d)) input g' shas"
    using build_builds [OF gx run] by (cases r) (auto simp: g0 writes_only_def)
next
  fix shas :: "string \<times> string"
  obtain c t where shas: "shas = (c, t)" by (cases shas)
  let ?res = "\<lparr>cr_commit = c, cr_tree = t, cr_branch = cb_branch body\<rparr>"
  show "sv_holds (\<lambda>sg. only_limits st (fst sg) \<and> writes_only ob g (snd sg) \<and> built ob g (as_i64 (dw_now d)) input (snd sg) shas)
     (case shas of (commit_sha, tree_sha) \<Rightarrow>
     sv_bind (on_git (cas_branch rw (RepoId i) (cb_branch body) (cb_parent body) commit_sha)) (\<lambda>_.
     sv_bind (on_rest (publish env d (CommitEvent i commit_sha (cb_branch body) (hd (split_char newline (cb_message body))) (dw_ms d)))) (\<lambda>_.
     sv_return \<lparr>cr_commit = commit_sha, cr_tree = tree_sha, cr_branch = cb_branch body\<rparr>)))
     (\<lambda>res sg. committed env d ob b64 h i body st g res (snd sg)) (\<lambda>sg. ob_refs ob (snd sg) = ob_refs ob g)"
    unfolding shas prod.case
  proof (rule sv_holds_bind [OF sv_holds_git])
    fix g1 r g' assume R: "writes_only ob g g1 \<and> built ob g (as_i64 (dw_now d)) input g1 (c, t)"
      and run: "cas_branch rw (RepoId i) (cb_branch body) (cb_parent body) c g1 = (r, g')"
    show "case r of Inl e \<Rightarrow> ob_refs ob g' = ob_refs ob g | Inr _ \<Rightarrow> committed env d ob b64 h i body st g ?res g'"
    proof (cases r)
      case (Inl e)
      then show ?thesis using cas_branch_cases [OF cas run] R by (simp add: writes_only_def)
    next
      case (Inr u)
      with cas_branch_cases [OF cas run] have out: "grows ob g1 g'" "ob_refs ob g1 (RepoId i, RefName (''refs/heads/'' @ cb_branch body)) = cb_parent body"
        "ob_refs ob g' = (ob_refs ob g1)((RepoId i, RefName (''refs/heads/'' @ cb_branch body)) \<mapsto> Oid c)" by simp_all
      have "built ob g (as_i64 (dw_now d)) input g' (c, t)" by (rule built_grows [OF conjunct2 [OF R] out(1)])
      moreover have "ob_refs ob g1 = ob_refs ob g" using R by (simp add: writes_only_def)
      ultimately show ?thesis using facts out(2,3) by (simp only: Inr sum.case committed_def commit_result.simps input_def) blast
    qed
  next
    fix u
    show "sv_holds (\<lambda>sg. only_limits st (fst sg) \<and> committed env d ob b64 h i body st g ?res (snd sg))
     (sv_bind (on_rest (publish env d (CommitEvent i c (cb_branch body) (hd (split_char newline (cb_message body))) (dw_ms d)))) (\<lambda>_. sv_return ?res))
     (\<lambda>res sg. committed env d ob b64 h i body st g res (snd sg)) (\<lambda>sg. ob_refs ob (snd sg) = ob_refs ob g)"
      by (rule sv_weaken [OF sv_publish [where P = "\<lambda>sg. committed env d ob b64 h i body st g ?res (snd sg)" and R = "committed env d ob b64 h i body st g ?res"]]) auto
  qed
qed

lemma limits_commit:
  "keeps (only_limits st) (rest_get (\<lambda>st. check_repo_byte_quota file_len (io_tree (rs_io st)) i (cf_max_repo_bytes (rs_cfg st)))) (\<lambda>_. True)"
  "keeps (only_limits st) (rest_get (\<lambda>st. prepare_changes b64 (cf_max_commit_blob (rs_cfg st)) changes))
     (\<lambda>prepared. prepare_changes b64 (cf_max_commit_blob (rs_cfg st)) changes = Inr prepared)"
  by (rule limits_get; simp)+

lemma commit_triple:
  assumes gx: "gix_ok gx (git_dir_of rw i) ob" and cas: "cas_ok rw ob"
  shows "sv_holds (\<lambda>sg. only_limits st (fst sg) \<and> snd sg = g) (create_commit env d rw gx b64 h i body)
     (\<lambda>res sg. committed env d ob b64 h i body st g res (snd sg)) (\<lambda>sg. ob_refs ob (snd sg) = ob_refs ob g)"
  unfolding create_commit_def
proof (intro sv_rest_bind [OF limits_checks(1)] sv_rest_bind [OF limits_throttle] sv_rest_bind [OF limits_checks(2)]
    sv_rest_bind [OF limits_checks(3)] sv_rest_bind [OF limits_commit(1)] sv_rest_bind [OF limits_commit(2)] sv_lift_bindI sv_git_check)
qed (use commit_tail [OF gx cas] in auto)



section \<open>A small object database\<close>

datatype toy_object = ToyBlob "u8 list" | ToyTree files | ToyCommit commit_object

record toy_world =
  tw_objs :: "toy_object list"
  tw_refs :: "ref_key \<rightharpoonup> oid"

definition toy_oid :: "nat \<Rightarrow> oid" where
  "toy_oid n = Oid (replicate 40 (hex_digit n))"

definition toy_ids :: "oid list" where
  "toy_ids = map toy_oid [0..<16]"

definition toy_get :: "toy_world \<Rightarrow> oid \<rightharpoonup> toy_object" where
  "toy_get w = map_of (zip toy_ids (tw_objs w))"

definition toy_put :: "toy_object \<Rightarrow> toy_world \<Rightarrow> (string + oid) \<times> toy_world" where
  "toy_put ob w =
     (if length (tw_objs w) < 16 then (Inr (toy_oid (length (tw_objs w))), w\<lparr>tw_objs := tw_objs w @ [ob]\<rparr>) else (Inl ''full'', w))"

definition toy_tree :: "toy_world \<Rightarrow> oid \<rightharpoonup> files" where
  "toy_tree w x = (if x = EMPTY_TREE then Some Map.empty else (case toy_get w x of Some (ToyTree f) \<Rightarrow> Some f | _ \<Rightarrow> None))"

definition toy_objects :: "(toy_world, files) objects" where
  "toy_objects = \<lparr>ob_blob = (\<lambda>w x. case toy_get w x of Some (ToyBlob bs) \<Rightarrow> Some bs | _ \<Rightarrow> None), ob_tree = toy_tree,
     ob_commit = (\<lambda>w x. case toy_get w x of Some (ToyCommit co) \<Rightarrow> Some co | _ \<Rightarrow> None), ob_edit = (\<lambda>f. f), ob_refs = tw_refs\<rparr>"

definition toy_gix :: "(toy_world, files) gix_repo" where
  "toy_gix = \<lparr>gx_open = (\<lambda>_ _. Inr ()),
     gx_find_commit = (\<lambda>_ x w. case toy_get w x of Some (ToyCommit co) \<Rightarrow> Inr (as_bytes (oid_str (co_tree co))) | _ \<Rightarrow> Inl ''not found''),
     gx_tree_id = (\<lambda>data. Inr (Oid (str_of_bytes data))),
     gx_edit_tree = (\<lambda>_ t w. case toy_tree w t of Some f \<Rightarrow> Inr f | None \<Rightarrow> Inl ''not found''),
     gx_write_blob = (\<lambda>_ bs. toy_put (ToyBlob bs)),
     gx_upsert = (\<lambda>p k b f. Inr ((\<lambda>q. if clash p q then None else f q)(p \<mapsto> (k, b)))),
     gx_remove = (\<lambda>p f. Inr ((\<lambda>q. if clash p q then None else f q)(p := None))),
     gx_write_tree = (\<lambda>_ f. toy_put (ToyTree f)), gx_write_commit = (\<lambda>_ co. toy_put (ToyCommit co))\<rparr>"

definition toy_repo_env :: "toy_world repo_env" where
  "toy_repo_env = \<lparr>rw_git = (\<lambda>_ _ w. (Inr (0, [], []), w)), rw_exists = (\<lambda>_ x w. Inr (toy_get w x \<noteq> None)), rw_read = (\<lambda>_ _ _. Inr None),
     rw_update = (\<lambda>r n expected new w.
       if tw_refs w (r, n) = expected then Inr (Updated, w\<lparr>tw_refs := (tw_refs w)((r, n) \<mapsto> new)\<rparr>) else Inr (Conflict (tw_refs w (r, n)), w)),
     rw_dir = ''repos''\<rparr>"

lemma toy_oid_inj: "m < 16 \<Longrightarrow> n < 16 \<Longrightarrow> toy_oid m = toy_oid n \<Longrightarrow> m = n"
  by (metis toy_oid_def oid.inject hex_val_hex_digit option.inject hd_replicate zero_neq_numeral)

lemma zip_snoc: "length xs < length ks \<Longrightarrow> zip ks (xs @ [x]) = zip ks xs @ [(ks ! length xs, x)]"
proof (induction xs arbitrary: ks)
  case Nil
  then show ?case by (cases ks) auto
next
  case (Cons y xs)
  then show ?case by (cases ks) auto
qed

lemma toy_ids: "length toy_ids = 16" "k < 16 \<Longrightarrow> toy_ids ! k = toy_oid k"
  by (simp_all add: toy_ids_def del: upt_rec_numeral)

lemma toy_get_put:
  assumes "length (tw_objs w) < 16"
  shows "toy_get (w\<lparr>tw_objs := tw_objs w @ [ob]\<rparr>) = (toy_get w)(toy_oid (length (tw_objs w)) \<mapsto> ob)"
    "toy_get w (toy_oid (length (tw_objs w))) = None"
proof -
  let ?n = "length (tw_objs w)"
  show fresh: "toy_get w (toy_oid ?n) = None"
  proof (rule ccontr)
    assume "toy_get w (toy_oid ?n) \<noteq> None"
    then obtain y where "(toy_oid ?n, y) \<in> set (zip toy_ids (tw_objs w))"
      unfolding toy_get_def by (auto dest: map_of_SomeD)
    then obtain k where k: "k < 16" "k < ?n" "toy_oid ?n = toy_ids ! k"
      using toy_ids(1) by (auto simp: in_set_zip)
    with toy_ids(2) [OF k(1)] toy_oid_inj [of "length (tw_objs w)" k] assms show False by simp
  qed
  have "zip toy_ids (tw_objs w @ [ob]) = zip toy_ids (tw_objs w) @ [(toy_oid ?n, ob)]"
    using assms zip_snoc [of "tw_objs w" toy_ids ob] toy_ids by simp
  with fresh show "toy_get (w\<lparr>tw_objs := tw_objs w @ [ob]\<rparr>) = (toy_get w)(toy_oid ?n \<mapsto> ob)"
    by (auto simp: toy_get_def fun_eq_iff map_add_def split: option.splits)
qed

lemma toy_put_writes:
  assumes "toy_put ob w = (r, w')"
  shows "writes_only toy_objects w w' \<and> (\<forall>x. r = Inr x \<longrightarrow> toy_get w' x = Some ob \<and> x \<noteq> EMPTY_TREE)"
proof (cases "length (tw_objs w) < 16")
  case True
  note put = toy_get_put(1) [OF True, of ob] toy_get_put(2) [OF True]
  have w': "w' = w\<lparr>tw_objs := tw_objs w @ [ob]\<rparr>" "r = Inr (toy_oid (length (tw_objs w)))" using assms True by (auto simp: toy_put_def)
  have "toy_oid n \<noteq> EMPTY_TREE" for n by (simp add: toy_oid_def EMPTY_TREE_def numeral_eq_Suc)
  moreover have "writes_only toy_objects w w'"
    using put by (auto simp: writes_only_def grows_def toy_objects_def toy_tree_def map_le_def dom_def w' split: option.splits toy_object.splits if_splits)
  ultimately show ?thesis using put by (simp add: w')
next
  case False
  then show ?thesis using assms by (auto simp: toy_put_def writes_only_refl)
qed

lemma toy_gix_ok: "gix_ok toy_gix dir toy_objects"
proof -
  note put = toy_put_writes
  have w: "toy_put ob g = (r, g') \<Longrightarrow> writes_only toy_objects g g'" for ob g r g' using put by blast
  have v: "toy_put ob g = (Inr x, g') \<Longrightarrow> toy_get g' x = Some ob \<and> x \<noteq> EMPTY_TREE" for ob g x g' using put by blast
  have o: "ob_blob toy_objects g x = (case toy_get g x of Some (ToyBlob bs) \<Rightarrow> Some bs | _ \<Rightarrow> None)"
    "ob_commit toy_objects g x = (case toy_get g x of Some (ToyCommit co) \<Rightarrow> Some co | _ \<Rightarrow> None)"
    "ob_tree toy_objects = toy_tree" "ob_edit toy_objects f = f" for g x f by (simp_all add: toy_objects_def)
  show ?thesis
    unfolding gix_ok_def
  proof (intro conjI allI impI)
  qed (auto simp: toy_gix_def o toy_tree_def w dest!: v split: option.splits toy_object.splits if_splits)
qed

lemma toy_cas_ok: "cas_ok toy_repo_env toy_objects"
  by (auto simp: cas_ok_def toy_repo_env_def toy_objects_def grows_def toy_tree_def toy_get_def fun_eq_iff map_le_def split: if_splits cas_outcome.splits)


definition toy_commit :: commit_body where
  "toy_commit = \<lparr>cb_branch = ''main'', cb_parent = None, cb_message = ''first'', cb_author = None,
     cb_changes = [ChangeWrite ''a'' None None ''100644'']\<rparr>"

definition toy_input :: commit_input where
  "toy_input = \<lparr>ci_parent = None, ci_changes = [PreparedWrite ''a'' [] EntryBlob], ci_message = ''first'', ci_author = author_or_default None\<rparr>"

lemma toy_build: "\<exists>w. build_and_write_commit toy_gix dir 5 toy_input \<lparr>tw_objs = [], tw_refs = Map.empty\<rparr>
    = (Inr (oid_str (toy_oid 2), oid_str (toy_oid 1)), w) \<and> tw_refs w = Map.empty"
  by (simp add: build_and_write_commit_def toy_gix_def toy_input_def base_tree_def gix_err_def toy_tree_def toy_put_def write_commit_object_def numeral_2_eq_2)

lemma toy_cas: "\<exists>w'. cas_branch toy_repo_env (RepoId ''demo'') ''main'' None (oid_str (toy_oid 2)) w = (Inr (), w')" if "tw_refs w = Map.empty"
proof -
  have "ref_name_try_from (''refs/heads/'' @ ''main'') = Inr (RefName ''refs/heads/main'')" by code_simp
  moreover have "oid_try_from (oid_str (toy_oid 2)) = Inr (Oid (oid_str (toy_oid 2)))" by code_simp
  ultimately show ?thesis using that by (simp add: cas_branch_def toy_repo_env_def del: append_Cons)
qed

lemma create_commit_run:
  assumes "caller env h st = Inr p" "limiter_check (re_budgets env) (dw_tick d) p CCommit (rs_limits st) = (Inr (), limits)"
    and "repo_id_try_from i = Inr r" "repo_exists r (io_tree (rs_io st))" "enforce_owner p i (rs_owners st) = Inr ()"
    and "check_repo_byte_quota file_len (io_tree (rs_io st)) i (cf_max_repo_bytes (rs_cfg st)) = Inr ()"
    and "valid_branch_name (cb_branch body)" "check_changes (cb_changes body) = Inr ()" "parent_there rw r (cb_parent body) g = Inr ()"
    and "prepare_changes b64 (cf_max_commit_blob (rs_cfg st)) (cb_changes body) = Inr changes"
    and "build_and_write_commit gx (git_dir_of rw i) (as_i64 (dw_now d))
       \<lparr>ci_parent = cb_parent body, ci_changes = changes, ci_message = cb_message body, ci_author = author_or_default (cb_author body)\<rparr> g
       = (Inr (c, t), g1)"
    and "cas_branch rw r (cb_branch body) (cb_parent body) c g1 = (Inr (), g2)"
  shows "\<exists>st'. create_commit env d rw gx b64 h i body (st, g) = (Inr \<lparr>cr_commit = c, cr_tree = t, cr_branch = cb_branch body\<rparr>, st', g2)"
proof -
  obtain st' where "publish env d (CommitEvent i c (cb_branch body) (hd (split_char newline (cb_message body))) (dw_ms d)) (st\<lparr>rs_limits := limits\<rparr>) = (Inr (), st')"
    using publish_effect by blast
  with assms show ?thesis
    by (simp add: create_commit_def sv_bind_def on_rest_def on_git_def sv_lift_def authenticate_caller throttle_def known_repo_def rest_get_def
        owner_only_def sv_return_def)
qed

lemma toy_commit_runs:
  "\<exists>res st' w'. create_commit toy_env (toy_draw ''tok2'') toy_repo_env toy_gix (\<lambda>_. Inl ''no'') (bearer ''alice'') ''demo'' toy_commit
      (alice_state, \<lparr>tw_objs = [], tw_refs = Map.empty\<rparr>) = (Inr res, st', w')"
proof -
  let ?d = "toy_draw ''tok2''"
  obtain k where l: "limiter_check (re_budgets toy_env) (dw_tick ?d) (User ''alice'') CCommit (rs_limits alice_state)
      = (Inr (), (rs_limits alice_state)((''alice'', CCommit) \<mapsto> k))"
    using toy_limit [of "rs_limits alice_state" "''alice''" CCommit] by (auto simp: toy_env_def toy_draw_def alice_state_def toy_state_def)
  have now: "as_i64 (dw_now ?d) = 5" by (simp add: toy_draw_def)
  have input: "\<lparr>ci_parent = cb_parent toy_commit, ci_changes = [PreparedWrite ''a'' [] EntryBlob], ci_message = cb_message toy_commit,
      ci_author = author_or_default (cb_author toy_commit)\<rparr> = toy_input" by (simp add: toy_commit_def toy_input_def)
  obtain w where w: "build_and_write_commit toy_gix (git_dir_of toy_repo_env ''demo'') (as_i64 (dw_now ?d))
     \<lparr>ci_parent = cb_parent toy_commit, ci_changes = [PreparedWrite ''a'' [] EntryBlob], ci_message = cb_message toy_commit,
      ci_author = author_or_default (cb_author toy_commit)\<rparr> \<lparr>tw_objs = [], tw_refs = Map.empty\<rparr>
    = (Inr (oid_str (toy_oid 2), oid_str (toy_oid 1)), w)" "tw_refs w = Map.empty" using toy_build unfolding now input by blast
  obtain w' where w': "cas_branch toy_repo_env (RepoId ''demo'') (cb_branch toy_commit) (cb_parent toy_commit) (oid_str (toy_oid 2)) w = (Inr (), w')"
    using toy_cas [OF w(2)] by (auto simp: toy_commit_def)
  have b: "valid_branch_name (cb_branch toy_commit)" "check_changes (cb_changes toy_commit) = Inr ()" by code_simp+
  have cfg: "cf_max_repo_bytes (rs_cfg alice_state) = 0" "cf_max_commit_blob (rs_cfg alice_state) = 0"
    by (simp_all add: alice_state_def toy_state_def config_new_def)
  have q: "check_repo_byte_quota file_len (io_tree (rs_io alice_state)) ''demo'' (cf_max_repo_bytes (rs_cfg alice_state)) = Inr ()"
    by (simp add: check_repo_byte_quota_def cfg)
  have pt: "parent_there toy_repo_env (RepoId ''demo'') (cb_parent toy_commit) w0 = Inr ()" for w0
    by (simp add: parent_there_def toy_commit_def)
  have ch: "prepare_changes (\<lambda>_. Inl ''no'') (cf_max_commit_blob (rs_cfg alice_state)) (cb_changes toy_commit) = Inr [PreparedWrite ''a'' [] EntryBlob]"
    by (simp add: toy_commit_def change_bytes_def)
  show ?thesis
    using create_commit_run [OF toy_guards(1) l toy_demo(1) toy_guards(3,2) q b pt ch w(1) w'] by blast
qed


end
