(* ===== verification/MergeProps.thy ===== *)
theory MergeProps
  imports Merge CommitProps
begin

text \<open>
  What a merge through \<open>src/merge.rs\<close> does to the refs, for a git that keeps its promises and a ref store with
  compare-and-swap, and how the report of \<open>git merge-tree\<close> is read.
\<close>

section \<open>What git promises\<close>

text \<open>The history in a world: the refs, the tree of every commit, the relation \<open>a\<close> is an ancestor of \<open>b\<close>, and the parents.\<close>

record 'g history =
  hi_refs :: "'g \<Rightarrow> ref_key \<rightharpoonup> oid"
  hi_tree :: "'g \<Rightarrow> oid \<rightharpoonup> oid"
  hi_ancestor :: "'g \<Rightarrow> oid \<Rightarrow> oid \<Rightarrow> bool"
  hi_parents :: "'g \<Rightarrow> oid \<rightharpoonup> oid list"

definition keeps_history :: "'g history \<Rightarrow> 'g \<Rightarrow> 'g \<Rightarrow> bool" where
  "keeps_history hi g g' = (hi_refs hi g' = hi_refs hi g \<and> hi_tree hi g \<subseteq>\<^sub>m hi_tree hi g' \<and> hi_parents hi g \<subseteq>\<^sub>m hi_parents hi g')"

definition line_of :: "oid \<Rightarrow> u8 list" where
  "line_of x = as_bytes (oid_str x @ [newline])"

text \<open>The commands on the repo \<open>r\<close> at \<open>dir\<close>: a query changes nothing and its exit code is its answer.\<close>

definition show_ref_ok :: "'g repo_env \<Rightarrow> string \<Rightarrow> repo_id \<Rightarrow> 'g history \<Rightarrow> bool" where
  "show_ref_ok rw dir r hi = (\<forall>g n res g'. git_run rw dir [''show-ref'', ''--verify'', ''--hash'', n] g = (res, g') \<longrightarrow> g' = g \<and>
     (\<forall>rc out err. res = Inr (rc, out, err) \<longrightarrow>
        (rc = 0 \<longrightarrow> (\<exists>x. hi_refs hi g (r, RefName n) = Some x \<and> oid_ok (oid_str x) \<and> hi_tree hi g x \<noteq> None \<and> out = line_of x))
        \<and> (rc = 1 \<longrightarrow> hi_refs hi g (r, RefName n) = None)))"

definition merge_base_ok :: "'g repo_env \<Rightarrow> string \<Rightarrow> 'g history \<Rightarrow> bool" where
  "merge_base_ok rw dir hi = (\<forall>g a b res g'. git_run rw dir [''merge-base'', ''--is-ancestor'', oid_str a, oid_str b] g = (res, g') \<longrightarrow> g' = g \<and>
     (\<forall>rc out err. res = Inr (rc, out, err) \<longrightarrow> (rc = 0 \<longrightarrow> hi_ancestor hi g a b) \<and> (rc = 1 \<longrightarrow> \<not> hi_ancestor hi g a b)))"

definition rev_tree_ok :: "'g repo_env \<Rightarrow> string \<Rightarrow> 'g history \<Rightarrow> bool" where
  "rev_tree_ok rw dir hi = (\<forall>g x t. hi_tree hi g x = Some t \<longrightarrow> oid_ok (oid_str t) \<and>
     (\<exists>err. git_run rw dir [''rev-parse'', oid_str x @ ''^'' @ [CHR 0x7B] @ ''tree'' @ [CHR 0x7D]] g = (Inr (0, line_of t, err), g)))"

definition merge_tree_ok :: "'g repo_env \<Rightarrow> string \<Rightarrow> 'g history \<Rightarrow> bool" where
  "merge_tree_ok rw dir hi = (\<forall>g a b res g'. git_run rw dir [''merge-tree'', ''--write-tree'', ''-z'', oid_str a, oid_str b] g = (res, g')
     \<longrightarrow> keeps_history hi g g')"

definition commit_tree_ok :: "'g repo_env \<Rightarrow> string \<Rightarrow> 'g history \<Rightarrow> bool" where
  "commit_tree_ok rw dir hi = (\<forall>g tree a b msg env res g'.
     run_git (rw_git rw) dir [''commit-tree'', tree, ''-p'', oid_str a, ''-p'', oid_str b, ''-m'', msg] env None g = (res, g')
     \<longrightarrow> keeps_history hi g g' \<and>
       (\<forall>out err. res = Inr (0, out, err) \<longrightarrow> (\<exists>c. out = line_of c \<and> oid_ok (oid_str c) \<and> hi_parents hi g' c = Some [a, b]
          \<and> hi_tree hi g' c = Some (Oid tree))))"

definition merge_git_ok :: "'g repo_env \<Rightarrow> string \<Rightarrow> repo_id \<Rightarrow> 'g history \<Rightarrow> bool" where
  "merge_git_ok rw dir r hi =
     (show_ref_ok rw dir r hi \<and> merge_base_ok rw dir hi \<and> rev_tree_ok rw dir hi \<and> merge_tree_ok rw dir hi \<and> commit_tree_ok rw dir hi)"

text \<open>The compare-and-swap of the ref store, over the same history.\<close>

definition merge_cas_ok :: "'g repo_env \<Rightarrow> 'g history \<Rightarrow> bool" where
  "merge_cas_ok rw hi = (\<forall>r n expected new g outcome g'. rw_update rw r n expected new g = Inr (outcome, g') \<longrightarrow>
     hi_tree hi g' = hi_tree hi g \<and> hi_parents hi g' = hi_parents hi g \<and>
     (case outcome of
        Updated \<Rightarrow> hi_refs hi g (r, n) = expected \<and> hi_refs hi g' = (hi_refs hi g)((r, n) \<mapsto> new)
      | Conflict current \<Rightarrow> hi_refs hi g' = hi_refs hi g))"

lemma line_of_text: "oid_ok (oid_str x) \<Longrightarrow> utf8 (line_of x) = Inr (oid_str x @ [newline])" "oid_ok (oid_str x) \<Longrightarrow> trim (oid_str x @ [newline]) = oid_str x"
proof -
  assume ok: "oid_ok (oid_str x)"
  have hex: "is_hexdigit c \<Longrightarrow> 33 \<le> (of_char c :: nat) \<and> (of_char c :: nat) < 127" for c by (rule graphic_hex)
  have "ascii (oid_str x @ [newline])" using ok hex by (auto simp: ascii_def oid_ok_def list_all_iff) force
  then show "utf8 (line_of x) = Inr (oid_str x @ [newline])" by (simp only: utf8_def line_of_def from_utf8_ascii ok_or_simps)
  have "oid_str x \<noteq> []" using ok by (auto simp: oid_ok_def)
  then show "trim (oid_str x @ [newline]) = oid_str x"
    using ok hex by (intro trim_graphic(2)) (auto simp: oid_ok_def list_all_iff)
qed

lemma validate_oid: "oid_ok (oid_str x) \<Longrightarrow> validate_sha (oid_str x) = Inr ()" "oid_ok (oid_str x) \<Longrightarrow> oid_try_from (oid_str x) = Inr x"
  by (auto simp: validate_sha_def oid_ok_def oid_try_from_def list_all_iff)

lemma resolve_law:
  assumes ok: "show_ref_ok rw dir r hi" and run: "resolve_ref rw dir n g = (res, g')"
  shows "g' = g" "res = Inr None \<Longrightarrow> hi_refs hi g (r, RefName n) = None"
    "res = Inr (Some s) \<Longrightarrow> \<exists>x. s = oid_str x \<and> oid_ok (oid_str x) \<and> hi_refs hi g (r, RefName n) = Some x \<and> hi_tree hi g x \<noteq> None"
proof -
  obtain out g1 where git: "git_run rw dir [''show-ref'', ''--verify'', ''--hash'', n] g = (out, g1)"
    by (cases "git_run rw dir [''show-ref'', ''--verify'', ''--hash'', n] g")
  have law: "g1 = g \<and> (\<forall>rc o' err. out = Inr (rc, o', err) \<longrightarrow>
            (rc = 0 \<longrightarrow> (\<exists>x. hi_refs hi g (r, RefName n) = Some x \<and> oid_ok (oid_str x) \<and> hi_tree hi g x \<noteq> None \<and> o' = line_of x))
            \<and> (rc = 1 \<longrightarrow> hi_refs hi g (r, RefName n) = None))"
    using ok git unfolding show_ref_ok_def by blast
  show "g' = g" using run law git by (cases out) (auto simp: resolve_ref_def split: prod.splits)
  show "res = Inr None \<Longrightarrow> hi_refs hi g (r, RefName n) = None"
  proof (cases out)
    case (Inr triple)
    obtain rc o' err where t: "triple = (rc, o', err)" by (cases triple)
    assume "res = Inr None"
    then have "rc = 1" using run git Inr t by (cases "utf8 o'") (auto simp: resolve_ref_def split: if_splits)
    with law Inr t show ?thesis by blast
  qed (use run git in \<open>auto simp: resolve_ref_def\<close>)
  show "\<exists>x. s = oid_str x \<and> oid_ok (oid_str x) \<and> hi_refs hi g (r, RefName n) = Some x \<and> hi_tree hi g x \<noteq> None" if R: "res = Inr (Some s)"
  proof (cases out)
    case (Inr triple)
    obtain rc o' err where t: "triple = (rc, o', err)" by (cases triple)
    have rc: "rc = 0" "map_sum id (\<lambda>s. Some (trim s)) (utf8 o') = Inr (Some s)" using run git Inr t R by (auto simp: resolve_ref_def split: if_splits)
    with law Inr t obtain x where x: "hi_refs hi g (r, RefName n) = Some x" "oid_ok (oid_str x)" "hi_tree hi g x \<noteq> None" "o' = line_of x" by blast
    with rc(2) line_of_text [OF x(2)] have "s = oid_str x" by simp
    with x show ?thesis by blast
  qed (use run git R in \<open>auto simp: resolve_ref_def\<close>)
qed

lemma ancestor_law:
  assumes ok: "merge_base_ok rw dir hi" and run: "is_ancestor rw dir (oid_str a) (oid_str b) g = (res, g')"
  shows "g' = g" "res = Inr v \<Longrightarrow> hi_ancestor hi g a b = v"
proof -
  obtain out g1 where git: "git_run rw dir [''merge-base'', ''--is-ancestor'', oid_str a, oid_str b] g = (out, g1)"
    by (cases "git_run rw dir [''merge-base'', ''--is-ancestor'', oid_str a, oid_str b] g")
  have law: "g1 = g \<and> (\<forall>rc o' err. out = Inr (rc, o', err) \<longrightarrow> (rc = 0 \<longrightarrow> hi_ancestor hi g a b) \<and> (rc = 1 \<longrightarrow> \<not> hi_ancestor hi g a b))"
    using ok git unfolding merge_base_ok_def by blast
  show "g' = g" "res = Inr v \<Longrightarrow> hi_ancestor hi g a b = v"
    using run law git by (cases out; auto simp: is_ancestor_def split: prod.splits if_splits)+
qed

lemma tree_law:
  assumes ok: "rev_tree_ok rw dir hi" and "hi_tree hi g x = Some t"
  shows "tree_of rw dir (oid_str x) g = (Inr (oid_str t), g)"
proof -
  obtain err where "oid_ok (oid_str t)"
    "git_run rw dir [''rev-parse'', oid_str x @ ''^'' @ [CHR 0x7B] @ ''tree'' @ [CHR 0x7D]] g = (Inr (0, line_of t, err), g)"
    using assms unfolding rev_tree_ok_def by blast
  with line_of_text [of t] show ?thesis by (simp only: tree_of_def prod.case sum.case) simp
qed

lemma merge_tree_law:
  assumes ok: "merge_tree_ok rw dir hi" and run: "run_merge_tree rw dir (oid_str a) (oid_str b) g = (res, g')"
  shows "keeps_history hi g g'"
proof -
  obtain out g1 where git: "git_run rw dir [''merge-tree'', ''--write-tree'', ''-z'', oid_str a, oid_str b] g = (out, g1)"
    by (cases "git_run rw dir [''merge-tree'', ''--write-tree'', ''-z'', oid_str a, oid_str b] g")
  have law: "keeps_history hi g g1" using ok git unfolding merge_tree_ok_def by blast
  then show ?thesis using run git by (cases out) (auto simp: run_merge_tree_def)
qed

lemma commit_tree_law:
  assumes ok: "commit_tree_ok rw dir hi" and run: "commit_tree rw dir tree (oid_str a) (oid_str b) msg author g = (res, g')"
  shows "keeps_history hi g g'" "res = Inr s \<Longrightarrow> \<exists>c. s = oid_str c \<and> oid_ok (oid_str c) \<and> hi_parents hi g' c = Some [a, b] \<and> hi_tree hi g' c = Some (Oid tree)"
proof -
  let ?env = "[(''GIT_AUTHOR_NAME'', au_name author), (''GIT_AUTHOR_EMAIL'', au_email author),
              (''GIT_COMMITTER_NAME'', au_name author), (''GIT_COMMITTER_EMAIL'', au_email author)]"
  obtain out g1 where git: "run_git (rw_git rw) dir [''commit-tree'', tree, ''-p'', oid_str a, ''-p'', oid_str b, ''-m'', msg] ?env None g = (out, g1)"
    by (cases "run_git (rw_git rw) dir [''commit-tree'', tree, ''-p'', oid_str a, ''-p'', oid_str b, ''-m'', msg] ?env None g")
  have law: "keeps_history hi g g1 \<and> (\<forall>o' err. out = Inr (0, o', err) \<longrightarrow> (\<exists>c. o' = line_of c \<and> oid_ok (oid_str c) \<and> hi_parents hi g1 c = Some [a, b]
                \<and> hi_tree hi g1 c = Some (Oid tree)))"
    using ok git unfolding commit_tree_ok_def by blast
  have g1: "g' = g1" using run git by (cases out) (auto simp: commit_tree_def)
  with law show "keeps_history hi g g'" by blast
  show "\<exists>c. s = oid_str c \<and> oid_ok (oid_str c) \<and> hi_parents hi g' c = Some [a, b] \<and> hi_tree hi g' c = Some (Oid tree)" if R: "res = Inr s"
  proof (cases out)
    case (Inr triple)
    obtain rc o' err where t: "triple = (rc, o', err)" by (cases triple)
    have rc: "rc = 0" "map_sum id trim (utf8 o') = Inr s" using run git Inr t R by (auto simp: commit_tree_def split: if_splits)
    with law Inr t obtain c where c: "o' = line_of c" "oid_ok (oid_str c)" "hi_parents hi g1 c = Some [a, b]" "hi_tree hi g1 c = Some (Oid tree)" by blast
    with rc(2) line_of_text [OF c(2)] have "s = oid_str c" by simp
    with c g1 show ?thesis by blast
  qed (use run git R in \<open>auto simp: commit_tree_def\<close>)
qed

section \<open>What a merge does\<close>

text \<open>With \<open>x\<close> at the source and \<open>t\<close> at the target: nothing if \<open>x\<close> is in the target already, else the target moved to \<open>x\<close>,
  or to a merge commit on the two.\<close>

definition merged :: "'g history \<Rightarrow> repo_id \<Rightarrow> merge_body \<Rightarrow> 'g \<Rightarrow> oid \<Rightarrow> oid option \<Rightarrow> merge_result \<Rightarrow> 'g \<Rightarrow> bool" where
  "merged hi r body g x t res g' =
     (mr_source res = oid_str x \<and> mr_target res = mb_target body \<and>
      ((\<exists>y. t = Some y \<and> hi_ancestor hi g x y \<and> \<not> mr_fast_forward res \<and> mr_commit res = oid_str y
          \<and> hi_tree hi g y = Some (Oid (mr_tree res)) \<and> hi_refs hi g' = hi_refs hi g)
       \<or> (mb_strategy body \<noteq> ForceMerge \<and> pred_option (\<lambda>y. hi_ancestor hi g y x \<and> \<not> hi_ancestor hi g x y) t
          \<and> mr_fast_forward res \<and> mr_commit res = oid_str x \<and> hi_tree hi g x = Some (Oid (mr_tree res))
          \<and> hi_refs hi g' = (hi_refs hi g)((r, RefName (''refs/heads/'' @ mb_target body)) \<mapsto> x))
       \<or> (\<exists>y c. t = Some y \<and> mb_strategy body \<noteq> FfOnly \<and> \<not> hi_ancestor hi g x y \<and> (mb_strategy body = ForceMerge \<or> \<not> hi_ancestor hi g y x)
          \<and> \<not> mr_fast_forward res \<and> mr_commit res = oid_str c \<and> hi_parents hi g' c = Some [y, x] \<and> hi_tree hi g' c = Some (Oid (mr_tree res))
          \<and> hi_refs hi g' = (hi_refs hi g)((r, RefName (''refs/heads/'' @ mb_target body)) \<mapsto> c))))"

lemma sv_query:
  assumes "\<And>r g'. a g = (r, g') \<Longrightarrow> g' = g" "\<And>sg. I (fst sg) \<Longrightarrow> snd sg = g \<Longrightarrow> E sg"
    and "\<And>x. a g = (Inr x, g) \<Longrightarrow> sv_holds (\<lambda>sg. I (fst sg) \<and> snd sg = g) (f x) Q E"
  shows "sv_holds (\<lambda>sg. I (fst sg) \<and> snd sg = g) (sv_bind (on_git a) f) Q E"
proof (rule sv_holds_bind)
  obtain r g' where run: "a g = (r, g')" by (cases "a g")
  show "sv_holds (\<lambda>sg. I (fst sg) \<and> snd sg = g) (on_git a) (\<lambda>x sg. (I (fst sg) \<and> snd sg = g) \<and> a g = (Inr x, g)) E"
    using assms(1) [OF run] assms(2) run by (auto simp: sv_holds_def on_git_def split: sum.splits)
  show "sv_holds (\<lambda>sg. (I (fst sg) \<and> snd sg = g) \<and> a g = (Inr x, g)) (f x) Q E" for x by (rule sv_fact [OF assms(3)])
qed

lemma cas_branch_runs:
  assumes "cas_branch rw r branch expected new g = (res, g')"
  obtains (refused) e where "res = Inl e" "g' = g"
    | (lost) e current where "res = Inl e" "rw_update rw r (RefName (''refs/heads/'' @ branch)) expected (Oid new) g = Inr (Conflict current, g')"
    | (moved) "res = Inr ()" "rw_update rw r (RefName (''refs/heads/'' @ branch)) expected (Oid new) g = Inr (Updated, g')"
  using assms
  by (cases "ref_name_try_from (''refs/heads/'' @ branch)"; cases "oid_try_from new")
    (auto simp: cas_branch_def ref_name_try_from_iff oid_try_from_def simp del: append_Cons split: if_splits sum.splits prod.splits cas_outcome.splits)

lemma cas_branch_law:
  assumes ok: "merge_cas_ok rw hi" and run: "cas_branch rw r branch expected new g = (res, g')"
  shows "case res of
      Inl e \<Rightarrow> hi_refs hi g' = hi_refs hi g
    | Inr _ \<Rightarrow> hi_refs hi g (r, RefName (''refs/heads/'' @ branch)) = expected
        \<and> hi_refs hi g' = (hi_refs hi g)((r, RefName (''refs/heads/'' @ branch)) \<mapsto> Oid new)
        \<and> hi_tree hi g' = hi_tree hi g \<and> hi_parents hi g' = hi_parents hi g"
  using run
proof (cases rule: cas_branch_runs)
  case (lost e current)
  then show ?thesis using ok [unfolded merge_cas_ok_def, rule_format, OF lost(2)] by simp
next
  case moved
  then show ?thesis using ok [unfolded merge_cas_ok_def, rule_format, OF moved(2)] by simp
qed simp

lemma fast_forward_triple:
  assumes cas: "merge_cas_ok rw hi" and tree: "rev_tree_ok rw (git_dir_of rw i) hi"
    and x: "oid_ok (oid_str x)" "hi_tree hi g x \<noteq> None" and t: "pred_option (\<lambda>y. oid_ok (oid_str y) \<and> hi_ancestor hi g y x \<and> \<not> hi_ancestor hi g x y) t"
    and strat: "mb_strategy body \<noteq> ForceMerge"
  shows "sv_holds (\<lambda>sg. only_limits st (fst sg) \<and> snd sg = g) (fast_forward env d rw r i body (oid_str x) (map_option oid_str t))
    (\<lambda>res sg. merged hi r body g x t res (snd sg)) (\<lambda>sg. hi_refs hi (snd sg) = hi_refs hi g)"
  unfolding fast_forward_def
proof (rule sv_lift_bindI)
  fix expected
  assume "res_bind (ref_name_try_from (''refs/heads/'' @ mb_target body)) (\<lambda>_. res_bind (oid_try_from (oid_str x)) (\<lambda>_. typed_target (map_option oid_str t))) = Inr expected"
  then have expected: "expected = t"
    using t by (cases t) (auto simp: res_bind_Inr_iff typed_target_def validate_oid)
  obtain t0 where t0: "hi_tree hi g x = Some t0" using x(2) by blast
  let ?moved = "(hi_refs hi g)((r, RefName (''refs/heads/'' @ mb_target body)) \<mapsto> x)"
  let ?res = "\<lparr>mr_commit = oid_str x, mr_tree = oid_str t0, mr_fast_forward = True, mr_source = oid_str x, mr_target = mb_target body\<rparr>"
  show "sv_holds (\<lambda>sg. only_limits st (fst sg) \<and> snd sg = g)
    (sv_bind (on_git (cas_branch rw r (mb_target body) expected (oid_str x))) (\<lambda>_.
     sv_bind (on_git (tree_of rw (git_dir_of rw i) (oid_str x))) (\<lambda>tree.
     sv_bind (on_rest (publish env d (commit_event d i (oid_str x) (mb_target body) (''merge '' @ mb_source body @ '' (fast-forward)'')))) (\<lambda>_.
     sv_return \<lparr>mr_commit = oid_str x, mr_tree = tree, mr_fast_forward = True, mr_source = oid_str x, mr_target = mb_target body\<rparr>))))
    (\<lambda>res sg. merged hi r body g x t res (snd sg)) (\<lambda>sg. hi_refs hi (snd sg) = hi_refs hi g)"
  proof (rule sv_holds_bind [OF sv_holds_git])
    fix g0 res g' assume g0: "g0 = g" and run: "cas_branch rw r (mb_target body) expected (oid_str x) g0 = (res, g')"
    show "case res of Inl e \<Rightarrow> hi_refs hi g' = hi_refs hi g | Inr _ \<Rightarrow> hi_refs hi g' = ?moved \<and> hi_tree hi g' = hi_tree hi g"
      using cas_branch_law [OF cas run] by (cases res) (simp_all add: g0)
  next
    fix u
    show "sv_holds (\<lambda>sg. only_limits st (fst sg) \<and> hi_refs hi (snd sg) = ?moved \<and> hi_tree hi (snd sg) = hi_tree hi g)
     (sv_bind (on_git (tree_of rw (git_dir_of rw i) (oid_str x))) (\<lambda>tree.
     sv_bind (on_rest (publish env d (commit_event d i (oid_str x) (mb_target body) (''merge '' @ mb_source body @ '' (fast-forward)'')))) (\<lambda>_.
     sv_return \<lparr>mr_commit = oid_str x, mr_tree = tree, mr_fast_forward = True, mr_source = oid_str x, mr_target = mb_target body\<rparr>)))
    (\<lambda>res sg. merged hi r body g x t res (snd sg)) (\<lambda>sg. hi_refs hi (snd sg) = hi_refs hi g)"
    proof (rule sv_holds_bind [OF sv_holds_git])
      fix g1 res g' assume R: "hi_refs hi g1 = ?moved \<and> hi_tree hi g1 = hi_tree hi g" and run: "tree_of rw (git_dir_of rw i) (oid_str x) g1 = (res, g')"
      have "hi_tree hi g1 x = Some t0" using R t0 by simp
      from tree_law [OF tree this] run show "case res of Inl e \<Rightarrow> False | Inr tree \<Rightarrow> tree = oid_str t0 \<and> hi_refs hi g' = ?moved" using R by auto
    next
      fix tr
      show "sv_holds (\<lambda>sg. only_limits st (fst sg) \<and> tr = oid_str t0 \<and> hi_refs hi (snd sg) = ?moved)
       (sv_bind (on_rest (publish env d (commit_event d i (oid_str x) (mb_target body) (''merge '' @ mb_source body @ '' (fast-forward)'')))) (\<lambda>_.
       sv_return \<lparr>mr_commit = oid_str x, mr_tree = tr, mr_fast_forward = True, mr_source = oid_str x, mr_target = mb_target body\<rparr>))
      (\<lambda>res sg. merged hi r body g x t res (snd sg)) (\<lambda>sg. hi_refs hi (snd sg) = hi_refs hi g)"
        by (rule sv_weaken [OF sv_publish [where P = "\<lambda>sg. tr = oid_str t0 \<and> hi_refs hi (snd sg) = ?moved" and R = "\<lambda>g. tr = oid_str t0 \<and> hi_refs hi g = ?moved"]])
          (use strat t t0 in \<open>auto simp: merged_def option.pred_set\<close>)
    qed simp
  qed simp
qed auto

lemma three_way_triple:
  assumes cas: "merge_cas_ok rw hi" and git: "merge_git_ok rw (git_dir_of rw i) r' hi"
    and y: "oid_ok (oid_str y)" "\<not> hi_ancestor hi g x y" and strat: "mb_strategy body \<noteq> FfOnly" "mb_strategy body = ForceMerge \<or> \<not> hi_ancestor hi g y x"
  shows "sv_holds (\<lambda>sg. only_limits st (fst sg) \<and> snd sg = g) (three_way env d rw r i body (oid_str x) (oid_str y))
    (\<lambda>res sg. merged hi r body g x (Some y) res (snd sg)) (\<lambda>sg. hi_refs hi (snd sg) = hi_refs hi g)"
  unfolding three_way_def
proof (rule sv_holds_bind [OF sv_holds_git])
  fix g0 res g' assume g0: "g0 = g" and run: "run_merge_tree rw (git_dir_of rw i) (oid_str y) (oid_str x) g0 = (res, g')"
  have "merge_tree_ok rw (git_dir_of rw i) hi" using git by (simp add: merge_git_ok_def)
  from merge_tree_law [OF this run] show "case res of Inl e \<Rightarrow> hi_refs hi g' = hi_refs hi g | Inr _ \<Rightarrow> hi_refs hi g' = hi_refs hi g"
    by (cases res) (simp_all add: g0 keeps_history_def)
next
  fix outcome
  let ?msg = "case mb_message body of Some m \<Rightarrow> m | None \<Rightarrow> ''Merge '' @ mb_source body @ '' into '' @ mb_target body"
  let ?moved = "\<lambda>c. (hi_refs hi g)((r, RefName (''refs/heads/'' @ mb_target body)) \<mapsto> Oid c)"
  let ?ends = "\<lambda>tree c sg. hi_refs hi (snd sg) = ?moved c \<and> hi_parents hi (snd sg) (Oid c) = Some [y, x] \<and> hi_tree hi (snd sg) (Oid c) = Some (Oid tree)"
  show "sv_holds (\<lambda>sg. only_limits st (fst sg) \<and> hi_refs hi (snd sg) = hi_refs hi g)
    (sv_bind (sv_lift (case outcome of Clean tree \<Rightarrow> Inr tree | MergeConflicts paths \<Rightarrow> Inl (MergeConflict (mb_target body) (mb_source body) paths)))
      (\<lambda>merged_tree.
     sv_bind (on_git (commit_tree rw (git_dir_of rw i) merged_tree (oid_str y) (oid_str x) ?msg (author_or_default (mb_author body)))) (\<lambda>commit_sha.
     sv_bind (sv_lift (res_bind (ref_name_try_from (''refs/heads/'' @ mb_target body)) (\<lambda>_. oid_try_from (oid_str y)))) (\<lambda>expected.
     sv_bind (on_git (cas_branch rw r (mb_target body) (Some expected) commit_sha)) (\<lambda>_.
     sv_bind (on_rest (publish env d (commit_event d i commit_sha (mb_target body) (''merge '' @ mb_source body @ '' into '' @ mb_target body)))) (\<lambda>_.
     sv_return \<lparr>mr_commit = commit_sha, mr_tree = merged_tree, mr_fast_forward = False, mr_source = oid_str x, mr_target = mb_target body\<rparr>))))))
    (\<lambda>res sg. merged hi r body g x (Some y) res (snd sg)) (\<lambda>sg. hi_refs hi (snd sg) = hi_refs hi g)"
  proof (rule sv_lift_bindI)
    fix tree
    show "sv_holds (\<lambda>sg. only_limits st (fst sg) \<and> hi_refs hi (snd sg) = hi_refs hi g)
     (sv_bind (on_git (commit_tree rw (git_dir_of rw i) tree (oid_str y) (oid_str x) ?msg (author_or_default (mb_author body)))) (\<lambda>commit_sha.
     sv_bind (sv_lift (res_bind (ref_name_try_from (''refs/heads/'' @ mb_target body)) (\<lambda>_. oid_try_from (oid_str y)))) (\<lambda>expected.
     sv_bind (on_git (cas_branch rw r (mb_target body) (Some expected) commit_sha)) (\<lambda>_.
     sv_bind (on_rest (publish env d (commit_event d i commit_sha (mb_target body) (''merge '' @ mb_source body @ '' into '' @ mb_target body)))) (\<lambda>_.
     sv_return \<lparr>mr_commit = commit_sha, mr_tree = tree, mr_fast_forward = False, mr_source = oid_str x, mr_target = mb_target body\<rparr>)))))
    (\<lambda>res sg. merged hi r body g x (Some y) res (snd sg)) (\<lambda>sg. hi_refs hi (snd sg) = hi_refs hi g)"
    proof (rule sv_holds_bind [OF sv_holds_git])
      fix g1 res g' assume R: "hi_refs hi g1 = hi_refs hi g"
        and run: "commit_tree rw (git_dir_of rw i) tree (oid_str y) (oid_str x) ?msg (author_or_default (mb_author body)) g1 = (res, g')"
      have "commit_tree_ok rw (git_dir_of rw i) hi" using git by (simp add: merge_git_ok_def)
      note law = commit_tree_law [OF this run]
      show "case res of Inl e \<Rightarrow> hi_refs hi g' = hi_refs hi g
        | Inr c \<Rightarrow> hi_refs hi g' = hi_refs hi g \<and> hi_parents hi g' (Oid c) = Some [y, x] \<and> hi_tree hi g' (Oid c) = Some (Oid tree)"
        using law R by (cases res) (auto simp: keeps_history_def)
    next
      fix c
      show "sv_holds (\<lambda>sg. only_limits st (fst sg) \<and> hi_refs hi (snd sg) = hi_refs hi g \<and> hi_parents hi (snd sg) (Oid c) = Some [y, x] \<and> hi_tree hi (snd sg) (Oid c) = Some (Oid tree))
       (sv_bind (sv_lift (res_bind (ref_name_try_from (''refs/heads/'' @ mb_target body)) (\<lambda>_. oid_try_from (oid_str y)))) (\<lambda>expected.
       sv_bind (on_git (cas_branch rw r (mb_target body) (Some expected) c)) (\<lambda>_.
       sv_bind (on_rest (publish env d (commit_event d i c (mb_target body) (''merge '' @ mb_source body @ '' into '' @ mb_target body)))) (\<lambda>_.
       sv_return \<lparr>mr_commit = c, mr_tree = tree, mr_fast_forward = False, mr_source = oid_str x, mr_target = mb_target body\<rparr>))))
      (\<lambda>res sg. merged hi r body g x (Some y) res (snd sg)) (\<lambda>sg. hi_refs hi (snd sg) = hi_refs hi g)"
      proof (intro sv_lift_bindI sv_holds_bind [OF sv_holds_git])
        fix g1 res g' expected assume R: "hi_refs hi g1 = hi_refs hi g \<and> hi_parents hi g1 (Oid c) = Some [y, x] \<and> hi_tree hi g1 (Oid c) = Some (Oid tree)"
          and run: "cas_branch rw r (mb_target body) (Some expected) c g1 = (res, g')"
        show "case res of Inl e \<Rightarrow> hi_refs hi g' = hi_refs hi g
          | Inr u \<Rightarrow> hi_refs hi g' = ?moved c \<and> hi_parents hi g' (Oid c) = Some [y, x] \<and> hi_tree hi g' (Oid c) = Some (Oid tree)"
          using cas_branch_law [OF cas run] R by (cases res) auto
      next
        fix u
        show "sv_holds (\<lambda>sg. only_limits st (fst sg) \<and> ?ends tree c sg)
         (sv_bind (on_rest (publish env d (commit_event d i c (mb_target body) (''merge '' @ mb_source body @ '' into '' @ mb_target body)))) (\<lambda>_.
         sv_return \<lparr>mr_commit = c, mr_tree = tree, mr_fast_forward = False, mr_source = oid_str x, mr_target = mb_target body\<rparr>))
        (\<lambda>res sg. merged hi r body g x (Some y) res (snd sg)) (\<lambda>sg. hi_refs hi (snd sg) = hi_refs hi g)"
          by (rule sv_weaken [OF sv_publish [where P = "?ends tree c" and R = "\<lambda>g. ?ends tree c (st, g)"]])
            (use strat y in \<open>auto simp: merged_def intro: exI [of _ "Oid c"]\<close>)
      qed auto
    qed auto
  qed auto
qed auto

lemma ff_law:
  assumes "merge_base_ok rw dir hi" "ff_possible rw dir (oid_str x) (map_option oid_str t) g = (res, g')"
  shows "g' = g" "res = Inr v \<Longrightarrow> v = pred_option (\<lambda>y. hi_ancestor hi g y x) t"
  using assms(2) ancestor_law [OF assms(1)] by (cases t; force simp: ff_possible_def)+

lemma diverged_triple:
  assumes cas: "merge_cas_ok rw hi" and git: "merge_git_ok rw (git_dir_of rw i) r' hi"
    and x: "oid_ok (oid_str x)" "hi_tree hi g x \<noteq> None" and t: "pred_option (\<lambda>y. oid_ok (oid_str y) \<and> \<not> hi_ancestor hi g x y) t"
  shows "sv_holds (\<lambda>sg. only_limits st (fst sg) \<and> snd sg = g) (merge_diverged env d rw r i body (oid_str x) (map_option oid_str t))
    (\<lambda>res sg. merged hi r body g x t res (snd sg)) (\<lambda>sg. hi_refs hi (snd sg) = hi_refs hi g)"
  unfolding merge_diverged_def
proof (rule sv_query)
  have base: "merge_base_ok rw (git_dir_of rw i) hi" and tree: "rev_tree_ok rw (git_dir_of rw i) hi" using git by (simp_all add: merge_git_ok_def)
  show "ff_possible rw (git_dir_of rw i) (oid_str x) (map_option oid_str t) g = (res, g') \<Longrightarrow> g' = g" for res g' by (rule ff_law(1) [OF base])
  fix ff assume "ff_possible rw (git_dir_of rw i) (oid_str x) (map_option oid_str t) g = (Inr ff, g)"
  then have ff: "ff = pred_option (\<lambda>y. hi_ancestor hi g y x) t" by (rule ff_law(2) [OF base]) (rule refl)
  show "sv_holds (\<lambda>sg. only_limits st (fst sg) \<and> snd sg = g)
     (if ff \<and> mb_strategy body \<noteq> ForceMerge then fast_forward env d rw r i body (oid_str x) (map_option oid_str t)
      else if mb_strategy body = FfOnly then sv_lift (Inl (BadRequest (BadOther ''not a fast-forward: target has diverged from source'')))
      else (case map_option oid_str t of None \<Rightarrow> sv_lift (Inl (Other BROKEN_FLOW)) | Some target_sha \<Rightarrow> three_way env d rw r i body (oid_str x) target_sha))
    (\<lambda>res sg. merged hi r body g x t res (snd sg)) (\<lambda>sg. hi_refs hi (snd sg) = hi_refs hi g)"
  proof (cases "ff \<and> mb_strategy body \<noteq> ForceMerge")
    case True
    then have "pred_option (\<lambda>y. oid_ok (oid_str y) \<and> hi_ancestor hi g y x \<and> \<not> hi_ancestor hi g x y) t" using t ff by (cases t) auto
    from fast_forward_triple [OF cas tree x this, of body] True show ?thesis by (simp only: simp_thms if_True)
  next
    case nf: False
    show ?thesis
    proof (cases "mb_strategy body = FfOnly \<or> t = None")
      case True
      with nf show ?thesis by (auto simp: sv_holds_def sv_lift_def)
    next
      case False
      then obtain y where y: "t = Some y" "mb_strategy body \<noteq> FfOnly" by blast
      with t nf ff have "oid_ok (oid_str y)" "\<not> hi_ancestor hi g x y" "mb_strategy body = ForceMerge \<or> \<not> hi_ancestor hi g y x" by auto
      from three_way_triple [OF cas git this(1,2) y(2) this(3)] show ?thesis
        using nf y(2) by (simp only: if_False option.map option.case y(1))
    qed
  qed
qed auto

lemma resolved_triple:
  assumes cas: "merge_cas_ok rw hi" and git: "merge_git_ok rw (git_dir_of rw i) r' hi"
    and x: "oid_ok (oid_str x)" "hi_tree hi g x \<noteq> None" and t: "pred_option (\<lambda>y. oid_ok (oid_str y) \<and> hi_tree hi g y \<noteq> None) t"
  shows "sv_holds (\<lambda>sg. only_limits st (fst sg) \<and> snd sg = g) (merge_resolved env d rw r i body (oid_str x) (map_option oid_str t))
    (\<lambda>res sg. merged hi r body g x t res (snd sg)) (\<lambda>sg. hi_refs hi (snd sg) = hi_refs hi g)"
proof (cases t)
  case None
  with diverged_triple [OF cas git x, of t] show ?thesis by (simp add: merge_resolved_def)
next
  case (Some y)
  have base: "merge_base_ok rw (git_dir_of rw i) hi" and tree: "rev_tree_ok rw (git_dir_of rw i) hi" using git by (simp_all add: merge_git_ok_def)
  obtain t0 where y: "oid_ok (oid_str y)" "hi_tree hi g y = Some t0" using t Some by auto
  note tr = tree_law [OF tree y(2)]
  show ?thesis
    unfolding merge_resolved_def Some option.map option.case
  proof (rule sv_query)
    show "is_ancestor rw (git_dir_of rw i) (oid_str x) (oid_str y) g = (res, g') \<Longrightarrow> g' = g" for res g' by (rule ancestor_law(1) [OF base])
    fix contained assume "is_ancestor rw (git_dir_of rw i) (oid_str x) (oid_str y) g = (Inr contained, g)"
    then have c: "hi_ancestor hi g x y = contained" by (rule ancestor_law(2) [OF base]) (rule refl)
    show "sv_holds (\<lambda>sg. only_limits st (fst sg) \<and> snd sg = g)
      (if contained then sv_bind (on_git (tree_of rw (git_dir_of rw i) (oid_str y))) (\<lambda>tree.
            sv_return \<lparr>mr_commit = oid_str y, mr_tree = tree, mr_fast_forward = False, mr_source = oid_str x, mr_target = mb_target body\<rparr>)
       else merge_diverged env d rw r i body (oid_str x) (Some (oid_str y)))
      (\<lambda>res sg. merged hi r body g x (Some y) res (snd sg)) (\<lambda>sg. hi_refs hi (snd sg) = hi_refs hi g)"
    proof (cases contained)
      case True
      have "sv_holds (\<lambda>sg. only_limits st (fst sg) \<and> snd sg = g)
          (sv_bind (on_git (tree_of rw (git_dir_of rw i) (oid_str y))) (\<lambda>tree.
            sv_return \<lparr>mr_commit = oid_str y, mr_tree = tree, mr_fast_forward = False, mr_source = oid_str x, mr_target = mb_target body\<rparr>))
          (\<lambda>res sg. merged hi r body g x (Some y) res (snd sg)) (\<lambda>sg. hi_refs hi (snd sg) = hi_refs hi g)"
      proof (rule sv_query)
        show "tree_of rw (git_dir_of rw i) (oid_str y) g = (res, g') \<Longrightarrow> g' = g" for res g' using tr by simp
        show "sv_holds (\<lambda>sg. only_limits st (fst sg) \<and> snd sg = g)
            (sv_return \<lparr>mr_commit = oid_str y, mr_tree = tree, mr_fast_forward = False, mr_source = oid_str x, mr_target = mb_target body\<rparr>)
            (\<lambda>res sg. merged hi r body g x (Some y) res (snd sg)) (\<lambda>sg. hi_refs hi (snd sg) = hi_refs hi g)"
          if "tree_of rw (git_dir_of rw i) (oid_str y) g = (Inr tree, g)" for tree
          using that tr c True y by (auto simp: sv_holds_def sv_return_def merged_def)
      qed auto
      with True show ?thesis by (simp only: if_True)
    next
      case False
      with c y have "pred_option (\<lambda>y. oid_ok (oid_str y) \<and> \<not> hi_ancestor hi g x y) (Some y)" by simp
      from diverged_triple [OF cas git x this] False show ?thesis by simp
    qed
  qed auto
qed

lemma source_law:
  assumes ok: "show_ref_ok rw dir r hi" and run: "resolve_source_branch rw dir branch g = (res, g')"
  shows "g' = g" "res = Inr s \<Longrightarrow> \<exists>x. s = oid_str x \<and> oid_ok (oid_str x) \<and> hi_refs hi g (r, RefName (''refs/heads/'' @ branch)) = Some x \<and> hi_tree hi g x \<noteq> None"
proof -
  obtain r0 g0 where ref: "resolve_ref rw dir (''refs/heads/'' @ branch) g = (r0, g0)" by (cases "resolve_ref rw dir (''refs/heads/'' @ branch) g")
  note law = resolve_law [OF ok ref]
  show "g' = g" using run law(1) by (cases r0; cases "projr r0") (auto simp: resolve_source_branch_def ref simp del: append_Cons)
  show "\<exists>x. s = oid_str x \<and> oid_ok (oid_str x) \<and> hi_refs hi g (r, RefName (''refs/heads/'' @ branch)) = Some x \<and> hi_tree hi g x \<noteq> None" if "res = Inr s"
  proof -
    have "r0 = Inr (Some s)" using run that
      by (cases r0; cases "projr r0") (auto simp: resolve_source_branch_def ref res_bind_Inr_iff simp del: append_Cons)
    from law(3) [OF this] show ?thesis .
  qed
qed

lemma target_law:
  assumes ok: "show_ref_ok rw dir r hi" and run: "resolve_target_branch rw dir branch g = (res, g')"
  shows "g' = g" "res = Inr t \<Longrightarrow> \<exists>y. t = map_option oid_str y \<and> hi_refs hi g (r, RefName (''refs/heads/'' @ branch)) = y
    \<and> pred_option (\<lambda>y. oid_ok (oid_str y) \<and> hi_tree hi g y \<noteq> None) y"
proof -
  obtain r0 g0 where ref: "resolve_ref rw dir (''refs/heads/'' @ branch) g = (r0, g0)" by (cases "resolve_ref rw dir (''refs/heads/'' @ branch) g")
  note law = resolve_law [OF ok ref]
  show "g' = g" using run law(1) by (cases r0; cases "projr r0") (auto simp: resolve_target_branch_def ref simp del: append_Cons)
  show "\<exists>y. t = map_option oid_str y \<and> hi_refs hi g (r, RefName (''refs/heads/'' @ branch)) = y
    \<and> pred_option (\<lambda>y. oid_ok (oid_str y) \<and> hi_tree hi g y \<noteq> None) y" if "res = Inr t"
  proof -
    have r0: "r0 = Inr t" using run that
      by (cases r0; cases "projr r0") (auto simp: resolve_target_branch_def ref res_bind_Inr_iff simp del: append_Cons)
    show ?thesis
    proof (cases t)
      case None
      with law(2) r0 show ?thesis by auto
    next
      case (Some s)
      with law(3) r0 obtain x where "s = oid_str x" "oid_ok (oid_str x)" "hi_refs hi g (r, RefName (''refs/heads/'' @ branch)) = Some x" "hi_tree hi g x \<noteq> None" by blast
      with Some show ?thesis by (intro exI [of _ "Some x"]) simp
    qed
  qed
qed

definition merge_done :: "rest_env \<Rightarrow> 'g history \<Rightarrow> header \<Rightarrow> string \<Rightarrow> merge_body \<Rightarrow> rest_state \<Rightarrow> 'g \<Rightarrow> merge_result \<Rightarrow> 'g \<Rightarrow> bool" where
  "merge_done env hi h i body st g res g' =
     (\<exists>p x. caller env h st = Inr p \<and> enforce_owner p i (rs_owners st) = Inr ()
        \<and> hi_refs hi g (RepoId i, RefName (''refs/heads/'' @ mb_source body)) = Some x
        \<and> merged hi (RepoId i) body g x (hi_refs hi g (RepoId i, RefName (''refs/heads/'' @ mb_target body))) res g')"

lemma merge_triple:
  assumes git: "merge_git_ok rw (git_dir_of rw i) (RepoId i) hi" and cas: "merge_cas_ok rw hi"
  shows "sv_holds (\<lambda>sg. only_limits st (fst sg) \<and> snd sg = g) (merge_branches env d rw h i body)
     (\<lambda>res sg. merge_done env hi h i body st g res (snd sg)) (\<lambda>sg. hi_refs hi (snd sg) = hi_refs hi g)"
  unfolding merge_branches_def
proof (intro sv_rest_bind [OF limits_checks(1)] sv_rest_bind [OF limits_throttle] sv_rest_bind [OF limits_checks(2)]
    sv_rest_bind [OF limits_checks(3)] sv_lift_bindI sv_query)
  have refs: "show_ref_ok rw (git_dir_of rw i) (RepoId i) hi" using git by (simp add: merge_git_ok_def)
  show "resolve_source_branch rw (git_dir_of rw i) b g = (res, g') \<Longrightarrow> g' = g" for b res g' by (rule source_law(1) [OF refs])
  show "resolve_target_branch rw (git_dir_of rw i) b g = (res, g') \<Longrightarrow> g' = g" for b res g' by (rule target_law(1) [OF refs])
  fix p r s t
  assume p: "caller env h st = Inr p" "enforce_owner p i (rs_owners st) = Inr ()" and r: "r = RepoId i"
    and s: "resolve_source_branch rw (git_dir_of rw i) (mb_source body) g = (Inr s, g)"
    and t: "resolve_target_branch rw (git_dir_of rw i) (mb_target body) g = (Inr t, g)"
  from source_law(2) [OF refs s refl] obtain x where x: "s = oid_str x" "oid_ok (oid_str x)"
    "hi_refs hi g (RepoId i, RefName (''refs/heads/'' @ mb_source body)) = Some x" "hi_tree hi g x \<noteq> None" by blast
  from target_law(2) [OF refs t refl] obtain y where y: "t = map_option oid_str y" "hi_refs hi g (RepoId i, RefName (''refs/heads/'' @ mb_target body)) = y"
    "pred_option (\<lambda>y. oid_ok (oid_str y) \<and> hi_tree hi g y \<noteq> None) y" by blast
  show "sv_holds (\<lambda>sg. only_limits st (fst sg) \<and> snd sg = g) (merge_resolved env d rw r i body s t)
     (\<lambda>res sg. merge_done env hi h i body st g res (snd sg)) (\<lambda>sg. hi_refs hi (snd sg) = hi_refs hi g)"
    unfolding r x(1) y(1)
    by (rule sv_weaken [OF resolved_triple [OF cas git x(2,4) y(3), of st env d "RepoId i" body]])
      (use p x(3) y(2) in \<open>auto simp: merge_done_def simp del: append_Cons\<close>)
qed auto



section \<open>Two commits\<close>

text \<open>A world of refs only: the first commit is the parent of the second, and git can neither merge nor commit.\<close>

definition two_history :: "(ref_key \<rightharpoonup> oid) history" where
  "two_history = \<lparr>hi_refs = (\<lambda>w. w), hi_tree = (\<lambda>_ x. if x = oid_a \<or> x = oid_b then Some oid_a else None),
     hi_ancestor = (\<lambda>_ a b. a = b \<or> a = oid_a), hi_parents = (\<lambda>_. Map.empty)\<rparr>"

definition two_git :: "(ref_key \<rightharpoonup> oid) git" where
  "two_git cmd stdin w =
     (case cmd_args cmd of
        [_, _, c, _, a, b] \<Rightarrow>
          if c = ''show-ref'' then
            (case w (RepoId ''demo'', RefName b) of
               None \<Rightarrow> Inr (1, [], [])
             | Some x \<Rightarrow> if x = oid_a \<or> x = oid_b then Inr (0, line_of x, []) else Inr (128, [], []))
          else Inr (if a = b \<or> a = oid_str oid_a then 0 else 1, [], [])
      | [_, _, _, _] \<Rightarrow> Inr (0, line_of oid_a, [])
      | _ \<Rightarrow> Inl (Other ''no''), w)"

definition two_env :: "(ref_key \<rightharpoonup> oid) repo_env" where
  "two_env = \<lparr>rw_git = two_git, rw_exists = (\<lambda>_ _ _. Inr True), rw_read = (\<lambda>_ _ _. Inr None),
     rw_update = (\<lambda>r n expected new w. if w (r, n) = expected then Inr (Updated, w((r, n) \<mapsto> new)) else Inr (Conflict (w (r, n)), w)),
     rw_dir = ''repos''\<rparr>"

lemma two_cas_ok: "merge_cas_ok two_env two_history"
  by (auto simp: merge_cas_ok_def two_env_def two_history_def split: if_splits cas_outcome.splits)

lemma two_git_ok: "merge_git_ok two_env dir (RepoId ''demo'') two_history"
proof -
  have ok: "oid_ok (oid_str oid_a)" "oid_ok (oid_str oid_b)" using oid_a_b by (simp_all add: ref_value_def)
  have inj: "oid_str a = oid_str b \<longleftrightarrow> a = b" for a b by (metis oid.expand)
  note defs = git_run_def run_git_def two_env_def two_git_def two_history_def
  have "show_ref_ok two_env dir (RepoId ''demo'') two_history" using ok by (auto simp: show_ref_ok_def defs split: option.splits if_splits)
  moreover have "merge_base_ok two_env dir two_history" by (auto simp: merge_base_ok_def defs inj split: if_splits)
  moreover have "rev_tree_ok two_env dir two_history" using ok by (auto simp: rev_tree_ok_def defs split: if_splits)
  moreover have "merge_tree_ok two_env dir two_history" by (auto simp: merge_tree_ok_def defs keeps_history_def)
  moreover have "commit_tree_ok two_env dir two_history" by (auto simp: commit_tree_ok_def defs keeps_history_def)
  ultimately show ?thesis by (simp add: merge_git_ok_def)
qed

definition two_world :: "ref_key \<rightharpoonup> oid" where
  "two_world = [(RepoId ''demo'', RefName ''refs/heads/dev'') \<mapsto> oid_b, (RepoId ''demo'', RefName ''refs/heads/main'') \<mapsto> oid_a]"

definition two_body :: merge_body where
  "two_body = \<lparr>mb_source = ''dev'', mb_target = ''main'', mb_strategy = Auto, mb_message = None, mb_author = None\<rparr>"

lemma merge_branches_run:
  assumes "caller env h st = Inr p" "limiter_check (re_budgets env) (dw_tick d) p CCommit (rs_limits st) = (Inr (), limits)"
    and "repo_id_try_from i = Inr r" "repo_exists r (io_tree (rs_io st))" "enforce_owner p i (rs_owners st) = Inr ()"
    and "check_merge_body body = Inr ()" "resolve_source_branch rw (git_dir_of rw i) (mb_source body) g = (Inr s, g)"
    and "resolve_target_branch rw (git_dir_of rw i) (mb_target body) g = (Inr t, g)"
    and "merge_resolved env d rw r i body s t (st\<lparr>rs_limits := limits\<rparr>, g) = out"
  shows "merge_branches env d rw h i body (st, g) = out"
  using assms
  by (simp add: merge_branches_def sv_bind_def on_rest_def on_git_def sv_lift_def authenticate_caller throttle_def known_repo_def rest_get_def
      owner_only_def)

lemma fast_forward_run:
  assumes "is_ancestor rw (git_dir_of rw i) s t g = (Inr False, g)" "is_ancestor rw (git_dir_of rw i) t s g = (Inr True, g)"
    and "mb_strategy body \<noteq> ForceMerge" "ref_name_try_from (''refs/heads/'' @ mb_target body) = Inr n" "oid_try_from s = Inr x" "oid_try_from t = Inr y"
    and "cas_branch rw r (mb_target body) (Some y) s g = (Inr (), g1)" "tree_of rw (git_dir_of rw i) s g1 = (Inr tree, g2)"
  shows "\<exists>res st'. merge_resolved env d rw r i body s (Some t) (st, g) = (Inr res, st', g2)"
proof -
  obtain st' where "publish env d (commit_event d i s (mb_target body) (''merge '' @ mb_source body @ '' (fast-forward)'')) st = (Inr (), st')"
    using publish_effect by blast
  with assms show ?thesis
    by (simp add: merge_resolved_def merge_diverged_def ff_possible_def fast_forward_def sv_bind_def on_git_def on_rest_def sv_lift_def typed_target_def
        sv_return_def del: append_Cons)
qed



section \<open>The report of \<open>git merge-tree\<close>\<close>

text \<open>The output under \<open>-z\<close>: the tree, the entries of the conflicted files with their stages, an empty record, and messages.\<close>

definition merge_report :: "string \<Rightarrow> (string \<times> string) list \<Rightarrow> u8 list list \<Rightarrow> u8 list" where
  "merge_report tree entries msgs =
     as_bytes tree @ 0 # concat (map (\<lambda>record. record @ [0]) (map (\<lambda>(info, path). as_bytes info @ TAB # as_bytes path) entries @ [] # msgs))"

lemma split_on_records: "\<forall>record\<in>set records. d \<notin> set record \<Longrightarrow> split_on d (concat (map (\<lambda>record. record @ [d]) records)) = records @ [[]]"
  by (induction records) simp_all

lemma conflict_paths_skip: "\<forall>record\<in>set records. TAB \<notin> set record \<Longrightarrow> conflict_paths (records @ recs) paths = conflict_paths recs paths"
  by (induction records) auto

definition entry_ok :: "string \<times> string \<Rightarrow> bool" where
  "entry_ok e = (case e of (info, path) \<Rightarrow> TAB \<notin> set (as_bytes info) \<and> 0 \<notin> set (as_bytes info) \<and> 0 \<notin> set (as_bytes path) \<and> utf8 (as_bytes path) = Inr path)"

lemma conflict_paths_entries:
  assumes "list_all entry_ok entries" "\<forall>record\<in>set tail. TAB \<notin> set record" "distinct paths"
  shows "\<exists>out. conflict_paths (map (\<lambda>(info, path). as_bytes info @ TAB # as_bytes path) entries @ tail) paths = Inr out
    \<and> distinct out \<and> set out = set paths \<union> snd ` set entries"
  using assms
proof (induction entries arbitrary: paths)
  case Nil
  then show ?case using conflict_paths_skip [of tail "[]" paths] by simp
next
  case (Cons e entries)
  obtain info path where e: "e = (info, path)" by (cases e)
  have ok: "TAB \<notin> set (as_bytes info)" "utf8 (as_bytes path) = Inr path" using Cons.prems(1) by (simp_all add: e entry_ok_def)
  have drop: "dropWhile (\<lambda>b. b \<noteq> TAB) (as_bytes info @ TAB # as_bytes path) = TAB # as_bytes path"
    using ok(1) by (subst dropWhile_append2) auto
  have "distinct (if path \<in> set paths then paths else paths @ [path])" using Cons.prems(3) by simp
  from Cons.IH [OF _ Cons.prems(2) this] Cons.prems(1) show ?case by (auto simp: e drop ok(2))
qed



end
