(* ===== verification/Reads.thy ===== *)
theory Reads
  imports Commits "HOL-Library.Product_Lexorder"
begin

text \<open>
  The read endpoints of \<open>src/reads/mod.rs\<close>: the parsers of what \<open>git log\<close>, \<open>for-each-ref\<close>, \<open>ls-tree\<close> and \<open>git show\<close>
  print, and the handlers.
\<close>

section \<open>Numbers and words\<close>

text \<open>\<open>str::parse\<close> on the unsigned integers up to \<open>max_value\<close>, and on \<open>i64\<close>.\<close>

definition digits_val :: "string \<Rightarrow> nat option" where
  "digits_val s = (if s \<noteq> [] \<and> list_all is_digit s then Some (foldl (\<lambda>n c. 10 * n + (of_char c - 48)) 0 s) else None)"

definition parse_unsigned :: "nat \<Rightarrow> string \<Rightarrow> nat option" where
  "parse_unsigned max_value s =
     (case digits_val (case s of CHR ''+'' # ds \<Rightarrow> ds | _ \<Rightarrow> s) of
        Some n \<Rightarrow> if n \<le> max_value then Some n else None
      | None \<Rightarrow> None)"

definition parse_i64 :: "string \<Rightarrow> int option" where
  "parse_i64 s =
     (case s of
        CHR ''-'' # ds \<Rightarrow> (case digits_val ds of Some n \<Rightarrow> if n \<le> 2 ^ 63 then Some (- int n) else None | None \<Rightarrow> None)
      | _ \<Rightarrow> map_option int (parse_unsigned (2 ^ 63 - 1) s))"

definition U32_MAX :: nat where "U32_MAX = 2 ^ 32 - 1"
definition U64_MAX :: nat where "U64_MAX = 2 ^ 64 - 1"

definition unwrap_num :: "nat option \<Rightarrow> nat" where
  "unwrap_num n = (case n of Some k \<Rightarrow> k | None \<Rightarrow> 0)"

text \<open>\<open>split_whitespace\<close>: \<open>skip\<close> counts the bytes of a white-space character that are still to come, \<open>cur\<close> is the word so far, reversed.\<close>

fun words_from :: "nat \<Rightarrow> string \<Rightarrow> string \<Rightarrow> string list" where
  "words_from skip cur [] = (if cur = [] then [] else [rev cur])"
| "words_from (Suc skip) cur (c # s) = words_from skip cur s"
| "words_from 0 cur (c # s) =
     (if ws_prefix (c # s) = 0 then words_from 0 (c # cur) s
      else (if cur = [] then [] else [rev cur]) @ words_from (ws_prefix (c # s) - 1) [] s)"

definition split_whitespace :: "string \<Rightarrow> string list" where
  "split_whitespace s = words_from 0 [] s"

text \<open>\<open>split_once\<close> with a text, and \<open>from_utf8\<close> with a default.\<close>

fun split_once_str :: "string \<Rightarrow> string \<Rightarrow> (string \<times> string) option" where
  "split_once_str p [] = (if p = [] then Some ([], []) else None)"
| "split_once_str p (c # s) =
     (case strip_prefix p (c # s) of
        Some t \<Rightarrow> Some ([], t)
      | None \<Rightarrow> map_option (\<lambda>(a, b). (c # a, b)) (split_once_str p s))"

definition utf8_or :: "string \<Rightarrow> u8 list \<Rightarrow> string" where
  "utf8_or dflt bs = (case from_utf8 bs of Some s \<Rightarrow> s | None \<Rightarrow> dflt)"

section \<open>Commits\<close>

record signature =
  sg_name :: string
  sg_email :: string

record commit_summary =
  sm_sha :: string
  sm_parents :: "string list"
  sm_author :: signature
  sm_committer :: signature
  sm_message :: string
  sm_timestamp :: int

definition COMMITS_LIMIT_DEFAULT :: nat where "COMMITS_LIMIT_DEFAULT = 50"
definition COMMITS_LIMIT_MAX :: nat where "COMMITS_LIMIT_MAX = 500"

definition LOG_FORMAT :: string where
  "LOG_FORMAT = ''%H%x01%P%x01%an%x01%ae%x01%cn%x01%ce%x01%ct%x01%B%x00''"

definition parse_log_record :: "u8 list list \<Rightarrow> error + commit_summary" where
  "parse_log_record parts =
     res_bind (utf8 (parts ! 0)) (\<lambda>sha.
     res_bind (utf8 (parts ! 2)) (\<lambda>author_name.
     res_bind (utf8 (parts ! 3)) (\<lambda>author_email.
     res_bind (utf8 (parts ! 4)) (\<lambda>committer_name.
     res_bind (utf8 (parts ! 5)) (\<lambda>committer_email.
     res_bind (utf8 (parts ! 7)) (\<lambda>msg.
     Inr \<lparr>sm_sha = trim sha, sm_parents = split_whitespace (utf8_or [] (parts ! 1)),
          sm_author = \<lparr>sg_name = author_name, sg_email = author_email\<rparr>,
          sm_committer = \<lparr>sg_name = committer_name, sg_email = committer_email\<rparr>,
          sm_message = dropWhile (\<lambda>c. c = newline) msg,
          sm_timestamp = (case parse_i64 (trim (utf8_or ''0'' (parts ! 6))) of Some n \<Rightarrow> n | None \<Rightarrow> 0)\<rparr>))))))"

fun log_records :: "u8 list list \<Rightarrow> error + commit_summary list" where
  "log_records [] = Inr []"
| "log_records (record # records) =
     (if record = [] \<or> length (split_on 1 record) < 8 then log_records records
      else res_bind (parse_log_record (split_on 1 record)) (\<lambda>summary. map_sum id ((#) summary) (log_records records)))"

definition parse_log_records :: "u8 list \<Rightarrow> error + commit_summary list" where
  "parse_log_records bytes = log_records (split_on 0 bytes)"

definition git_log :: "'g repo_env \<Rightarrow> string \<Rightarrow> nat \<Rightarrow> nat \<Rightarrow> string \<Rightarrow> 'g \<Rightarrow> (error + commit_summary list) \<times> 'g" where
  "git_log rw git_dir limit skip start g =
     (case git_run rw git_dir [''log'', ''--max-count='' @ fmt_dec limit, ''--skip='' @ fmt_dec skip, ''--format='' @ LOG_FORMAT,
             ''--end-of-options'', start] g of
        (Inl e, g') \<Rightarrow> (Inl e, g')
      | (Inr (rc, stdout, stderr), g') \<Rightarrow>
          (if rc \<noteq> 0 then
             let err = from_utf8_lossy stderr in
             if contains_str ''unknown revision'' err \<or> contains_str ''bad revision'' err
             then Inl (BadRequest (BadOther (''unknown ref: '' @ start))) else Inl (Other (''git log failed: '' @ err))
           else parse_log_records stdout, g'))"

definition list_commits ::
  "rest_env \<Rightarrow> draw \<Rightarrow> 'g repo_env \<Rightarrow> header \<Rightarrow> string \<Rightarrow> string option \<Rightarrow> nat option \<Rightarrow> nat option \<Rightarrow> ('g, commit_summary list) served" where
  "list_commits env d rw h i ref_q limit_q skip_q =
     sv_bind (on_rest (authorize_read env d h i)) (\<lambda>_.
     let limit = min (case limit_q of Some n \<Rightarrow> n | None \<Rightarrow> COMMITS_LIMIT_DEFAULT) COMMITS_LIMIT_MAX;
         skip = (case skip_q of Some n \<Rightarrow> n | None \<Rightarrow> 0);
         start = (case ref_q of Some s \<Rightarrow> s | None \<Rightarrow> ''HEAD'') in
     sv_bind (sv_lift (validate_ref_or_sha start)) (\<lambda>_.
     on_git (git_log rw (git_dir_of rw i) limit skip start)))"

section \<open>Refs and the repo\<close>

fun ref_lines :: "string list \<Rightarrow> error + RestAdmin.ref_entry list" where
  "ref_lines [] = Inr []"
| "ref_lines (line # lines) =
     res_bind (ok_or (Other (''malformed for-each-ref line: '' @ line)) (split_once CHR '' '' line)) (\<lambda>(name, sha).
       map_sum id ((#) \<lparr>rf_name = name, rf_sha = sha\<rparr>) (ref_lines lines))"

definition list_refs_native :: "'g repo_env \<Rightarrow> string \<Rightarrow> 'g \<Rightarrow> (error + RestAdmin.ref_entry list) \<times> 'g" where
  "list_refs_native rw git_dir g =
     (case git_run rw git_dir [''for-each-ref'', ''--format=%(refname) %(objectname)''] g of
        (Inl e, g') \<Rightarrow> (Inl e, g')
      | (Inr (rc, stdout, stderr), g') \<Rightarrow>
          (if rc \<noteq> 0 then Inl (Other (''for-each-ref failed: '' @ from_utf8_lossy stderr))
           else res_bind (utf8 stdout) (\<lambda>text. ref_lines (str_lines text)), g'))"

definition read_refs :: "rest_env \<Rightarrow> draw \<Rightarrow> 'g repo_env \<Rightarrow> header \<Rightarrow> string \<Rightarrow> ('g, RestAdmin.ref_entry list) served" where
  "read_refs env d rw h i =
     sv_bind (on_rest (authorize_read env d h i)) (\<lambda>_. on_git (list_refs_native rw (git_dir_of rw i)))"

definition resolve_ref_sha :: "'g repo_env \<Rightarrow> string \<Rightarrow> string \<Rightarrow> 'g \<Rightarrow> (error + string option) \<times> 'g" where
  "resolve_ref_sha rw git_dir r g =
     (case git_run rw git_dir [''rev-parse'', ''--verify'', r @ ''^'' @ [CHR 0x7B] @ ''commit'' @ [CHR 0x7D]] g of
        (Inl e, g') \<Rightarrow> (Inl e, g')
      | (Inr (rc, stdout, _), g') \<Rightarrow> (if rc \<noteq> 0 then Inr None else map_sum id (\<lambda>s. Some (trim s)) (utf8 stdout), g'))"

definition count_commits_from_head :: "'g repo_env \<Rightarrow> string \<Rightarrow> 'g \<Rightarrow> (error + nat) \<times> 'g" where
  "count_commits_from_head rw git_dir g =
     (case git_run rw git_dir [''rev-list'', ''--count'', ''HEAD''] g of
        (Inl e, g') \<Rightarrow> (Inl e, g')
      | (Inr (rc, stdout, _), g') \<Rightarrow>
          (if rc \<noteq> 0 then Inr 0 else map_sum id (\<lambda>s. unwrap_num (parse_unsigned U64_MAX (trim s))) (utf8 stdout), g'))"

text \<open>\<open>unwrap_or\<close> on a step: its failure becomes a default.\<close>

definition or_default :: "'a \<Rightarrow> ('g, 'a) served \<Rightarrow> ('g, 'a) served" where
  "or_default dflt a sg = (case a sg of (r, sg') \<Rightarrow> (Inr (unwrap_or dflt r), sg'))"

text \<open>\<open>dir_size\<close> of \<open>src/reads/helpers.rs\<close>: a directory below the root that cannot be read counts as empty.\<close>

fun read_dir_size :: "(string option \<Rightarrow> nat) \<Rightarrow> fs_node \<Rightarrow> nat option" where
  "read_dir_size len (FsFile _) = None"
| "read_dir_size len (FsDir None) = None"
| "read_dir_size len (FsDir (Some children)) =
     Some (sum_list (map (\<lambda>(_, n).
       case n of
         FsFile s \<Rightarrow> len s
       | FsDir _ \<Rightarrow> (case read_dir_size len n of None \<Rightarrow> 0 | Some k \<Rightarrow> k)) children))"

record read_detail =
  dt_id :: repo_id
  dt_owner :: "subject option"
  dt_created :: int
  dt_source :: "string option"
  dt_refs :: "RestAdmin.ref_entry list"
  dt_size :: nat
  dt_head :: "string option"
  dt_commits :: nat
  dt_forks :: nat

definition get_repo :: "rest_env \<Rightarrow> draw \<Rightarrow> 'g repo_env \<Rightarrow> header \<Rightarrow> string \<Rightarrow> ('g, read_detail) served" where
  "get_repo env d rw h i =
     sv_bind (on_rest (authorize_read env d h i)) (\<lambda>r.
     sv_bind (on_rest (rest_get (\<lambda>st. ok_or (RepoNotFound i) (get_row r (rs_owners st))))) (\<lambda>row.
     sv_bind (on_git (list_refs_native rw (git_dir_of rw i))) (\<lambda>refs.
     sv_bind (on_rest (rest_get (\<lambda>st. Inr (case Option.bind (fs_lookup (io_tree (rs_io st)) [i @ ''.git'']) (read_dir_size file_len) of None \<Rightarrow> 0 | Some n \<Rightarrow> n)))) (\<lambda>size_bytes.
     sv_bind (or_default None (on_git (resolve_ref_sha rw (git_dir_of rw i) ''HEAD''))) (\<lambda>head_sha.
     sv_bind (on_rest (rest_cached (\<lambda>t c. map_prod Inr id (alt_lookup (re_mount env) (dw_mtimes d) t i c)))) (\<lambda>source.
     sv_bind (or_default 0 (on_git (count_commits_from_head rw (git_dir_of rw i)))) (\<lambda>commit_count.
     sv_bind (or_default [] (on_rest (rest_cached (\<lambda>t. list_forks_of (re_mount env) (dw_mtimes d) t i)))) (\<lambda>forks.
     sv_return \<lparr>dt_id = ro_id row, dt_owner = ro_owner row, dt_created = ro_created row, dt_source = source, dt_refs = refs,
       dt_size = size_bytes, dt_head = head_sha, dt_commits = commit_count, dt_forks = length forks\<rparr>))))))))"

section \<open>Trees\<close>

datatype tree_kind = TreeFile | TreeDir | TreeSubmodule

record tree_entry =
  te_path :: string
  te_kind :: tree_kind
  te_size :: "nat option"

text \<open>The directories above a path, from its components but the last.\<close>

fun parent_dirs :: "string \<Rightarrow> string list \<Rightarrow> string list" where
  "parent_dirs accum [] = []"
| "parent_dirs accum (part # parts) =
     (let accum' = (if accum = [] then [] else accum @ ''/'') @ part in accum' # parent_dirs accum' parts)"

definition kind_of_type :: "string \<Rightarrow> tree_kind option" where
  "kind_of_type ty =
     (if ty = ''blob'' then Some TreeFile else if ty = ''tree'' then Some TreeDir
      else if ty = ''commit'' then Some TreeSubmodule else None)"

text \<open>The lines of \<open>ls-tree -r -l -z\<close>: the entries in order and the directories they imply.\<close>

fun tree_records :: "u8 list list \<Rightarrow> error + tree_entry list \<times> string list" where
  "tree_records [] = Inr ([], [])"
| "tree_records (record # records) =
     (if record = [] then tree_records records
      else res_bind (ok_or (Other ''ls-tree utf8'') (from_utf8 record)) (\<lambda>line.
        case split_once CHR 0x09 line of
          None \<Rightarrow> tree_records records
        | Some (meta, path) \<Rightarrow>
            (let words = split_whitespace meta in
             if length words < 4 then tree_records records
             else (let ty = words ! 1;
                       dirs = (if ty = ''blob'' \<or> ty = ''commit'' then parent_dirs [] (butlast (split_char CHR ''/'' path)) else []);
                       here = (case kind_of_type ty of
                                 None \<Rightarrow> []
                               | Some kind \<Rightarrow> [\<lparr>te_path = path, te_kind = kind, te_size = parse_unsigned U64_MAX (words ! 3)\<rparr>])
                   in map_sum id (\<lambda>(es, ds). (here @ es, dirs @ ds)) (tree_records records)))))"

text \<open>The implied directories come from a \<open>BTreeSet\<close>: each once, in the order of their bytes.\<close>

definition add_dir :: "string \<Rightarrow> tree_entry list \<Rightarrow> tree_entry list" where
  "add_dir dir entries =
     (if list_ex (\<lambda>e. te_path e = dir) entries then entries else \<lparr>te_path = dir, te_kind = TreeDir, te_size = None\<rparr> # entries)"

definition tree_listing :: "tree_entry list \<Rightarrow> string list \<Rightarrow> tree_entry list" where
  "tree_listing entries dirs =
     sort_key (\<lambda>e. (if te_kind e = TreeDir then 0 else 1 :: nat, te_path e)) (fold add_dir (sort (remdups dirs)) entries)"

definition parse_tree :: "u8 list \<Rightarrow> error + tree_entry list" where
  "parse_tree stdout = map_sum id (\<lambda>(entries, dirs). tree_listing entries dirs) (tree_records (split_on 0 stdout))"

definition ls_tree :: "'g repo_env \<Rightarrow> string \<Rightarrow> string \<Rightarrow> 'g \<Rightarrow> (error + tree_entry list) \<times> 'g" where
  "ls_tree rw git_dir start g =
     (case git_run rw git_dir [''ls-tree'', ''-r'', ''-l'', ''-z'', ''--end-of-options'', start] g of
        (Inl e, g') \<Rightarrow> (Inl e, g')
      | (Inr (rc, stdout, stderr), g') \<Rightarrow>
          (if rc \<noteq> 0 then
             let err = from_utf8_lossy stderr in
             if contains_str ''not a valid object name'' err \<or> contains_str ''Not a valid object name'' err
             then Inl (BadRequest (BadOther (''unknown ref: '' @ start))) else Inl (Other (''ls-tree failed: '' @ err))
           else parse_tree stdout, g'))"

definition get_tree :: "rest_env \<Rightarrow> draw \<Rightarrow> 'g repo_env \<Rightarrow> header \<Rightarrow> string \<Rightarrow> string option \<Rightarrow> ('g, tree_entry list) served" where
  "get_tree env d rw h i ref_q =
     sv_bind (on_rest (authorize_read env d h i)) (\<lambda>_.
     let start = (case ref_q of Some s \<Rightarrow> s | None \<Rightarrow> ''HEAD'') in
     sv_bind (sv_lift (validate_ref_or_sha start)) (\<lambda>_.
     on_git (ls_tree rw (git_dir_of rw i) start)))"

end
