(* ===== verification/Diffs.thy ===== *)
theory Diffs
  imports Reads
begin

text \<open>
  The endpoints of \<open>src/reads/mod.rs\<close> for single objects: blobs through \<open>gix\<close> and the object store, diffs with the
  parser of what \<open>git show\<close> prints, and notes.
\<close>

section \<open>Diffs\<close>

datatype diff_status = Added | Modified | Deleted | Renamed

datatype line_kind = CtxLine | AddLine | DelLine

record diff_hunk =
  dh_old_start :: nat
  dh_old_lines :: nat
  dh_new_start :: nat
  dh_new_lines :: nat
  dh_lines :: "(line_kind \<times> string) list"

record file_diff =
  fd_path :: string
  fd_status :: diff_status
  fd_old_path :: "string option"
  fd_additions :: nat
  fd_deletions :: nat
  fd_hunks :: "diff_hunk list"

definition numstat_line :: "string \<Rightarrow> file_diff option" where
  "numstat_line line =
     (case split_char CHR 0x09 line of
        a # b # path # _ \<Rightarrow>
          (let (old_path, new_path, st) =
             (case split_once_str '' => '' path of
                Some (l, r) \<Rightarrow> (Some l, r, Renamed)
              | None \<Rightarrow> (None, path, Modified))
           in Some \<lparr>fd_path = new_path, fd_status = st, fd_old_path = old_path,
                    fd_additions = unwrap_num (parse_unsigned U32_MAX a), fd_deletions = unwrap_num (parse_unsigned U32_MAX b), fd_hunks = []\<rparr>)
      | _ \<Rightarrow> None)"

definition parse_hunk_range :: "string \<Rightarrow> nat \<times> nat" where
  "parse_hunk_range s =
     (let t = dropWhile (\<lambda>c. c = CHR ''+'') (dropWhile (\<lambda>c. c = CHR ''-'') s);
          (start_s, lines_s) = (case split_once CHR '','' t of Some p \<Rightarrow> p | None \<Rightarrow> (t, ''1''))
      in (unwrap_num (parse_unsigned U32_MAX start_s), unwrap_num (parse_unsigned U32_MAX lines_s)))"

text \<open>The state of the second pass: the files, the index of the current one and the open hunk.\<close>

record diff_state =
  ds_files :: "file_diff list"
  ds_file :: "nat option"
  ds_hunk :: "diff_hunk option"

definition push_hunk :: "nat \<Rightarrow> diff_hunk \<Rightarrow> file_diff list \<Rightarrow> file_diff list" where
  "push_hunk ix h fs = fs[ix := (fs ! ix)\<lparr>fd_hunks := fd_hunks (fs ! ix) @ [h]\<rparr>]"

text \<open>An open hunk goes to the current file; without one it is dropped.\<close>

definition close_hunk :: "diff_state \<Rightarrow> diff_state" where
  "close_hunk s =
     (case (ds_file s, ds_hunk s) of
        (Some ix, Some h) \<Rightarrow> s\<lparr>ds_files := push_hunk ix h (ds_files s), ds_hunk := None\<rparr>
      | (None, Some _) \<Rightarrow> s\<lparr>ds_hunk := None\<rparr>
      | _ \<Rightarrow> s)"

fun position :: "('a \<Rightarrow> bool) \<Rightarrow> 'a list \<Rightarrow> nat option" where
  "position P [] = None"
| "position P (x # xs) = (if P x then Some 0 else map_option Suc (position P xs))"

definition set_status :: "diff_status \<Rightarrow> diff_state \<Rightarrow> diff_state" where
  "set_status st s =
     (case ds_file s of None \<Rightarrow> s | Some ix \<Rightarrow> s\<lparr>ds_files := (ds_files s)[ix := (ds_files s ! ix)\<lparr>fd_status := st\<rparr>]\<rparr>)"

definition open_file :: "string \<Rightarrow> diff_state \<Rightarrow> diff_state" where
  "open_file rest s =
     (case split_once_str '' b/'' rest of
        None \<Rightarrow> s
      | Some (_, b) \<Rightarrow>
          (case position (\<lambda>f. fd_path f = b) (ds_files s) of
             None \<Rightarrow> s
           | Some ix \<Rightarrow> (close_hunk s)\<lparr>ds_file := Some ix\<rparr>))"

definition open_hunk :: "string \<Rightarrow> diff_state \<Rightarrow> diff_state" where
  "open_hunk hdr s =
     (let parts = split_char CHR '' '' hdr;
          (old_start, old_lines) = parse_hunk_range (case parts of p # _ \<Rightarrow> p | [] \<Rightarrow> []);
          (new_start, new_lines) = parse_hunk_range (case parts of _ # q # _ \<Rightarrow> q | _ \<Rightarrow> [])
      in (close_hunk s)\<lparr>ds_hunk := Some \<lparr>dh_old_start = old_start, dh_old_lines = old_lines, dh_new_start = new_start,
            dh_new_lines = new_lines, dh_lines = []\<rparr>\<rparr>)"

definition add_diff_line :: "line_kind \<Rightarrow> string \<Rightarrow> diff_hunk \<Rightarrow> diff_hunk" where
  "add_diff_line kind text_s h = h\<lparr>dh_lines := dh_lines h @ [(kind, text_s)]\<rparr>"

text \<open>A line inside a hunk: the markers of the file names are told from changed lines by their first three characters.\<close>

definition hunk_line :: "string \<Rightarrow> diff_hunk \<Rightarrow> diff_hunk" where
  "hunk_line line h =
     (case line of
        CHR ''+'' # s \<Rightarrow> if starts_with ''+++'' line then h else add_diff_line AddLine s h
      | CHR ''-'' # s \<Rightarrow> if starts_with ''---'' line then h else add_diff_line DelLine s h
      | CHR '' '' # s \<Rightarrow> add_diff_line CtxLine s h
      | _ \<Rightarrow> h)"

definition patch_line :: "string \<Rightarrow> diff_state \<Rightarrow> diff_state" where
  "patch_line line s =
     (case strip_prefix ''diff --git '' line of
        Some rest \<Rightarrow> open_file rest s
      | None \<Rightarrow>
          if starts_with ''new file mode'' line then set_status Added s
          else if starts_with ''deleted file mode'' line then set_status Deleted s
          else (case strip_prefix ''@@ '' line of
                  Some hdr \<Rightarrow> open_hunk hdr s
                | None \<Rightarrow> s\<lparr>ds_hunk := map_option (hunk_line line) (ds_hunk s)\<rparr>))"

definition parse_diff :: "string \<Rightarrow> string \<Rightarrow> file_diff list" where
  "parse_diff numstat patch =
     ds_files (close_hunk (fold patch_line (str_lines patch)
       \<lparr>ds_files = List.map_filter numstat_line (str_lines numstat), ds_file = None, ds_hunk = None\<rparr>))"

definition git_show :: "'g repo_env \<Rightarrow> string \<Rightarrow> string \<Rightarrow> string \<Rightarrow> 'g \<Rightarrow> (error + u8 list) \<times> 'g" where
  "git_show rw git_dir flag commit g =
     (case git_run rw git_dir [''show'', ''--format='', flag, ''-M'', commit] g of
        (Inl e, g') \<Rightarrow> (Inl e, g')
      | (Inr (rc, stdout, stderr), g') \<Rightarrow>
          (if rc \<noteq> 0 then Inl (Other (''git show '' @ takeWhile (\<lambda>c. c \<noteq> CHR ''='') flag @ '' failed: '' @ from_utf8_lossy stderr)) else Inr stdout, g'))"

definition get_diff :: "rest_env \<Rightarrow> draw \<Rightarrow> 'g repo_env \<Rightarrow> header \<Rightarrow> string \<Rightarrow> string \<Rightarrow> ('g, file_diff list) served" where
  "get_diff env d rw h i commit =
     sv_bind (on_rest (authorize_read env d h i)) (\<lambda>_.
     sv_bind (sv_lift (validate_sha commit)) (\<lambda>_.
     sv_bind (on_git (git_show rw (git_dir_of rw i) ''--numstat'' commit)) (\<lambda>numstat.
     sv_bind (on_git (git_show rw (git_dir_of rw i) ''--unified=3'' commit)) (\<lambda>patch.
     sv_return (parse_diff (utf8_or [] numstat) (utf8_or [] patch))))))"

section \<open>Blobs\<close>

text \<open>What the endpoint uses of \<open>gix\<close>: the commit a revision names, its root tree, and the entry at a path with
  whether it is a tree. The first two steps have errors of their own.\<close>

record 'g gix_lookup =
  gl_open :: "string \<Rightarrow> 'g \<Rightarrow> string + unit"
  gl_rev :: "string \<Rightarrow> string \<Rightarrow> 'g \<Rightarrow> string + oid"
  gl_peel :: "string \<Rightarrow> oid \<Rightarrow> 'g \<Rightarrow> string + oid"
  gl_tree :: "string \<Rightarrow> oid \<Rightarrow> 'g \<Rightarrow> string + oid"
  gl_entry :: "string \<Rightarrow> oid \<Rightarrow> string \<Rightarrow> 'g \<Rightarrow> string + (bool \<times> oid) option"

definition bad :: "string \<Rightarrow> error" where
  "bad s = BadRequest (BadOther s)"

definition resolve_blob_oid :: "'g gix_lookup \<Rightarrow> string \<Rightarrow> string \<Rightarrow> string \<Rightarrow> 'g \<Rightarrow> error + string" where
  "resolve_blob_oid gl git_dir rev_s path g =
     res_bind (map_err (\<lambda>e. bad (''repo open failed: '' @ e)) (gl_open gl git_dir g)) (\<lambda>_.
     res_bind (map_err (\<lambda>e. bad (''blob not found: '' @ rev_s @ '' ('' @ e @ '')'')) (gl_rev gl git_dir rev_s g)) (\<lambda>obj.
     res_bind (map_err (\<lambda>e. bad (''not a commit-ish: '' @ rev_s @ '' ('' @ e @ '')'')) (gl_peel gl git_dir obj g)) (\<lambda>commit.
     res_bind (map_err (\<lambda>e. Other (''read root tree: '' @ e)) (gl_tree gl git_dir commit g)) (\<lambda>tree.
     res_bind (map_err (\<lambda>e. Other (''lookup_entry_by_path: '' @ e)) (gl_entry gl git_dir tree path g)) (\<lambda>entry.
     res_bind (ok_or (bad (''blob not found: '' @ rev_s @ '':'' @ path)) entry) (\<lambda>(is_tree, x).
       if is_tree then Inl (bad (''blob not found: '' @ rev_s @ '':'' @ path @ '' (is a directory)'')) else Inr (oid_str x)))))))"

definition get_blob ::
  "rest_env \<Rightarrow> draw \<Rightarrow> 'g repo_env \<Rightarrow> 'g gix_lookup \<Rightarrow> header \<Rightarrow> string \<Rightarrow> string option \<Rightarrow> string \<Rightarrow> ('g, u8 list) served" where
  "get_blob env d rw gl h i commit_q path =
     sv_bind (on_rest (authorize_read env d h i)) (\<lambda>r.
     let commit = (case commit_q of Some c \<Rightarrow> c | None \<Rightarrow> ''HEAD'') in
     sv_bind (sv_lift (validate_ref_or_sha commit)) (\<lambda>_.
     sv_bind (sv_lift (validate_path path)) (\<lambda>_.
     sv_bind (on_git (\<lambda>g. (resolve_blob_oid gl (git_dir_of rw i) commit path g, g))) (\<lambda>blob_oid.
     sv_bind (sv_lift (oid_try_from blob_oid)) (\<lambda>x.
     sv_bind (on_git (\<lambda>g. (rw_read rw r x g, g))) (\<lambda>found.
     sv_bind (sv_lift (ok_or (bad (''blob not found: '' @ commit @ '':'' @ path)) found)) (\<lambda>(kind, bytes).
     if kind \<noteq> Blob then sv_lift (Inl (bad (''blob not found: '' @ commit @ '':'' @ path @ '' (resolved to non-blob)'')))
     else sv_return bytes)))))))"

section \<open>Notes\<close>

record note_response =
  nr_ref :: string
  nr_commit :: string
  nr_text :: string

definition show_note :: "'g repo_env \<Rightarrow> string \<Rightarrow> string \<Rightarrow> string \<Rightarrow> 'g \<Rightarrow> (error + note_response) \<times> 'g" where
  "show_note rw git_dir notes_ref commit g =
     (case git_run rw git_dir [''notes'', ''--ref='' @ notes_ref, ''show'', commit] g of
        (Inl e, g') \<Rightarrow> (Inl e, g')
      | (Inr (rc, stdout, stderr), g') \<Rightarrow>
          (if rc \<noteq> 0 then
             let err = from_utf8_lossy stderr in
             if contains_str ''no note found'' err \<or> contains_str ''No note found'' err
             then Inl (RepoNotFound (''no note on '' @ notes_ref @ '' for commit '' @ commit)) else Inl (Other (''git notes show: '' @ err))
           else map_sum id (\<lambda>s. \<lparr>nr_ref = notes_ref, nr_commit = commit, nr_text = s\<rparr>) (utf8 stdout), g'))"

definition get_note :: "rest_env \<Rightarrow> draw \<Rightarrow> 'g repo_env \<Rightarrow> header \<Rightarrow> string \<Rightarrow> string option \<Rightarrow> string \<Rightarrow> ('g, note_response) served" where
  "get_note env d rw h i ref_q commit =
     sv_bind (on_rest (authorize_read env d h i)) (\<lambda>_.
     sv_bind (sv_lift (validate_sha commit)) (\<lambda>_.
     let notes_ref = (case ref_q of Some s \<Rightarrow> s | None \<Rightarrow> ''refs/notes/commits'') in
     sv_bind (sv_lift (if is_valid_notes_ref notes_ref then Inr () else Inl (BadRequest (InvalidNotesRef notes_ref)))) (\<lambda>_.
     on_git (show_note rw (git_dir_of rw i) notes_ref commit))))"

end
