(* ===== verification/ReadProps.thy ===== *)
theory ReadProps
  imports Diffs Merge ServedInv
begin

text \<open>
  The read endpoints of \<open>src/reads/mod.rs\<close>: what \<open>git log\<close> prints is read back, and who may read what.
\<close>

section \<open>Words and numbers\<close>

definition graphic :: "string \<Rightarrow> bool" where
  "graphic s = (s \<noteq> [] \<and> list_all is_graphic s)"

lemma ws_graphic: "is_graphic c \<Longrightarrow> ws_prefix (c # s) = 0"
  by (cases s; cases "tl s") (auto simp: ws_prefix_def is_graphic_def)

lemma ws_space: "ws_prefix (CHR '' '' # s) = 1" "ws_prefix (newline # s) = 1"
  by (cases s; cases "tl s"; simp add: ws_prefix_def)+

lemma words_graphic: "list_all is_graphic w \<Longrightarrow> words_from 0 cur (w @ s) = words_from 0 (rev w @ cur) s"
  by (induction w arbitrary: cur) (simp_all add: ws_graphic)

fun join_words :: "string list \<Rightarrow> string" where
  "join_words [] = []"
| "join_words [w] = w"
| "join_words (w # v # ws) = w @ CHR '' '' # join_words (v # ws)"

lemma split_join_words: "list_all graphic ws \<Longrightarrow> split_whitespace (join_words ws) = ws"
  unfolding split_whitespace_def
proof (induction ws rule: join_words.induct)
  case (2 w)
  then show ?case using words_graphic [of w "[]" "[]"] by (simp add: graphic_def)
next
  case (3 w v ws)
  then have "words_from 0 [] (w @ CHR '' '' # join_words (v # ws)) = words_from 0 (rev w) (CHR '' '' # join_words (v # ws))"
    using words_graphic [of w "[]"] by (simp add: graphic_def)
  with 3 show ?case by (simp add: ws_space graphic_def)
qed simp

lemma trim_newline: "trim (newline # s) = trim s"
  by (simp add: trim_def trim_start.simps [of "newline # s"] ws_space)

lemma digits_val_snoc: "digits_val s = Some n \<Longrightarrow> is_digit c \<Longrightarrow> digits_val (s @ [c]) = Some (10 * n + (of_char c - 48))"
  by (auto simp: digits_val_def split: if_splits)

lemma fmt_dec_ne [simp]: "fmt_dec n \<noteq> []"
  by (subst fmt_dec.simps) simp

lemma dec_is_digits: "list_all is_digit (fmt_dec n)"
  using fmt_dec_chars by (auto simp: list_all_iff is_digit_def)

lemma hex_digit_less: "n < 10 \<Longrightarrow> is_digit (hex_digit n) \<and> of_char (hex_digit n) - 48 = n"
  by (simp add: of_char_hex_digit is_digit_def)

lemma digits_fmt: "digits_val (fmt_dec n) = Some n"
proof (induction n rule: fmt_dec.induct)
  case (1 n)
  show ?case
  proof (cases "n < 10")
    case True
    then show ?thesis using hex_digit_less [of n] by (subst fmt_dec.simps) (simp add: digits_val_def)
  next
    case False
    with 1 have "digits_val (fmt_dec (n div 10)) = Some (n div 10)" by simp
    from digits_val_snoc [OF this, of "hex_digit (n mod 10)"] hex_digit_less [of "n mod 10"] False
    show ?thesis by (subst fmt_dec.simps) simp
  qed
qed

lemma fmt_dec_hd: "fmt_dec n \<noteq> CHR ''-'' # s" "fmt_dec n \<noteq> CHR ''+'' # s"
  using dec_is_digits [of n] by (auto simp: is_digit_def)

lemma parse_unsigned_fmt: "n \<le> m \<Longrightarrow> parse_unsigned m (fmt_dec n) = Some n"
proof -
  assume "n \<le> m"
  moreover have "(case fmt_dec n of CHR ''+'' # ds \<Rightarrow> ds | _ \<Rightarrow> fmt_dec n) = fmt_dec n"
    using fmt_dec_hd(2) [of n] by (auto split: list.splits char.splits bool.splits)
  ultimately show ?thesis by (simp add: parse_unsigned_def digits_fmt)
qed

lemma parse_i64_fmt:
  assumes "- (2 ^ 63) \<le> n" "n < 2 ^ 63"
  shows "parse_i64 (fmt_int n) = Some n"
proof (cases "n < 0")
  case True
  with assms show ?thesis by (simp add: parse_i64_def fmt_int_def digits_fmt nat_le_iff)
next
  case False
  have "(case fmt_dec k of CHR ''-'' # ds \<Rightarrow> a ds | _ \<Rightarrow> b) = b" for k and a :: "string \<Rightarrow> int option" and b
    using fmt_dec_hd(1) [of k] by (auto split: list.splits char.splits bool.splits)
  with False assms show ?thesis
    by (simp add: parse_i64_def fmt_int_def parse_unsigned_fmt nat_le_iff)
qed

lemma fmt_int_graphic: "graphic (fmt_int n)"
  using fmt_dec_chars by (fastforce simp: graphic_def fmt_int_def list_all_iff is_graphic_def)

lemma trim_all_graphic:
  assumes "graphic s"
  shows "trim s = s" "trim (newline # s) = s"
proof -
  have "is_graphic (hd s)" "is_graphic (last s)" "s \<noteq> []" using assms by (auto simp: graphic_def list_all_iff)
  then show "trim s = s" by (intro trim_graphic(1)) (auto simp: is_graphic_def)
  then show "trim (newline # s) = s" by (simp only: trim_newline)
qed

lemma graphic_ascii: "list_all is_graphic s \<Longrightarrow> ascii s"
  by (auto simp: list_all_iff is_graphic_def ascii_def)

section \<open>What \<open>git log\<close> prints\<close>

definition log_record :: "commit_summary \<Rightarrow> u8 list" where
  "log_record c =
     as_bytes (sm_sha c) @ 1 # as_bytes (join_words (sm_parents c)) @ 1 #
     as_bytes (sg_name (sm_author c)) @ 1 # as_bytes (sg_email (sm_author c)) @ 1 #
     as_bytes (sg_name (sm_committer c)) @ 1 # as_bytes (sg_email (sm_committer c)) @ 1 #
     as_bytes (fmt_int (sm_timestamp c)) @ 1 # as_bytes (sm_message c)"

definition log_text :: "commit_summary list \<Rightarrow> u8 list" where
  "log_text cs = concat (map (\<lambda>c. log_record c @ [0, 10]) cs)"

definition shown :: "commit_summary \<Rightarrow> commit_summary" where
  "shown c = c\<lparr>sm_message := dropWhile (\<lambda>c. c = newline) (takeWhile (\<lambda>c. c \<noteq> CHR 0x01) (sm_message c))\<rparr>"

definition field_ok :: "string \<Rightarrow> bool" where
  "field_ok s = (CHR 0x00 \<notin> set s \<and> CHR 0x01 \<notin> set s \<and> utf8_valid (as_bytes s))"

definition logged_ok :: "commit_summary \<Rightarrow> bool" where
  "logged_ok c =
     (oid_ok (sm_sha c) \<and> list_all oid_ok (sm_parents c)
      \<and> field_ok (sg_name (sm_author c)) \<and> field_ok (sg_email (sm_author c))
      \<and> field_ok (sg_name (sm_committer c)) \<and> field_ok (sg_email (sm_committer c))
      \<and> - (2 ^ 63) \<le> sm_timestamp c \<and> sm_timestamp c < 2 ^ 63
      \<and> CHR 0x00 \<notin> set (sm_message c) \<and> utf8_valid (as_bytes (takeWhile (\<lambda>c. c \<noteq> CHR 0x01) (sm_message c))))"

lemma byte_of_char_inj: "byte_of_char c = byte_of_char d \<longleftrightarrow> c = d"
  using as_bytes_inj [of "[c]" "[d]"] by simp

lemma byte_chars: "byte_of_char (CHR 0x00) = 0" "byte_of_char (CHR 0x01) = 1"
  by (simp_all add: byte_of_char_def)

lemma in_as_bytes: "0 \<in> set (as_bytes s) \<longleftrightarrow> CHR 0x00 \<in> set s" "1 \<in> set (as_bytes s) \<longleftrightarrow> CHR 0x01 \<in> set s"
  by (induction s) (simp_all, (metis byte_of_char_inj byte_chars)+)

lemma hd_split_on: "hd (split_on d xs) = takeWhile (\<lambda>x. x \<noteq> d) xs"
  by (induction xs) auto

lemma takeWhile_bytes: "takeWhile (\<lambda>x. x \<noteq> 1) (as_bytes s) = as_bytes (takeWhile (\<lambda>c. c \<noteq> CHR 0x01) s)"
  by (induction s) (simp_all, metis byte_of_char_inj byte_chars(2))

lemma utf8_as_bytes: "utf8_valid (as_bytes s) \<Longrightarrow> utf8 (as_bytes s) = Inr s" "utf8_valid (as_bytes s) \<Longrightarrow> utf8_or dflt (as_bytes s) = s"
  by (simp_all add: utf8_def utf8_or_def from_utf8_def)


lemma graphic_field: "list_all is_graphic s \<Longrightarrow> field_ok s"
  using utf8_valid_ascii [OF graphic_ascii] by (auto simp: field_ok_def list_all_iff is_graphic_def)

lemma graphic_oid: "oid_ok s \<Longrightarrow> graphic s"
  using graphic_hex by (fastforce simp: oid_ok_def graphic_def list_all_iff is_graphic_def)

lemma field_join: "list_all graphic ws \<Longrightarrow> field_ok (join_words ws)"
proof (induction ws rule: join_words.induct)
  case (2 w)
  then show ?case by (simp add: graphic_def graphic_field)
next
  case (3 w v ws)
  then have "field_ok w" "ascii w" "field_ok (join_words (v # ws))" by (simp_all add: graphic_def graphic_field graphic_ascii)
  moreover have "byte_of_char (CHR '' '') < 0x80" by (simp add: byte_of_char_def)
  ultimately show ?case by (simp add: field_ok_def utf8_valid_ascii_append)
qed (simp add: field_ok_def)

lemma log_fields_ok:
  assumes "logged_ok c"
  shows "field_ok (sm_sha c)" "field_ok (join_words (sm_parents c))" "field_ok (fmt_int (sm_timestamp c))"
proof -
  have "list_all graphic (sm_parents c)" "graphic (sm_sha c)"
    using assms graphic_oid by (auto simp: logged_ok_def list_all_iff)
  then show "field_ok (sm_sha c)" "field_ok (join_words (sm_parents c))" "field_ok (fmt_int (sm_timestamp c))"
    using fmt_int_graphic [of "sm_timestamp c"] by (simp_all add: field_join graphic_field graphic_def)
qed

lemma log_record_nul: "logged_ok c \<Longrightarrow> 0 \<notin> set (log_record c)"
  using log_fields_ok [of c] by (simp add: log_record_def logged_ok_def field_ok_def in_as_bytes)

lemma log_record_step:
  assumes ok: "logged_ok c" and pre: "pre = [] \<or> pre = [10]"
  shows "log_records ((pre @ log_record c) # recs) = map_sum id ((#) (shown c)) (log_records recs)"
proof -
  have f: "field_ok (sm_sha c)" "field_ok (join_words (sm_parents c))" "field_ok (fmt_int (sm_timestamp c))"
    using ok by (rule log_fields_ok)+
  have one: "1 \<notin> set (as_bytes s)" if "field_ok s" for s
    using that by (simp add: field_ok_def in_as_bytes)
  let ?parts = "[pre @ as_bytes (sm_sha c), as_bytes (join_words (sm_parents c)), as_bytes (sg_name (sm_author c)), as_bytes (sg_email (sm_author c)),
    as_bytes (sg_name (sm_committer c)), as_bytes (sg_email (sm_committer c)), as_bytes (fmt_int (sm_timestamp c))] @ split_on 1 (as_bytes (sm_message c))"
  have "1 \<notin> set (pre @ as_bytes (sm_sha c))" using pre one [OF f(1)] by auto
  from split_on_append [OF this] have parts: "split_on 1 (pre @ log_record c) = ?parts"
    using ok f one by (simp add: log_record_def logged_ok_def)
  have "split_on 1 (as_bytes (sm_message c)) = hd (split_on 1 (as_bytes (sm_message c))) # tl (split_on 1 (as_bytes (sm_message c)))" by simp
  then obtain rest where tail: "split_on 1 (as_bytes (sm_message c)) = as_bytes (takeWhile (\<lambda>c. c \<noteq> CHR 0x01) (sm_message c)) # rest"
    by (simp only: hd_split_on takeWhile_bytes)
  have sha: "res_bind (utf8 (pre @ as_bytes (sm_sha c))) F = F ((if pre = [] then [] else [newline]) @ sm_sha c)" for F :: "string \<Rightarrow> error + commit_summary"
  proof -
    have "utf8_valid (as_bytes (sm_sha c))" using f(1) by (simp add: field_ok_def)
    moreover have "utf8_valid (10 # as_bytes (sm_sha c)) = utf8_valid (as_bytes (sm_sha c))" by simp
    moreover have "(10 :: u8) = byte_of_char newline" by (simp add: byte_of_char_def)
    ultimately show ?thesis
      using pre utf8_as_bytes(1) [of "newline # sm_sha c"] utf8_as_bytes(1) [of "sm_sha c"] by fastforce
  qed
  have "trim ((if pre = [] then [] else [newline]) @ sm_sha c) = sm_sha c"
    using ok trim_all_graphic [OF graphic_oid] by (simp add: logged_ok_def)
  moreover have "trim (fmt_int (sm_timestamp c)) = fmt_int (sm_timestamp c)" by (rule trim_all_graphic(1) [OF fmt_int_graphic])
  moreover have "split_whitespace (join_words (sm_parents c)) = sm_parents c"
    using ok graphic_oid by (intro split_join_words) (auto simp: logged_ok_def list_all_iff)
  moreover have ne: "pre @ log_record c \<noteq> []" by (simp add: log_record_def)
  moreover have "parse_i64 (fmt_int (sm_timestamp c)) = Some (sm_timestamp c)" using ok by (intro parse_i64_fmt) (auto simp: logged_ok_def)
  moreover have valid: "utf8_valid (as_bytes (join_words (sm_parents c)))" "utf8_valid (as_bytes (fmt_int (sm_timestamp c)))"
      "utf8_valid (as_bytes (sg_name (sm_author c)))" "utf8_valid (as_bytes (sg_email (sm_author c)))"
      "utf8_valid (as_bytes (sg_name (sm_committer c)))" "utf8_valid (as_bytes (sg_email (sm_committer c)))"
      "utf8_valid (as_bytes (takeWhile (\<lambda>c. c \<noteq> CHR 0x01) (sm_message c)))"
    using ok f by (auto simp: logged_ok_def field_ok_def)
  ultimately have "parse_log_record (split_on 1 (pre @ log_record c)) = Inr (shown c)"
    by (simp add: parts tail parse_log_record_def sha utf8_as_bytes shown_def)
  with ne show ?thesis unfolding log_records.simps by (simp only: parts tail) simp
qed

lemma log_records_text: "list_all logged_ok cs \<Longrightarrow> pre = [] \<or> pre = [10] \<Longrightarrow>
  log_records (split_on 0 (pre @ log_text cs)) = Inr (map shown cs)"
proof (induction cs arbitrary: pre)
  case Nil
  then show ?case by (auto simp: log_text_def)
next
  case (Cons c cs)
  then have c: "logged_ok c" and cs: "list_all logged_ok cs" by simp_all
  have "0 \<notin> set (pre @ log_record c)" using log_record_nul [OF c] Cons.prems(2) by auto
  then have "split_on 0 ((pre @ log_record c) @ 0 # [10] @ log_text cs) = (pre @ log_record c) # split_on 0 ([10] @ log_text cs)"
    by (rule split_on_append)
  moreover have "pre @ log_text (c # cs) = (pre @ log_record c) @ 0 # [10] @ log_text cs" by (simp add: log_text_def)
  ultimately have "log_records (split_on 0 (pre @ log_text (c # cs))) = map_sum id ((#) (shown c)) (log_records (split_on 0 ([10] @ log_text cs)))"
    by (simp only: log_record_step [OF c Cons.prems(2)])
  also have "log_records (split_on 0 ([10] @ log_text cs)) = Inr (map shown cs)"
    by (rule Cons.IH [OF cs]) simp
  finally show ?case by (simp only: map_sum.simps list.map)
qed

text \<open>C34: Reading back what \<open>git log\<close> prints. For commits with an object id, parents that are object ids, texts
  without the separators and a time in 64 bits, \<open>parse_log_records\<close> returns exactly these commits in order. Of a
  message it returns the part before the first \<open>\x01\<close>, without the line feeds at its start.\<close>

theorem log_round_trip:
  assumes "list_all logged_ok cs"
  shows "parse_log_records (log_text cs) = Inr (map shown cs)"
  using log_records_text [OF assms, of "[]"] by (simp add: parse_log_records_def)

definition sample_log :: "commit_summary list" where
  "sample_log =
     [\<lparr>sm_sha = replicate 40 CHR ''a'', sm_parents = [replicate 40 CHR ''b'', replicate 40 CHR ''c''],
       sm_author = \<lparr>sg_name = ''Ann B'', sg_email = ''a@b''\<rparr>, sm_committer = \<lparr>sg_name = [], sg_email = ''c@d''\<rparr>,
       sm_message = newline # ''fix'' @ [newline, CHR 0x01] @ ''lost'', sm_timestamp = - 5\<rparr>,
      \<lparr>sm_sha = replicate 40 CHR ''b'', sm_parents = [], sm_author = \<lparr>sg_name = ''Ann B'', sg_email = ''a@b''\<rparr>,
       sm_committer = \<lparr>sg_name = ''Bo'', sg_email = []\<rparr>, sm_message = ''first'', sm_timestamp = 1700000000\<rparr>]"

theorem log_round_trip_witness:
  "parse_log_records (log_text sample_log) = Inr (map shown sample_log)
   \<and> map sm_message (map shown sample_log) = [''fix'' @ [newline], ''first'']"
proof -
  have "list_all logged_ok sample_log" by code_simp
  moreover have "map sm_message (map shown sample_log) = [''fix'' @ [newline], ''first'']" by code_simp
  ultimately show ?thesis using log_round_trip by blast
qed

section \<open>Requests\<close>

datatype read_query =
    GetRepo
  | ListRefs
  | ListCommits "string option" "nat option" "nat option"
  | GetTree "string option"
  | GetBlob "string option" string
  | GetDiff string
  | GetNote "string option" string

datatype reply =
    RepoReply read_detail
  | RefsReply "RestAdmin.ref_entry list"
  | CommitsReply "commit_summary list"
  | TreeReply "tree_entry list"
  | BlobReply "u8 list"
  | DiffReply "file_diff list"
  | NoteReply note_response

definition reply_with :: "('a \<Rightarrow> reply) \<Rightarrow> ('g, 'a) served \<Rightarrow> ('g, reply) served" where
  "reply_with f a = sv_bind a (\<lambda>x. sv_return (f x))"

fun run_read :: "rest_env \<Rightarrow> draw \<Rightarrow> 'g repo_env \<Rightarrow> 'g gix_lookup \<Rightarrow> header \<Rightarrow> string \<Rightarrow> read_query \<Rightarrow> ('g, reply) served" where
  "run_read env d rw gl h i GetRepo = reply_with RepoReply (get_repo env d rw h i)"
| "run_read env d rw gl h i ListRefs = reply_with RefsReply (read_refs env d rw h i)"
| "run_read env d rw gl h i (ListCommits r limit skip) = reply_with CommitsReply (list_commits env d rw h i r limit skip)"
| "run_read env d rw gl h i (GetTree r) = reply_with TreeReply (get_tree env d rw h i r)"
| "run_read env d rw gl h i (GetBlob commit path) = reply_with BlobReply (get_blob env d rw gl h i commit path)"
| "run_read env d rw gl h i (GetDiff commit) = reply_with DiffReply (get_diff env d rw h i commit)"
| "run_read env d rw gl h i (GetNote r commit) = reply_with NoteReply (get_note env d rw h i r commit)"

section \<open>Who may read, and what a read changes\<close>

definition may_read :: "rest_env \<Rightarrow> header \<Rightarrow> rest_state \<Rightarrow> string \<Rightarrow> bool" where
  "may_read env h st i =
     (\<exists>p. caller env h st = Inr p \<and> repo_id_ok i \<and> repo_exists (RepoId i) (io_tree (rs_io st)) \<and> enforce_owner p i (rs_owners st) = Inr ())"

lemma read_guard: "keeps (only_limits st) (authorize_read env d h i) (\<lambda>_. may_read env h st i)"
proof -
  have known: "keeps (only_limits st) (known_repo i) (\<lambda>_. repo_id_ok i \<and> repo_exists (RepoId i) (io_tree (rs_io st)))"
    unfolding known_repo_def
    by (rule limits_get) (auto simp: res_bind_Inr_iff repo_id_try_from_def validate_repo_id_def repo_id_ok_def split: if_splits)
  show ?thesis
    unfolding authorize_read_def
    by (rule keeps_bind [OF limits_checks(1)], rule keeps_bind [OF limits_throttle], rule keeps_bind [OF known],
        rule keeps_bind [OF limits_checks(3)], rule keeps_return) (auto simp: may_read_def)
qed

lemma refused_read:
  assumes "\<not> may_read env h st i"
  obtains e limits where "authorize_read env d h i st = (Inl e, st\<lparr>rs_limits := limits\<rparr>)"
proof -
  obtain r st' where run: "authorize_read env d h i st = (r, st')" by (cases "authorize_read env d h i st")
  have start: "only_limits st st" unfolding only_limits_def by (rule exI [of _ "rs_limits st"]) simp
  note out = read_guard [of st env d h i, unfolded holds_def, rule_format, OF start, unfolded run prod.case]
  with assms obtain e where "r = Inl e" by (cases r) auto
  with out run that show thesis by (auto simp: only_limits_def)
qed

lemma refused_bind: "authorize_read env d h i st = (Inl e, st') \<Longrightarrow> sv_bind (on_rest (authorize_read env d h i)) f (st, g) = (Inl e, st', g)"
  by (simp add: sv_bind_def on_rest_def)

lemmas read_handlers = get_repo_def read_refs_def list_commits_def get_tree_def get_blob_def get_diff_def get_note_def

lemma refused_reply: "a sg = (Inl e, sg') \<Longrightarrow> reply_with f a sg = (Inl e, sg')"
  by (simp add: reply_with_def sv_bind_def)

lemma refused_run:
  assumes "authorize_read env d h i st = (Inl e, st')"
  shows "run_read env d rw gl h i q (st, g) = (Inl e, st', g)"
  by (cases q; simp only: run_read.simps; rule refused_reply; simp only: read_handlers; rule refused_bind [OF assms])

definition quiet :: "rest_state \<Rightarrow> rest_state \<Rightarrow> bool" where
  "quiet st st' = (\<exists>limits cache. st' = st\<lparr>rs_limits := limits, rs_cache := cache\<rparr>)"

lemma still_refl: "quiet st st"
  unfolding quiet_def by (intro exI [of _ "rs_limits st"] exI [of _ "rs_cache st"]) simp

lemma still_updates: "quiet st s \<Longrightarrow> quiet st (s\<lparr>rs_cache := cache\<rparr>)" "quiet st s \<Longrightarrow> only_limits s s' \<Longrightarrow> quiet st s'"
proof -
  assume "quiet st s"
  then obtain l c where s: "s = st\<lparr>rs_limits := l, rs_cache := c\<rparr>" by (auto simp: quiet_def)
  show "quiet st (s\<lparr>rs_cache := cache\<rparr>)" unfolding quiet_def s by (rule exI [of _ l], rule exI [of _ cache]) simp
  assume "only_limits s s'"
  then obtain l' where "s' = s\<lparr>rs_limits := l'\<rparr>" by (auto simp: only_limits_def)
  then show "quiet st s'" unfolding quiet_def s by (intro exI [of _ l'] exI [of _ c]) simp
qed

abbreviation stays_quiet :: "rest_state \<Rightarrow> ('g, 'a) served \<Rightarrow> bool" where
  "stays_quiet st a \<equiv> sv_holds (\<lambda>sg. quiet st (fst sg)) a (\<lambda>_ sg. quiet st (fst sg)) (\<lambda>sg. quiet st (fst sg))"

lemma still_bind: "stays_quiet st a \<Longrightarrow> (\<And>x. stays_quiet st (f x)) \<Longrightarrow> stays_quiet st (sv_bind a f)"
  by (rule sv_holds_bind)

lemma still_lift: "stays_quiet st (sv_lift r)"
  by (rule sv_holds_lift)

lemma still_return: "stays_quiet st (sv_return x)"
  by (rule sv_holds_return)

lemma still_git: "stays_quiet st (on_git a)"
  by (auto simp: sv_holds_def on_git_def split: prod.split sum.split)

lemma still_rest:
  assumes "\<And>s. quiet st s \<Longrightarrow> quiet st (snd (a s))"
  shows "stays_quiet st (on_rest a)"
  using assms by (fastforce simp: sv_holds_def on_rest_def split: prod.split sum.split)

lemma still_default: "stays_quiet st a \<Longrightarrow> stays_quiet st (or_default dflt a)"
  by (fastforce simp: sv_holds_def or_default_def split: prod.splits sum.splits)

lemma still_get: "stays_quiet st (on_rest (rest_get f))"
  by (rule still_rest) (simp add: rest_get_def split: sum.split)

lemma still_cached: "stays_quiet st (on_rest (rest_cached f))"
  by (rule still_rest) (simp add: rest_cached_def case_prod_beta still_updates(1))

lemma still_authorize: "stays_quiet st (on_rest (authorize_read env d h i))"
proof (rule still_rest)
  fix s assume s: "quiet st s"
  have start: "only_limits s s" unfolding only_limits_def by (rule exI [of _ "rs_limits s"]) simp
  have "only_limits s (snd (authorize_read env d h i s))"
    using read_guard [of s env d h i, unfolded holds_def, rule_format, OF start] by (auto split: prod.splits sum.splits)
  with s show "quiet st (snd (authorize_read env d h i s))" by (rule still_updates(2))
qed

lemmas still_steps = still_bind still_authorize still_cached still_get still_lift still_return still_git still_default

lemma still_if: "(b \<Longrightarrow> stays_quiet st a) \<Longrightarrow> (\<not> b \<Longrightarrow> stays_quiet st a') \<Longrightarrow> stays_quiet st (if b then a else a')"
  by simp

lemma still_run: "stays_quiet st (run_read env d rw gl h i q)"
  by (cases q; simp only: run_read.simps reply_with_def read_handlers Let_def case_prod_unfold; (rule still_steps still_if)+)


end
