(* ===== verification/Spec2Isabelle.thy ===== *)
theory Spec2Isabelle
  imports PktLine Errors Ids ObjectStore Delta PackParse PackStore AuditLog Refs WireProto GitCmd V2Response
    Tokens Auth Ownership RateLimit SmartHttp Storage Delivery Gc RestAudit MergeProps ReadProps
begin

text \<open>
  Verification of the multi-tenant git server under \<open>src/src\<close>.

  The program. An HTTP server keeps bare git repositories on disk and a SQLite database. Under
  \<open>/git/:id.git\<close> it speaks the smart-HTTP protocol, under \<open>/v1\<close> a REST interface. A git request is
  authorized with a repo-scoped token (\<open>auth.rs\<close>, \<open>tokens.rs\<close>), parsed from pkt-lines
  (\<open>pkt_line.rs\<close>, \<open>git_wire/proto.rs\<close>) and answered natively where its shape is simple (refs from
  \<open>refs.rs\<close>, packs through \<open>git_wire/v2.rs\<close>, pushes in \<open>smart_http.rs\<close>), and by a \<open>git\<close> process
  (\<open>git_cmd.rs\<close>) otherwise. Received packs are parsed and their deltas resolved by
  \<open>native_pack/parse.rs\<close> into an object store (\<open>object_store/mod.rs\<close>). REST calls are authenticated
  by the admin token or a JWT, limited by token buckets (\<open>rate_limit.rs\<close>), checked against the
  owner table (\<open>ownership.rs\<close>) and recorded in a hash-chained audit log (\<open>audit.rs\<close>). Every
  failure is one \<open>Error\<close> with one mapping to a response (\<open>error.rs\<close>).

  The theories, in the order of their imports:

  \<^item> \<open>Prelude\<close>: bytes as \<open>u8 list\<close>, text as \<open>string\<close> with its byte view, the result monad
    \<open>error + 'a\<close>, the string functions of the standard library, association lists, hexadecimal.
  \<^item> \<open>PktLine\<close> (\<open>pkt_line.rs\<close>): reader, iterator and writers. The frames written are the frames read;
    a read takes exactly its prefix and payload.
  \<^item> \<open>Errors\<close> (\<open>error.rs\<close>): the error type and \<open>into_response\<close>. No 5xx body carries its cause.
  \<^item> \<open>Ids\<close> (\<open>ids.rs\<close>, \<open>validate_repo_id\<close> of \<open>storage.rs\<close>): the newtypes, their checks and order.
  \<^item> \<open>ObjectStore\<close> (\<open>object_store/mod.rs\<close>): the trait as the locale \<open>object_store\<close>, interpreted for the
    in-memory, the SQLite and the filesystem backend; any sequence of operations agrees on all.
  \<^item> \<open>Delta\<close> and \<open>PackParse\<close> (\<open>native_pack/parse.rs\<close>): variable-length integers at their width, the
    delta engine, zlib inflation, the pack parser, loose objects, the delta resolvers. Round trips with
    encoders, and safety on every input: an index out of range would be the error \<open>SliceOutOfRange\<close>.
  \<^item> \<open>PackStore\<close>: what \<open>store_with_full_resolution\<close> promises over any object store, with the SQLite
    store's \<open>ingest_pack\<close>: soundness, completeness (deltas in any order are resolved) and failure.
  \<^item> \<open>AuditLog\<close> (\<open>audit.rs\<close>): the log and its chain. Recording keeps it verifying; the last hash determines
    the rows; pruning breaks the verification.
  \<^item> \<open>Refs\<close> (\<open>refs.rs\<close>): the compare-and-swap contract as the locale \<open>ref_store\<close>, interpreted for the
    in-memory store and for the store over \<open>git update-ref\<close>; the native readers of a git directory.
  \<^item> \<open>WireProto\<close> (\<open>git_wire/proto.rs\<close>): the three request parsers, each shown equal to a declarative
    grammar of its frames.
  \<^item> \<open>GitCmd\<close> (\<open>git_cmd.rs\<close>): the arguments and the environment of every \<open>git\<close> command.
  \<^item> \<open>V2Response\<close> (\<open>git_wire/v2.rs\<close>): the responses, read back by a model of the client.
  \<^item> \<open>Tokens\<close> (\<open>tokens.rs\<close>), \<open>Auth\<close> (\<open>auth.rs\<close>, \<open>jwt.rs\<close>), \<open>Ownership\<close> (\<open>ownership.rs\<close>): who may do
    what, over any history of mints, revocations, prunes, creations and deletions.
  \<^item> \<open>RateLimit\<close> (\<open>rate_limit.rs\<close>, \<open>ip_rate_limit.rs\<close>): the buckets as a potential argument.
  \<^item> \<open>SmartHttp\<close> (\<open>smart_http.rs\<close>): the handler that composes them: no ref moves before the gate, each
    reported update was a compare-and-swap, no push without a write token.

  \<^item> \<open>Storage\<close> (\<open>storage.rs\<close>, \<open>dir_size\<close> of \<open>rest.rs\<close>): creation, forks and deletion over a file tree whose
    operations can fail, as the locale \<open>repo_storage\<close>; the path check and the byte quota.
  \<^item> \<open>Secrets\<close> (\<open>secrets.rs\<close>), \<open>WebhookUrl\<close> and \<open>Webhooks\<close> (\<open>webhooks.rs\<close>, \<open>events.rs\<close>): the master key, the URL
    guard with the IP parsers of the standard library, and the registries as the locale
    \<open>hook_registry\<close>, interpreted for the in-memory and the SQLite one.
  \<^item> \<open>Delivery\<close>: the outbox over time. The worker drains it within eight ticks for each batch; claims of one
    delivery are spaced and end, as an invariant of a step relation with crashes, late
    settlements, prunings and rotations; what a rotation keeps and what it loses.
  \<^item> \<open>Forks\<close> (\<open>alternates_cache.rs\<close>, \<open>list_forks_of\<close> of \<open>reads/mod.rs\<close>, \<open>cascade_delete_order\<close> of \<open>rest.rs\<close>): path
    resolution, the cache and the fork relation. With a coherent cache the cascade order is exact.
  \<^item> \<open>Gc\<close> (\<open>gc.rs\<close>): the network search, shown to be the connected component, and the collector over any
    object store: what a pass deletes, that it fails closed, and how a stale cache defeats it.
  \<^item> \<open>RestBase\<close> (\<open>config.rs\<close>, \<open>rest.rs\<close>): the configuration, the state of the whole server and the monad of
    the REST handlers, with the checks they share. \<open>RestRepos\<close> (\<open>rest/repos.rs\<close>), \<open>RestTokens\<close>
    (\<open>rest/tokens.rs\<close>, \<open>rest/webhooks.rs\<close>), \<open>RestAdmin\<close> (\<open>rest/admin.rs\<close>, \<open>rest/health.rs\<close>): the handlers.
  \<^item> \<open>RestGuards\<close>: a request that succeeds was permitted to its caller. \<open>RestInv\<close>: triples over handlers, and
    the typing of the tables as an invariant of any run. \<open>RestProps\<close>: deletions against forks, quotas over any run,
    what outlives a repo. \<open>RestAudit\<close>: the row each request leaves in the audit log, and rotations of the admin token.
  \<^item> \<open>RestGit\<close> (\<open>commits.rs\<close>, \<open>reads/helpers.rs\<close>): handlers over the server's state and the world of git, the guard of the
    read endpoints and the validators; the branch names accepted are the valid refs, with two exceptions.
    \<open>Commits\<close> (\<open>commits.rs\<close>), \<open>Merge\<close> (\<open>merge.rs\<close>), \<open>Reads\<close> and \<open>Diffs\<close> (\<open>reads/mod.rs\<close>): the endpoints.
  \<^item> \<open>ServedInv\<close>: triples over these handlers. \<open>CommitProps\<close>: a commit moves one branch by a compare-and-swap to the tree it
    was asked for. \<open>MergeProps\<close>: a merge keeps both histories; how the report of \<open>merge-tree\<close> is read.
    \<open>ReadProps\<close>: what \<open>git log\<close> prints is read back, and reads are guarded and change nothing.

  Correspondence. Definitions keep the source's names; a struct is a record, an enum a datatype, a
  table the list of its rows in insertion order, a git directory a tree of nodes. A mutable store is
  passed and returned; a handler over processes passes a world \<open>'g\<close>. Loops are structural recursion or
  recursion with a measure, so every modelled operation is total; no fuel is used. Words of
  \<open>u8\<close>, \<open>u32\<close> and \<open>u64\<close> arithmetic are machine words where they can wrap; \<open>as i64\<close> is
  written out in \<open>Tokens\<close>. The release profile has no overflow checks and no debug assertions.

  Parameters, with what is assumed of them: \<open>flate2\<close> and SHA-1 (the codec of \<open>PackParse\<close>), SHA-256 (no
  law; collision freedom is a premise where it is used), base64, the JWT decoder, the random bytes
  of a token, the ciphers and HMAC of \<open>Secrets\<close> (\<open>crypto_ok\<close>), \<open>serde_json\<close> on event kinds (\<open>json_ok\<close>), the
  answers of webhook endpoints, the clock, \<open>gix\<close> (its tree editor and object writer promise \<open>gix_ok\<close> in \<open>CommitProps\<close>; pack generation and indexing
  promise nothing), and the \<open>git\<close> program (\<open>git_ok\<close> in \<open>Refs\<close> states what \<open>update-ref\<close> and \<open>rev-parse\<close> promise,
  \<open>merge_git_ok\<close> in \<open>MergeProps\<close> what \<open>show-ref\<close>, \<open>merge-base\<close>, \<open>merge-tree\<close> and \<open>commit-tree\<close> do).

  Not modelled: the server's start-up, its routes and metrics, pack generation, and the GUI; the manifest lists them. The databases do not fail in the model of the REST handlers. Tracing and metrics calls inside modelled functions change no modelled state and are left out.
\<close>

end
